(* ===== verification/Prelude.thy ===== *)
theory Prelude
  imports Main "HOL-Library.Word" "HOL-Library.Multiset"
begin

unbundle bit_operations_syntax

text \<open>
  Shared vocabulary of the development: the ways an operation of the program can fail
  (exceptions, failed assertions and undefined behaviour, all values of the type
  \<open>error\<close>), the sequencing of fallible operations, C integers and their byte
  representation, byte buffers, and the list lemmas used by several components.
\<close>

section \<open>Collections of rewrite rules\<close>

named_theorems run_simps \<open>rules that execute a fallible or stateful operation one step\<close>

section \<open>Failures\<close>

text \<open>
  \<open>AssertFail\<close> is a failed \<open>assert\<close> (the build defines no \<open>NDEBUG\<close>, so it aborts the
  process). \<open>RuntimeError\<close> and \<open>InvalidArgument\<close> are the standard exceptions the code
  throws, \<open>BadOptional\<close> and \<open>OutOfRange\<close> those thrown by the standard library.
  \<open>NullDeref\<close>, \<open>OutOfBounds\<close>, \<open>UseAfterFree\<close> and \<open>IntOverflow\<close> (of a signed \<open>int\<close>) are undefined
  behaviour, and so is every use of an unordered map after \<open>KeyChanged\<close>: an object that the map
  refers to as a key has been changed or its lifetime has ended. The model fails at that point.
  \<open>OutOfFuel\<close> is the bound on the depth of a recursion or loop having been used up.
\<close>

datatype error =
    AssertFail
  | RuntimeError string
  | InvalidArgument string
  | BadOptional
  | OutOfRange
  | NullDeref
  | OutOfBounds
  | UseAfterFree
  | IntOverflow
  | KeyChanged
  | OutOfFuel

type_synonym 'a res = "error + 'a"

definition bindE :: "'a res \<Rightarrow> ('a \<Rightarrow> 'b res) \<Rightarrow> 'b res" where
  "bindE m k = (case m of Inl e \<Rightarrow> Inl e | Inr x \<Rightarrow> k x)"

definition assertE :: "bool \<Rightarrow> unit res" where
  "assertE b = (if b then Inr () else Inl AssertFail)"

definition checkE :: "bool \<Rightarrow> error \<Rightarrow> unit res" where
  "checkE b e = (if b then Inr () else Inl e)"

text \<open>Dereferencing a pointer that may be null.\<close>

definition derefE :: "'a option \<Rightarrow> 'a res" where
  "derefE p = (case p of None \<Rightarrow> Inl NullDeref | Some x \<Rightarrow> Inr x)"

text \<open>Reading an element of an array or vector, which is undefined out of range.\<close>

definition nthE :: "'a list \<Rightarrow> nat \<Rightarrow> 'a res" where
  "nthE xs i = (if i < length xs then Inr (xs ! i) else Inl OutOfBounds)"

lemma bindE_Inr [simp, run_simps]: "bindE (Inr x) k = k x"
  by (simp add: bindE_def)

lemma bindE_Inl [simp, run_simps]: "bindE (Inl e) k = Inl e"
  by (simp add: bindE_def)

lemma bindE_assoc: "bindE (bindE m k) l = bindE m (\<lambda>x. bindE (k x) l)"
  by (simp add: bindE_def split: sum.split)

lemma bindE_eq_Inr: "bindE m k = Inr y \<longleftrightarrow> (\<exists>x. m = Inr x \<and> k x = Inr y)"
  by (cases m) auto

lemma bindE_cong [fundef_cong]:
  "m = m' \<Longrightarrow> (\<And>x. m' = Inr x \<Longrightarrow> k x = k' x) \<Longrightarrow> bindE m k = bindE m' k'"
  by (cases m') auto

lemma assertE_True [simp, run_simps]: "b \<Longrightarrow> assertE b = Inr ()"
  by (simp add: assertE_def)

lemma assertE_False [simp, run_simps]: "\<not> b \<Longrightarrow> assertE b = Inl AssertFail"
  by (simp add: assertE_def)

lemma assertE_eq_Inr [simp]: "assertE b = Inr u \<longleftrightarrow> b"
  by (simp add: assertE_def)

lemma checkE_True [simp, run_simps]: "b \<Longrightarrow> checkE b e = Inr ()"
  by (simp add: checkE_def)

lemma checkE_False [simp, run_simps]: "\<not> b \<Longrightarrow> checkE b e = Inl e"
  by (simp add: checkE_def)

lemma checkE_eq_Inr [simp]: "checkE b e = Inr u \<longleftrightarrow> b"
  by (simp add: checkE_def)

lemma derefE_Some [simp, run_simps]: "derefE (Some x) = Inr x"
  by (simp add: derefE_def)

lemma derefE_None [simp, run_simps]: "derefE None = Inl NullDeref"
  by (simp add: derefE_def)

lemma derefE_eq_Inr [simp]: "derefE p = Inr x \<longleftrightarrow> p = Some x"
  by (simp add: derefE_def split: option.split)

lemma nthE_Inr [simp, run_simps]: "i < length xs \<Longrightarrow> nthE xs i = Inr (xs ! i)"
  by (simp add: nthE_def)

lemma nthE_Inl [simp, run_simps]: "length xs \<le> i \<Longrightarrow> nthE xs i = Inl OutOfBounds"
  by (simp add: nthE_def)

lemma nthE_eq_Inr: "nthE xs i = Inr x \<longleftrightarrow> i < length xs \<and> xs ! i = x"
  by (auto simp: nthE_def)

text \<open>The same with a C \<open>int\<close> as the index: a negative one is out of range too.\<close>

definition atE :: "'a list \<Rightarrow> int \<Rightarrow> 'a res" where
  "atE xs i = (if 0 \<le> i then nthE xs (nat i) else Inl OutOfBounds)"

lemma atE_int [simp, run_simps]: "atE xs (int i) = nthE xs i"
  by (simp add: atE_def)

lemma atE_nonneg [simp, run_simps]: "0 \<le> i \<Longrightarrow> atE xs i = nthE xs (nat i)"
  by (simp add: atE_def)

lemma atE_eq_Inr: "atE xs i = Inr x \<longleftrightarrow> 0 \<le> i \<and> nat i < length xs \<and> xs ! nat i = x"
  by (auto simp: atE_def nthE_eq_Inr)

text \<open>Running a fallible operation on every element, stopping at the first failure.\<close>

fun mapE :: "('a \<Rightarrow> 'b res) \<Rightarrow> 'a list \<Rightarrow> 'b list res" where
  "mapE f [] = Inr []"
| "mapE f (x # xs) = bindE (f x) (\<lambda>y. bindE (mapE f xs) (\<lambda>ys. Inr (y # ys)))"

lemma mapE_Inr: "(\<And>x. x \<in> set xs \<Longrightarrow> f x = Inr (g x)) \<Longrightarrow> mapE f xs = Inr (map g xs)"
  by (induction xs) auto

lemma mapE_cong [fundef_cong]:
  "xs = ys \<Longrightarrow> (\<And>x. x \<in> set ys \<Longrightarrow> f x = g x) \<Longrightarrow> mapE f xs = mapE g ys"
  by (induction ys arbitrary: xs) auto

lemma mapE_length: "mapE f xs = Inr ys \<Longrightarrow> length ys = length xs"
  by (induction xs arbitrary: ys) (auto simp: bindE_eq_Inr)

lemma mapE_nth: "mapE f xs = Inr ys \<Longrightarrow> i < length xs \<Longrightarrow> f (xs ! i) = Inr (ys ! i)"
  by (induction xs arbitrary: ys i) (auto simp: bindE_eq_Inr less_Suc_eq_0_disj)

section \<open>Lists\<close>

lemma upt_split: "a \<le> i \<Longrightarrow> i < b \<Longrightarrow> [a..<b] = [a..<i] @ i # [Suc i..<b]"
  using upt_add_eq_append [of a i "b - i"] by (simp add: upt_conv_Cons)

section \<open>C integers and bytes\<close>

type_synonym byte = "8 word"
type_synonym i32 = "32 word"

text \<open>
  A C \<open>int\<close> that is only stored, compared and copied is kept as a 32-bit word and read
  with \<open>sint\<close>; page numbers and table ids are \<open>int\<close> values, turned into 32 bits where
  the code writes them into a page. The platform is little-endian, as the test data of the
  repository assumes.
\<close>

definition bytes_of_i32 :: "i32 \<Rightarrow> byte list" where
  "bytes_of_i32 w = [ucast w, ucast (drop_bit 8 w), ucast (drop_bit 16 w), ucast (drop_bit 24 w)]"

definition i32_of_bytes :: "byte list \<Rightarrow> i32" where
  "i32_of_bytes bs =
     ucast (bs ! 0) OR push_bit 8 (ucast (bs ! 1)) OR
     push_bit 16 (ucast (bs ! 2)) OR push_bit 24 (ucast (bs ! 3))"

lemma length_bytes_of_i32 [simp]: "length (bytes_of_i32 w) = 4"
  by (simp add: bytes_of_i32_def)

lemma i32_of_bytes_of_i32 [simp]: "i32_of_bytes (bytes_of_i32 w @ r) = w"
proof (rule bit_word_eqI)
  fix n assume "n < LENGTH(32)"
  then have "n < 32" by simp
  then consider "n < 8" | "8 \<le> n \<and> n < 16" | "16 \<le> n \<and> n < 24" | "24 \<le> n \<and> n < 32"
    by linarith
  then show "bit (i32_of_bytes (bytes_of_i32 w @ r)) n = bit w n"
    by cases (auto simp: i32_of_bytes_def bytes_of_i32_def bit_simps)
qed

lemma i32_of_bytes_of_i32_exact [simp]: "i32_of_bytes (bytes_of_i32 w) = w"
  using i32_of_bytes_of_i32 [of w "[]"] by simp

lemma i32_of_bytes_zero [simp]:
  "4 \<le> n \<Longrightarrow> i32_of_bytes (replicate n 0) = 0"
  by (simp add: i32_of_bytes_def)

definition int_bytes :: "int \<Rightarrow> byte list" where
  "int_bytes i = bytes_of_i32 (word_of_int i)"

definition bytes_int :: "byte list \<Rightarrow> int" where
  "bytes_int bs = sint (i32_of_bytes bs)"

definition is_int32 :: "int \<Rightarrow> bool" where
  "is_int32 i \<longleftrightarrow> - (2 ^ 31) \<le> i \<and> i < 2 ^ 31"

lemma length_int_bytes [simp]: "length (int_bytes i) = 4"
  by (simp add: int_bytes_def)

lemma sint_word_of_int32: "is_int32 i \<Longrightarrow> sint (word_of_int i :: i32) = i"
  by (simp add: is_int32_def signed_of_int signed_take_bit_int_eq_self)

lemma bytes_int_int_bytes [simp]: "is_int32 i \<Longrightarrow> bytes_int (int_bytes i @ r) = i"
  by (simp add: bytes_int_def int_bytes_def sint_word_of_int32)

lemma bytes_int_zero [simp]: "4 \<le> n \<Longrightarrow> bytes_int (replicate n 0) = 0"
  by (simp add: bytes_int_def)

text \<open>The product and the sum of two \<open>int\<close>s, where the code computes them as \<open>int\<close>s.\<close>

definition int_mulE :: "int \<Rightarrow> int \<Rightarrow> int res" where
  "int_mulE a b = (if is_int32 (a * b) then Inr (a * b) else Inl IntOverflow)"

definition int_addE :: "int \<Rightarrow> int \<Rightarrow> int res" where
  "int_addE a b = (if is_int32 (a + b) then Inr (a + b) else Inl IntOverflow)"

lemma int_mulE_Inr [simp, run_simps]: "is_int32 (a * b) \<Longrightarrow> int_mulE a b = Inr (a * b)"
  by (simp add: int_mulE_def)

lemma int_addE_Inr [simp, run_simps]: "is_int32 (a + b) \<Longrightarrow> int_addE a b = Inr (a + b)"
  by (simp add: int_addE_def)

lemma int_mulE_eq_Inr: "int_mulE a b = Inr c \<longleftrightarrow> is_int32 (a * b) \<and> c = a * b"
  by (auto simp: int_mulE_def)

lemma int_addE_eq_Inr: "int_addE a b = Inr c \<longleftrightarrow> is_int32 (a + b) \<and> c = a + b"
  by (auto simp: int_addE_def)

lemma is_int32_int: "is_int32 (int n) \<longleftrightarrow> n < 2 ^ 31"
  by (simp add: is_int32_def)

text \<open>Unsigned \<open>size_t\<close> arithmetic, which wraps modulo \<open>2 ^ 64\<close>.\<close>

definition usize :: "int \<Rightarrow> nat" where
  "usize i = nat (i mod 2 ^ 64)"

lemma usize_small [simp]: "0 \<le> i \<Longrightarrow> i < 2 ^ 64 \<Longrightarrow> usize i = nat i"
  by (simp add: usize_def)

section \<open>Byte buffers\<close>

text \<open>
  A write through \<open>memcpy\<close> that starts or ends outside the buffer is undefined; the model
  says so instead of growing or truncating the buffer.
\<close>

definition buf_write :: "nat \<Rightarrow> byte list \<Rightarrow> byte list \<Rightarrow> byte list res" where
  "buf_write off bs buf =
     (if off + length bs \<le> length buf
      then Inr (take off buf @ bs @ drop (off + length bs) buf)
      else Inl OutOfBounds)"

definition buf_read :: "nat \<Rightarrow> nat \<Rightarrow> byte list \<Rightarrow> byte list res" where
  "buf_read off n buf =
     (if off + n \<le> length buf then Inr (take n (drop off buf)) else Inl OutOfBounds)"

lemma buf_write_length: "buf_write off bs buf = Inr buf' \<Longrightarrow> length buf' = length buf"
  by (auto simp: buf_write_def split: if_splits)

lemma buf_write_take: "buf_write off bs buf = Inr buf' \<Longrightarrow> take off buf' = take off buf"
  by (auto simp: buf_write_def split: if_splits)

lemma buf_write_append:
  "length pre = off \<Longrightarrow> length old = length bs \<Longrightarrow>
   buf_write off bs (pre @ old @ post) = Inr (pre @ bs @ post)"
  by (simp add: buf_write_def)

lemma buf_read_append:
  "length pre = off \<Longrightarrow> length mid = n \<Longrightarrow> buf_read off n (pre @ mid @ post) = Inr mid"
  by (simp add: buf_read_def)

end
