(* ===== verification/FieldTypes.thy ===== *)
theory FieldTypes
  imports Prelude
begin

text \<open>
  Field types and field values: \<open>Types\<close> (Type.cpp), \<open>Predicate::Op\<close> (Predicate.h) with its
  printing (Field.cpp), \<open>IntField\<close> and \<open>StringField\<close>. A \<open>Field\<close> object is never changed after
  its construction, so a \<open>Field*\<close> is modelled by the value it points to. The one place where
  the identity of the object is visible is \<open>StringField::operator==\<close>, which compares the
  addresses of two character arrays: its model takes the identity as an argument.
\<close>

section \<open>Types\<close>

datatype type_t = INT_TYPE | STRING_TYPE

definition STRING_LEN :: nat where
  "STRING_LEN = 128"

fun getLen :: "type_t \<Rightarrow> nat" where
  "getLen INT_TYPE = 4"
| "getLen STRING_TYPE = STRING_LEN + 4"

fun type_to_string :: "type_t \<Rightarrow> string" where
  "type_to_string INT_TYPE = ''INT''"
| "type_to_string STRING_TYPE = ''STRING''"

lemma getLen_pos [simp]: "0 < getLen ty"
  by (cases ty) simp_all

section \<open>Comparison operators\<close>

datatype op =
  EQUALS | NOT_EQUALS | GREATER_THAN | LESS_THAN | LESS_THAN_OR_EQ | GREATER_THAN_OR_EQ | LIKE

fun op_to_string :: "op \<Rightarrow> string" where
  "op_to_string EQUALS = ''=''"
| "op_to_string NOT_EQUALS = ''<>''"
| "op_to_string GREATER_THAN = ''>''"
| "op_to_string LESS_THAN = ''<''"
| "op_to_string LESS_THAN_OR_EQ = ''<=''"
| "op_to_string GREATER_THAN_OR_EQ = ''>=''"
| "op_to_string LIKE = ''LIKE''"

section \<open>Decimal printing, \<open>std::to_string\<close> on \<open>int\<close>\<close>

fun nat_to_string :: "nat \<Rightarrow> string" where
  "nat_to_string n =
     (if n < 10 then [char_of (48 + n)]
      else nat_to_string (n div 10) @ [char_of (48 + n mod 10)])"

declare nat_to_string.simps [simp del]

definition int_to_string :: "int \<Rightarrow> string" where
  "int_to_string i = (if i < 0 then ''-'' @ nat_to_string (nat (- i)) else nat_to_string (nat i))"

section \<open>Field values\<close>

text \<open>
  The argument of \<open>StringField\<close> is the text up to, not including, the terminating NUL;
  \<open>len\<close> of the class is its length. \<open>junk i\<close> stands for the content of byte \<open>i\<close> of a buffer
  that the code has not initialised.
\<close>

datatype field = IntField i32 | StringField "byte list"

definition StringField_new :: "byte list \<Rightarrow> field" where
  "StringField_new str = StringField (take (STRING_LEN - 1) str)"

text \<open>The 128 bytes of the member \<open>value\<close>: the text, its NUL, the rest uninitialised.\<close>

definition value_array :: "(nat \<Rightarrow> byte) \<Rightarrow> byte list \<Rightarrow> byte list" where
  "value_array junk s = s @ 0 # map junk [length s + 1 ..< STRING_LEN]"

fun getType :: "field \<Rightarrow> type_t" where
  "getType (IntField _) = INT_TYPE"
| "getType (StringField _) = STRING_TYPE"

fun field_to_string :: "field \<Rightarrow> string" where
  "field_to_string (IntField v) = int_to_string (sint v)"
| "field_to_string (StringField s) = map (\<lambda>b. char_of (unat b)) s"

text \<open>\<open>same\<close> tells whether the two operands are one and the same object.\<close>

fun field_eq :: "bool \<Rightarrow> field \<Rightarrow> field \<Rightarrow> bool" where
  "field_eq same (IntField a) (IntField b) = (a = b)"
| "field_eq same (IntField a) (StringField t) = False"
| "field_eq same (StringField s) (StringField t) = same"
| "field_eq same (StringField s) (IntField b) = False"

fun int_compare :: "op \<Rightarrow> i32 \<Rightarrow> i32 \<Rightarrow> bool" where
  "int_compare EQUALS a b = (a = b)"
| "int_compare NOT_EQUALS a b = (a \<noteq> b)"
| "int_compare GREATER_THAN a b = (sint a > sint b)"
| "int_compare GREATER_THAN_OR_EQ a b = (sint a \<ge> sint b)"
| "int_compare LESS_THAN a b = (sint a < sint b)"
| "int_compare LESS_THAN_OR_EQ a b = (sint a \<le> sint b)"
| "int_compare LIKE a b = (a = b)"

text \<open>
  \<open>IntField::compare\<close> casts its operand with \<open>dynamic_cast\<close> and reads through the result: a
  null operand, or one that is no \<open>IntField\<close>, is a null dereference.
  \<open>StringField::compare\<close> is not implemented and throws.
\<close>

fun field_compare :: "field \<Rightarrow> op \<Rightarrow> field option \<Rightarrow> bool res" where
  "field_compare (IntField a) c (Some (IntField b)) = Inr (int_compare c a b)"
| "field_compare (IntField a) c (Some (StringField t)) = Inl NullDeref"
| "field_compare (IntField a) c None = Inl NullDeref"
| "field_compare (StringField s) c v = Inl (RuntimeError ''Not implemented'')"

text \<open>
  The bytes \<open>serialize\<close> writes. For a string it copies \<open>len\<close> and then \<open>sizeof(int)\<close> bytes,
  not \<open>len\<close> bytes, of the text.
\<close>

fun field_serialize :: "(nat \<Rightarrow> byte) \<Rightarrow> field \<Rightarrow> byte list" where
  "field_serialize junk (IntField v) = bytes_of_i32 v"
| "field_serialize junk (StringField s) =
     int_bytes (int (length s)) @ take 4 (value_array junk s)"

text \<open>
  \<open>IntField::parse\<close> and \<open>StringField::parse\<close> on the bytes from the pointer to the end of the
  buffer. The string one copies \<open>len\<close> bytes into an uninitialised array of 128 bytes and
  measures that array with \<open>strlen\<close>.
\<close>

definition int_parse :: "byte list \<Rightarrow> field res" where
  "int_parse data = bindE (buf_read 0 4 data) (\<lambda>bs. Inr (IntField (i32_of_bytes bs)))"

definition string_parse :: "(nat \<Rightarrow> byte) \<Rightarrow> byte list \<Rightarrow> field res" where
  "string_parse junk data =
     bindE (buf_read 0 4 data) (\<lambda>bs.
       let len = bytes_int bs in
       bindE (checkE (0 \<le> len \<and> nat len \<le> STRING_LEN) OutOfBounds) (\<lambda>_.
       bindE (buf_read 4 (nat len) data) (\<lambda>txt.
         let val = txt @ map junk [nat len ..< STRING_LEN] in
         bindE (checkE (0 \<in> set val) OutOfBounds) (\<lambda>_.
           Inr (StringField_new (takeWhile (\<lambda>b. b \<noteq> 0) val))))))"

fun field_parse :: "(nat \<Rightarrow> byte) \<Rightarrow> byte list \<Rightarrow> type_t \<Rightarrow> field res" where
  "field_parse junk data INT_TYPE = int_parse data"
| "field_parse junk data STRING_TYPE = string_parse junk data"

section \<open>Lemmas\<close>

definition is_int :: "field \<Rightarrow> bool" where
  "is_int f = (getType f = INT_TYPE)"

fun int_val :: "field \<Rightarrow> int" where
  "int_val (IntField v) = sint v"
| "int_val (StringField s) = 0"

lemma is_int_simps [simp]: "is_int (IntField v)" "\<not> is_int (StringField s)"
  by (simp_all add: is_int_def)

lemma is_int_iff: "is_int f \<longleftrightarrow> (\<exists>v. f = IntField v)"
  by (cases f) auto

lemma getType_INT [simp]: "getType f = INT_TYPE \<longleftrightarrow> is_int f"
  by (simp add: is_int_def)

lemma field_compare_le [simp]:
  "is_int f \<Longrightarrow> is_int g \<Longrightarrow>
   field_compare f LESS_THAN_OR_EQ (Some g) = Inr (int_val f \<le> int_val g)"
  by (auto simp: is_int_iff)

lemma field_compare_ge [simp]:
  "is_int f \<Longrightarrow> is_int g \<Longrightarrow>
   field_compare f GREATER_THAN_OR_EQ (Some g) = Inr (int_val f \<ge> int_val g)"
  by (auto simp: is_int_iff)

lemma field_compare_lt [simp]:
  "is_int f \<Longrightarrow> is_int g \<Longrightarrow>
   field_compare f LESS_THAN (Some g) = Inr (int_val f < int_val g)"
  by (auto simp: is_int_iff)

lemma int_serialize_length [simp]: "is_int f \<Longrightarrow> length (field_serialize junk f) = 4"
  by (auto simp: is_int_iff)

lemma int_parse_bytes [simp]: "int_parse (bytes_of_i32 v @ r) = Inr (IntField v)"
  by (simp add: int_parse_def buf_read_def)

lemma int_parse_serialize [simp]:
  "is_int f \<Longrightarrow> int_parse (field_serialize junk f @ r) = Inr f"
  by (auto simp: is_int_iff)

lemma int_parse_zero [simp]: "4 \<le> n \<Longrightarrow> int_parse (replicate n 0) = Inr (IntField 0)"
  by (simp add: int_parse_def buf_read_def i32_of_bytes_def min_def)

lemma int_parse_total: "4 \<le> length data \<Longrightarrow> \<exists>v. int_parse data = Inr (IntField v)"
  by (simp add: int_parse_def buf_read_def)

end
