(* ===== verification/Schema.thy ===== *)
theory Schema
  imports FieldTypes
begin

text \<open>
  Schemas, page ids, record ids, tuples and predicates: \<open>TDItem\<close>, \<open>TupleDesc\<close>
  (TupleDesc.cpp), \<open>HeapPageId\<close>, \<open>BTreePageId\<close>, \<open>SkeletonPageId\<close>, \<open>RecordId\<close>, \<open>Tuple\<close>,
  \<open>Predicate\<close>, \<open>IndexPredicate\<close> and the two schema builders of \<open>Utility\<close>.
\<close>

section \<open>Tuple descriptors\<close>

record td_item =
  fieldType :: type_t
  fieldName :: string

definition item_eq :: "td_item \<Rightarrow> td_item \<Rightarrow> bool" where
  "item_eq a b \<longleftrightarrow> fieldType a = fieldType b \<and> fieldName a = fieldName b"

definition item_to_string :: "td_item \<Rightarrow> string" where
  "item_to_string it = fieldName it @ ''('' @ type_to_string (fieldType it) @ '')''"

record tuple_desc =
  td_items :: "td_item list"
  td_size :: nat

definition TupleDesc_empty :: tuple_desc where
  "TupleDesc_empty = \<lparr>td_items = [], td_size = 0\<rparr>"

text \<open>The constructor without names; the accumulator is the object being filled.\<close>

fun add_types :: "type_t list \<Rightarrow> tuple_desc \<Rightarrow> tuple_desc" where
  "add_types [] td = td"
| "add_types (ty # tys) td =
     add_types tys
       (td\<lparr>td_items := td_items td @ [\<lparr>fieldType = ty, fieldName = ''''\<rparr>],
           td_size := td_size td + getLen ty\<rparr>)"

definition TupleDesc_types :: "type_t list \<Rightarrow> tuple_desc" where
  "TupleDesc_types types = add_types types \<lparr>td_items = [], td_size = 0\<rparr>"

text \<open>The constructor with names, which reads \<open>names[i]\<close> for every index of \<open>types\<close>.\<close>

fun add_named :: "type_t list \<Rightarrow> string list \<Rightarrow> nat \<Rightarrow> nat \<Rightarrow> tuple_desc \<Rightarrow> tuple_desc res" where
  "add_named types names i 0 td = Inr td"
| "add_named types names i (Suc n) td =
     bindE (nthE types i) (\<lambda>ty.
     bindE (nthE names i) (\<lambda>nm.
       add_named types names (Suc i) n
         (td\<lparr>td_items := td_items td @ [\<lparr>fieldType = ty, fieldName = nm\<rparr>],
             td_size := td_size td + getLen ty\<rparr>)))"

definition TupleDesc_named :: "type_t list \<Rightarrow> string list \<Rightarrow> tuple_desc res" where
  "TupleDesc_named types names =
     add_named types names 0 (length types) \<lparr>td_items = [], td_size = 0\<rparr>"

definition numFields :: "tuple_desc \<Rightarrow> nat" where
  "numFields td = length (td_items td)"

definition getFieldName :: "tuple_desc \<Rightarrow> int \<Rightarrow> string res" where
  "getFieldName td i = bindE (atE (td_items td) i) (\<lambda>it. Inr (fieldName it))"

definition getFieldType :: "tuple_desc \<Rightarrow> int \<Rightarrow> type_t res" where
  "getFieldType td i = bindE (atE (td_items td) i) (\<lambda>it. Inr (fieldType it))"

fun name_index :: "td_item list \<Rightarrow> string \<Rightarrow> nat \<Rightarrow> nat res" where
  "name_index [] nm i = Inl (InvalidArgument ''field name not found'')"
| "name_index (it # its) nm i =
     (if fieldName it = nm then Inr i else name_index its nm (Suc i))"

definition fieldNameToIndex :: "tuple_desc \<Rightarrow> string \<Rightarrow> nat res" where
  "fieldNameToIndex td nm = name_index (td_items td) nm 0"

definition getSize :: "tuple_desc \<Rightarrow> nat" where
  "getSize td = td_size td"

definition TupleDesc_merge :: "tuple_desc \<Rightarrow> tuple_desc \<Rightarrow> tuple_desc res" where
  "TupleDesc_merge td1 td2 =
     TupleDesc_named (map fieldType (td_items td1) @ map fieldType (td_items td2))
                     (map fieldName (td_items td1) @ map fieldName (td_items td2))"

fun items_to_string :: "td_item list \<Rightarrow> string" where
  "items_to_string [] = []"
| "items_to_string (it # its) = item_to_string it @ '', '' @ items_to_string its"

definition td_to_string :: "tuple_desc \<Rightarrow> string" where
  "td_to_string td =
     (case td_items td of [] \<Rightarrow> ''''
      | it # its \<Rightarrow> item_to_string it @ items_to_string its)"

fun items_eq :: "td_item list \<Rightarrow> td_item list \<Rightarrow> bool" where
  "items_eq [] [] = True"
| "items_eq (a # as) (b # bs) = (item_eq a b \<and> items_eq as bs)"
| "items_eq as bs = False"

definition td_eq :: "tuple_desc \<Rightarrow> tuple_desc \<Rightarrow> bool" where
  "td_eq a b = items_eq (td_items a) (td_items b)"

text \<open>\<open>std::hash\<close> of the basic types is the standard library's: a parameter.\<close>

definition item_hash :: "(type_t \<Rightarrow> 64 word) \<Rightarrow> (string \<Rightarrow> 64 word) \<Rightarrow> td_item \<Rightarrow> 64 word" where
  "item_hash hty hstr r = hty (fieldType r) XOR hstr (fieldName r)"

definition td_hash :: "(type_t \<Rightarrow> 64 word) \<Rightarrow> tuple_desc \<Rightarrow> 64 word" where
  "td_hash hty td = foldl (\<lambda>seed it. seed + hty (fieldType it)) 0 (td_items td)"

section \<open>The schema builders of Utility\<close>

definition Utility_getTupleDesc :: "nat \<Rightarrow> tuple_desc" where
  "Utility_getTupleDesc n = TupleDesc_types (replicate n INT_TYPE)"

definition Utility_getTupleDesc_prefix :: "nat \<Rightarrow> string \<Rightarrow> tuple_desc res" where
  "Utility_getTupleDesc_prefix n prefix =
     TupleDesc_named (replicate n INT_TYPE)
       (map (\<lambda>i. prefix @ int_to_string (int i)) [0..<n])"

section \<open>Page ids\<close>

text \<open>
  The enumeration of B+ tree page types has \<open>int\<close> as its underlying type, so a value read
  from a page can be none of the four: \<open>OTHER\<close>.
\<close>

datatype page_type = ROOT_PTR | INTERNAL | LEAF | HEADER | OTHER int

fun page_type_of_int :: "int \<Rightarrow> page_type" where
  "page_type_of_int i =
     (if i = 0 then ROOT_PTR else if i = 1 then INTERNAL else if i = 2 then LEAF
      else if i = 3 then HEADER else OTHER i)"

fun int_of_page_type :: "page_type \<Rightarrow> int" where
  "int_of_page_type ROOT_PTR = 0"
| "int_of_page_type INTERNAL = 1"
| "int_of_page_type LEAF = 2"
| "int_of_page_type HEADER = 3"
| "int_of_page_type (OTHER i) = i"

text \<open>The three subclasses of \<open>PageId\<close>, each with a table id and a page number.\<close>

datatype page_id =
    HeapPageId int int
  | BTreePageId int int page_type
  | SkeletonPageId int int

fun getTableId :: "page_id \<Rightarrow> int" where
  "getTableId (HeapPageId t n) = t"
| "getTableId (BTreePageId t n ty) = t"
| "getTableId (SkeletonPageId t n) = t"

fun pageNumber :: "page_id \<Rightarrow> int" where
  "pageNumber (HeapPageId t n) = n"
| "pageNumber (BTreePageId t n ty) = n"
| "pageNumber (SkeletonPageId t n) = n"

text \<open>
  \<open>operator==\<close> is virtual in its left operand. The heap and B+ tree ids compare with ids of
  their own class only; the skeleton id compares the two numbers with any id.
\<close>

fun heap_pid_eq :: "page_id \<Rightarrow> page_id \<Rightarrow> bool" where
  "heap_pid_eq p (HeapPageId t n) = (getTableId p = t \<and> pageNumber p = n)"
| "heap_pid_eq p q = False"

fun btree_pid_eq :: "page_id \<Rightarrow> page_id \<Rightarrow> bool" where
  "btree_pid_eq (BTreePageId t n ty) (BTreePageId t' n' ty') = (t = t' \<and> n = n' \<and> ty = ty')"
| "btree_pid_eq p q = False"

definition skeleton_pid_eq :: "page_id \<Rightarrow> page_id \<Rightarrow> bool" where
  "skeleton_pid_eq p q \<longleftrightarrow> pageNumber p = pageNumber q \<and> getTableId p = getTableId q"

fun pid_eq :: "page_id \<Rightarrow> page_id \<Rightarrow> bool" where
  "pid_eq (HeapPageId t n) q = heap_pid_eq (HeapPageId t n) q"
| "pid_eq (BTreePageId t n ty) q = btree_pid_eq (BTreePageId t n ty) q"
| "pid_eq (SkeletonPageId t n) q = skeleton_pid_eq (SkeletonPageId t n) q"

fun btree_type :: "page_id \<Rightarrow> page_type" where
  "btree_type (BTreePageId t n ty) = ty"
| "btree_type (HeapPageId t n) = OTHER (- 1)"
| "btree_type (SkeletonPageId t n) = OTHER (- 1)"

definition pid_hash :: "(int \<Rightarrow> 64 word) \<Rightarrow> page_id \<Rightarrow> 64 word" where
  "pid_hash hint r = hint (getTableId r) XOR hint (pageNumber r)"

section \<open>Record ids and tuples\<close>

record record_id =
  rid_pid :: page_id
  rid_tupleno :: int

definition rid_eq :: "record_id \<Rightarrow> record_id \<Rightarrow> bool" where
  "rid_eq a b \<longleftrightarrow> pid_eq (rid_pid a) (rid_pid b) \<and> rid_tupleno a = rid_tupleno b"

definition rid_hash :: "(int \<Rightarrow> 64 word) \<Rightarrow> record_id \<Rightarrow> 64 word" where
  "rid_hash hint r = pid_hash hint (rid_pid r) XOR hint (rid_tupleno r)"

record tuple =
  tp_rid :: "record_id option"
  tp_fields :: "field option list"
  tp_td :: tuple_desc

definition Tuple_new :: "tuple_desc \<Rightarrow> record_id option \<Rightarrow> tuple" where
  "Tuple_new td rid = \<lparr>tp_rid = rid, tp_fields = replicate (numFields td) None, tp_td = td\<rparr>"

text \<open>A default-constructed tuple, as \<open>new Tuple[n]\<close> leaves in the slots of a page.\<close>

definition Tuple_default :: tuple where
  "Tuple_default = \<lparr>tp_rid = None, tp_fields = [], tp_td = TupleDesc_empty\<rparr>"

definition setRecordId :: "tuple \<Rightarrow> record_id option \<Rightarrow> tuple" where
  "setRecordId t r = t\<lparr>tp_rid := r\<rparr>"

definition getField :: "tuple \<Rightarrow> int \<Rightarrow> field res" where
  "getField t i = bindE (atE (tp_fields t) i) derefE"

definition setField :: "tuple \<Rightarrow> int \<Rightarrow> field option \<Rightarrow> tuple res" where
  "setField t i f =
     bindE (atE (tp_fields t) i) (\<lambda>_. Inr (t\<lparr>tp_fields := (tp_fields t)[nat i := f]\<rparr>))"

fun rest_to_string :: "field option list \<Rightarrow> string res" where
  "rest_to_string [] = Inr ''''"
| "rest_to_string (f # fs) =
     bindE (derefE f) (\<lambda>g. bindE (rest_to_string fs) (\<lambda>s. Inr ('', '' @ field_to_string g @ s)))"

definition tuple_to_string :: "tuple \<Rightarrow> string res" where
  "tuple_to_string t =
     (case tp_fields t of [] \<Rightarrow> Inr ''''
      | f # fs \<Rightarrow> bindE (derefE f) (\<lambda>g.
          bindE (rest_to_string fs) (\<lambda>s. Inr (field_to_string g @ s))))"

section \<open>Predicates\<close>

record predicate =
  pr_field :: int
  pr_op :: op
  pr_operand :: "field option"

definition predicate_filter :: "predicate \<Rightarrow> tuple \<Rightarrow> bool res" where
  "predicate_filter p t =
     bindE (getField t (pr_field p)) (\<lambda>f. field_compare f (pr_op p) (pr_operand p))"

definition predicate_to_string :: "predicate \<Rightarrow> string res" where
  "predicate_to_string p =
     bindE (derefE (pr_operand p)) (\<lambda>f.
       Inr (''f = '' @ int_to_string (pr_field p) @ '' op = '' @ op_to_string (pr_op p) @
            '' operand = '' @ field_to_string f))"

record index_predicate =
  ip_op :: op
  ip_fvalue :: "field option"

text \<open>\<open>same\<close> as in \<^const>\<open>field_eq\<close>: whether the two value pointers are one object.\<close>

definition index_predicate_eq ::
    "bool \<Rightarrow> index_predicate \<Rightarrow> index_predicate \<Rightarrow> bool res" where
  "index_predicate_eq same a b =
     (if ip_op a = ip_op b
      then bindE (derefE (ip_fvalue a)) (\<lambda>f.
           bindE (derefE (ip_fvalue b)) (\<lambda>g. Inr (field_eq same f g)))
      else Inr False)"

section \<open>Reading and writing the fields of a tuple\<close>

text \<open>
  The loop of \<open>readTuple\<close>, the same in the heap page and the B+ tree leaf page: parse one
  field, advance the data pointer by the length of its type, store the field. \<open>data\<close> is what
  lies from the pointer to the end of the buffer.
\<close>

fun read_fields ::
    "(nat \<Rightarrow> byte) \<Rightarrow> td_item list \<Rightarrow> byte list \<Rightarrow> int \<Rightarrow> tuple \<Rightarrow> tuple res" where
  "read_fields junk [] data i t = Inr t"
| "read_fields junk (it # its) data i t =
     bindE (field_parse junk data (fieldType it)) (\<lambda>f.
     bindE (setField t i (Some f)) (\<lambda>t'.
       read_fields junk its (drop (getLen (fieldType it)) data) (i + 1) t'))"

section \<open>Lemmas\<close>

subsection \<open>Descriptors\<close>

text \<open>What every constructor establishes: the size is the sum of the field lengths.\<close>

definition td_ok :: "tuple_desc \<Rightarrow> bool" where
  "td_ok td \<longleftrightarrow> td_size td = sum_list (map (\<lambda>it. getLen (fieldType it)) (td_items td))"

lemma items_eq_iff: "items_eq as bs \<longleftrightarrow> as = bs"
  by (induction as bs rule: items_eq.induct) (auto simp: item_eq_def)

lemma td_eq_iff: "td_eq a b \<longleftrightarrow> td_items a = td_items b"
  by (simp add: td_eq_def items_eq_iff)

lemma td_eq_refl [simp]: "td_eq a a"
  by (simp add: td_eq_iff)

lemma add_types_spec:
  "add_types tys td =
     td\<lparr>td_items := td_items td @ map (\<lambda>ty. \<lparr>fieldType = ty, fieldName = ''''\<rparr>) tys,
        td_size := td_size td + sum_list (map getLen tys)\<rparr>"
  by (induction tys arbitrary: td) auto

lemma TupleDesc_types_spec:
  "TupleDesc_types tys =
     \<lparr>td_items = map (\<lambda>ty. \<lparr>fieldType = ty, fieldName = ''''\<rparr>) tys,
      td_size = sum_list (map getLen tys)\<rparr>"
  by (simp add: TupleDesc_types_def add_types_spec)

lemma td_ok_TupleDesc_types: "td_ok (TupleDesc_types tys)"
  by (simp add: td_ok_def TupleDesc_types_spec comp_def)

definition named_items :: "type_t list \<Rightarrow> string list \<Rightarrow> td_item list" where
  "named_items tys nms = map2 (\<lambda>ty nm. \<lparr>fieldType = ty, fieldName = nm\<rparr>) tys nms"

lemma length_named_items [simp]: "length (named_items tys nms) = min (length tys) (length nms)"
  by (simp add: named_items_def)

lemma fieldType_named_items:
  "length tys \<le> length nms \<Longrightarrow> map fieldType (named_items tys nms) = tys"
  by (induction tys nms rule: list_induct2') (auto simp: named_items_def)

lemma named_items_items:
  "named_items (map fieldType its) (map fieldName its) = its"
  by (induction its) (auto simp: named_items_def)

lemma add_named_spec:
  "i + n \<le> length tys \<Longrightarrow> i + n \<le> length nms \<Longrightarrow>
   add_named tys nms i n td =
     Inr (td\<lparr>td_items := td_items td @ named_items (take n (drop i tys)) (take n (drop i nms)),
             td_size := td_size td + sum_list (map getLen (take n (drop i tys)))\<rparr>)"
proof (induction n arbitrary: i td)
  case 0
  then show ?case by (simp add: named_items_def)
next
  case (Suc n)
  have tk: "take (Suc n) (drop i tys) = tys ! i # take n (drop (Suc i) tys)"
       "take (Suc n) (drop i nms) = nms ! i # take n (drop (Suc i) nms)"
    using Suc.prems by (simp_all add: Cons_nth_drop_Suc [symmetric])
  show ?case
    using Suc.prems Suc.IH [of "Suc i"] by (simp add: tk named_items_def)
qed

lemma add_named_short:
  "i \<le> length nms \<Longrightarrow> i + n \<le> length tys \<Longrightarrow> length nms < i + n \<Longrightarrow>
   add_named tys nms i n td = Inl OutOfBounds"
proof (induction n arbitrary: i td)
  case 0
  then show ?case by simp
next
  case (Suc n)
  then show ?case by (cases "i < length nms") auto
qed

lemma TupleDesc_named_ok:
  "length tys \<le> length nms \<Longrightarrow>
   TupleDesc_named tys nms =
     Inr \<lparr>td_items = named_items tys (take (length tys) nms), td_size = sum_list (map getLen tys)\<rparr>"
  by (simp add: TupleDesc_named_def add_named_spec)

lemma TupleDesc_named_short:
  "length nms < length tys \<Longrightarrow> TupleDesc_named tys nms = Inl OutOfBounds"
  by (simp add: TupleDesc_named_def add_named_short)

lemma TupleDesc_merge_spec:
  "TupleDesc_merge a b =
     Inr \<lparr>td_items = td_items a @ td_items b,
          td_size = sum_list (map (\<lambda>it. getLen (fieldType it)) (td_items a @ td_items b))\<rparr>"
proof -
  have "named_items (map fieldType (td_items a @ td_items b)) (map fieldName (td_items a @ td_items b))
        = td_items a @ td_items b"
    by (rule named_items_items)
  then show ?thesis
    by (simp add: TupleDesc_merge_def TupleDesc_named_ok comp_def)
qed

lemma name_index_Inr:
  "name_index its nm i = Inr j \<longleftrightarrow>
   i \<le> j \<and> j - i < length its \<and> fieldName (its ! (j - i)) = nm \<and>
   (\<forall>k < j - i. fieldName (its ! k) \<noteq> nm)"
proof (induction its arbitrary: i)
  case Nil
  then show ?case by simp
next
  case (Cons it its)
  show ?case
  proof (cases "fieldName it = nm")
    case True
    then show ?thesis by (auto simp: nth_Cons split: nat.splits)
  next
    case False
    have "(Suc i \<le> j \<and> j - Suc i < length its \<and> fieldName (its ! (j - Suc i)) = nm \<and>
           (\<forall>k < j - Suc i. fieldName (its ! k) \<noteq> nm)) \<longleftrightarrow>
          (i \<le> j \<and> j - i < length (it # its) \<and> fieldName ((it # its) ! (j - i)) = nm \<and>
           (\<forall>k < j - i. fieldName ((it # its) ! k) \<noteq> nm))" (is "?L \<longleftrightarrow> ?R")
    proof
      assume ?L
      then obtain d where "j = Suc i + d" by (metis le_iff_add)
      with \<open>?L\<close> False show ?R by (auto simp: nth_Cons Suc_diff_le split: nat.splits)
    next
      assume ?R
      with False obtain d where "j = Suc i + d"
        by (metis Suc_leI diff_self_eq_0 le_iff_add le_neq_implies_less nth_Cons_0)
      with \<open>?R\<close> show ?L by (auto simp: nth_Cons Suc_diff_le split: nat.splits)
    qed
    with False Cons.IH show ?thesis by simp
  qed
qed

lemma name_index_Inl:
  "name_index its nm i = Inl e \<longleftrightarrow>
   e = InvalidArgument ''field name not found'' \<and> (\<forall>it \<in> set its. fieldName it \<noteq> nm)"
  by (induction its arbitrary: i) auto

subsection \<open>Page ids\<close>

definition no_skeleton :: "page_id \<Rightarrow> bool" where
  "no_skeleton p = (case p of SkeletonPageId t n \<Rightarrow> False | _ \<Rightarrow> True)"

lemma no_skeleton_simps [simp]:
  "no_skeleton (HeapPageId t n)" "no_skeleton (BTreePageId t n ty)"
  by (simp_all add: no_skeleton_def)

lemma pid_eq_iff: "no_skeleton p \<Longrightarrow> pid_eq p q \<longleftrightarrow> p = q"
  by (cases p; cases q) (auto simp: no_skeleton_def)

lemma pid_eq_simps [simp]:
  "pid_eq (HeapPageId t n) q \<longleftrightarrow> q = HeapPageId t n"
  "pid_eq (BTreePageId t n ty) q \<longleftrightarrow> q = BTreePageId t n ty"
  by (auto simp: pid_eq_iff simp del: pid_eq.simps)

lemma pid_eq_refl [simp]: "pid_eq p p"
  by (cases p) (auto simp: skeleton_pid_eq_def)

subsection \<open>Tuples of a schema\<close>

text \<open>A tuple that fits a schema of \<open>INT\<close> columns, the schemas the B+ tree can be keyed on.\<close>

definition int_schema :: "tuple_desc \<Rightarrow> bool" where
  "int_schema td \<longleftrightarrow> td_ok td \<and> (\<forall>it \<in> set (td_items td). fieldType it = INT_TYPE)"

definition fits :: "tuple_desc \<Rightarrow> tuple \<Rightarrow> bool" where
  "fits td t \<longleftrightarrow> tp_td t = td \<and> length (tp_fields t) = numFields td \<and>
     (\<forall>f \<in> set (tp_fields t). \<exists>v. f = Some (IntField v))"

lemma int_schema_size:
  assumes "int_schema td"
  shows "td_size td = 4 * numFields td"
proof -
  have "map (\<lambda>it. getLen (fieldType it)) (td_items td) = map (\<lambda>it. 4) (td_items td)"
    using assms by (intro map_cong) (auto simp: int_schema_def)
  with assms show ?thesis
    by (simp add: int_schema_def td_ok_def numFields_def sum_list_triv)
qed

lemma getField_fits:
  assumes "fits td t" "0 \<le> i" "nat i < numFields td"
  shows "\<exists>v. getField t i = Inr (IntField v) \<and> tp_fields t ! nat i = Some (IntField v)"
proof -
  have "tp_fields t ! nat i \<in> set (tp_fields t)" using assms by (simp add: fits_def)
  then obtain v where "tp_fields t ! nat i = Some (IntField v)"
    using assms(1) unfolding fits_def by blast
  with assms show ?thesis by (simp add: getField_def fits_def)
qed

end
