(* ===== verification/Catalog.thy ===== *)
theory Catalog
  imports Schema
begin

text \<open>
  \<open>Catalog\<close> (Catalog.cpp, Catalog.h): which tables there are. A \<open>DbFile*\<close> is the number of the
  file in the list of open files; what the catalog asks the file for (its id and its schema) is
  passed in, so that the theory does not depend on the file classes. Both maps are lists of
  pairs with distinct keys, one entry per table object.
\<close>

record table =
  tb_file :: nat
  tb_name :: string
  tb_pkeyField :: string

record catalog =
  ct_idToTable :: "(int \<times> table) list"
  ct_nameToTable :: "(string \<times> table) list"

definition Catalog_new :: catalog where
  "Catalog_new = \<lparr>ct_idToTable = [], ct_nameToTable = []\<rparr>"

definition amap_put :: "'k \<Rightarrow> 'v \<Rightarrow> ('k \<times> 'v) list \<Rightarrow> ('k \<times> 'v) list" where
  "amap_put k v m = (k, v) # filter (\<lambda>e. fst e \<noteq> k) m"

text \<open>
  Both conflict branches erase an element of a map and then read through the erased iterator,
  whose node has been freed.
\<close>

definition addTable :: "(nat \<Rightarrow> int) \<Rightarrow> catalog \<Rightarrow> nat \<Rightarrow> string \<Rightarrow> string \<Rightarrow> catalog res" where
  "addTable file_id c file name pkeyField =
     (if map_of (ct_idToTable c) (file_id file) \<noteq> None then Inl UseAfterFree
      else if map_of (ct_nameToTable c) name \<noteq> None then Inl UseAfterFree
      else let table = \<lparr>tb_file = file, tb_name = name, tb_pkeyField = pkeyField\<rparr>
           in Inr \<lparr>ct_idToTable = amap_put (file_id file) table (ct_idToTable c),
                   ct_nameToTable = amap_put name table (ct_nameToTable c)\<rparr>)"

text \<open>The overloads: without a key field, and without a name (a fresh number is the name).\<close>

definition addTable_named :: "(nat \<Rightarrow> int) \<Rightarrow> catalog \<Rightarrow> nat \<Rightarrow> string \<Rightarrow> catalog res" where
  "addTable_named file_id c file name = addTable file_id c file name ''''"

definition generateUUID :: "int \<Rightarrow> string \<times> int" where
  "generateUUID uuid = (int_to_string uuid, uuid + 1)"

definition addTable_anon :: "(nat \<Rightarrow> int) \<Rightarrow> int \<Rightarrow> catalog \<Rightarrow> nat \<Rightarrow> (catalog \<times> int) res" where
  "addTable_anon file_id uuid c file =
     (let (name, uuid') = generateUUID uuid
      in bindE (addTable file_id c file name '''') (\<lambda>c'. Inr (c', uuid')))"

definition catalog_getTableId :: "(nat \<Rightarrow> int) \<Rightarrow> catalog \<Rightarrow> string \<Rightarrow> int res" where
  "catalog_getTableId file_id c name =
     (case map_of (ct_nameToTable c) name of
        None \<Rightarrow> Inl (InvalidArgument ''Table not found'')
      | Some t \<Rightarrow> Inr (file_id (tb_file t)))"

definition catalog_getTupleDesc :: "(nat \<Rightarrow> tuple_desc) \<Rightarrow> catalog \<Rightarrow> int \<Rightarrow> tuple_desc res" where
  "catalog_getTupleDesc file_td c tableid =
     (case map_of (ct_idToTable c) tableid of
        None \<Rightarrow> Inl (RuntimeError ''Table not found'')
      | Some t \<Rightarrow> Inr (file_td (tb_file t)))"

definition getDatabaseFile :: "catalog \<Rightarrow> int \<Rightarrow> nat res" where
  "getDatabaseFile c tableid =
     (case map_of (ct_idToTable c) tableid of
        None \<Rightarrow> Inl (RuntimeError ''Table not found'')
      | Some t \<Rightarrow> Inr (tb_file t))"

definition getPrimaryKey :: "catalog \<Rightarrow> int \<Rightarrow> string res" where
  "getPrimaryKey c tableid =
     (case map_of (ct_idToTable c) tableid of
        None \<Rightarrow> Inl (RuntimeError ''Table not found'')
      | Some t \<Rightarrow> Inr (tb_pkeyField t))"

definition catalog_getTableName :: "catalog \<Rightarrow> int \<Rightarrow> string res" where
  "catalog_getTableName c tableid =
     (case map_of (ct_idToTable c) tableid of
        None \<Rightarrow> Inl (RuntimeError ''Table not found'')
      | Some t \<Rightarrow> Inr (tb_name t))"

definition catalog_clear :: "catalog \<Rightarrow> catalog" where
  "catalog_clear c = \<lparr>ct_idToTable = [], ct_nameToTable = []\<rparr>"

section \<open>Consistency of the two maps\<close>

text \<open>
  Every table object is in both maps, under its file's id and under its name, and no two
  entries of a map share a key.
\<close>

definition catalog_ok :: "(nat \<Rightarrow> int) \<Rightarrow> catalog \<Rightarrow> bool" where
  "catalog_ok file_id c \<longleftrightarrow>
     distinct (map fst (ct_idToTable c)) \<and> distinct (map fst (ct_nameToTable c)) \<and>
     snd ` set (ct_idToTable c) = snd ` set (ct_nameToTable c) \<and>
     (\<forall>(i, t) \<in> set (ct_idToTable c). file_id (tb_file t) = i) \<and>
     (\<forall>(n, t) \<in> set (ct_nameToTable c). tb_name t = n)"

lemma map_of_amap_put [simp]: "map_of (amap_put k v m) k' = (if k = k' then Some v else map_of m k')"
  by (induction m) (auto simp: amap_put_def)

lemma amap_put_fresh: "map_of m k = None \<Longrightarrow> amap_put k v m = (k, v) # m"
  by (auto simp: amap_put_def map_of_eq_None_iff intro!: filter_True)

lemma catalog_ok_new: "catalog_ok file_id Catalog_new"
  by (simp add: catalog_ok_def Catalog_new_def)

lemma addTable_Inr:
  "addTable file_id c f n k = Inr c' \<longleftrightarrow>
     map_of (ct_idToTable c) (file_id f) = None \<and> map_of (ct_nameToTable c) n = None \<and>
     c' = \<lparr>ct_idToTable = (file_id f, \<lparr>tb_file = f, tb_name = n, tb_pkeyField = k\<rparr>) # ct_idToTable c,
           ct_nameToTable = (n, \<lparr>tb_file = f, tb_name = n, tb_pkeyField = k\<rparr>) # ct_nameToTable c\<rparr>"
  by (auto simp: addTable_def Let_def amap_put_fresh)

lemma catalog_ok_addTable:
  "catalog_ok file_id c \<Longrightarrow> addTable file_id c f n k = Inr c' \<Longrightarrow> catalog_ok file_id c'"
  by (auto simp: addTable_Inr catalog_ok_def map_of_eq_None_iff)

text \<open>The two maps agree: the name of a table leads to its id, and the id back to its name.\<close>

lemma catalog_agree:
  assumes "catalog_ok file_id c"
  shows "catalog_getTableId file_id c n = Inr i \<longleftrightarrow> catalog_getTableName c i = Inr n"
proof -
  from assms have d: "distinct (map fst (ct_idToTable c))" "distinct (map fst (ct_nameToTable c))"
    and im: "snd ` set (ct_idToTable c) = snd ` set (ct_nameToTable c)"
    and ids: "\<And>j t. (j, t) \<in> set (ct_idToTable c) \<Longrightarrow> file_id (tb_file t) = j"
    and nms: "\<And>m t. (m, t) \<in> set (ct_nameToTable c) \<Longrightarrow> tb_name t = m"
    by (auto simp: catalog_ok_def)
  have "(\<exists>t. (n, t) \<in> set (ct_nameToTable c) \<and> file_id (tb_file t) = i) \<longleftrightarrow>
        (\<exists>t. (i, t) \<in> set (ct_idToTable c) \<and> tb_name t = n)" (is "?L \<longleftrightarrow> ?R")
  proof
    assume ?L
    then obtain t where t: "(n, t) \<in> set (ct_nameToTable c)" "file_id (tb_file t) = i" by auto
    then have "t \<in> snd ` set (ct_idToTable c)" unfolding im by (metis image_eqI snd_conv)
    then obtain j where "(j, t) \<in> set (ct_idToTable c)" by auto
    with t ids nms show ?R by blast
  next
    assume ?R
    then obtain t where t: "(i, t) \<in> set (ct_idToTable c)" "tb_name t = n" by auto
    then have "t \<in> snd ` set (ct_nameToTable c)" unfolding im [symmetric] by (metis image_eqI snd_conv)
    then obtain m where "(m, t) \<in> set (ct_nameToTable c)" by auto
    with t ids nms show ?L by blast
  qed
  moreover have "catalog_getTableId file_id c n = Inr i \<longleftrightarrow>
      (\<exists>t. map_of (ct_nameToTable c) n = Some t \<and> file_id (tb_file t) = i)"
    by (simp add: catalog_getTableId_def split: option.split)
  moreover have "catalog_getTableName c i = Inr n \<longleftrightarrow>
      (\<exists>t. map_of (ct_idToTable c) i = Some t \<and> tb_name t = n)"
    by (simp add: catalog_getTableName_def split: option.split)
  ultimately show ?thesis by (simp add: d)
qed

end
