(* ===== verification/Slots.thy ===== *)
theory Slots
  imports Prelude
begin

text \<open>
  What heap pages, B+ tree leaf pages and B+ tree internal pages share: a header bitmap that
  tells which slots of an array are in use, and the shifting of slots that makes room for an
  insertion. The bitmap contract is the locale \<open>slot_bits\<close>; the page theories interpret it
  with the bit operations of their classes. The shifting is proved once, on a list of
  optional elements (the \<^emph>\<open>view\<close> of a page), and reused by both B+ tree page classes.
\<close>

section \<open>Bit operations of the header\<close>

text \<open>\<open>headerbit = i % 8; headerbyte = (i - headerbit) / 8\<close>, as the B+ tree pages compute them.\<close>

definition mod_used :: "byte list \<Rightarrow> nat \<Rightarrow> bool" where
  "mod_used h i =
     (let headerbit = i mod 8; headerbyte = (i - headerbit) div 8
      in (h ! headerbyte) AND push_bit headerbit 1 \<noteq> 0)"

definition mod_mark :: "byte list \<Rightarrow> nat \<Rightarrow> bool \<Rightarrow> byte list" where
  "mod_mark h i v =
     (let headerbit = i mod 8; headerbyte = (i - headerbit) div 8
      in if v then h[headerbyte := (h ! headerbyte) OR push_bit headerbit 1]
         else h[headerbyte := (h ! headerbyte) AND (255 XOR push_bit headerbit 1)])"

text \<open>\<open>headerbyte = i >> 3; headerbit = i & 7\<close>, as the heap page computes them.\<close>

definition shift_used :: "byte list \<Rightarrow> nat \<Rightarrow> bool" where
  "shift_used h i =
     (let headerbyte = drop_bit 3 i; headerbit = i AND 7
      in (drop_bit headerbit (h ! headerbyte)) AND 1 \<noteq> 0)"

definition shift_mark :: "byte list \<Rightarrow> nat \<Rightarrow> bool \<Rightarrow> byte list" where
  "shift_mark h i v =
     (let headerbyte = drop_bit 3 i; headerbit = i AND 7
      in if v then h[headerbyte := (h ! headerbyte) OR push_bit headerbit 1]
         else h[headerbyte := (h ! headerbyte) AND (255 XOR push_bit headerbit 1)])"

lemma byte_index: "(i - i mod 8) div 8 = i div (8::nat)"
  by (simp add: minus_mod_eq_mult_div)

lemma shift_index: "drop_bit 3 i = i div (8::nat)" "i AND 7 = i mod (8::nat)"
proof -
  show "drop_bit 3 i = i div 8" by (simp add: drop_bit_eq_div)
  have "i AND 7 = take_bit 3 i" by (simp add: take_bit_eq_mask mask_eq_exp_minus_1)
  then show "i AND 7 = i mod 8" by (simp add: take_bit_eq_mod)
qed

lemma and_push_bit_1: "(w AND push_bit k 1 \<noteq> 0) = bit w k" if "k < 8" for w :: byte
proof -
  have "w AND push_bit k 1 = (if bit w k then push_bit k 1 else 0)"
    by (rule bit_word_eqI) (auto simp: bit_simps)
  moreover have "push_bit k 1 \<noteq> (0 :: byte)"
  proof
    assume "push_bit k 1 = (0 :: byte)"
    moreover have "bit (push_bit k 1 :: byte) k" using that by (simp add: bit_exp_iff)
    ultimately show False using that by simp
  qed
  ultimately show ?thesis by simp
qed

lemma and_1_ne_0: "(w AND 1 \<noteq> 0) = bit w 0" for w :: byte
  using and_push_bit_1 [of 0 w] by simp

lemma mod_used_bit: "mod_used h i = bit (h ! (i div 8)) (i mod 8)"
  by (simp only: mod_used_def Let_def byte_index) (rule and_push_bit_1, simp)

lemma shift_used_bit: "shift_used h i = bit (h ! (i div 8)) (i mod 8)"
  unfolding shift_used_def Let_def shift_index and_1_ne_0 by (simp add: bit_drop_bit_eq)

lemma mod_mark_shift_mark: "mod_mark = shift_mark"
  by (intro ext) (simp add: mod_mark_def shift_mark_def Let_def byte_index shift_index)

lemma mod_used_shift_used: "mod_used = shift_used"
  by (intro ext) (simp add: mod_used_bit shift_used_bit)

lemma bit_255: "bit (255 :: byte) n \<longleftrightarrow> n < 8"
proof -
  have "bit (mask 8 :: byte) n \<longleftrightarrow> n < 8" by (simp add: bit_mask_iff)
  then show ?thesis by (simp add: mask_eq_exp_minus_1)
qed

lemma length_shift_mark [simp]: "length (shift_mark h i v) = length h"
  by (simp add: shift_mark_def Let_def)

lemma shift_used_mark:
  assumes "i < 8 * length h" "j < 8 * length h"
  shows "shift_used (shift_mark h i v) j = (if j = i then v else shift_used h j)"
proof (cases "j div 8 = i div 8")
  case True
  have i: "i div 8 < length h" using assms by (simp add: less_mult_imp_div_less mult.commute)
  have eq: "j = i \<longleftrightarrow> j mod 8 = i mod 8"
    using True by (metis div_mult_mod_eq)
  show ?thesis
    using True i unfolding eq
    by (auto simp: shift_used_bit shift_mark_def shift_index Let_def bit_or_iff bit_and_iff
        bit_xor_iff bit_exp_iff bit_255 simp del: bit_numeral_word_iff)
next
  case False
  then have "j \<noteq> i" by auto
  with False show ?thesis
    by (auto simp: shift_used_bit shift_mark_def shift_index Let_def)
qed

section \<open>The bitmap contract\<close>

locale slot_bits =
  fixes used :: "byte list \<Rightarrow> nat \<Rightarrow> bool"
    and mark :: "byte list \<Rightarrow> nat \<Rightarrow> bool \<Rightarrow> byte list"
  assumes length_mark: "length (mark h i v) = length h"
    and used_mark: "i < 8 * length h \<Longrightarrow> j < 8 * length h \<Longrightarrow>
                      used (mark h i v) j = (if j = i then v else used h j)"
begin

lemma filter_mark:
  assumes "i < 8 * length h" "b \<le> 8 * length h"
  shows "filter (\<lambda>j. \<not> used (mark h i v) j) [a..<b] =
         filter (\<lambda>j. if j = i then \<not> v else \<not> used h j) [a..<b]"
  using assms by (intro filter_cong refl) (auto simp: used_mark)

lemma free_count_mark_used:
  assumes "a \<le> i" "i < b" "b \<le> 8 * length h" "\<not> used h i"
  shows "Suc (length (filter (\<lambda>j. \<not> used (mark h i True) j) [a..<b])) =
         length (filter (\<lambda>j. \<not> used h j) [a..<b])"
proof -
  have split: "[a..<b] = [a..<i] @ i # [Suc i..<b]"
    using assms(1,2) by (rule upt_split)
  have "filter (\<lambda>j. if j = i then \<not> True else \<not> used h j) [a..<i] =
        filter (\<lambda>j. \<not> used h j) [a..<i]"
       "filter (\<lambda>j. if j = i then \<not> True else \<not> used h j) [Suc i..<b] =
        filter (\<lambda>j. \<not> used h j) [Suc i..<b]"
    by (intro filter_cong; auto)+
  with assms show ?thesis
    by (subst filter_mark) (simp_all add: split)
qed

lemma free_count_mark_free:
  assumes "a \<le> i" "i < b" "b \<le> 8 * length h" "used h i"
  shows "length (filter (\<lambda>j. \<not> used (mark h i False) j) [a..<b]) =
         Suc (length (filter (\<lambda>j. \<not> used h j) [a..<b]))"
proof -
  have split: "[a..<b] = [a..<i] @ i # [Suc i..<b]"
    using assms(1,2) by (rule upt_split)
  have "filter (\<lambda>j. if j = i then \<not> False else \<not> used h j) [a..<i] =
        filter (\<lambda>j. \<not> used h j) [a..<i]"
       "filter (\<lambda>j. if j = i then \<not> False else \<not> used h j) [Suc i..<b] =
        filter (\<lambda>j. \<not> used h j) [Suc i..<b]"
    by (intro filter_cong; auto)+
  with assms show ?thesis
    by (subst filter_mark) (simp_all add: split)
qed

text \<open>Marking a slot changes the view of the slots at that index only.\<close>

lemma view_mark_used:
  assumes "i < n" "n \<le> 8 * length h"
  shows "map (\<lambda>j. if used (mark h i True) j then Some (f j) else None) [0..<n] =
         (map (\<lambda>j. if used h j then Some (f j) else None) [0..<n])[i := Some (f i)]"
  using assms by (intro nth_equalityI) (auto simp: used_mark nth_list_update)

lemma view_mark_free:
  assumes "i < n" "n \<le> 8 * length h"
  shows "map (\<lambda>j. if used (mark h i False) j then Some (f j) else None) [0..<n] =
         (map (\<lambda>j. if used h j then Some (f j) else None) [0..<n])[i := None]"
  using assms by (intro nth_equalityI) (auto simp: used_mark nth_list_update)

end

interpretation shift: slot_bits shift_used shift_mark
  by unfold_locales (simp_all add: shift_used_mark)

interpretation modb: slot_bits mod_used mod_mark
  by unfold_locales (simp_all add: mod_mark_shift_mark mod_used_shift_used shift_used_mark)

end
