(* ===== verification/SlotView.thy ===== *)
theory SlotView
  imports Slots
begin

text \<open>
  The view of a page as a list of optional elements, one per slot, and the shifting loops of
  \<open>insertTuple\<close> and \<open>insertEntry\<close> on it. \<open>somes\<close> is what the page holds, in slot order. The
  loops keep \<open>somes\<close>, and free the slot in which the new element goes.
\<close>

fun somes :: "'a option list \<Rightarrow> 'a list" where
  "somes [] = []"
| "somes (None # xs) = somes xs"
| "somes (Some x # xs) = x # somes xs"

lemma somes_append [simp]: "somes (xs @ ys) = somes xs @ somes ys"
  by (induction xs rule: somes.induct) auto

lemma somes_replicate_None [simp]: "somes (replicate n None) = []"
  by (induction n) auto

lemma set_somes: "x \<in> set (somes xs) \<longleftrightarrow> Some x \<in> set xs"
  by (induction xs rule: somes.induct) auto

lemma length_somes: "length (somes xs) = length (filter (\<lambda>o'. o' \<noteq> None) xs)"
  by (induction xs rule: somes.induct) auto

lemma length_somes_None:
  "length (somes xs) + length (filter (\<lambda>o'. o' = None) xs) = length xs"
  by (induction xs rule: somes.induct) auto

lemma somes_map_Some: "somes (map (\<lambda>i. if P i then Some (f i) else None) xs) = map f (filter P xs)"
  by (induction xs) auto

lemma somes_Nil_iff: "somes xs = [] \<longleftrightarrow> (\<forall>x \<in> set xs. x = None)"
  by (induction xs rule: somes.induct) auto

lemma somes_split:
  "i < length xs \<Longrightarrow>
   somes xs = somes (take i xs) @ (case xs ! i of None \<Rightarrow> [] | Some x \<Rightarrow> [x]) @ somes (drop (Suc i) xs)"
  by (subst id_take_nth_drop [of i xs]) (auto split: option.split)

lemma somes_update:
  "i < length xs \<Longrightarrow>
   somes (xs[i := y]) = somes (take i xs) @ (case y of None \<Rightarrow> [] | Some x \<Rightarrow> [x]) @ somes (drop (Suc i) xs)"
  by (simp add: upd_conv_take_nth_drop split: option.split)

lemma somes_take_Suc:
  "i < length xs \<Longrightarrow>
   somes (take (Suc i) xs) = somes (take i xs) @ (case xs ! i of None \<Rightarrow> [] | Some x \<Rightarrow> [x])"
  by (simp add: take_Suc_conv_app_nth split: option.split)

lemma somes_update_None_mset:
  "i < length xs \<Longrightarrow> xs ! i = Some x \<Longrightarrow> mset (somes xs) = add_mset x (mset (somes (xs[i := None])))"
  by (subst somes_split [of i xs]) (auto simp: somes_update)

lemma somes_split_elem:
  "somes xs = as @ x # bs \<Longrightarrow>
   \<exists>c < length xs. xs ! c = Some x \<and> somes (take c xs) = as \<and> somes (drop (Suc c) xs) = bs"
proof (induction xs arbitrary: as)
  case (Cons y ys)
  show ?case
  proof (cases y)
    case None
    with Cons obtain c where "c < length ys" "ys ! c = Some x" "somes (take c ys) = as"
        "somes (drop (Suc c) ys) = bs" by auto
    with None show ?thesis by (intro exI [of _ "Suc c"]) auto
  next
    case (Some z)
    show ?thesis
    proof (cases as)
      case Nil
      with Some Cons.prems show ?thesis by (intro exI [of _ 0]) auto
    next
      case (Cons a as')
      with Some Cons.prems Cons.IH [of as'] obtain c where "c < length ys" "ys ! c = Some x"
          "somes (take c ys) = as'" "somes (drop (Suc c) ys) = bs" by auto
      with Some Cons Cons.prems show ?thesis by (intro exI [of _ "Suc c"]) auto
    qed
  qed
qed simp

lemma somes_nth_take: "i < c \<Longrightarrow> i < length xs \<Longrightarrow> xs ! i = Some x \<Longrightarrow> x \<in> set (somes (take c xs))"
  by (simp add: set_somes) (metis in_set_conv_nth length_take min_less_iff_conj nth_take)

lemma somes_nth_drop: "c \<le> i \<Longrightarrow> i < length xs \<Longrightarrow> xs ! i = Some x \<Longrightarrow> x \<in> set (somes (drop c xs))"
  by (simp add: set_somes) (metis Cons_nth_drop_Suc drop_drop in_set_dropD le_add_diff_inverse2
      list.set_intros(1))

section \<open>Moving one slot\<close>

definition vmove :: "nat \<Rightarrow> nat \<Rightarrow> 'a option list \<Rightarrow> 'a option list" where
  "vmove from to xs =
     (if xs ! to = None \<and> xs ! from \<noteq> None then xs[to := xs ! from, from := None] else xs)"

lemma length_vmove [simp]: "length (vmove f t xs) = length xs"
  by (simp add: vmove_def)

lemma two_slots:
  "Suc i < length xs \<Longrightarrow> xs = take i xs @ [xs ! i, xs ! Suc i] @ drop (Suc (Suc i)) xs"
  by (metis Cons_nth_drop_Suc append_Cons append_Nil append_take_drop_id Suc_lessD)

lemma vmove_left:
  assumes "Suc i < length xs" "xs ! i = None"
  shows "vmove (Suc i) i xs = take i xs @ [xs ! Suc i, None] @ drop (Suc (Suc i)) xs"
proof (cases "xs ! Suc i")
  case None
  then show ?thesis using assms two_slots [OF assms(1)] by (simp add: vmove_def)
next
  case (Some x)
  have "xs[i := xs ! Suc i, Suc i := None] = take i xs @ [xs ! Suc i, None] @ drop (Suc (Suc i)) xs"
    using assms(1) by (intro nth_equalityI) (auto simp: nth_list_update nth_append nth_Cons split: nat.split
          intro!: arg_cong [of _ _ "nth xs"])
  with Some assms show ?thesis by (simp add: vmove_def)
qed

lemma vmove_right:
  assumes "Suc i < length xs" "xs ! Suc i = None"
  shows "vmove i (Suc i) xs = take i xs @ [None, xs ! i] @ drop (Suc (Suc i)) xs"
proof (cases "xs ! i")
  case None
  then show ?thesis using assms two_slots [OF assms(1)] by (simp add: vmove_def)
next
  case (Some x)
  have "xs[Suc i := xs ! i, i := None] = take i xs @ [None, xs ! i] @ drop (Suc (Suc i)) xs"
    using assms(1) by (intro nth_equalityI) (auto simp: nth_list_update nth_append nth_Cons split: nat.split
          intro!: arg_cong [of _ _ "nth xs"])
  with Some assms show ?thesis by (simp add: vmove_def)
qed

section \<open>The two shifting loops\<close>

text \<open>\<open>for (i = e; i < l; i++) move(i + 1, i)\<close>\<close>

function vshift_down :: "nat \<Rightarrow> nat \<Rightarrow> 'a option list \<Rightarrow> 'a option list" where
  "vshift_down e l xs = (if e < l then vshift_down (Suc e) l (vmove (Suc e) e xs) else xs)"
  by pat_completeness auto
termination by (relation "measure (\<lambda>(e, l, xs). l - e)") auto

text \<open>\<open>for (i = e; i > g; i--) move(i - 1, i)\<close>\<close>

function vshift_up :: "nat \<Rightarrow> nat \<Rightarrow> 'a option list \<Rightarrow> 'a option list" where
  "vshift_up e g xs = (if g < e then vshift_up (e - 1) g (vmove (e - 1) e xs) else xs)"
  by pat_completeness auto
termination by (relation "measure (\<lambda>(e, g, xs). e)") auto

declare vshift_down.simps [simp del] vshift_up.simps [simp del]

lemma vshift_down_spec:
  assumes "e \<le> l" "l < length xs" "xs ! e = None"
  shows "length (vshift_down e l xs) = length xs \<and> vshift_down e l xs ! l = None \<and>
         somes (vshift_down e l xs) = somes xs \<and>
         drop (Suc l) (vshift_down e l xs) = drop (Suc l) xs \<and>
         take e (vshift_down e l xs) = take e xs"
  using assms
proof (induction e l xs rule: vshift_down.induct)
  case (1 e l xs)
  show ?case
  proof (cases "e < l")
    case True
    let ?ys = "vmove (Suc e) e xs"
    have ys: "?ys = take e xs @ [xs ! Suc e, None] @ drop (Suc (Suc e)) xs"
      using 1 True by (intro vmove_left) auto
    have "somes xs = somes (take e xs @ [xs ! e, xs ! Suc e] @ drop (Suc (Suc e)) xs)"
      using 1 True two_slots [of e xs] by simp
    then have sm: "somes ?ys = somes xs"
      unfolding ys using "1.prems"(3) by (cases "xs ! Suc e") auto
    have nth: "?ys ! Suc e = None"
      using 1 True unfolding ys by (simp add: nth_append)
    have dr: "drop (Suc l) ?ys = drop (Suc l) xs"
      using "1.prems" True unfolding ys by (auto simp: less_iff_Suc_add add.commute)
    have tk: "take e ?ys = take e xs" using 1 True unfolding ys by auto
    have IH: "length (vshift_down (Suc e) l ?ys) = length xs" 
        "vshift_down (Suc e) l ?ys ! l = None" "somes (vshift_down (Suc e) l ?ys) = somes xs"
        "drop (Suc l) (vshift_down (Suc e) l ?ys) = drop (Suc l) xs"
        "take (Suc e) (vshift_down (Suc e) l ?ys) = take (Suc e) ?ys"
      using "1.IH" [OF True] "1.prems" True nth sm dr by auto
    from IH(5) have "take e (vshift_down (Suc e) l ?ys) = take e ?ys"
      by (metis less_imp_le lessI min.absorb1 take_take)
    with IH tk True show ?thesis by (simp add: vshift_down.simps [of e l])
  next
    case False
    then have "vshift_down e l xs = xs" by (subst vshift_down.simps) simp
    moreover have "e = l" using False "1.prems" by simp
    ultimately show ?thesis using "1.prems" by simp
  qed
qed

lemma vshift_up_spec:
  assumes "g \<le> e" "e < length xs" "xs ! e = None"
  shows "length (vshift_up e g xs) = length xs \<and> vshift_up e g xs ! g = None \<and>
         somes (vshift_up e g xs) = somes xs \<and>
         take g (vshift_up e g xs) = take g xs \<and>
         drop (Suc e) (vshift_up e g xs) = drop (Suc e) xs"
  using assms
proof (induction e g xs rule: vshift_up.induct)
  case (1 e g xs)
  show ?case
  proof (cases "g < e")
    case True
    then obtain d where d: "e = Suc d" by (cases e) auto
    let ?ys = "vmove d (Suc d) xs"
    have ys: "?ys = take d xs @ [None, xs ! d] @ drop (Suc (Suc d)) xs"
      using 1 True d by (intro vmove_right) auto
    have "somes xs = somes (take d xs @ [xs ! d, xs ! Suc d] @ drop (Suc (Suc d)) xs)"
      using 1 True d two_slots [of d xs] by simp
    then have sm: "somes ?ys = somes xs"
      unfolding ys using "1.prems"(3) d by (cases "xs ! d") auto
    have nth: "?ys ! d = None"
      using 1 True d unfolding ys by (simp add: nth_append)
    have dr: "drop (Suc e) ?ys = drop (Suc e) xs"
      using 1 True d unfolding ys by auto
    have tk: "take g ?ys = take g xs" using 1 True d unfolding ys by auto
    have IH: "length (vshift_up d g ?ys) = length xs" 
        "vshift_up d g ?ys ! g = None" "somes (vshift_up d g ?ys) = somes xs"
        "take g (vshift_up d g ?ys) = take g xs"
        "drop (Suc d) (vshift_up d g ?ys) = drop (Suc d) ?ys"
      using "1.IH" [OF True] "1.prems" True nth sm tk d by auto
    from IH(5) have "drop (Suc e) (vshift_up d g ?ys) = drop (Suc e) ?ys"
      unfolding d by (metis (no_types, lifting) drop_Suc drop_drop plus_1_eq_Suc tl_drop)
    moreover have "vshift_up e g xs = vshift_up d g ?ys"
      using True d by (simp add: vshift_up.simps [of "Suc d" g])
    ultimately show ?thesis using IH dr by simp
  next
    case False
    then have "vshift_up e g xs = xs" by (subst vshift_up.simps) simp
    moreover have "g = e" using False "1.prems" by simp
    ultimately show ?thesis using "1.prems" by simp
  qed
qed

section \<open>Inserting after slot \<open>g - 1\<close>\<close>

text \<open>
  \<open>e\<close> is the first free slot; the new element goes after the first \<open>g\<close> slots. With
  \<open>g = lessOrEqKey + 1\<close> this is the choice the code makes between its two loops.
\<close>

definition vinsert :: "nat \<Rightarrow> nat \<Rightarrow> 'a \<Rightarrow> 'a option list \<Rightarrow> 'a option list" where
  "vinsert e g x xs =
     (if Suc e < g then (vshift_down e (g - 1) xs)[g - 1 := Some x]
      else (vshift_up e g xs)[g := Some x])"

lemma somes_take_drop: "somes xs = somes (take i xs) @ somes (drop i xs)"
  by (metis append_take_drop_id somes_append)

lemma vinsert_spec:
  assumes "e < length xs" "xs ! e = None" "g \<le> length xs" "Suc e \<noteq> g"
  shows "somes (vinsert e g x xs) = somes (take g xs) @ x # somes (drop g xs)"
    and "length (vinsert e g x xs) = length xs"
proof -
  have "somes (vinsert e g x xs) = somes (take g xs) @ x # somes (drop g xs) \<and>
        length (vinsert e g x xs) = length xs"
  proof (cases "Suc e < g")
    case True
    let ?l = "g - 1"
    let ?ys = "vshift_down e ?l xs"
    have sp: "length ?ys = length xs" "?ys ! ?l = None" "somes ?ys = somes xs"
        "drop (Suc ?l) ?ys = drop (Suc ?l) xs"
      using vshift_down_spec [of e ?l xs] assms True by auto
    have "somes ?ys = somes (take ?l ?ys) @ somes (drop (Suc ?l) ?ys)"
      using somes_split [of ?l ?ys] sp assms True by simp
    moreover have "somes xs = somes (take g xs) @ somes (drop g xs)"
      by (rule somes_take_drop)
    ultimately have "somes (take ?l ?ys) = somes (take g xs)"
      using sp True by simp
    with sp True assms show ?thesis by (simp add: vinsert_def somes_update)
  next
    case False
    let ?ys = "vshift_up e g xs"
    have sp: "length ?ys = length xs" "?ys ! g = None" "somes ?ys = somes xs"
        "take g ?ys = take g xs"
      using vshift_up_spec [of g e xs] assms False by auto
    have "somes ?ys = somes (take g ?ys) @ somes (drop (Suc g) ?ys)"
      using somes_split [of g ?ys] sp assms False by simp
    moreover have "somes xs = somes (take g xs) @ somes (drop g xs)"
      by (rule somes_take_drop)
    ultimately have "somes (drop (Suc g) ?ys) = somes (drop g xs)"
      using sp by simp
    with sp False assms show ?thesis by (simp add: vinsert_def somes_update)
  qed
  then show "somes (vinsert e g x xs) = somes (take g xs) @ x # somes (drop g xs)"
    and "length (vinsert e g x xs) = length xs" by auto
qed

text \<open>The slots in front of both the hole and the new element stay in use.\<close>

lemma vinsert_low:
  assumes "e < length xs" "xs ! e = None" "g \<le> length xs" "Suc e \<noteq> g" "i < e" "i \<le> g" "xs ! i \<noteq> None"
  shows "vinsert e g x xs ! i \<noteq> None"
proof (cases "Suc e < g")
  case True
  have "take e (vshift_down e (g - 1) xs) = take e xs" using vshift_down_spec [of e "g - 1" xs] assms True by auto
  then have "vshift_down e (g - 1) xs ! i = xs ! i" using assms(5) by (metis nth_take)
  with True assms show ?thesis by (simp add: vinsert_def nth_list_update)
next
  case False
  have "length (vshift_up e g xs) = length xs" "take g (vshift_up e g xs) = take g xs"
    using vshift_up_spec [of g e xs] assms False by auto
  moreover from this have "i < g \<Longrightarrow> vshift_up e g xs ! i = xs ! i" by (metis nth_take)
  ultimately show ?thesis using False assms by (cases "i = g") (simp_all add: vinsert_def)
qed

lemma mset_concat_update:
  assumes "m < length xs" "mset (g y) = add_mset a (mset (g (xs ! m)))"
  shows "mset (concat (map g (xs[m := y]))) = add_mset a (mset (concat (map g xs)))"
proof -
  have "mset (concat (map g xs)) = mset (concat (map g (take m xs))) + mset (g (xs ! m)) +
      mset (concat (map g (drop (Suc m) xs)))"
    by (subst id_take_nth_drop [OF assms(1)]) simp
  with assms show ?thesis by (simp add: upd_conv_take_nth_drop)
qed

section \<open>Pages whose loops shift slots\<close>

text \<open>
  What \<open>insertTuple\<close> of a leaf and \<open>insertEntry\<close> of an internal page ask of their class: a view,
  the move of one slot, the two loops over it and the search for an empty slot. \<open>lo\<close> is the
  first slot that moves (an internal page never moves slot 0); \<open>frame\<close> relates a page to one
  that differs in its slots only.
\<close>

locale slot_page =
  fixes view :: "'p \<Rightarrow> 'e option list"
    and ok :: "'p \<Rightarrow> bool"
    and frame :: "'p \<Rightarrow> 'p \<Rightarrow> bool"
    and lo :: nat
    and move :: "'p \<Rightarrow> nat \<Rightarrow> nat \<Rightarrow> 'p"
    and shift_down :: "'p \<Rightarrow> nat \<Rightarrow> nat \<Rightarrow> 'p"
    and shift_up :: "'p \<Rightarrow> nat \<Rightarrow> nat \<Rightarrow> 'p"
    and used :: "'p \<Rightarrow> nat \<Rightarrow> bool"
    and emptySlot :: "'p \<Rightarrow> nat \<Rightarrow> nat \<Rightarrow> int"
  assumes used_view: "i < length (view p) \<Longrightarrow> used p i \<longleftrightarrow> view p ! i \<noteq> None"
    and move_view: "ok p \<Longrightarrow> lo \<le> from \<Longrightarrow> lo \<le> to \<Longrightarrow> from < length (view p) \<Longrightarrow> to < length (view p) \<Longrightarrow>
          from \<noteq> to \<Longrightarrow> view (move p from to) = vmove from to (view p)"
    and move_ok: "ok p \<Longrightarrow> lo \<le> from \<Longrightarrow> lo \<le> to \<Longrightarrow> from < length (view p) \<Longrightarrow> to < length (view p) \<Longrightarrow>
          from \<noteq> to \<Longrightarrow> ok (move p from to)"
    and move_frame: "frame p (move p from to)"
    and frame_refl: "frame p p"
    and frame_trans: "frame p q \<Longrightarrow> frame q r \<Longrightarrow> frame p r"
    and shift_down: "shift_down p i l = (if i < l then shift_down (move p (Suc i) i) (Suc i) l else p)"
    and shift_up: "shift_up p i g = (if g < i then shift_up (move p (i - 1) i) (i - 1) g else p)"
    and emptySlot_0: "emptySlot p i 0 = - 1"
    and emptySlot_Suc: "emptySlot p i (Suc n) = (if \<not> used p i then int i else emptySlot p (Suc i) n)"
begin

lemma shift_down_spec:
  "ok p \<Longrightarrow> lo \<le> i \<Longrightarrow> l < length (view p) \<Longrightarrow>
   view (shift_down p i l) = vshift_down i l (view p) \<and> ok (shift_down p i l) \<and>
   frame p (shift_down p i l)"
proof (induction "l - i" arbitrary: p i)
  case 0
  then show ?case by (simp add: shift_down [of p] vshift_down.simps [of i] frame_refl)
next
  case (Suc d)
  let ?q = "move p (Suc i) i"
  have i: "i < l" using Suc.hyps(2) by simp
  have q: "view ?q = vmove (Suc i) i (view p)" "ok ?q"
    using Suc.prems i by (auto intro: move_view move_ok)
  have "view (shift_down ?q (Suc i) l) = vshift_down (Suc i) l (view ?q) \<and>
        ok (shift_down ?q (Suc i) l) \<and> frame ?q (shift_down ?q (Suc i) l)"
    using Suc.hyps(2) Suc.prems q by (intro Suc.hyps(1)) auto
  with i q show ?case
    by (auto simp: shift_down [of p] vshift_down.simps [of i] intro: frame_trans [OF move_frame])
qed

lemma shift_up_spec:
  "ok p \<Longrightarrow> lo \<le> g \<Longrightarrow> i < length (view p) \<Longrightarrow>
   view (shift_up p i g) = vshift_up i g (view p) \<and> ok (shift_up p i g) \<and>
   frame p (shift_up p i g)"
proof (induction i arbitrary: p)
  case 0
  then show ?case by (simp add: shift_up [of p] vshift_up.simps [of 0] frame_refl)
next
  case (Suc i)
  show ?case
  proof (cases "g < Suc i")
    case True
    let ?q = "move p i (Suc i)"
    have q: "view ?q = vmove i (Suc i) (view p)" "ok ?q"
      using Suc.prems True by (auto intro: move_view move_ok)
    have "view (shift_up ?q i g) = vshift_up i g (view ?q) \<and> ok (shift_up ?q i g) \<and>
          frame ?q (shift_up ?q i g)"
      using Suc.prems q by (intro Suc.IH) auto
    with True q show ?thesis
      by (auto simp: shift_up [of p] vshift_up.simps [of "Suc i"] intro: frame_trans [OF move_frame])
  next
    case False
    with Suc.prems show ?thesis by (simp add: shift_up [of p] vshift_up.simps [of "Suc i"] frame_refl)
  qed
qed

lemma emptySlot_none:
  "emptySlot p i n = - 1 \<longleftrightarrow> (\<forall>j. i \<le> j \<and> j < i + n \<longrightarrow> used p j)"
proof (induction n arbitrary: i)
  case 0
  show ?case by (auto simp: emptySlot_0)
next
  case (Suc n)
  show ?case
  proof (cases "used p i")
    case True
    then have "(\<forall>j. Suc i \<le> j \<and> j < Suc i + n \<longrightarrow> used p j) \<longleftrightarrow>
          (\<forall>j. i \<le> j \<and> j < i + Suc n \<longrightarrow> used p j)"
      by (metis Suc_leI Suc_leD add_Suc add_Suc_right le_neq_implies_less)
    with True Suc.IH [of "Suc i"] show ?thesis by (simp add: emptySlot_Suc)
  qed (auto simp: emptySlot_Suc intro!: exI [of _ i])
qed

lemma emptySlot_some:
  "emptySlot p i n \<noteq> - 1 \<Longrightarrow>
   \<exists>e. emptySlot p i n = int e \<and> i \<le> e \<and> e < i + n \<and> \<not> used p e"
proof (induction n arbitrary: i)
  case 0
  then show ?case by (simp add: emptySlot_0)
next
  case (Suc n)
  show ?case
  proof (cases "used p i")
    case True
    with Suc.IH [of "Suc i"] Suc.prems show ?thesis by (auto simp: emptySlot_Suc)
  qed (use Suc.prems in \<open>auto simp: emptySlot_Suc\<close>)
qed

text \<open>There is an empty slot among all slots from \<open>lo\<close> on iff the view has a hole there.\<close>

lemma emptySlot_hole:
  assumes "lo \<le> length (view p)"
  shows "emptySlot p lo (length (view p) - lo) \<noteq> - 1 \<longleftrightarrow> (\<exists>j. lo \<le> j \<and> j < length (view p) \<and> view p ! j = None)"
  unfolding emptySlot_none using assms by (auto simp: used_view)

end

end
