(* ===== verification/HeapPage.thy ===== *)
theory HeapPage
  imports Schema SlotView
begin

text \<open>
  \<open>HeapPage\<close> and \<open>HeapPageIterator\<close> (HeapPage.cpp, HeapPage_internal.cpp): a page of a heap
  file, with a header bitmap and an array of tuple slots. The page size is the one of the
  global buffer pool and is passed in. A page is a value; \<open>junk\<close> is the content of
  uninitialised memory.
\<close>

section \<open>The page and its operations\<close>

record heap_page =
  hp_pid :: page_id
  hp_td :: tuple_desc
  hp_header :: "byte list"
  hp_tuples :: "tuple list"
  hp_numSlots :: nat

definition heap_isSlotUsed :: "heap_page \<Rightarrow> nat \<Rightarrow> bool" where
  "heap_isSlotUsed p i = shift_used (hp_header p) i"

definition heap_markSlotUsed :: "heap_page \<Rightarrow> nat \<Rightarrow> bool \<Rightarrow> heap_page" where
  "heap_markSlotUsed p i v = p\<lparr>hp_header := shift_mark (hp_header p) i v\<rparr>"

text \<open>A slot number that comes from outside may lie outside the header.\<close>

definition heap_isSlotUsedE :: "heap_page \<Rightarrow> int \<Rightarrow> bool res" where
  "heap_isSlotUsedE p i =
     (if 0 \<le> i \<and> nat i < 8 * length (hp_header p) then Inr (heap_isSlotUsed p (nat i))
      else Inl OutOfBounds)"

definition heap_getNumTuples :: "nat \<Rightarrow> tuple_desc \<Rightarrow> nat" where
  "heap_getNumTuples pageSize td = pageSize * 8 div (getSize td * 8 + 1)"

definition heap_getHeaderSize :: "nat \<Rightarrow> tuple_desc \<Rightarrow> nat \<Rightarrow> nat" where
  "heap_getHeaderSize pageSize td numSlots = pageSize - getSize td * numSlots"

definition heap_readTuple ::
    "(nat \<Rightarrow> byte) \<Rightarrow> tuple_desc \<Rightarrow> page_id \<Rightarrow> byte list \<Rightarrow> nat \<Rightarrow> tuple res" where
  "heap_readTuple junk td pid data slotId =
     read_fields junk (td_items td) data 0
       (Tuple_new td (Some \<lparr>rid_pid = pid, rid_tupleno = int slotId\<rparr>))"

text \<open>The loop of the constructor over the slots, from slot \<open>slot\<close> on.\<close>

fun heap_read_slots ::
    "(nat \<Rightarrow> byte) \<Rightarrow> tuple_desc \<Rightarrow> page_id \<Rightarrow> byte list \<Rightarrow> byte list \<Rightarrow> nat \<Rightarrow> nat \<Rightarrow> nat \<Rightarrow> tuple list res"
where
  "heap_read_slots junk td pid header data offset slot 0 = Inr []"
| "heap_read_slots junk td pid header data offset slot (Suc n) =
     bindE (if shift_used header slot
            then heap_readTuple junk td pid (drop offset data) slot
            else Inr Tuple_default) (\<lambda>t.
     bindE (heap_read_slots junk td pid header data (offset + getSize td) (Suc slot) n) (\<lambda>ts.
       Inr (t # ts)))"

definition HeapPage_new ::
    "(nat \<Rightarrow> byte) \<Rightarrow> nat \<Rightarrow> tuple_desc \<Rightarrow> page_id \<Rightarrow> byte list \<Rightarrow> heap_page res" where
  "HeapPage_new junk pageSize td pid data =
     (let numSlots = heap_getNumTuples pageSize td;
          header_size = heap_getHeaderSize pageSize td numSlots in
      bindE (buf_read 0 header_size data) (\<lambda>header.
      bindE (heap_read_slots junk td pid header data header_size 0 numSlots) (\<lambda>tuples.
        Inr \<lparr>hp_pid = pid, hp_td = td, hp_header = header, hp_tuples = tuples,
             hp_numSlots = numSlots\<rparr>)))"

definition heap_createEmptyPageData :: "nat \<Rightarrow> byte list" where
  "heap_createEmptyPageData pageSize = replicate pageSize 0"

text \<open>Serialising one used slot: field \<open>j\<close> and the \<open>n\<close> fields after it.\<close>

fun heap_write_fields ::
    "(nat \<Rightarrow> byte) \<Rightarrow> tuple \<Rightarrow> nat \<Rightarrow> nat \<Rightarrow> nat \<Rightarrow> byte list \<Rightarrow> (nat \<times> byte list) res" where
  "heap_write_fields junk t j 0 offset data = Inr (offset, data)"
| "heap_write_fields junk t j (Suc n) offset data =
     bindE (getField t (int j)) (\<lambda>f.
     bindE (buf_write offset (field_serialize junk f) data) (\<lambda>data'.
       heap_write_fields junk t (Suc j) n (offset + getLen (getType f)) data'))"

fun heap_write_slots ::
    "(nat \<Rightarrow> byte) \<Rightarrow> heap_page \<Rightarrow> nat \<Rightarrow> nat \<Rightarrow> nat \<Rightarrow> byte list \<Rightarrow> byte list res" where
  "heap_write_slots junk p i 0 offset data = Inr data"
| "heap_write_slots junk p i (Suc n) offset data =
     bindE (nthE (hp_tuples p) i) (\<lambda>t.
       if \<not> heap_isSlotUsed p i
       then bindE (buf_write offset (replicate (getSize (hp_td p)) 0) data) (\<lambda>data'.
              heap_write_slots junk p (Suc i) n (offset + getSize (hp_td p)) data')
       else bindE (heap_write_fields junk t 0 (numFields (hp_td p)) offset data) (\<lambda>(offset', data').
              heap_write_slots junk p (Suc i) n offset' data'))"

definition heap_getPageData :: "(nat \<Rightarrow> byte) \<Rightarrow> nat \<Rightarrow> heap_page \<Rightarrow> byte list res" where
  "heap_getPageData junk pageSize p =
     (let header_size = heap_getHeaderSize pageSize (hp_td p) (hp_numSlots p) in
      bindE (buf_read 0 header_size (hp_header p)) (\<lambda>header.
      bindE (buf_write 0 header (heap_createEmptyPageData pageSize)) (\<lambda>data.
        heap_write_slots junk p 0 (hp_numSlots p) header_size data)))"

definition heap_getNumEmptySlots :: "heap_page \<Rightarrow> nat" where
  "heap_getNumEmptySlots p = length (filter (\<lambda>i. \<not> heap_isSlotUsed p i) [0..<hp_numSlots p])"

text \<open>
  The comparison of page ids is the record id's: \<open>*t->getRecordId()->getPageId() != pid\<close>.
\<close>

definition heap_deleteTuple :: "heap_page \<Rightarrow> tuple \<Rightarrow> heap_page res" where
  "heap_deleteTuple p t =
     bindE (derefE (tp_rid t)) (\<lambda>rid.
       let tupleNumber = rid_tupleno rid in
       if \<not> pid_eq (rid_pid rid) (hp_pid p) then Inl (RuntimeError ''Wrong page'')
       else bindE (heap_isSlotUsedE p tupleNumber) (\<lambda>used.
         if \<not> used then Inl (RuntimeError ''Empty slot'')
         else Inr (heap_markSlotUsed p (nat tupleNumber) False)))"

text \<open>\<open>while (isSlotUsed(slotIndex)) slotIndex++;\<close> stops at the end of the header.\<close>

function heap_first_free :: "heap_page \<Rightarrow> nat \<Rightarrow> nat res" where
  "heap_first_free p i =
     (if i < 8 * length (hp_header p)
      then (if heap_isSlotUsed p i then heap_first_free p (Suc i) else Inr i)
      else Inl OutOfBounds)"
  by pat_completeness auto
termination by (relation "measure (\<lambda>(p, i). 8 * length (hp_header p) - i)") auto

declare heap_first_free.simps [simp del]

text \<open>The tuple is the caller's object: it is returned with the record id it was given.\<close>

definition heap_insertTuple :: "heap_page \<Rightarrow> tuple \<Rightarrow> (tuple \<times> heap_page) res" where
  "heap_insertTuple p t =
     (if heap_getNumEmptySlots p \<le> 0 then Inl (RuntimeError ''No space'')
      else if \<not> td_eq (hp_td p) (tp_td t) then Inl (RuntimeError ''Wrong tuple description'')
      else bindE (heap_first_free p 0) (\<lambda>slotIndex.
        let p1 = heap_markSlotUsed p slotIndex True;
            t1 = setRecordId t (Some \<lparr>rid_pid = hp_pid p, rid_tupleno = int slotIndex\<rparr>) in
        if slotIndex < length (hp_tuples p1)
        then Inr (t1, p1\<lparr>hp_tuples := (hp_tuples p1)[slotIndex := t1]\<rparr>)
        else Inl OutOfBounds))"

section \<open>The iterator\<close>

text \<open>An iterator is a slot number; the page it points to is passed along.\<close>

function hpi_skip :: "heap_page \<Rightarrow> nat \<Rightarrow> nat" where
  "hpi_skip p slot =
     (if slot < hp_numSlots p \<and> \<not> heap_isSlotUsed p slot then hpi_skip p (Suc slot) else slot)"
  by pat_completeness auto
termination by (relation "measure (\<lambda>(p, i). hp_numSlots p - i)") auto

declare hpi_skip.simps [simp del]

definition hpi_new :: "nat \<Rightarrow> heap_page \<Rightarrow> nat" where
  "hpi_new i p = hpi_skip p i"

definition hpi_next :: "heap_page \<Rightarrow> nat \<Rightarrow> nat" where
  "hpi_next p slot = hpi_skip p (Suc slot)"

definition hpi_deref :: "heap_page \<Rightarrow> nat \<Rightarrow> tuple res" where
  "hpi_deref p slot = nthE (hp_tuples p) slot"

definition heap_begin :: "heap_page \<Rightarrow> nat" where
  "heap_begin p = hpi_new 0 p"

definition heap_end :: "heap_page \<Rightarrow> nat" where
  "heap_end p = hpi_new (hp_numSlots p) p"

section \<open>Well-formed pages\<close>

text \<open>What a page holds: one optional tuple per slot, and the tuples in slot order.\<close>

definition heap_view :: "heap_page \<Rightarrow> tuple option list" where
  "heap_view p =
     map (\<lambda>i. if shift_used (hp_header p) i then Some (hp_tuples p ! i) else None) [0..<hp_numSlots p]"

definition heap_tuples :: "heap_page \<Rightarrow> tuple list" where
  "heap_tuples p = somes (heap_view p)"

text \<open>
  The invariant: the sizes the constructor computes, and every used slot holds a tuple of the
  page's schema whose record id is that slot.
\<close>

definition heap_ok :: "nat \<Rightarrow> heap_page \<Rightarrow> bool" where
  "heap_ok pageSize p \<longleftrightarrow>
     hp_numSlots p = heap_getNumTuples pageSize (hp_td p) \<and>
     length (hp_header p) = heap_getHeaderSize pageSize (hp_td p) (hp_numSlots p) \<and>
     length (hp_tuples p) = hp_numSlots p \<and>
     (\<forall>i < hp_numSlots p. heap_isSlotUsed p i \<longrightarrow>
        tp_rid (hp_tuples p ! i) = Some \<lparr>rid_pid = hp_pid p, rid_tupleno = int i\<rparr> \<and>
        td_eq (hp_td p) (tp_td (hp_tuples p ! i)))"

lemma numSlots_le_header:
  fixes n s :: nat
  assumes n: "n = pageSize * 8 div (s * 8 + 1)"
  shows "n \<le> 8 * (pageSize - s * n)"
proof -
  have "n * (s * 8 + 1) \<le> pageSize * 8"
    unfolding n by (rule div_times_less_eq_dividend)
  then have "8 * (s * n) + n \<le> 8 * pageSize" by (simp add: algebra_simps)
  then show ?thesis by (simp add: diff_mult_distrib2)
qed

lemma heap_ok_slots: "heap_ok pageSize p \<Longrightarrow> hp_numSlots p \<le> 8 * length (hp_header p)"
  unfolding heap_ok_def heap_getNumTuples_def heap_getHeaderSize_def
  using numSlots_le_header [of "hp_numSlots p" pageSize "getSize (hp_td p)"] by simp

lemma length_heap_view [simp]: "length (heap_view p) = hp_numSlots p"
  by (simp add: heap_view_def)

lemma heap_view_nth:
  "i < hp_numSlots p \<Longrightarrow>
   heap_view p ! i = (if heap_isSlotUsed p i then Some (hp_tuples p ! i) else None)"
  by (simp add: heap_view_def heap_isSlotUsed_def)

lemma heap_empty_view:
  "heap_getNumEmptySlots p = length (filter (\<lambda>o'. o' = None) (heap_view p))"
  by (simp add: heap_getNumEmptySlots_def heap_view_def heap_isSlotUsed_def filter_map comp_def)

text \<open>The occupancy count is the number of slots not in \<open>heap_tuples\<close>.\<close>

lemma heap_occupancy: "length (heap_tuples p) + heap_getNumEmptySlots p = hp_numSlots p"
  using length_somes_None [of "heap_view p"] by (simp add: heap_tuples_def heap_empty_view)

lemma heap_has_room:
  "0 < heap_getNumEmptySlots p \<longleftrightarrow> (\<exists>i < hp_numSlots p. \<not> heap_isSlotUsed p i)"
  by (auto simp: heap_getNumEmptySlots_def filter_empty_conv)

section \<open>Searching for a free slot\<close>

lemma heap_first_free_Inr:
  "heap_first_free p i = Inr s \<longleftrightarrow>
   i \<le> s \<and> s < 8 * length (hp_header p) \<and> \<not> heap_isSlotUsed p s \<and>
   (\<forall>j. i \<le> j \<and> j < s \<longrightarrow> heap_isSlotUsed p j)"
proof (induction p i rule: heap_first_free.induct)
  case (1 p i)
  show ?case
  proof (cases "i < 8 * length (hp_header p) \<and> heap_isSlotUsed p i")
    case True
    have "(Suc i \<le> s \<and> (\<forall>j. Suc i \<le> j \<and> j < s \<longrightarrow> heap_isSlotUsed p j)) \<and> \<not> heap_isSlotUsed p s \<longleftrightarrow>
          (i \<le> s \<and> (\<forall>j. i \<le> j \<and> j < s \<longrightarrow> heap_isSlotUsed p j)) \<and> \<not> heap_isSlotUsed p s"
      using True by (metis Suc_leD Suc_leI le_neq_implies_less)
    with True "1.IH" show ?thesis by (auto simp: heap_first_free.simps [of p i])
  next
    case False
    then show ?thesis by (auto simp: heap_first_free.simps [of p i] le_less)
  qed
qed

lemma heap_first_free_least:
  assumes "i < 8 * length (hp_header p)" "\<not> heap_isSlotUsed p i"
  shows "\<exists>s \<le> i. heap_first_free p 0 = Inr s \<and> \<not> heap_isSlotUsed p s \<and> (\<forall>j < s. heap_isSlotUsed p j)"
proof -
  obtain s where s: "\<not> heap_isSlotUsed p s" "\<forall>j < s. heap_isSlotUsed p j" "s \<le> i"
    using exists_least_iff [of "\<lambda>s. \<not> heap_isSlotUsed p s"] assms(2) by (metis not_le)
  moreover have "heap_first_free p 0 = Inr s"
    using s assms(1) by (simp add: heap_first_free_Inr)
  ultimately show ?thesis by auto
qed

section \<open>Insertion and deletion\<close>

lemma heap_view_update:
  assumes "s < hp_numSlots p" "hp_numSlots p \<le> 8 * length (hp_header p)"
    "length (hp_tuples p) = hp_numSlots p"
  shows "heap_view (p\<lparr>hp_header := shift_mark (hp_header p) s True, hp_tuples := (hp_tuples p)[s := t]\<rparr>)
         = (heap_view p)[s := Some t]"
  using assms by (intro nth_equalityI)
    (auto simp: heap_view_def shift_used_mark nth_list_update)

lemma heap_view_delete:
  assumes "s < hp_numSlots p" "hp_numSlots p \<le> 8 * length (hp_header p)"
  shows "heap_view (heap_markSlotUsed p s False) = (heap_view p)[s := None]"
  using shift.view_mark_free [OF assms, of "\<lambda>i. hp_tuples p ! i"]
  by (simp add: heap_view_def heap_markSlotUsed_def cong: if_cong)

lemma heap_insert_step:
  assumes ok: "heap_ok pageSize p" and td: "td_eq (hp_td p) (tp_td t)"
    and room: "0 < heap_getNumEmptySlots p"
  obtains s where
    "s < hp_numSlots p" "heap_view p ! s = None" "\<forall>i < s. heap_view p ! i \<noteq> None"
    "heap_insertTuple p t =
       Inr (setRecordId t (Some \<lparr>rid_pid = hp_pid p, rid_tupleno = int s\<rparr>),
            p\<lparr>hp_header := shift_mark (hp_header p) s True,
              hp_tuples := (hp_tuples p)[s :=
                setRecordId t (Some \<lparr>rid_pid = hp_pid p, rid_tupleno = int s\<rparr>)]\<rparr>)"
proof -
  have n: "hp_numSlots p \<le> 8 * length (hp_header p)" by (rule heap_ok_slots [OF ok])
  from room obtain i where i: "i < hp_numSlots p" "\<not> heap_isSlotUsed p i"
    by (auto simp: heap_has_room)
  with n obtain s where s: "s \<le> i" "heap_first_free p 0 = Inr s" "\<not> heap_isSlotUsed p s"
      "\<forall>j < s. heap_isSlotUsed p j"
    using heap_first_free_least [of i p] by auto
  then have "s < hp_numSlots p" using i by simp
  moreover have "length (hp_tuples p) = hp_numSlots p" using ok by (simp add: heap_ok_def)
  ultimately show ?thesis
    using that [of s] s td room
    by (simp add: heap_insertTuple_def heap_view_nth heap_markSlotUsed_def Let_def)
qed

lemma heap_ok_insert:
  assumes ok: "heap_ok pageSize p" and td: "td_eq (hp_td p) (tp_td t)" and s: "s < hp_numSlots p"
  shows "heap_ok pageSize
     (p\<lparr>hp_header := shift_mark (hp_header p) s True,
        hp_tuples := (hp_tuples p)[s :=
          setRecordId t (Some \<lparr>rid_pid = hp_pid p, rid_tupleno = int s\<rparr>)]\<rparr>)"
  using heap_ok_slots [OF ok] assms
  by (auto simp: heap_ok_def heap_isSlotUsed_def shift_used_mark nth_list_update setRecordId_def)

lemma heap_ok_delete:
  assumes "heap_ok pageSize p" "s < hp_numSlots p"
  shows "heap_ok pageSize (heap_markSlotUsed p s False)"
  using heap_ok_slots [OF assms(1)] assms
  by (auto simp: heap_ok_def heap_isSlotUsed_def heap_markSlotUsed_def shift_used_mark)

lemma heap_delete_step:
  assumes "heap_ok pageSize p" "i < hp_numSlots p" "heap_view p ! i = Some t"
  shows "heap_deleteTuple p t = Inr (heap_markSlotUsed p i False)"
proof -
  have "heap_isSlotUsed p i" "t = hp_tuples p ! i"
    using assms by (auto simp: heap_view_nth split: if_splits)
  moreover from this have "tp_rid t = Some \<lparr>rid_pid = hp_pid p, rid_tupleno = int i\<rparr>"
    using assms by (simp add: heap_ok_def)
  ultimately show ?thesis
    using assms heap_ok_slots [OF assms(1)]
    by (simp add: heap_deleteTuple_def heap_isSlotUsedE_def)
qed

section \<open>Iteration\<close>

lemma hpi_skip_spec:
  "i \<le> hp_numSlots p \<Longrightarrow>
   i \<le> hpi_skip p i \<and> hpi_skip p i \<le> hp_numSlots p \<and>
   (hpi_skip p i < hp_numSlots p \<longrightarrow> heap_isSlotUsed p (hpi_skip p i)) \<and>
   (\<forall>j. i \<le> j \<and> j < hpi_skip p i \<longrightarrow> \<not> heap_isSlotUsed p j)"
proof (induction p i rule: hpi_skip.induct)
  case (1 p i)
  show ?case
  proof (cases "i < hp_numSlots p \<and> \<not> heap_isSlotUsed p i")
    case True
    then have eq: "hpi_skip p i = hpi_skip p (Suc i)" by (subst hpi_skip.simps) simp
    from True "1.IH" have IH: "Suc i \<le> hpi_skip p (Suc i)" "hpi_skip p (Suc i) \<le> hp_numSlots p"
        "hpi_skip p (Suc i) < hp_numSlots p \<longrightarrow> heap_isSlotUsed p (hpi_skip p (Suc i))"
        "\<forall>j. Suc i \<le> j \<and> j < hpi_skip p (Suc i) \<longrightarrow> \<not> heap_isSlotUsed p j"
      by auto
    then have "\<forall>j. i \<le> j \<and> j < hpi_skip p (Suc i) \<longrightarrow> \<not> heap_isSlotUsed p j"
      using True by (metis Suc_leI le_neq_implies_less)
    with IH show ?thesis unfolding eq by simp
  next
    case False
    then have "hpi_skip p i = i" by (subst hpi_skip.simps) auto
    with False "1.prems" show ?thesis by auto
  qed
qed

text \<open>
  The loop \<open>for (it = begin; it != end; ++it) use(*it)\<close> from an iterator at \<open>slot\<close>. Below
  \<open>numSlots\<close> the iterator differs from \<open>end\<close>, and it never passes \<open>numSlots\<close>.
\<close>

function heap_scan :: "heap_page \<Rightarrow> nat \<Rightarrow> tuple list res" where
  "heap_scan p slot =
     (if slot < heap_end p
      then bindE (hpi_deref p slot) (\<lambda>t.
             bindE (heap_scan p (hpi_next p slot)) (\<lambda>ts. Inr (t # ts)))
      else Inr [])"
  by pat_completeness auto
termination
proof (relation "measure (\<lambda>(p, i). heap_end p - i)")
  fix p slot x
  assume "slot < heap_end p"
  moreover have "heap_end p = hp_numSlots p"
    by (simp add: heap_end_def hpi_new_def hpi_skip.simps)
  ultimately have "Suc slot \<le> hpi_skip p (Suc slot)" using hpi_skip_spec [of "Suc slot" p] by simp
  with \<open>slot < heap_end p\<close> show "((p, hpi_next p slot), p, slot) \<in> measure (\<lambda>(p, i). heap_end p - i)"
    by (simp add: hpi_next_def)
qed simp

declare heap_scan.simps [simp del]

lemma heap_end_eq [simp]: "heap_end p = hp_numSlots p"
  by (simp add: heap_end_def hpi_new_def hpi_skip.simps)

lemma heap_view_drop_skip:
  assumes "i \<le> hp_numSlots p"
  shows "somes (drop i (heap_view p)) = somes (drop (hpi_skip p i) (heap_view p))"
proof -
  let ?k = "hpi_skip p i"
  have sp: "i \<le> ?k" "?k \<le> hp_numSlots p" "\<forall>j. i \<le> j \<and> j < ?k \<longrightarrow> \<not> heap_isSlotUsed p j"
    using hpi_skip_spec [OF assms] by auto
  have "drop i (heap_view p) = take (?k - i) (drop i (heap_view p)) @ drop ?k (heap_view p)"
    using sp(1) by (metis add.commute append_take_drop_id drop_drop le_add_diff_inverse)
  moreover have "somes (take (?k - i) (drop i (heap_view p))) = []"
    using sp by (auto simp: somes_Nil_iff in_set_conv_nth heap_view_nth)
  ultimately show ?thesis by (metis append_Nil somes_append)
qed

lemma heap_scan_view:
  assumes "length (hp_tuples p) = hp_numSlots p" "i \<le> hp_numSlots p"
  shows "heap_scan p (hpi_skip p i) = Inr (somes (drop i (heap_view p)))"
  using assms(2)
proof (induction "hp_numSlots p - i" arbitrary: i rule: less_induct)
  case less
  let ?k = "hpi_skip p i"
  have sp: "i \<le> ?k" "?k \<le> hp_numSlots p" "?k < hp_numSlots p \<longrightarrow> heap_isSlotUsed p ?k"
    using hpi_skip_spec [OF less.prems] by auto
  show ?case
  proof (cases "?k < hp_numSlots p")
    case True
    have "heap_scan p (hpi_skip p (Suc ?k)) = Inr (somes (drop (Suc ?k) (heap_view p)))"
      using less.hyps [of "Suc ?k"] True sp by simp
    moreover have "drop ?k (heap_view p) = Some (hp_tuples p ! ?k) # drop (Suc ?k) (heap_view p)"
      using True sp by (simp add: Cons_nth_drop_Suc [symmetric] heap_view_nth)
    ultimately show ?thesis
      using True assms(1)
      by (simp add: heap_view_drop_skip [OF less.prems] heap_scan.simps [of p ?k] hpi_next_def hpi_deref_def)
  next
    case False
    then have "heap_scan p ?k = Inr []" by (subst heap_scan.simps) simp
    with False sp show ?thesis by (simp add: heap_view_drop_skip [OF less.prems])
  qed
qed

end
