(* ===== verification/BTreePage.thy ===== *)
theory BTreePage
  imports Schema
begin

text \<open>
  \<open>BTreePage\<close> (BTreePage.cpp), the base class of leaf and internal pages: the page id, the
  schema, the key column and the parent pointer. The two subclasses extend the record, as the
  classes extend the base class.
\<close>

record btree_page =
  bp_pid :: page_id
  bp_td :: tuple_desc
  bp_keyField :: int
  bp_parent :: int

definition btree_createEmptyPageData :: "nat \<Rightarrow> byte list" where
  "btree_createEmptyPageData pageSize = replicate pageSize 0"

definition setParentId :: "'a btree_page_scheme \<Rightarrow> page_id option \<Rightarrow> 'a btree_page_scheme res" where
  "setParentId p pid =
     bindE (assertE (pid \<noteq> None)) (\<lambda>_.
     bindE (derefE pid) (\<lambda>i.
     bindE (assertE (getTableId i = getTableId (bp_pid p))) (\<lambda>_.
     bindE (assertE (btree_type i = INTERNAL \<or> btree_type i = ROOT_PTR)) (\<lambda>_.
       if btree_type i = ROOT_PTR then Inr (p\<lparr>bp_parent := 0\<rparr>)
       else Inr (p\<lparr>bp_parent := pageNumber i\<rparr>)))))"

definition getParentId :: "'a btree_page_scheme \<Rightarrow> page_id" where
  "getParentId p =
     (if bp_parent p = 0 then BTreePageId (getTableId (bp_pid p)) 0 ROOT_PTR
      else BTreePageId (getTableId (bp_pid p)) (bp_parent p) INTERNAL)"

text \<open>A parent that has been set is the one that is read back.\<close>

lemma getParentId_setParentId:
  "setParentId p (Some (BTreePageId t n INTERNAL)) = Inr p' \<Longrightarrow> n \<noteq> 0 \<Longrightarrow>
   getParentId p' = BTreePageId t n INTERNAL"
  by (auto simp: setParentId_def getParentId_def bindE_eq_Inr)

lemma setParentId_internal [simp]:
  "getTableId (bp_pid p) = t \<Longrightarrow>
   setParentId p (Some (BTreePageId t n INTERNAL)) = Inr (p\<lparr>bp_parent := n\<rparr>)"
  by (simp add: setParentId_def)

end
