(* ===== verification/BTreeLeafPage.thy ===== *)
theory BTreeLeafPage
  imports BTreePage SlotView
begin

text \<open>
  \<open>BTreeLeafPage\<close> and its iterator (BTreeLeafPage.cpp): the sorted tuples of a leaf, kept in
  slots with holes, and the two sibling pointers.
\<close>

section \<open>The page\<close>

record leaf_page = btree_page +
  lp_header :: "byte list"
  lp_tuples :: "tuple list"
  lp_numSlots :: nat
  lp_leftSibling :: int
  lp_rightSibling :: int

definition leaf_isSlotUsed :: "leaf_page \<Rightarrow> nat \<Rightarrow> bool" where
  "leaf_isSlotUsed p i = mod_used (lp_header p) i"

definition leaf_markSlotUsed :: "leaf_page \<Rightarrow> nat \<Rightarrow> bool \<Rightarrow> leaf_page" where
  "leaf_markSlotUsed p i v = p\<lparr>lp_header := mod_mark (lp_header p) i v\<rparr>"

text \<open>A slot number from a record id or an iterator may lie outside the header.\<close>

definition leaf_isSlotUsedE :: "leaf_page \<Rightarrow> int \<Rightarrow> bool res" where
  "leaf_isSlotUsedE p i =
     (if 0 \<le> i \<and> nat i < 8 * length (lp_header p) then Inr (leaf_isSlotUsed p (nat i))
      else Inl OutOfBounds)"

text \<open>\<open>sizeof(int)\<close> is unsigned, so the subtraction from the page size wraps.\<close>

definition leaf_getMaxTuples :: "nat \<Rightarrow> tuple_desc \<Rightarrow> nat" where
  "leaf_getMaxTuples pageSize td = usize ((int pageSize - 12) * 8) div (getSize td * 8 + 1)"

definition leaf_getHeaderSize :: "nat \<Rightarrow> tuple_desc \<Rightarrow> nat \<Rightarrow> nat" where
  "leaf_getHeaderSize pageSize td numSlots = usize (int pageSize - int (getSize td * numSlots))"

definition leaf_readTuple ::
    "(nat \<Rightarrow> byte) \<Rightarrow> tuple_desc \<Rightarrow> page_id \<Rightarrow> byte list \<Rightarrow> nat \<Rightarrow> tuple res" where
  "leaf_readTuple junk td pid data slotId =
     read_fields junk (td_items td) data 0
       (Tuple_new td (Some \<lparr>rid_pid = pid, rid_tupleno = int slotId\<rparr>))"

fun leaf_readTuples ::
    "(nat \<Rightarrow> byte) \<Rightarrow> tuple_desc \<Rightarrow> page_id \<Rightarrow> byte list \<Rightarrow> byte list \<Rightarrow> nat \<Rightarrow> nat \<Rightarrow> nat \<Rightarrow> tuple list res"
where
  "leaf_readTuples junk td pid header data offset slot 0 = Inr []"
| "leaf_readTuples junk td pid header data offset slot (Suc n) =
     bindE (if mod_used header slot
            then leaf_readTuple junk td pid (drop offset data) slot
            else Inr Tuple_default) (\<lambda>t.
     bindE (leaf_readTuples junk td pid header data (offset + getSize td) (Suc slot) n) (\<lambda>ts.
       Inr (t # ts)))"

definition BTreeLeafPage_new ::
    "(nat \<Rightarrow> byte) \<Rightarrow> nat \<Rightarrow> tuple_desc \<Rightarrow> page_id \<Rightarrow> byte list \<Rightarrow> int \<Rightarrow> leaf_page res" where
  "BTreeLeafPage_new junk pageSize td pid data key =
     (let numSlots = leaf_getMaxTuples pageSize td;
          header_size = leaf_getHeaderSize pageSize td numSlots;
          offset = 12 + header_size in
      bindE (buf_read 0 4 data) (\<lambda>b0.
      bindE (buf_read 4 4 data) (\<lambda>b1.
      bindE (buf_read 8 4 data) (\<lambda>b2.
      bindE (buf_read 12 header_size data) (\<lambda>header.
      bindE (leaf_readTuples junk td pid header (drop offset data) 0 0 numSlots) (\<lambda>tuples.
        Inr \<lparr>bp_pid = pid, bp_td = td, bp_keyField = key, bp_parent = bytes_int b0,
             lp_header = header, lp_tuples = tuples, lp_numSlots = numSlots,
             lp_leftSibling = bytes_int b1, lp_rightSibling = bytes_int b2\<rparr>))))))"

section \<open>Operations\<close>

definition leaf_moveRecord :: "leaf_page \<Rightarrow> nat \<Rightarrow> nat \<Rightarrow> leaf_page" where
  "leaf_moveRecord p from to =
     (if \<not> leaf_isSlotUsed p to \<and> leaf_isSlotUsed p from
      then let p1 = leaf_markSlotUsed p to True;
               t = setRecordId (lp_tuples p1 ! from)
                     (Some \<lparr>rid_pid = bp_pid p1, rid_tupleno = int to\<rparr>);
               p2 = p1\<lparr>lp_tuples := (lp_tuples p1)[to := t]\<rparr>
           in leaf_markSlotUsed p2 from False
      else p)"

text \<open>
  \<open>deleteTuple\<close> takes the tuple by pointer and clears its record id: the changed tuple is
  returned with the page.
\<close>

definition leaf_deleteTuple :: "leaf_page \<Rightarrow> tuple \<Rightarrow> (tuple \<times> leaf_page) res" where
  "leaf_deleteTuple p t =
     bindE (assertE (tp_rid t \<noteq> None)) (\<lambda>_.
     bindE (derefE (tp_rid t)) (\<lambda>rid.
     bindE (assertE (pageNumber (rid_pid rid) = pageNumber (bp_pid p) \<and>
                     getTableId (rid_pid rid) = getTableId (bp_pid p))) (\<lambda>_.
     bindE (leaf_isSlotUsedE p (rid_tupleno rid)) (\<lambda>used.
     bindE (assertE used) (\<lambda>_.
       Inr (setRecordId t None, leaf_markSlotUsed p (nat (rid_tupleno rid)) False))))))"

text \<open>The first empty slot among the \<open>n\<close> slots from \<open>i\<close> on, or \<open>-1\<close>.\<close>

fun leaf_emptySlot :: "leaf_page \<Rightarrow> nat \<Rightarrow> nat \<Rightarrow> int" where
  "leaf_emptySlot p i 0 = - 1"
| "leaf_emptySlot p i (Suc n) =
     (if \<not> leaf_isSlotUsed p i then int i else leaf_emptySlot p (Suc i) n)"

text \<open>The last used slot before the first key that is not \<open><=\<close> the given one.\<close>

fun leaf_lessOrEqKey :: "leaf_page \<Rightarrow> field \<Rightarrow> nat \<Rightarrow> nat \<Rightarrow> int \<Rightarrow> int res" where
  "leaf_lessOrEqKey p key i 0 le = Inr le"
| "leaf_lessOrEqKey p key i (Suc n) le =
     (if leaf_isSlotUsed p i
      then bindE (getField (lp_tuples p ! i) (bp_keyField p)) (\<lambda>f.
           bindE (field_compare f LESS_THAN_OR_EQ (Some key)) (\<lambda>c.
             if \<not> c then Inr le else leaf_lessOrEqKey p key (Suc i) n (int i)))
      else leaf_lessOrEqKey p key (Suc i) n le)"

function leaf_shift_down :: "leaf_page \<Rightarrow> nat \<Rightarrow> nat \<Rightarrow> leaf_page" where
  "leaf_shift_down p i l =
     (if i < l then leaf_shift_down (leaf_moveRecord p (Suc i) i) (Suc i) l else p)"
  by pat_completeness auto
termination by (relation "measure (\<lambda>(p, i, l). l - i)") auto

function leaf_shift_up :: "leaf_page \<Rightarrow> nat \<Rightarrow> nat \<Rightarrow> leaf_page" where
  "leaf_shift_up p i g =
     (if g < i then leaf_shift_up (leaf_moveRecord p (i - 1) i) (i - 1) g else p)"
  by pat_completeness auto
termination by (relation "measure (\<lambda>(p, i, g). i)") auto

declare leaf_shift_down.simps [simp del] leaf_shift_up.simps [simp del]

text \<open>The tuple is the caller's object and is returned with its new record id.\<close>

definition leaf_insertTuple :: "leaf_page \<Rightarrow> tuple \<Rightarrow> (tuple \<times> leaf_page) res" where
  "leaf_insertTuple p t =
     bindE (assertE (td_eq (tp_td t) (bp_td p))) (\<lambda>_.
     let emptySlot = leaf_emptySlot p 0 (lp_numSlots p) in
     bindE (assertE (emptySlot \<noteq> - 1)) (\<lambda>_.
     bindE (getField t (bp_keyField p)) (\<lambda>key.
     bindE (leaf_lessOrEqKey p key 0 (lp_numSlots p) (- 1)) (\<lambda>lessOrEqKey.
     let (p1, goodSlot) =
           (if emptySlot < lessOrEqKey
            then (leaf_shift_down p (nat emptySlot) (nat lessOrEqKey), nat lessOrEqKey)
            else (leaf_shift_up p (nat emptySlot) (nat (lessOrEqKey + 1)), nat (lessOrEqKey + 1)));
         p2 = leaf_markSlotUsed p1 goodSlot True;
         t1 = setRecordId t (Some \<lparr>rid_pid = bp_pid p, rid_tupleno = int goodSlot\<rparr>)
     in Inr (t1, p2\<lparr>lp_tuples := (lp_tuples p2)[goodSlot := t1]\<rparr>)))))"

definition getLeftSiblingId :: "leaf_page \<Rightarrow> page_id option" where
  "getLeftSiblingId p =
     (if lp_leftSibling p = 0 then None
      else Some (BTreePageId (getTableId (bp_pid p)) (lp_leftSibling p) LEAF))"

definition getRightSiblingId :: "leaf_page \<Rightarrow> page_id option" where
  "getRightSiblingId p =
     (if lp_rightSibling p = 0 then None
      else Some (BTreePageId (getTableId (bp_pid p)) (lp_rightSibling p) LEAF))"

definition setLeftSiblingId :: "leaf_page \<Rightarrow> page_id option \<Rightarrow> leaf_page res" where
  "setLeftSiblingId p pid =
     (case pid of None \<Rightarrow> Inr (p\<lparr>lp_leftSibling := 0\<rparr>)
      | Some i \<Rightarrow>
          bindE (assertE (getTableId i = getTableId (bp_pid p))) (\<lambda>_.
          bindE (assertE (btree_type i = LEAF)) (\<lambda>_.
            Inr (p\<lparr>lp_leftSibling := pageNumber i\<rparr>))))"

definition setRightSiblingId :: "leaf_page \<Rightarrow> page_id option \<Rightarrow> leaf_page res" where
  "setRightSiblingId p pid =
     (case pid of None \<Rightarrow> Inr (p\<lparr>lp_rightSibling := 0\<rparr>)
      | Some i \<Rightarrow>
          bindE (assertE (getTableId i = getTableId (bp_pid p))) (\<lambda>_.
          bindE (assertE (btree_type i = LEAF)) (\<lambda>_.
            Inr (p\<lparr>lp_rightSibling := pageNumber i\<rparr>))))"

definition leaf_getNumEmptySlots :: "leaf_page \<Rightarrow> nat" where
  "leaf_getNumEmptySlots p = length (filter (\<lambda>i. \<not> leaf_isSlotUsed p i) [0..<lp_numSlots p])"

definition leaf_getNumTuples :: "leaf_page \<Rightarrow> nat" where
  "leaf_getNumTuples p = lp_numSlots p - leaf_getNumEmptySlots p"

text \<open>\<open>getTuple\<close> returns a pointer into the array of tuples: null, or a slot number.\<close>

definition leaf_getTuple :: "leaf_page \<Rightarrow> int \<Rightarrow> nat option res" where
  "leaf_getTuple p i =
     bindE (assertE (i < int (lp_numSlots p))) (\<lambda>_.
     bindE (leaf_isSlotUsedE p i) (\<lambda>used.
       if \<not> used then Inr None else Inr (Some (nat i))))"

section \<open>Serialisation\<close>

text \<open>Every field of a tuple is written at the offset of the tuple, which does not advance.\<close>

fun leaf_write_fields ::
    "(nat \<Rightarrow> byte) \<Rightarrow> tuple \<Rightarrow> nat \<Rightarrow> nat \<Rightarrow> nat \<Rightarrow> byte list \<Rightarrow> byte list res" where
  "leaf_write_fields junk t j 0 offset data = Inr data"
| "leaf_write_fields junk t j (Suc n) offset data =
     bindE (getField t (int j)) (\<lambda>f.
     bindE (buf_write offset (field_serialize junk f) data) (\<lambda>data'.
       leaf_write_fields junk t (Suc j) n offset data'))"

fun leaf_write_slots ::
    "(nat \<Rightarrow> byte) \<Rightarrow> leaf_page \<Rightarrow> nat \<Rightarrow> nat \<Rightarrow> nat \<Rightarrow> byte list \<Rightarrow> byte list res" where
  "leaf_write_slots junk p i 0 offset data = Inr data"
| "leaf_write_slots junk p i (Suc n) offset data =
     bindE (if leaf_isSlotUsed p i
            then bindE (nthE (lp_tuples p) i) (\<lambda>t.
                   leaf_write_fields junk t 0 (numFields (bp_td p)) offset data)
            else Inr data) (\<lambda>data'.
       leaf_write_slots junk p (Suc i) n (offset + getSize (bp_td p)) data')"

definition leaf_getPageData :: "(nat \<Rightarrow> byte) \<Rightarrow> nat \<Rightarrow> leaf_page \<Rightarrow> byte list res" where
  "leaf_getPageData junk pageSize p =
     (let header_size = leaf_getHeaderSize pageSize (bp_td p) (lp_numSlots p) in
      bindE (buf_write 0 (int_bytes (bp_parent p)) (btree_createEmptyPageData pageSize)) (\<lambda>d0.
      bindE (buf_write 4 (int_bytes (lp_leftSibling p)) d0) (\<lambda>d1.
      bindE (buf_write 8 (int_bytes (lp_rightSibling p)) d1) (\<lambda>d2.
      bindE (buf_read 0 header_size (lp_header p)) (\<lambda>header.
      bindE (buf_write 12 header d2) (\<lambda>d3.
        leaf_write_slots junk p 0 (lp_numSlots p) (12 + header_size) d3))))))"

section \<open>The iterator\<close>

record leaf_iter =
  li_index :: int
  li_reverse :: bool

definition leaf_iter_ne :: "leaf_iter \<Rightarrow> leaf_iter \<Rightarrow> bool" where
  "leaf_iter_ne a b \<longleftrightarrow> li_index a \<noteq> li_index b"

text \<open>\<open>while (--index >= 0) if (isSlotUsed(index)) break;\<close> gives the index below \<open>i\<close>.\<close>

fun leaf_prev_used :: "leaf_page \<Rightarrow> nat \<Rightarrow> int" where
  "leaf_prev_used p 0 = - 1"
| "leaf_prev_used p (Suc i) = (if leaf_isSlotUsed p i then int i else leaf_prev_used p i)"

text \<open>The first used index from \<open>i\<close> on, or \<open>numSlots\<close> (an index past it is kept).\<close>

function leaf_next_used :: "leaf_page \<Rightarrow> nat \<Rightarrow> nat" where
  "leaf_next_used p i =
     (if i < lp_numSlots p
      then (if leaf_isSlotUsed p i then i else leaf_next_used p (Suc i)) else i)"
  by pat_completeness auto
termination by (relation "measure (\<lambda>(p, i). lp_numSlots p - i)") auto

declare leaf_next_used.simps [simp del]

definition leaf_iter_next :: "leaf_page \<Rightarrow> leaf_iter \<Rightarrow> leaf_iter" where
  "leaf_iter_next p it =
     (if li_reverse it
      then it\<lparr>li_index := (if li_index it - 1 < 0 then li_index it - 1
                           else leaf_prev_used p (nat (li_index it)))\<rparr>
      else it\<lparr>li_index := int (leaf_next_used p (nat (li_index it + 1)))\<rparr>)"

text \<open>\<open>*it\<close> dereferences the pointer \<open>getTuple\<close> returns.\<close>

definition leaf_iter_deref :: "leaf_page \<Rightarrow> leaf_iter \<Rightarrow> nat res" where
  "leaf_iter_deref p it = bindE (leaf_getTuple p (li_index it)) derefE"

definition leaf_begin :: "leaf_page \<Rightarrow> leaf_iter" where
  "leaf_begin p = \<lparr>li_index = int (leaf_next_used p 0), li_reverse = False\<rparr>"

definition leaf_end :: "leaf_page \<Rightarrow> leaf_iter" where
  "leaf_end p = \<lparr>li_index = int (lp_numSlots p), li_reverse = False\<rparr>"

definition leaf_rbegin :: "leaf_page \<Rightarrow> leaf_iter" where
  "leaf_rbegin p = \<lparr>li_index = leaf_prev_used p (lp_numSlots p), li_reverse = True\<rparr>"

definition leaf_rend :: leaf_iter where
  "leaf_rend = \<lparr>li_index = - 1, li_reverse = True\<rparr>"

section \<open>Well-formed leaves\<close>

text \<open>
  The record id of a tuple says where it is stored; \<open>strip\<close> forgets it. The view of a leaf has
  the stripped tuple of every used slot.
\<close>

definition strip :: "tuple \<Rightarrow> tuple" where
  "strip t = t\<lparr>tp_rid := None\<rparr>"

lemma strip_setRecordId [simp]: "strip (setRecordId t r) = strip t"
  by (simp add: strip_def setRecordId_def)

lemma strip_simps [simp]:
  "tp_fields (strip t) = tp_fields t" "tp_td (strip t) = tp_td t" "strip (strip t) = strip t"
  by (simp_all add: strip_def)

lemma setRecordId_simps [simp]:
  "tp_fields (setRecordId t r) = tp_fields t" "tp_td (setRecordId t r) = tp_td t"
  "tp_rid (setRecordId t r) = r"
  by (simp_all add: setRecordId_def)

lemma fits_strip [simp]: "fits td (strip t) = fits td t"
  by (simp add: fits_def)

lemma fits_setRecordId [simp]: "fits td (setRecordId t r) = fits td t"
  by (simp add: fits_def)

lemma getField_strip [simp]: "getField (strip t) i = getField t i"
  by (simp add: getField_def)

lemma getField_setRecordId [simp]: "getField (setRecordId t r) i = getField t i"
  by (simp add: getField_def)

text \<open>The key of a tuple that fits an integer schema, as a number.\<close>

definition key_of :: "int \<Rightarrow> tuple \<Rightarrow> int" where
  "key_of k t = (case getField t k of Inr f \<Rightarrow> int_val f | Inl _ \<Rightarrow> 0)"

lemma key_of_strip [simp]: "key_of k (strip t) = key_of k t"
  by (simp add: key_of_def)

lemma key_of_setRecordId [simp]: "key_of k (setRecordId t r) = key_of k t"
  by (simp add: key_of_def)

definition leaf_view :: "leaf_page \<Rightarrow> tuple option list" where
  "leaf_view p =
     map (\<lambda>i. if leaf_isSlotUsed p i then Some (strip (lp_tuples p ! i)) else None) [0..<lp_numSlots p]"

definition leaf_tuples :: "leaf_page \<Rightarrow> tuple list" where
  "leaf_tuples p = somes (leaf_view p)"

text \<open>
  The invariant of a leaf of a tree keyed on an integer column: the header covers the slots,
  a used slot holds a tuple that fits the schema and whose record id is that slot.
\<close>

definition leaf_ok :: "leaf_page \<Rightarrow> bool" where
  "leaf_ok p \<longleftrightarrow>
     lp_numSlots p \<le> 8 * length (lp_header p) \<and> length (lp_tuples p) = lp_numSlots p \<and>
     0 \<le> bp_keyField p \<and> nat (bp_keyField p) < numFields (bp_td p) \<and>
     (\<forall>i < lp_numSlots p. leaf_isSlotUsed p i \<longrightarrow>
        tp_rid (lp_tuples p ! i) = Some \<lparr>rid_pid = bp_pid p, rid_tupleno = int i\<rparr> \<and>
        fits (bp_td p) (lp_tuples p ! i))"

definition leaf_sorted :: "leaf_page \<Rightarrow> bool" where
  "leaf_sorted p \<longleftrightarrow> sorted (map (key_of (bp_keyField p)) (leaf_tuples p))"

text \<open>An operation on the slots changes the header and the tuples only.\<close>

definition leaf_frame :: "leaf_page \<Rightarrow> leaf_page \<Rightarrow> bool" where
  "leaf_frame p q \<longleftrightarrow> q = p\<lparr>lp_header := lp_header q, lp_tuples := lp_tuples q\<rparr>"

lemma leaf_frame_simps:
  assumes "leaf_frame p q"
  shows "bp_pid q = bp_pid p" "bp_td q = bp_td p" "bp_keyField q = bp_keyField p"
    "bp_parent q = bp_parent p" "lp_numSlots q = lp_numSlots p"
    "lp_leftSibling q = lp_leftSibling p" "lp_rightSibling q = lp_rightSibling p"
  by (subst assms [unfolded leaf_frame_def], simp)+

lemma leaf_frame_refl [simp]: "leaf_frame p p"
  by (simp add: leaf_frame_def)

lemma leaf_frame_trans [trans]: "leaf_frame p q \<Longrightarrow> leaf_frame q r \<Longrightarrow> leaf_frame p r"
  unfolding leaf_frame_def by (cases p; cases q; cases r) simp

lemma length_leaf_view [simp]: "length (leaf_view p) = lp_numSlots p"
  by (simp add: leaf_view_def)

lemma leaf_view_nth:
  "i < lp_numSlots p \<Longrightarrow>
   leaf_view p ! i = (if leaf_isSlotUsed p i then Some (strip (lp_tuples p ! i)) else None)"
  by (simp add: leaf_view_def)

lemma leaf_view_None: "i < lp_numSlots p \<Longrightarrow> leaf_view p ! i = None \<longleftrightarrow> \<not> leaf_isSlotUsed p i"
  by (simp add: leaf_view_nth)

lemma leaf_empty_view:
  "leaf_getNumEmptySlots p = length (filter (\<lambda>o'. o' = None) (leaf_view p))"
  by (simp add: leaf_getNumEmptySlots_def leaf_view_def filter_map comp_def)

lemma leaf_occupancy: "length (leaf_tuples p) + leaf_getNumEmptySlots p = lp_numSlots p"
  using length_somes_None [of "leaf_view p"] by (simp add: leaf_tuples_def leaf_empty_view)

lemma leaf_getNumTuples_eq: "leaf_getNumTuples p = length (leaf_tuples p)"
  using leaf_occupancy [of p] by (simp add: leaf_getNumTuples_def)

lemma leaf_empty_le: "leaf_getNumEmptySlots p \<le> lp_numSlots p"
  using leaf_occupancy [of p] by simp

lemma leaf_ok_fits: "leaf_ok p \<Longrightarrow> t \<in> set (leaf_tuples p) \<Longrightarrow> fits (bp_td p) t"
  by (auto simp: leaf_tuples_def set_somes leaf_view_def leaf_ok_def)

lemma key_of_fits:
  assumes "fits td t" "0 \<le> k" "nat k < numFields td"
  shows "\<exists>v. getField t k = Inr (IntField v) \<and> key_of k t = sint v"
  using getField_fits [OF assms] by (auto simp: key_of_def)

section \<open>The loops of \<open>insertTuple\<close> on the view\<close>

lemma leaf_mark_used:
  "i < 8 * length (lp_header p) \<Longrightarrow> j < 8 * length (lp_header p) \<Longrightarrow>
   leaf_isSlotUsed (leaf_markSlotUsed p i v) j = (if j = i then v else leaf_isSlotUsed p j)"
  by (simp add: leaf_isSlotUsed_def leaf_markSlotUsed_def modb.used_mark)

lemma length_header_mark [simp]:
  "length (lp_header (leaf_markSlotUsed p i v)) = length (lp_header p)"
  by (simp add: leaf_markSlotUsed_def modb.length_mark)

lemma leaf_markSlotUsed_simps [simp]:
  "lp_tuples (leaf_markSlotUsed p i v) = lp_tuples p"
  "lp_numSlots (leaf_markSlotUsed p i v) = lp_numSlots p"
  "bp_pid (leaf_markSlotUsed p i v) = bp_pid p"
  "bp_td (leaf_markSlotUsed p i v) = bp_td p"
  "bp_keyField (leaf_markSlotUsed p i v) = bp_keyField p"
  "leaf_frame p (leaf_markSlotUsed p i v)"
  by (simp_all add: leaf_markSlotUsed_def leaf_frame_def)

lemma leaf_frame_update [simp]:
  "leaf_frame p (q\<lparr>lp_tuples := ts\<rparr>) = leaf_frame p q"
  unfolding leaf_frame_def by (cases p; cases q) auto

text \<open>Storing a tuple into a slot, the last step of both a move and an insertion.\<close>

definition leaf_put :: "leaf_page \<Rightarrow> nat \<Rightarrow> tuple \<Rightarrow> leaf_page" where
  "leaf_put p i t =
     (leaf_markSlotUsed p i True)\<lparr>lp_tuples := (lp_tuples p)[i := setRecordId t
        (Some \<lparr>rid_pid = bp_pid p, rid_tupleno = int i\<rparr>)]\<rparr>"

lemma leaf_isSlotUsed_tuples [simp]:
  "leaf_isSlotUsed (p\<lparr>lp_tuples := ts\<rparr>) = leaf_isSlotUsed p"
  by (intro ext) (simp add: leaf_isSlotUsed_def)

lemma leaf_put_simps [simp]:
  "lp_numSlots (leaf_put p i t) = lp_numSlots p" "bp_pid (leaf_put p i t) = bp_pid p"
  "bp_td (leaf_put p i t) = bp_td p" "bp_keyField (leaf_put p i t) = bp_keyField p"
  "length (lp_header (leaf_put p i t)) = length (lp_header p)"
  "leaf_frame p (leaf_put p i t)"
  by (simp_all add: leaf_put_def)

lemma leaf_put_view:
  assumes "leaf_ok p" "i < lp_numSlots p"
  shows "leaf_view (leaf_put p i t) = (leaf_view p)[i := Some (strip t)]"
  using assms by (intro nth_equalityI)
    (auto simp: leaf_view_nth leaf_put_def leaf_mark_used leaf_ok_def nth_list_update)

lemma leaf_put_ok:
  assumes "leaf_ok p" "i < lp_numSlots p" "fits (bp_td p) t"
  shows "leaf_ok (leaf_put p i t)"
  using assms by (auto simp: leaf_ok_def leaf_put_def leaf_mark_used nth_list_update)

lemma leaf_free_view:
  assumes "leaf_ok p" "i < lp_numSlots p"
  shows "leaf_view (leaf_markSlotUsed p i False) = (leaf_view p)[i := None]"
  using assms by (intro nth_equalityI)
    (auto simp: leaf_view_nth leaf_mark_used leaf_ok_def nth_list_update)

lemma leaf_free_ok:
  assumes "leaf_ok p" "i < lp_numSlots p"
  shows "leaf_ok (leaf_markSlotUsed p i False)"
  using assms by (auto simp: leaf_ok_def leaf_mark_used)

lemma leaf_moveRecord_put:
  "leaf_moveRecord p from to =
     (if \<not> leaf_isSlotUsed p to \<and> leaf_isSlotUsed p from
      then leaf_markSlotUsed (leaf_put p to (lp_tuples p ! from)) from False else p)"
  by (simp add: leaf_moveRecord_def leaf_put_def Let_def)

lemma leaf_moveRecord_spec:
  assumes ok: "leaf_ok p" and "from < lp_numSlots p" "to < lp_numSlots p" "from \<noteq> to"
  shows "leaf_view (leaf_moveRecord p from to) = vmove from to (leaf_view p)"
    and "leaf_ok (leaf_moveRecord p from to)"
    and "leaf_frame p (leaf_moveRecord p from to)"
proof -
  have fit: "leaf_isSlotUsed p from \<Longrightarrow> fits (bp_td p) (lp_tuples p ! from)"
    using assms by (simp add: leaf_ok_def)
  show "leaf_view (leaf_moveRecord p from to) = vmove from to (leaf_view p)"
    using assms fit
    by (auto simp: leaf_moveRecord_put leaf_free_view leaf_put_view leaf_put_ok vmove_def leaf_view_nth)
  show "leaf_ok (leaf_moveRecord p from to)"
    using assms fit by (simp add: leaf_moveRecord_put leaf_free_ok leaf_put_ok)
  show "leaf_frame p (leaf_moveRecord p from to)"
    using leaf_frame_trans [OF leaf_put_simps(6) leaf_markSlotUsed_simps(6)]
    by (simp add: leaf_moveRecord_put)
qed

text \<open>So a leaf is a page whose loops shift slots, from slot 0 on.\<close>

interpretation leaf_slots: slot_page leaf_view leaf_ok leaf_frame 0 leaf_moveRecord
  leaf_shift_down leaf_shift_up leaf_isSlotUsed leaf_emptySlot
proof
  fix p :: leaf_page and "from" to :: nat
  show "leaf_frame p (leaf_moveRecord p from to)"
    using leaf_frame_trans [OF leaf_put_simps(6) leaf_markSlotUsed_simps(6)]
    by (simp add: leaf_moveRecord_put)
next
  fix p q r :: leaf_page
  show "leaf_frame p q \<Longrightarrow> leaf_frame q r \<Longrightarrow> leaf_frame p r" by (rule leaf_frame_trans)
next
  fix p :: leaf_page and i l :: nat
  show "leaf_shift_down p i l =
      (if i < l then leaf_shift_down (leaf_moveRecord p (Suc i) i) (Suc i) l else p)"
    by (rule leaf_shift_down.simps)
  show "leaf_shift_up p i l =
      (if l < i then leaf_shift_up (leaf_moveRecord p (i - 1) i) (i - 1) l else p)"
    by (rule leaf_shift_up.simps)
qed (auto simp: leaf_view_nth leaf_moveRecord_spec)

lemmas leaf_shift_down_spec = leaf_slots.shift_down_spec [simplified]
  and leaf_shift_up_spec = leaf_slots.shift_up_spec [simplified]

lemma leaf_room_iff:
  "0 < leaf_getNumEmptySlots p \<longleftrightarrow> leaf_emptySlot p 0 (lp_numSlots p) \<noteq> - 1"
  unfolding leaf_slots.emptySlot_none
  by (auto simp: leaf_getNumEmptySlots_def filter_empty_conv)

text \<open>
  The search for the insertion point splits the tuples of the page, in slot order, where the
  first key greater than the new one occurs.
\<close>

text \<open>
  The search of \<open>insertTuple\<close> from slot \<open>i\<close> on has ended at \<open>r\<close>: the tuples up to \<open>r\<close> are those in front
  of \<open>i\<close> and the following ones whose key is not greater.
\<close>

definition leaf_le_pos :: "leaf_page \<Rightarrow> 32 word \<Rightarrow> nat \<Rightarrow> int \<Rightarrow> bool" where
  "leaf_le_pos p kv i r \<longleftrightarrow> - 1 \<le> r \<and> r < int (lp_numSlots p) \<and>
      (0 \<le> r \<longrightarrow> leaf_isSlotUsed p (nat r)) \<and>
      somes (take (nat (r + 1)) (leaf_view p)) =
        somes (take i (leaf_view p)) @
        takeWhile (\<lambda>t. key_of (bp_keyField p) t \<le> sint kv) (somes (drop i (leaf_view p))) \<and>
      somes (drop (nat (r + 1)) (leaf_view p)) =
        dropWhile (\<lambda>t. key_of (bp_keyField p) t \<le> sint kv) (somes (drop i (leaf_view p)))"

lemma leaf_lessOrEqKey_spec:
  assumes ok: "leaf_ok p" and key: "key = IntField kv"
  shows "i + n = lp_numSlots p \<Longrightarrow> le < int i \<Longrightarrow> - 1 \<le> le \<Longrightarrow>
    (\<forall>j. le < int j \<and> j < i \<longrightarrow> \<not> leaf_isSlotUsed p j) \<Longrightarrow> (0 \<le> le \<longrightarrow> leaf_isSlotUsed p (nat le)) \<Longrightarrow>
    \<exists>r. leaf_lessOrEqKey p key i n le = Inr r \<and> leaf_le_pos p kv i r"
proof (induction n arbitrary: i le)
  case 0
  have "\<forall>x \<in> set (drop (nat (le + 1)) (leaf_view p)). x = None"
    using 0 by (auto simp: in_set_conv_nth leaf_view_nth nat_less_iff)
  then have "somes (drop (nat (le + 1)) (leaf_view p)) = []" by (simp add: somes_Nil_iff)
  moreover have "somes (leaf_view p) = somes (take (nat (le + 1)) (leaf_view p)) @
      somes (drop (nat (le + 1)) (leaf_view p))" by (rule somes_take_drop)
  ultimately show ?case using 0 by (auto simp: leaf_le_pos_def)
next
  case (Suc n)
  let ?k = "bp_keyField p"
  have i: "i < lp_numSlots p" using Suc.prems(1) by simp
  have dr: "drop i (leaf_view p) = leaf_view p ! i # drop (Suc i) (leaf_view p)"
    using i by (simp add: Cons_nth_drop_Suc)
  show ?case
  proof (cases "leaf_isSlotUsed p i")
    case False
    have "\<exists>r. leaf_lessOrEqKey p key (Suc i) n le = Inr r \<and> leaf_le_pos p kv (Suc i) r"
      using False Suc.prems by (intro Suc.IH) (auto simp: less_Suc_eq)
    moreover have "leaf_view p ! i = None" using False i by (simp add: leaf_view_nth)
    ultimately show ?thesis
      using False i by (auto simp: leaf_le_pos_def dr somes_take_Suc)
  next
    case True
    let ?t = "lp_tuples p ! i"
    have vi: "leaf_view p ! i = Some (strip ?t)" using True i by (simp add: leaf_view_nth)
    have "fits (bp_td p) ?t" "0 \<le> ?k" "nat ?k < numFields (bp_td p)"
      using ok True i by (auto simp: leaf_ok_def)
    then obtain v where v: "getField ?t ?k = Inr (IntField v)" "key_of ?k ?t = sint v"
      using key_of_fits by blast
    show ?thesis
    proof (cases "sint v \<le> sint kv")
      case False
      have "somes (drop (nat (le + 1)) (take i (leaf_view p))) = []"
        using Suc.prems i by (auto simp: somes_Nil_iff in_set_conv_nth leaf_view_nth nat_less_iff)
      moreover have "nat (le + 1) \<le> i" using Suc.prems by simp
      ultimately have tk: "somes (take i (leaf_view p)) = somes (take (nat (le + 1)) (leaf_view p))"
        using somes_take_drop [of "take i (leaf_view p)" "nat (le + 1)"] by (simp add: min_def)
      have "somes (leaf_view p) = somes (take i (leaf_view p)) @ somes (drop i (leaf_view p))"
           "somes (leaf_view p) = somes (take (nat (le + 1)) (leaf_view p)) @
                                  somes (drop (nat (le + 1)) (leaf_view p))"
        by (rule somes_take_drop)+
      then have "somes (drop (nat (le + 1)) (leaf_view p)) = somes (drop i (leaf_view p))"
        using tk by simp
      with False True v tk vi key Suc.prems show ?thesis by (auto simp: leaf_le_pos_def dr)
    next
      case le: True
      have "\<exists>r. leaf_lessOrEqKey p key (Suc i) n (int i) = Inr r \<and> leaf_le_pos p kv (Suc i) r"
        using True Suc.prems by (intro Suc.IH) auto
      with le True v vi i key show ?thesis by (auto simp: leaf_le_pos_def dr somes_take_Suc)
    qed
  qed
qed

section \<open>Insertion and deletion\<close>

text \<open>Where a tuple goes among sorted ones: after every tuple whose key is not greater.\<close>

definition ins_tuple :: "int \<Rightarrow> tuple \<Rightarrow> tuple list \<Rightarrow> tuple list" where
  "ins_tuple k t ts =
     takeWhile (\<lambda>u. key_of k u \<le> key_of k t) ts @ t # dropWhile (\<lambda>u. key_of k u \<le> key_of k t) ts"

lemma mset_ins_tuple [simp]: "mset (ins_tuple k t ts) = add_mset t (mset ts)"
  unfolding ins_tuple_def
  by (metis mset.simps(2) mset_append takeWhile_dropWhile_id union_mset_add_mset_right)

lemma length_ins_tuple [simp]: "length (ins_tuple k t ts) = Suc (length ts)"
  by (metis mset_ins_tuple size_add_mset size_mset)

lemma set_ins_tuple [simp]: "set (ins_tuple k t ts) = insert t (set ts)"
  by (metis mset_ins_tuple set_mset_add_mset_insert set_mset_mset)

lemma sorted_map_insert:
  assumes "sorted (map f (as @ bs))" "\<forall>a \<in> set as. f a \<le> f t" "\<forall>b \<in> set bs. f t \<le> f b"
  shows "sorted (map f (as @ t # bs))"
proof -
  have "\<forall>x \<in> set (map f as). \<forall>y \<in> set (map f (t # bs)). x \<le> y"
    using assms by (auto simp: sorted_append)
  moreover have "sorted (map f as)" "sorted (map f (t # bs))"
    using assms by (auto simp: sorted_append)
  ultimately show ?thesis by (simp only: map_append sorted_append)
qed

lemma sorted_ins_tuple:
  assumes "sorted (map (key_of k) ts)"
  shows "sorted (map (key_of k) (ins_tuple k t ts))"
proof -
  let ?P = "\<lambda>u. key_of k u \<le> key_of k t"
  have s: "sorted (map (key_of k) (takeWhile ?P ts @ dropWhile ?P ts))"
    using assms by (simp only: takeWhile_dropWhile_id)
  have le: "\<forall>x \<in> set (takeWhile ?P ts). key_of k x \<le> key_of k t" by (auto dest: set_takeWhileD)
  have "\<forall>y \<in> set (dropWhile ?P ts). key_of k t \<le> key_of k y"
  proof (cases "dropWhile ?P ts")
    case (Cons z zs)
    then have "\<not> ?P z" by (metis hd_dropWhile list.distinct(1) list.sel(1))
    moreover have "sorted (map (key_of k) (z # zs))"
      using s unfolding Cons map_append sorted_append by blast
    ultimately show ?thesis unfolding Cons by auto
  next
    case Nil
    show ?thesis unfolding Nil by simp
  qed
  with s le show ?thesis unfolding ins_tuple_def by (rule sorted_map_insert)
qed

text \<open>
  \<open>insertTuple\<close> on a well-formed leaf with room succeeds, and does to the tuples of the page
  what \<open>ins_tuple\<close> does to a list; everything else of the page is unchanged.
\<close>

lemma leaf_insert_spec:
  assumes ok: "leaf_ok p" and fit: "fits (bp_td p) t" and room: "0 < leaf_getNumEmptySlots p"
  shows "\<exists>g p'. leaf_insertTuple p t =
      Inr (setRecordId t (Some \<lparr>rid_pid = bp_pid p, rid_tupleno = int g\<rparr>), p') \<and>
    g < lp_numSlots p \<and> leaf_isSlotUsed p' g \<and>
    lp_tuples p' ! g = setRecordId t (Some \<lparr>rid_pid = bp_pid p, rid_tupleno = int g\<rparr>) \<and>
    leaf_ok p' \<and> leaf_frame p p' \<and>
    leaf_tuples p' = ins_tuple (bp_keyField p) (strip t) (leaf_tuples p)"
proof -
  let ?n = "lp_numSlots p" and ?k = "bp_keyField p" and ?v = "leaf_view p"
  from ok have k: "0 \<le> ?k" "nat ?k < numFields (bp_td p)" by (auto simp: leaf_ok_def)
  obtain kv where kv: "getField t ?k = Inr (IntField kv)" "key_of ?k t = sint kv"
    using key_of_fits [OF fit k] by auto
  obtain e where e: "leaf_emptySlot p 0 ?n = int e" "e < ?n" "\<not> leaf_isSlotUsed p e"
    using room leaf_slots.emptySlot_some [of p 0 ?n] by (auto simp: leaf_room_iff)
  obtain r where r: "leaf_lessOrEqKey p (IntField kv) 0 ?n (- 1) = Inr r" "- 1 \<le> r" "r < int ?n"
      "0 \<le> r \<longrightarrow> leaf_isSlotUsed p (nat r)"
      "somes (take (nat (r + 1)) ?v) = takeWhile (\<lambda>u. key_of ?k u \<le> sint kv) (somes ?v)"
      "somes (drop (nat (r + 1)) ?v) = dropWhile (\<lambda>u. key_of ?k u \<le> sint kv) (somes ?v)"
    using leaf_lessOrEqKey_spec [OF ok refl, of 0 ?n "- 1" kv] by (auto simp: leaf_le_pos_def)
  define g where "g = nat (r + 1)"
  have ve: "?v ! e = None" using e by (simp add: leaf_view_None)
  have gn: "g \<le> ?n" using r by (simp add: g_def)
  have eg: "Suc e \<noteq> g"
  proof
    assume "Suc e = g"
    then have "r = int e" by (simp add: g_def)
    with e r(4) show False by simp
  qed
  have cond: "int e < r \<longleftrightarrow> Suc e < g" using r by (auto simp: g_def)
  define q where "q = (if Suc e < g then leaf_shift_down p e (g - 1) else leaf_shift_up p e g)"
  define s where "s = (if Suc e < g then g - 1 else g)"
  have q: "leaf_ok q" "leaf_frame p q"
      "leaf_view q = (if Suc e < g then vshift_down e (g - 1) ?v else vshift_up e g ?v)"
    using leaf_shift_down_spec [OF ok, of "g - 1" e] leaf_shift_up_spec [OF ok, of e g] gn e
    by (auto simp: q_def)
  note qs = leaf_frame_simps [OF q(2)]
  have s: "s < ?n" using gn e eg by (auto simp: s_def)
  let ?t = "setRecordId t (Some \<lparr>rid_pid = bp_pid p, rid_tupleno = int s\<rparr>)"
  have td: "td_eq (tp_td t) (bp_td p)" using fit by (simp add: fits_def)
  have "leaf_insertTuple p t = Inr (?t, leaf_put q s t)"
  proof (cases "Suc e < g")
    case True
    then have "int e < r" "nat r = g - 1" using cond by (auto simp: g_def)
    with True td e(1) kv(1) r(1) qs show ?thesis
      by (simp add: leaf_insertTuple_def q_def s_def leaf_put_def Let_def)
  next
    case False
    then have "\<not> int e < r" "nat (r + 1) = g" using cond by (auto simp: g_def)
    with False td e(1) kv(1) r(1) qs show ?thesis
      by (simp add: leaf_insertTuple_def q_def s_def leaf_put_def Let_def)
  qed
  moreover have "leaf_view (leaf_put q s t) = vinsert e g (strip t) ?v"
    using leaf_put_view [OF q(1), of s t] s qs by (simp add: vinsert_def s_def q(3))
  then have "leaf_tuples (leaf_put q s t) = ins_tuple ?k (strip t) (leaf_tuples p)"
    using vinsert_spec(1) [of e ?v g "strip t"] e ve gn eg r kv
    by (simp add: leaf_tuples_def ins_tuple_def g_def)
  moreover have "leaf_ok (leaf_put q s t)" using q(1) s qs fit by (simp add: leaf_put_ok)
  moreover have "leaf_frame p (leaf_put q s t)"
    using q(2) leaf_frame_trans leaf_put_simps(6) by blast
  moreover have "leaf_isSlotUsed (leaf_put q s t) s"
    using s q(1) qs by (simp add: leaf_put_def leaf_mark_used leaf_ok_def)
  moreover have "lp_tuples (leaf_put q s t) ! s = ?t"
    using s q(1) qs by (simp add: leaf_put_def leaf_ok_def)
  ultimately show ?thesis using s by blast
qed

lemma leaf_delete_spec:
  assumes ok: "leaf_ok p" and i: "i < lp_numSlots p" and used: "leaf_isSlotUsed p i"
  shows "leaf_deleteTuple p (lp_tuples p ! i) =
           Inr (setRecordId (lp_tuples p ! i) None, leaf_markSlotUsed p i False)"
  using assms by (auto simp: leaf_deleteTuple_def leaf_ok_def leaf_isSlotUsedE_def)

lemma leaf_sorted_insert:
  "leaf_sorted p \<Longrightarrow> leaf_frame p p' \<Longrightarrow>
   leaf_tuples p' = ins_tuple (bp_keyField p) t (leaf_tuples p) \<Longrightarrow> leaf_sorted p'"
  by (simp add: leaf_sorted_def leaf_frame_simps sorted_ins_tuple)

section \<open>Properties\<close>

text \<open>A leaf with three slots, the first and the last of them used, keyed on its only column.\<close>

definition leaf_example_td :: tuple_desc where
  "leaf_example_td = TupleDesc_types [INT_TYPE]"

definition leaf_example_tuple :: "i32 \<Rightarrow> record_id option \<Rightarrow> tuple" where
  "leaf_example_tuple v r = \<lparr>tp_rid = r, tp_fields = [Some (IntField v)], tp_td = leaf_example_td\<rparr>"

definition leaf_example_rid :: "int \<Rightarrow> record_id option" where
  "leaf_example_rid i = Some \<lparr>rid_pid = BTreePageId 7 1 LEAF, rid_tupleno = i\<rparr>"

definition leaf_example :: "byte \<Rightarrow> leaf_page" where
  "leaf_example h = \<lparr>bp_pid = BTreePageId 7 1 LEAF, bp_td = leaf_example_td, bp_keyField = 0, bp_parent = 0,
     lp_header = [h],
     lp_tuples = [leaf_example_tuple 10 (leaf_example_rid 0), leaf_example_tuple 15 (leaf_example_rid 1),
                  leaf_example_tuple 20 (leaf_example_rid 2)],
     lp_numSlots = 3, lp_leftSibling = 0, lp_rightSibling = 0\<rparr>"

lemma leaf_example_used:
  "leaf_isSlotUsed (leaf_example h) i = bit ([h] ! (i div 8)) (i mod 8)"
  by (simp add: leaf_isSlotUsed_def leaf_example_def mod_used_bit)

lemma leaf_example_simps [simp]:
  "bp_td (leaf_example h) = leaf_example_td" "bp_keyField (leaf_example h) = 0"
  "lp_numSlots (leaf_example h) = 3" "bp_pid (leaf_example h) = BTreePageId 7 1 LEAF"
  by (simp_all add: leaf_example_def)

lemma leaf_example_fits: "fits leaf_example_td (leaf_example_tuple v r)"
  by (simp add: fits_def leaf_example_tuple_def leaf_example_td_def TupleDesc_types_spec numFields_def)

lemma leaf_example_ok: "leaf_ok (leaf_example h)"
proof -
  have "lp_tuples (leaf_example h) ! i = leaf_example_tuple (of_nat (10 + 5 * i)) (leaf_example_rid (int i))"
    if "i < 3" for i
    using that by (cases i; cases "i - 1") (auto simp: leaf_example_def numeral_nat)
  then show ?thesis
    by (auto simp: leaf_ok_def leaf_example_fits)
      (auto simp: leaf_example_def leaf_example_td_def TupleDesc_types_spec numFields_def
        leaf_example_tuple_def leaf_example_rid_def)
qed

lemma leaf_example_empty:
  "leaf_getNumEmptySlots (leaf_example h) = (if bit h 0 then 0 else 1) + (if bit h 1 then 0 else 1) + (if bit h 2 then 0 else 1)"
  by (simp add: leaf_getNumEmptySlots_def leaf_example_used upt_rec numeral_2_eq_2)

text \<open>C9
  On a well-formed leaf page with a free slot, \<open>insertTuple\<close> of a tuple that fits the schema
  succeeds whatever holes the page has and whichever way it has to shift. The tuples of the
  page are the old ones with the new one after all whose key is not greater; the page stays
  well-formed, and its id, schema, parent and siblings do not change.
\<close>

theorem leaf_insertTuple_refines:
  assumes "leaf_ok p" "fits (bp_td p) t" "0 < leaf_getNumEmptySlots p"
  shows "\<exists>t' p'. leaf_insertTuple p t = Inr (t', p') \<and> strip t' = strip t \<and> leaf_ok p' \<and> leaf_frame p p' \<and>
    leaf_tuples p' = ins_tuple (bp_keyField p) (strip t) (leaf_tuples p)"
  using leaf_insert_spec [OF assms] by fastforce

theorem leaf_insertTuple_refines_witness:
  "\<exists>t' p'. leaf_insertTuple (leaf_example 5) (leaf_example_tuple 12 None) = Inr (t', p') \<and> leaf_ok p' \<and>
     leaf_tuples p' = ins_tuple 0 (strip (leaf_example_tuple 12 None)) (leaf_tuples (leaf_example 5))"
  using leaf_insertTuple_refines [of "leaf_example 5" "leaf_example_tuple 12 None"]
  by (auto simp: leaf_example_ok leaf_example_fits leaf_example_empty)

text \<open>
  Insertion keeps a sorted leaf sorted, adds exactly the inserted tuple to the multiset of its
  tuples, and uses up exactly one empty slot.
\<close>

lemma leaf_insertTuple_sorted:
  assumes "leaf_ok p" "leaf_sorted p" "fits (bp_td p) t" "leaf_insertTuple p t = Inr (t', p')"
  shows "leaf_sorted p' \<and> mset (leaf_tuples p') = add_mset (strip t) (mset (leaf_tuples p)) \<and>
    leaf_getNumTuples p' = Suc (leaf_getNumTuples p) \<and>
    Suc (leaf_getNumEmptySlots p') = leaf_getNumEmptySlots p"
proof -
  have "leaf_emptySlot p 0 (lp_numSlots p) \<noteq> - 1"
    using assms(4) by (auto simp: leaf_insertTuple_def bindE_eq_Inr Let_def)
  then have room: "0 < leaf_getNumEmptySlots p" by (simp add: leaf_room_iff)
  have p': "leaf_frame p p'" "leaf_tuples p' = ins_tuple (bp_keyField p) (strip t) (leaf_tuples p)"
    using leaf_insert_spec [OF assms(1,3) room] assms(4) by auto
  moreover have "lp_numSlots p' = lp_numSlots p" using leaf_frame_simps [OF p'(1)] by simp
  ultimately show ?thesis
    using leaf_sorted_insert [OF assms(2) p'] leaf_occupancy [of p] leaf_occupancy [of p']
    by (simp add: leaf_getNumTuples_eq)
qed

text \<open>
  A leaf without a free slot, or with a different schema, makes \<open>insertTuple\<close> abort: it never
  overwrites a tuple.
\<close>

lemma leaf_insertTuple_rejects:
  assumes "leaf_getNumEmptySlots p = 0 \<or> \<not> td_eq (tp_td t) (bp_td p)"
  shows "leaf_insertTuple p t = Inl AssertFail"
  using assms leaf_room_iff [of p] by (auto simp: leaf_insertTuple_def Let_def assertE_def)

text \<open>
  \<open>deleteTuple\<close> of the tuple in a used slot frees that slot and no other: the page stays
  well-formed and sorted, the multiset of its tuples loses that tuple, and the record id of the
  tuple object is cleared.
\<close>

lemma leaf_deleteTuple_spec:
  assumes "leaf_ok p" "leaf_sorted p" "i < lp_numSlots p" "leaf_isSlotUsed p i"
  shows "\<exists>t' p'. leaf_deleteTuple p (lp_tuples p ! i) = Inr (t', p') \<and> tp_rid t' = None \<and>
    leaf_ok p' \<and> leaf_sorted p' \<and> leaf_frame p p' \<and>
    mset (leaf_tuples p) = add_mset (strip (lp_tuples p ! i)) (mset (leaf_tuples p'))"
proof -
  let ?p' = "leaf_markSlotUsed p i False" and ?v = "leaf_view p"
  have v: "?v ! i = Some (strip (lp_tuples p ! i))" "i < length ?v"
    using assms by (simp_all add: leaf_view_nth)
  have view: "leaf_view ?p' = ?v[i := None]" using assms by (simp add: leaf_free_view)
  then have "mset (leaf_tuples p) = add_mset (strip (lp_tuples p ! i)) (mset (leaf_tuples ?p'))"
    using somes_update_None_mset [OF v(2,1)] by (simp add: leaf_tuples_def)
  moreover have "leaf_sorted ?p'"
  proof -
    have "leaf_tuples p = somes (take i ?v) @ [strip (lp_tuples p ! i)] @ somes (drop (Suc i) ?v)"
      using somes_split [OF v(2)] v(1) by (simp add: leaf_tuples_def)
    moreover have "leaf_tuples ?p' = somes (take i ?v) @ somes (drop (Suc i) ?v)"
      using somes_update [OF v(2), of None] by (simp add: leaf_tuples_def view)
    ultimately show ?thesis using assms(2) by (simp add: leaf_sorted_def sorted_append)
  qed
  ultimately show ?thesis
    using leaf_delete_spec [OF assms(1,3,4)] leaf_free_ok [OF assms(1,3)] by simp
qed

end
