(* ===== verification/BTreeInternalPage.thy ===== *)
theory BTreeInternalPage
  imports BTreePage SlotView
begin

text \<open>
  \<open>BTreeEntry\<close>, \<open>BTreeInternalPage\<close> and its two iterators (BTreeEntry.cpp,
  BTreeInternalPage.cpp): an internal node with \<open>m\<close> keys in slots \<open>1..m\<close> and \<open>m + 1\<close> children
  in slots \<open>0..m\<close>, with holes.
\<close>

section \<open>Entries\<close>

text \<open>
  An entry is an interface object, not stored on a page: a key, the two children around it and
  where it was read. Its pointers may be null.
\<close>

record btree_entry =
  e_key :: "field option"
  e_left :: "page_id option"
  e_right :: "page_id option"
  e_rid :: "record_id option"

definition BTreeEntry_new :: "field option \<Rightarrow> page_id option \<Rightarrow> page_id option \<Rightarrow> btree_entry" where
  "BTreeEntry_new f l r = \<lparr>e_key = f, e_left = l, e_right = r, e_rid = None\<rparr>"

definition entry_to_string :: "btree_entry \<Rightarrow> string res" where
  "entry_to_string e =
     bindE (derefE (e_left e)) (\<lambda>l.
     bindE (derefE (e_key e)) (\<lambda>k.
     bindE (derefE (e_right e)) (\<lambda>r.
       Inr (''['' @ int_to_string (pageNumber l) @ ''|'' @ field_to_string k @ ''|'' @
            int_to_string (pageNumber r) @ '']''))))"

section \<open>The page\<close>

record internal_page = btree_page +
  np_header :: "byte list"
  np_keys :: "field option list"
  np_children :: "int list"
  np_numSlots :: nat
  np_childCategory :: page_type

definition int_isSlotUsed :: "internal_page \<Rightarrow> nat \<Rightarrow> bool" where
  "int_isSlotUsed p i = mod_used (np_header p) i"

definition int_markSlotUsed :: "internal_page \<Rightarrow> nat \<Rightarrow> bool \<Rightarrow> internal_page" where
  "int_markSlotUsed p i v = p\<lparr>np_header := mod_mark (np_header p) i v\<rparr>"

definition int_isSlotUsedE :: "internal_page \<Rightarrow> int \<Rightarrow> bool res" where
  "int_isSlotUsedE p i =
     (if 0 \<le> i \<and> nat i < 8 * length (np_header p) then Inr (int_isSlotUsed p (nat i))
      else Inl OutOfBounds)"

text \<open>\<open>sizeof(int)\<close> and \<open>sizeof(BTreePageType)\<close> are 4; the subtractions are unsigned.\<close>

definition int_getMaxEntries :: "nat \<Rightarrow> tuple_desc \<Rightarrow> int \<Rightarrow> nat res" where
  "int_getMaxEntries pageSize td key =
     bindE (getFieldType td key) (\<lambda>ty.
       Inr (usize ((int pageSize - 2 * 4 - 4) * 8 + 1) div ((getLen ty + 4) * 8 + 1)))"

definition int_getHeaderSize :: "nat \<Rightarrow> nat" where
  "int_getHeaderSize maxEntries =
     (let slotsPerPage = maxEntries + 1; hb = slotsPerPage div 8
      in if hb * 8 < slotsPerPage then hb + 1 else hb)"

text \<open>The keys of slots \<open>1..\<close>, read one after the other.\<close>

fun int_read_keys :: "(nat \<Rightarrow> byte) \<Rightarrow> type_t \<Rightarrow> byte list \<Rightarrow> nat \<Rightarrow> nat \<Rightarrow> field option list res" where
  "int_read_keys junk ty data offset 0 = Inr []"
| "int_read_keys junk ty data offset (Suc n) =
     bindE (field_parse junk (drop offset data) ty) (\<lambda>f.
     bindE (int_read_keys junk ty data (offset + getLen ty) n) (\<lambda>fs. Inr (Some f # fs)))"

text \<open>
  The constructor. Every child is read from the start of the buffer, where the parent pointer
  is, and the child category that was read is then overwritten with \<open>LEAF\<close>.
\<close>

definition BTreeInternalPage_new ::
    "(nat \<Rightarrow> byte) \<Rightarrow> nat \<Rightarrow> tuple_desc \<Rightarrow> page_id \<Rightarrow> byte list \<Rightarrow> int \<Rightarrow> internal_page res" where
  "BTreeInternalPage_new junk pageSize td pid data key =
     bindE (int_getMaxEntries pageSize td key) (\<lambda>maxEntries.
     bindE (getFieldType td key) (\<lambda>ty.
     let numSlots = maxEntries + 1; header_size = int_getHeaderSize maxEntries in
     bindE (buf_read 0 4 data) (\<lambda>b0.
     bindE (buf_read 4 4 data) (\<lambda>_.
     bindE (buf_read 8 header_size data) (\<lambda>header.
     bindE (int_read_keys junk ty data (8 + header_size) (numSlots - 1)) (\<lambda>keys.
       Inr \<lparr>bp_pid = pid, bp_td = td, bp_keyField = key, bp_parent = bytes_int b0,
            np_header = header, np_keys = None # keys,
            np_children = replicate numSlots (bytes_int b0), np_numSlots = numSlots,
            np_childCategory = LEAF\<rparr>))))))"

definition int_getKey :: "internal_page \<Rightarrow> int \<Rightarrow> field option res" where
  "int_getKey p i =
     bindE (assertE (0 < i \<and> i < int (np_numSlots p))) (\<lambda>_.
       if \<not> int_isSlotUsed p (nat i) then Inr None else nthE (np_keys p) (nat i))"

definition int_getChildId :: "internal_page \<Rightarrow> int \<Rightarrow> page_id option res" where
  "int_getChildId p i =
     bindE (assertE (0 \<le> i \<and> i < int (np_numSlots p))) (\<lambda>_.
       if \<not> int_isSlotUsed p (nat i) then Inr None
       else bindE (nthE (np_children p) (nat i)) (\<lambda>c.
              Inr (Some (BTreePageId (getTableId (bp_pid p)) c (np_childCategory p)))))"

definition int_getNumEmptySlots :: "internal_page \<Rightarrow> nat" where
  "int_getNumEmptySlots p = length (filter (\<lambda>i. \<not> int_isSlotUsed p i) [1..<np_numSlots p])"

definition int_getNumEntries :: "internal_page \<Rightarrow> int" where
  "int_getNumEntries p = int (np_numSlots p) - int (int_getNumEmptySlots p) - 1"

section \<open>The forward iterator\<close>

text \<open>A child pointer that the constructor leaves uninitialised is null here.\<close>

record int_iter =
  ii_cur :: nat
  ii_prevChild :: "page_id option"
  ii_currChild :: "page_id option"

definition int_iter_new :: "nat \<Rightarrow> internal_page \<Rightarrow> int_iter res" where
  "int_iter_new slot p =
     (if slot = np_numSlots p then Inr \<lparr>ii_cur = slot, ii_prevChild = None, ii_currChild = None\<rparr>
      else bindE (if slot > 0 then int_getChildId p (int slot - 1) else Inr None) (\<lambda>prev.
           bindE (int_getChildId p (int slot)) (\<lambda>curr.
             Inr \<lparr>ii_cur = (if curr = None then np_numSlots p else slot),
                  ii_prevChild = prev, ii_currChild = curr\<rparr>)))"

definition int_iter_ne :: "int_iter \<Rightarrow> int_iter \<Rightarrow> bool" where
  "int_iter_ne a b \<longleftrightarrow> ii_cur a \<noteq> ii_cur b"

text \<open>\<open>while (++curEntry < numSlots) if (isSlotUsed(curEntry)) break;\<close> from \<open>i = curEntry + 1\<close>.\<close>

function int_next_used :: "internal_page \<Rightarrow> nat \<Rightarrow> nat" where
  "int_next_used p i =
     (if i < np_numSlots p then (if int_isSlotUsed p i then i else int_next_used p (Suc i)) else i)"
  by pat_completeness auto
termination by (relation "measure (\<lambda>(p, i). np_numSlots p - i)") auto

declare int_next_used.simps [simp del]

definition int_iter_next :: "internal_page \<Rightarrow> int_iter \<Rightarrow> int_iter res" where
  "int_iter_next p it =
     (let cur = int_next_used p (ii_cur it + 1) in
      if cur < np_numSlots p
      then bindE (int_getChildId p (int cur)) (\<lambda>c.
             Inr \<lparr>ii_cur = cur, ii_prevChild = ii_currChild it, ii_currChild = c\<rparr>)
      else Inr (it\<lparr>ii_cur := cur, ii_prevChild := ii_currChild it\<rparr>))"

definition int_iter_deref :: "internal_page \<Rightarrow> int_iter \<Rightarrow> btree_entry res" where
  "int_iter_deref p it =
     bindE (int_getKey p (int (ii_cur it))) (\<lambda>key.
       Inr ((BTreeEntry_new key (ii_prevChild it) (ii_currChild it))
              \<lparr>e_rid := Some \<lparr>rid_pid = bp_pid p, rid_tupleno = int (ii_cur it)\<rparr>\<rparr>))"

definition int_begin :: "internal_page \<Rightarrow> int_iter res" where
  "int_begin p = int_iter_new 1 p"

definition int_end :: "internal_page \<Rightarrow> int_iter res" where
  "int_end p = int_iter_new (np_numSlots p) p"

section \<open>The reverse iterator\<close>

record int_riter =
  ri_left :: int
  ri_right :: int
  ri_leftChild :: "page_id option"
  ri_rightChild :: "page_id option"

text \<open>\<open>while (leftSlot > 0 && !isSlotUsed(leftSlot)) --leftSlot;\<close>\<close>

fun int_skip_back :: "internal_page \<Rightarrow> nat \<Rightarrow> nat" where
  "int_skip_back p 0 = 0"
| "int_skip_back p (Suc i) = (if \<not> int_isSlotUsed p (Suc i) then int_skip_back p i else Suc i)"

definition int_riter_new :: "nat \<Rightarrow> internal_page \<Rightarrow> int_riter res" where
  "int_riter_new slot p =
     (let leftSlot = int_skip_back p slot in
      bindE (if leftSlot > 0 then int_getChildId p (int leftSlot) else Inr None) (\<lambda>l.
        Inr \<lparr>ri_left = int leftSlot, ri_right = int slot, ri_leftChild = l, ri_rightChild = None\<rparr>))"

definition int_riter_ne :: "int_riter \<Rightarrow> int_riter \<Rightarrow> bool" where
  "int_riter_ne a b \<longleftrightarrow> ri_left a \<noteq> ri_left b"

text \<open>\<open>while (--leftSlot >= 0) if (isSlotUsed(leftSlot)) break;\<close>: the used slot below \<open>i\<close>.\<close>

fun int_prev_used :: "internal_page \<Rightarrow> nat \<Rightarrow> int" where
  "int_prev_used p 0 = - 1"
| "int_prev_used p (Suc i) = (if int_isSlotUsed p i then int i else int_prev_used p i)"

definition int_riter_next :: "internal_page \<Rightarrow> int_riter \<Rightarrow> int_riter res" where
  "int_riter_next p it =
     (let leftSlot = (if ri_left it - 1 < 0 then ri_left it - 1
                      else int_prev_used p (nat (ri_left it))) in
      bindE (if 0 \<le> leftSlot then int_getChildId p leftSlot else Inr (ri_leftChild it)) (\<lambda>l.
        Inr \<lparr>ri_left = leftSlot, ri_right = ri_left it, ri_leftChild = l,
             ri_rightChild = ri_leftChild it\<rparr>))"

definition int_riter_deref :: "internal_page \<Rightarrow> int_riter \<Rightarrow> btree_entry res" where
  "int_riter_deref p it =
     bindE (int_getKey p (ri_right it)) (\<lambda>key.
       Inr ((BTreeEntry_new key (ri_leftChild it) (ri_rightChild it))
              \<lparr>e_rid := Some \<lparr>rid_pid = bp_pid p, rid_tupleno = ri_right it\<rparr>\<rparr>))"

definition int_rbegin :: "internal_page \<Rightarrow> int_riter res" where
  "int_rbegin p = int_riter_new (np_numSlots p - 1) p"

definition int_rend :: "internal_page \<Rightarrow> int_riter res" where
  "int_rend p = int_riter_new 0 p"

section \<open>Deletion\<close>

text \<open>The loop that, for a left deletion, hands the child of slot \<open>slot\<close> to the used slot before it.\<close>

fun int_delete_left :: "internal_page \<Rightarrow> nat \<Rightarrow> nat \<Rightarrow> internal_page" where
  "int_delete_left p slot 0 = p"
| "int_delete_left p slot (Suc i) =
     (if int_isSlotUsed p i
      then int_markSlotUsed (p\<lparr>np_children := (np_children p)[i := np_children p ! slot]\<rparr>) slot False
      else int_delete_left p slot i)"

text \<open>
  The third assertion demands that the table of the record id be \<^emph>\<open>different\<close> from the
  table of the page. The entry is passed by pointer: its record id is cleared.
\<close>

definition int_deleteEntry ::
    "internal_page \<Rightarrow> btree_entry \<Rightarrow> bool \<Rightarrow> (btree_entry \<times> internal_page) res" where
  "int_deleteEntry p e deleteRightChild =
     bindE (assertE (e_rid e \<noteq> None)) (\<lambda>_.
     bindE (derefE (e_rid e)) (\<lambda>rid.
     bindE (assertE (pageNumber (rid_pid rid) = pageNumber (bp_pid p) \<and>
                     getTableId (rid_pid rid) \<noteq> getTableId (bp_pid p))) (\<lambda>_.
     bindE (int_isSlotUsedE p (rid_tupleno rid)) (\<lambda>used.
     bindE (assertE used) (\<lambda>_.
       let slot = nat (rid_tupleno rid) in
       Inr (e\<lparr>e_rid := None\<rparr>,
            if deleteRightChild then int_markSlotUsed p slot False
            else int_delete_left p slot slot))))))"

definition deleteKeyAndRightChild ::
    "internal_page \<Rightarrow> btree_entry \<Rightarrow> (btree_entry \<times> internal_page) res" where
  "deleteKeyAndRightChild p e = int_deleteEntry p e True"

definition deleteKeyAndLeftChild ::
    "internal_page \<Rightarrow> btree_entry \<Rightarrow> (btree_entry \<times> internal_page) res" where
  "deleteKeyAndLeftChild p e = int_deleteEntry p e False"

section \<open>Update\<close>

text \<open>The next used slot's key must not be less than the new one.\<close>

function int_check_next :: "internal_page \<Rightarrow> field option \<Rightarrow> nat \<Rightarrow> unit res" where
  "int_check_next p key i =
     (if i < np_numSlots p
      then (if int_isSlotUsed p i
            then bindE (derefE (np_keys p ! i)) (\<lambda>f.
                 bindE (field_compare f GREATER_THAN_OR_EQ key) (\<lambda>c. assertE c))
            else int_check_next p key (Suc i))
      else Inr ())"
  by pat_completeness auto
termination by (relation "measure (\<lambda>(p, key, i). np_numSlots p - i)") auto

declare int_check_next.simps [simp del]

text \<open>
  The used slot before must not hold a greater key (slot 0 has none); its child becomes the
  entry's left child.
\<close>

fun int_update_left :: "internal_page \<Rightarrow> btree_entry \<Rightarrow> nat \<Rightarrow> internal_page res" where
  "int_update_left p e 0 = Inr p"
| "int_update_left p e (Suc i) =
     (if int_isSlotUsed p i
      then bindE (if i = 0 then Inr True
                  else bindE (derefE (np_keys p ! i)) (\<lambda>f.
                         field_compare f LESS_THAN_OR_EQ (e_key e))) (\<lambda>c.
           bindE (assertE c) (\<lambda>_.
           bindE (derefE (e_left e)) (\<lambda>l.
             Inr (p\<lparr>np_children := (np_children p)[i := pageNumber l]\<rparr>))))
      else int_update_left p e i)"

definition updateEntry :: "internal_page \<Rightarrow> btree_entry \<Rightarrow> internal_page res" where
  "updateEntry p e =
     bindE (assertE (e_rid e \<noteq> None)) (\<lambda>_.
     bindE (derefE (e_rid e)) (\<lambda>rid.
     bindE (assertE (pageNumber (rid_pid rid) = pageNumber (bp_pid p) \<and>
                     getTableId (rid_pid rid) = getTableId (bp_pid p))) (\<lambda>_.
     bindE (int_isSlotUsedE p (rid_tupleno rid)) (\<lambda>used.
     bindE (assertE used) (\<lambda>_.
       let slot = nat (rid_tupleno rid) in
       bindE (int_check_next p (e_key e) (slot + 1)) (\<lambda>_.
       bindE (int_update_left p e slot) (\<lambda>p1.
       bindE (derefE (e_right e)) (\<lambda>r.
       bindE (nthE (np_keys p1) slot) (\<lambda>_.
         Inr (p1\<lparr>np_children := (np_children p1)[slot := pageNumber r],
                 np_keys := (np_keys p1)[slot := e_key e]\<rparr>))))))))))"

section \<open>Insertion\<close>

definition int_moveEntry :: "internal_page \<Rightarrow> nat \<Rightarrow> nat \<Rightarrow> internal_page" where
  "int_moveEntry p from to =
     (if \<not> int_isSlotUsed p to \<and> int_isSlotUsed p from
      then let p1 = int_markSlotUsed p to True;
               p2 = p1\<lparr>np_keys := (np_keys p1)[to := np_keys p1 ! from],
                       np_children := (np_children p1)[to := np_children p1 ! from]\<rparr>
           in int_markSlotUsed p2 from False
      else p)"

function int_shift_down :: "internal_page \<Rightarrow> nat \<Rightarrow> nat \<Rightarrow> internal_page" where
  "int_shift_down p i l =
     (if i < l then int_shift_down (int_moveEntry p (Suc i) i) (Suc i) l else p)"
  by pat_completeness auto
termination by (relation "measure (\<lambda>(p, i, l). l - i)") auto

function int_shift_up :: "internal_page \<Rightarrow> nat \<Rightarrow> nat \<Rightarrow> internal_page" where
  "int_shift_up p i g =
     (if g < i then int_shift_up (int_moveEntry p (i - 1) i) (i - 1) g else p)"
  by pat_completeness auto
termination by (relation "measure (\<lambda>(p, i, g). i)") auto

declare int_shift_down.simps [simp del] int_shift_up.simps [simp del]

text \<open>The first empty slot among the \<open>n\<close> slots from \<open>i\<close> on, or \<open>-1\<close>.\<close>

fun int_emptySlot :: "internal_page \<Rightarrow> nat \<Rightarrow> nat \<Rightarrow> int" where
  "int_emptySlot p i 0 = - 1"
| "int_emptySlot p i (Suc n) =
     (if \<not> int_isSlotUsed p i then int i else int_emptySlot p (Suc i) n)"

text \<open>
  The search for the child that the new entry shares with the page. A matching slot is
  remembered, and where it holds the right child it is overwritten with the left one; the
  first used slot after it that does not match ends the search.
\<close>

fun int_findChild ::
    "internal_page \<Rightarrow> field \<Rightarrow> int \<Rightarrow> int \<Rightarrow> nat \<Rightarrow> nat \<Rightarrow> int \<Rightarrow> (int \<times> internal_page) res" where
  "int_findChild p key l r i 0 le = Inr (le, p)"
| "int_findChild p key l r i (Suc n) le =
     (if int_isSlotUsed p i
      then (if np_children p ! i = l \<or> np_children p ! i = r
            then bindE (if i = 0 then Inr True
                        else bindE (derefE (np_keys p ! i)) (\<lambda>f.
                               field_compare f LESS_THAN_OR_EQ (Some key))) (\<lambda>c.
                 bindE (assertE c) (\<lambda>_.
                   int_findChild
                     (if np_children p ! i = r then p\<lparr>np_children := (np_children p)[i := l]\<rparr> else p)
                     key l r (Suc i) n (int i)))
            else if le \<noteq> - 1
            then bindE (derefE (np_keys p ! i)) (\<lambda>f.
                 bindE (field_compare f GREATER_THAN_OR_EQ (Some key)) (\<lambda>c.
                 bindE (assertE c) (\<lambda>_. Inr (le, p))))
            else int_findChild p key l r (Suc i) n le)
      else int_findChild p key l r (Suc i) n le)"

definition int_checkCategory :: "internal_page \<Rightarrow> page_id \<Rightarrow> page_id \<Rightarrow> internal_page res" where
  "int_checkCategory p l r =
     (if np_childCategory p = ROOT_PTR
      then bindE (assertE (btree_type l = btree_type r)) (\<lambda>_.
             Inr (p\<lparr>np_childCategory := btree_type l\<rparr>))
      else bindE (assertE (btree_type l = np_childCategory p \<and> btree_type r = np_childCategory p))
             (\<lambda>_. Inr p))"

text \<open>The entry is passed by value: the record id it is given at the end is lost.\<close>

definition insertEntry :: "internal_page \<Rightarrow> nat \<Rightarrow> btree_entry \<Rightarrow> internal_page res" where
  "insertEntry p maxEntries e =
     bindE (derefE (e_key e)) (\<lambda>key.
     bindE (getFieldType (bp_td p) (bp_keyField p)) (\<lambda>ty.
     bindE (assertE (getType key = ty)) (\<lambda>_.
     bindE (derefE (e_left e)) (\<lambda>l.
     bindE (derefE (e_right e)) (\<lambda>r.
     bindE (assertE (getTableId l = getTableId (bp_pid p) \<and>
                     getTableId r = getTableId (bp_pid p))) (\<lambda>_.
     bindE (int_checkCategory p l r) (\<lambda>p0.
       if int_getNumEmptySlots p0 = maxEntries
       then bindE (nthE (np_keys p0) 1) (\<lambda>_.
              Inr (int_markSlotUsed (int_markSlotUsed
                (p0\<lparr>np_children := (np_children p0)[0 := pageNumber l, 1 := pageNumber r],
                    np_keys := (np_keys p0)[1 := Some key]\<rparr>) 0 True) 1 True))
       else
         let emptySlot = int_emptySlot p0 1 (np_numSlots p0 - 1) in
         bindE (assertE (emptySlot \<noteq> - 1)) (\<lambda>_.
         bindE (int_findChild p0 key (pageNumber l) (pageNumber r) 0 (np_numSlots p0) (- 1))
           (\<lambda>(lessOrEqKey, p1).
         bindE (assertE (lessOrEqKey \<noteq> - 1)) (\<lambda>_.
           let (p2, goodSlot) =
                 (if emptySlot < lessOrEqKey
                  then (int_shift_down p1 (nat emptySlot) (nat lessOrEqKey), nat lessOrEqKey)
                  else (int_shift_up p1 (nat emptySlot) (nat (lessOrEqKey + 1)),
                        nat (lessOrEqKey + 1)));
               p3 = int_markSlotUsed p2 goodSlot True
           in Inr (p3\<lparr>np_keys := (np_keys p3)[goodSlot := Some key],
                      np_children := (np_children p3)[goodSlot := pageNumber r]\<rparr>)))))))))))"

section \<open>Serialisation\<close>

fun int_write_keys ::
    "(nat \<Rightarrow> byte) \<Rightarrow> internal_page \<Rightarrow> nat \<Rightarrow> nat \<Rightarrow> nat \<Rightarrow> nat \<Rightarrow> byte list \<Rightarrow> (nat \<times> byte list) res"
where
  "int_write_keys junk p key_size i 0 offset data = Inr (offset, data)"
| "int_write_keys junk p key_size i (Suc n) offset data =
     bindE (if int_isSlotUsed p i
            then bindE (nthE (np_keys p) i) (\<lambda>k.
                 bindE (derefE k) (\<lambda>f. buf_write offset (field_serialize junk f) data))
            else Inr data) (\<lambda>data'.
       int_write_keys junk p key_size (Suc i) n (offset + key_size) data')"

fun int_write_children ::
    "internal_page \<Rightarrow> nat \<Rightarrow> nat \<Rightarrow> nat \<Rightarrow> byte list \<Rightarrow> byte list res" where
  "int_write_children p i 0 offset data = Inr data"
| "int_write_children p i (Suc n) offset data =
     bindE (if int_isSlotUsed p i
            then bindE (nthE (np_children p) i) (\<lambda>c. buf_write offset (int_bytes c) data)
            else Inr data) (\<lambda>data'.
       int_write_children p (Suc i) n (offset + 4) data')"

definition int_getPageData :: "(nat \<Rightarrow> byte) \<Rightarrow> nat \<Rightarrow> internal_page \<Rightarrow> byte list res" where
  "int_getPageData junk pageSize p =
     bindE (buf_write 0 (int_bytes (bp_parent p)) (btree_createEmptyPageData pageSize)) (\<lambda>d0.
     bindE (buf_write 4 (int_bytes (int_of_page_type (np_childCategory p))) d0) (\<lambda>d1.
     bindE (int_getMaxEntries pageSize (bp_td p) (bp_keyField p)) (\<lambda>maxEntries.
     let header_size = int_getHeaderSize maxEntries in
     bindE (buf_read 0 header_size (np_header p)) (\<lambda>header.
     bindE (buf_write 8 header d1) (\<lambda>d2.
     bindE (getFieldType (bp_td p) (bp_keyField p)) (\<lambda>ty.
     bindE (int_write_keys junk p (getLen ty) 1 (np_numSlots p - 1) (8 + header_size) d2)
       (\<lambda>(offset, d3).
       int_write_children p 0 (np_numSlots p) offset d3)))))))"

end
