(* ===== verification/BTreeMetaPages.thy ===== *)
theory BTreeMetaPages
  imports BTreePage Slots
begin

text \<open>
  The two bookkeeping pages of a B+ tree file: \<open>BTreeHeaderPage\<close> (BTreeHeaderPage.cpp), a link
  of the list of bitmaps that say which pages of the file are in use, and \<open>BTreeRootPtrPage\<close>
  (BTreeRootPtrPage.cpp), which says where the root and the first header page are.
\<close>

section \<open>Header pages\<close>

record header_page =
  hd_pid :: page_id
  hd_next :: int
  hd_prev :: int
  hd_header :: "byte list"
  hd_numSlots :: nat

text \<open>
  Page sizes are at least 8 where a header page is made; the \<open>int\<close> subtraction would give a
  negative size otherwise, which \<open>nat\<close> cuts to 0.
\<close>

definition header_getHeaderSize :: "nat \<Rightarrow> nat" where
  "header_getHeaderSize pageSize = nat (int pageSize - 8)"

definition header_getNumSlots :: "nat \<Rightarrow> nat" where
  "header_getNumSlots pageSize = header_getHeaderSize pageSize * 8"

definition BTreeHeaderPage_new :: "nat \<Rightarrow> page_id \<Rightarrow> byte list \<Rightarrow> header_page res" where
  "BTreeHeaderPage_new pageSize pid data =
     bindE (buf_read 0 4 data) (\<lambda>b0.
     bindE (buf_read 4 4 data) (\<lambda>b1.
     bindE (buf_read 8 (header_getHeaderSize pageSize) data) (\<lambda>header.
       Inr \<lparr>hd_pid = pid, hd_next = bytes_int b0, hd_prev = bytes_int b1, hd_header = header,
            hd_numSlots = header_getNumSlots pageSize\<rparr>)))"

text \<open>\<open>init\<close> marks every slot used.\<close>

definition header_init :: "nat \<Rightarrow> header_page \<Rightarrow> header_page" where
  "header_init pageSize p =
     p\<lparr>hd_header := replicate (header_getHeaderSize pageSize) 255 @
                     drop (header_getHeaderSize pageSize) (hd_header p)\<rparr>"

definition header_createEmptyPageData :: "nat \<Rightarrow> byte list" where
  "header_createEmptyPageData pageSize = replicate pageSize 0"

definition header_getPageData :: "nat \<Rightarrow> header_page \<Rightarrow> byte list res" where
  "header_getPageData pageSize p =
     bindE (buf_write 0 (int_bytes (hd_next p)) (header_createEmptyPageData pageSize)) (\<lambda>d0.
     bindE (buf_write 4 (int_bytes (hd_prev p)) d0) (\<lambda>d1.
     bindE (buf_read 0 (header_getHeaderSize pageSize) (hd_header p)) (\<lambda>header.
       buf_write 8 header d1)))"

definition getPrevPageId :: "header_page \<Rightarrow> page_id option" where
  "getPrevPageId p =
     (if hd_prev p = 0 then None else Some (BTreePageId (getTableId (hd_pid p)) (hd_prev p) HEADER))"

definition getNextPageId :: "header_page \<Rightarrow> page_id option" where
  "getNextPageId p =
     (if hd_next p = 0 then None else Some (BTreePageId (getTableId (hd_pid p)) (hd_next p) HEADER))"

definition setPrevPageId :: "header_page \<Rightarrow> page_id option \<Rightarrow> header_page res" where
  "setPrevPageId p pid =
     (case pid of None \<Rightarrow> Inr (p\<lparr>hd_prev := 0\<rparr>)
      | Some i \<Rightarrow>
          bindE (assertE (getTableId i = getTableId (hd_pid p))) (\<lambda>_.
          bindE (assertE (btree_type i = HEADER)) (\<lambda>_.
            Inr (p\<lparr>hd_prev := pageNumber i\<rparr>))))"

definition setNextPageId :: "header_page \<Rightarrow> page_id option \<Rightarrow> header_page res" where
  "setNextPageId p pid =
     (case pid of None \<Rightarrow> Inr (p\<lparr>hd_next := 0\<rparr>)
      | Some i \<Rightarrow>
          bindE (assertE (getTableId i = getTableId (hd_pid p))) (\<lambda>_.
          bindE (assertE (btree_type i = HEADER)) (\<lambda>_.
            Inr (p\<lparr>hd_next := pageNumber i\<rparr>))))"

text \<open>
  The index is an \<open>int\<close> that the callers compute; outside the bitmap the access is undefined.
\<close>

definition header_isSlotUsed :: "header_page \<Rightarrow> int \<Rightarrow> bool res" where
  "header_isSlotUsed p i =
     (if 0 \<le> i \<and> nat i < 8 * length (hd_header p) then Inr (mod_used (hd_header p) (nat i))
      else Inl OutOfBounds)"

definition header_markSlotUsed :: "header_page \<Rightarrow> int \<Rightarrow> bool \<Rightarrow> header_page res" where
  "header_markSlotUsed p i v =
     (if 0 \<le> i \<and> nat i < 8 * length (hd_header p)
      then Inr (p\<lparr>hd_header := mod_mark (hd_header p) (nat i) v\<rparr>)
      else Inl OutOfBounds)"

text \<open>The two nested loops of \<open>getEmptySlot\<close>: the bits of byte \<open>i\<close> from bit \<open>j\<close> on; the bytes.\<close>

fun header_empty_bit :: "header_page \<Rightarrow> nat \<Rightarrow> nat \<Rightarrow> nat \<Rightarrow> int res" where
  "header_empty_bit p i j 0 = Inr (- 1)"
| "header_empty_bit p i j (Suc n) =
     bindE (header_isSlotUsed p (int (i * 8 + j))) (\<lambda>used.
       if \<not> used then Inr (int (i * 8 + j)) else header_empty_bit p i (Suc j) n)"

fun header_empty_byte :: "header_page \<Rightarrow> nat \<Rightarrow> nat \<Rightarrow> int res" where
  "header_empty_byte p i 0 = Inr (- 1)"
| "header_empty_byte p i (Suc n) =
     bindE (header_empty_bit p i 0 8) (\<lambda>s.
       if s \<noteq> - 1 then Inr s else header_empty_byte p (Suc i) n)"

definition header_getEmptySlot :: "nat \<Rightarrow> header_page \<Rightarrow> int res" where
  "header_getEmptySlot pageSize p = header_empty_byte p 0 (header_getHeaderSize pageSize)"

section \<open>The root pointer page\<close>

record root_ptr_page =
  rt_pid :: page_id
  rt_root :: int
  rt_header :: int
  rt_category :: page_type

definition ROOT_PAGE_SIZE :: nat where
  "ROOT_PAGE_SIZE = 9"

definition rootptr_createEmptyPageData :: "byte list" where
  "rootptr_createEmptyPageData = replicate ROOT_PAGE_SIZE 0"

text \<open>
  The category is a 4-byte enum at offset 8 of a 9-byte buffer. Reading it takes three bytes
  from behind the allocation, which are \<open>junk\<close> here; the constructor is run on every access
  to the tree, so the model does not stop there. Writing it, in \<open>getPageData\<close>, is out of
  bounds.
\<close>

definition BTreeRootPtrPage_new ::
    "(nat \<Rightarrow> byte) \<Rightarrow> page_id \<Rightarrow> byte list \<Rightarrow> root_ptr_page res" where
  "BTreeRootPtrPage_new junk pid data =
     bindE (buf_read 0 4 data) (\<lambda>b0.
     bindE (buf_read 4 4 data) (\<lambda>b1.
     bindE (buf_read 8 4 (data @ map junk [0..<3])) (\<lambda>b2.
       Inr \<lparr>rt_pid = pid, rt_root = bytes_int b0, rt_header = bytes_int b1,
            rt_category = page_type_of_int (bytes_int b2)\<rparr>)))"

definition rootptr_getPageData :: "root_ptr_page \<Rightarrow> byte list res" where
  "rootptr_getPageData p =
     bindE (buf_write 0 (int_bytes (rt_root p)) rootptr_createEmptyPageData) (\<lambda>d0.
     bindE (buf_write 4 (int_bytes (rt_header p)) d0) (\<lambda>d1.
       buf_write 8 (int_bytes (int_of_page_type (rt_category p))) d1))"

definition getRootId :: "root_ptr_page \<Rightarrow> page_id option" where
  "getRootId p =
     (if rt_root p = 0 then None
      else Some (BTreePageId (getTableId (rt_pid p)) (rt_root p) (rt_category p)))"

definition setRootId :: "root_ptr_page \<Rightarrow> page_id option \<Rightarrow> root_ptr_page res" where
  "setRootId p pid =
     (case pid of None \<Rightarrow> Inr (p\<lparr>rt_root := 0\<rparr>)
      | Some i \<Rightarrow>
          bindE (assertE (getTableId i = getTableId (rt_pid p))) (\<lambda>_.
          bindE (assertE (btree_type i = INTERNAL \<or> btree_type i = LEAF)) (\<lambda>_.
            Inr (p\<lparr>rt_root := pageNumber i, rt_category := btree_type i\<rparr>))))"

definition getHeaderId :: "root_ptr_page \<Rightarrow> page_id option" where
  "getHeaderId p =
     (if rt_header p = 0 then None
      else Some (BTreePageId (getTableId (rt_pid p)) (rt_header p) HEADER))"

definition setHeaderId :: "root_ptr_page \<Rightarrow> page_id option \<Rightarrow> root_ptr_page res" where
  "setHeaderId p pid =
     (case pid of None \<Rightarrow> Inr (p\<lparr>rt_header := 0\<rparr>)
      | Some i \<Rightarrow>
          bindE (assertE (getTableId i = getTableId (rt_pid p))) (\<lambda>_.
          bindE (assertE (btree_type i = HEADER)) (\<lambda>_.
            Inr (p\<lparr>rt_header := pageNumber i\<rparr>))))"

definition rootptr_getId :: "int \<Rightarrow> page_id" where
  "rootptr_getId tableid = BTreePageId tableid 0 ROOT_PTR"

end
