(* ===== verification/World.thy ===== *)
theory World
  imports Catalog HeapPage BTreeLeafPage BTreeInternalPage BTreeMetaPages
begin

text \<open>
  The state the program keeps: page objects on the heap, the global buffer pool and catalog
  (Database.cpp), the open files and the bytes they have on disk. Operations are functions of
  the state that fail or return a value and a new state; \<open>'a M\<close> is their type. The theory ends
  with the part of the file classes that the buffer pool calls: \<open>readPage\<close> and \<open>writePage\<close> of
  \<open>HeapFile\<close>, \<open>BTreeFile\<close> and \<open>SkeletonFile\<close>.
\<close>

section \<open>Page objects\<close>

text \<open>The subclasses of \<open>Page\<close>, with the transaction that dirtied the page.\<close>

datatype page =
    HeapPg heap_page
  | LeafPg leaf_page
  | IntPg internal_page
  | HdrPg header_page
  | RootPg root_ptr_page
  | SkelPg page_id

record page_obj =
  po_dirty :: "int option"
  po_page :: page

fun page_getId :: "page \<Rightarrow> page_id" where
  "page_getId (HeapPg p) = hp_pid p"
| "page_getId (LeafPg p) = bp_pid p"
| "page_getId (IntPg p) = bp_pid p"
| "page_getId (HdrPg p) = hd_pid p"
| "page_getId (RootPg p) = rt_pid p"
| "page_getId (SkelPg i) = i"

text \<open>\<open>getPageData\<close>: a skeleton page returns a null pointer.\<close>

fun page_getPageData :: "(nat \<Rightarrow> byte) \<Rightarrow> nat \<Rightarrow> page \<Rightarrow> byte list option res" where
  "page_getPageData junk ps (HeapPg p) = bindE (heap_getPageData junk ps p) (\<lambda>d. Inr (Some d))"
| "page_getPageData junk ps (LeafPg p) = bindE (leaf_getPageData junk ps p) (\<lambda>d. Inr (Some d))"
| "page_getPageData junk ps (IntPg p) = bindE (int_getPageData junk ps p) (\<lambda>d. Inr (Some d))"
| "page_getPageData junk ps (HdrPg p) = bindE (header_getPageData ps p) (\<lambda>d. Inr (Some d))"
| "page_getPageData junk ps (RootPg p) = bindE (rootptr_getPageData p) (\<lambda>d. Inr (Some d))"
| "page_getPageData junk ps (SkelPg i) = Inr None"

section \<open>Files\<close>

record heap_file =
  hf_tableid :: int
  hf_td :: tuple_desc
  hf_numPages :: int
  hf_disk :: "byte list"

record btree_file =
  bf_tableid :: int
  bf_td :: tuple_desc
  bf_keyField :: int
  bf_disk :: "byte list"

record skel_file =
  sf_id :: int
  sf_td :: tuple_desc
  sf_writes :: int

datatype db_file =
    HeapF heap_file
  | BTreeF btree_file
  | SkelF skel_file

fun file_getId :: "db_file \<Rightarrow> int" where
  "file_getId (HeapF f) = hf_tableid f"
| "file_getId (BTreeF f) = bf_tableid f"
| "file_getId (SkelF f) = sf_id f"

fun file_getTupleDesc :: "db_file \<Rightarrow> tuple_desc" where
  "file_getTupleDesc (HeapF f) = hf_td f"
| "file_getTupleDesc (BTreeF f) = bf_td f"
| "file_getTupleDesc (SkelF f) = sf_td f"

section \<open>The state\<close>

text \<open>
  A \<open>PagesMap\<close> maps page ids to page objects (the position of the object in \<open>w_objs\<close>); its keys
  are compared by value, as \<open>equals\<close> of PagesMap.h does. \<open>w_order\<close> is the order in which an
  \<open>unordered_map\<close> enumerates its elements, which the standard leaves open. \<open>w_dirtypages\<close> is the
  local variable that the operations of a B+ tree file hand to each other by reference.
  \<open>w_append\<close> says what \<open>pwrite\<close> does on a file opened with \<open>O_APPEND\<close>: POSIX writes at the
  offset (\<open>False\<close>), Linux appends (\<open>True\<close>). \<open>w_junk\<close> is what uninitialised memory holds.
\<close>

type_synonym pages_map = "(page_id \<times> nat) list"

record world =
  w_pageSize :: nat
  w_numPages :: int
  w_pool :: pages_map
  w_objs :: "page_obj list"
  w_catalog :: catalog
  w_files :: "db_file list"
  w_uuid :: int
  w_dirtypages :: pages_map
  w_order :: "pages_map \<Rightarrow> pages_map"
  w_append :: bool
  w_junk :: "nat \<Rightarrow> byte"

type_synonym 'a M = "world \<Rightarrow> error + 'a \<times> world"

definition returnM :: "'a \<Rightarrow> 'a M" where
  "returnM x = (\<lambda>w. Inr (x, w))"

definition bindM :: "'a M \<Rightarrow> ('a \<Rightarrow> 'b M) \<Rightarrow> 'b M" where
  "bindM m k = (\<lambda>w. case m w of Inl e \<Rightarrow> Inl e | Inr (x, w') \<Rightarrow> k x w')"

definition failM :: "error \<Rightarrow> 'a M" where
  "failM e = (\<lambda>w. Inl e)"

definition liftM :: "'a res \<Rightarrow> 'a M" where
  "liftM r = (\<lambda>w. case r of Inl e \<Rightarrow> Inl e | Inr x \<Rightarrow> Inr (x, w))"

definition readM :: "(world \<Rightarrow> 'a) \<Rightarrow> 'a M" where
  "readM f = (\<lambda>w. Inr (f w, w))"

definition updM :: "(world \<Rightarrow> world) \<Rightarrow> unit M" where
  "updM f = (\<lambda>w. Inr ((), f w))"

fun forM :: "'a list \<Rightarrow> ('a \<Rightarrow> unit M) \<Rightarrow> unit M" where
  "forM [] f = returnM ()"
| "forM (x # xs) f = bindM (f x) (\<lambda>_. forM xs f)"

lemma bindM_apply [run_simps]:
  "m w = Inr (x, w') \<Longrightarrow> bindM m k w = k x w'"
  "m w = Inl e \<Longrightarrow> bindM m k w = Inl e"
  by (simp_all add: bindM_def)

lemma bindM_eq_Inr: "bindM m k w = Inr y \<longleftrightarrow> (\<exists>x w'. m w = Inr (x, w') \<and> k x w' = Inr y)"
  by (auto simp: bindM_def split: sum.split prod.split)

lemma runM [simp, run_simps]:
  "returnM x w = Inr (x, w)" "failM e w = Inl e" "readM f w = Inr (f w, w)" "updM g w = Inr ((), g w)"
  "liftM (Inr x) w = Inr (x, w)" "liftM (Inl e) w = Inl e"
  by (simp_all add: returnM_def failM_def readM_def updM_def liftM_def)

lemma bindM_run [simp, run_simps]:
  "bindM (returnM x) k w = k x w" "bindM (failM e) k' w = Inl e" "bindM (readM f) l w = l (f w) w"
  "bindM (updM g) m w = m () (g w)" "bindM (liftM (Inr x)) k w = k x w"
  "bindM (liftM (Inl e)) k'' w = Inl e"
  by (simp_all add: bindM_def)

lemma bindM_assoc: "bindM (bindM m k) l w = bindM m (\<lambda>x. bindM (k x) l) w"
  by (auto simp: bindM_def split: sum.split prod.split)

lemma liftM_eq_Inr [simp]: "liftM r w = Inr (x, w') \<longleftrightarrow> r = Inr x \<and> w' = w"
  by (cases r) auto

section \<open>Transactions\<close>

text \<open>A transaction is its number; the constructor takes the next one of a static counter.\<close>

definition TransactionId_new :: "int \<Rightarrow> int \<times> int" where
  "TransactionId_new nextTransactionId = (nextTransactionId, nextTransactionId + 1)"

section \<open>Objects\<close>

text \<open>Reading, allocating and changing page objects; \<open>page_at\<close> follows a pointer.\<close>

definition page_at :: "nat \<Rightarrow> page M" where
  "page_at a = (\<lambda>w. bindE (nthE (w_objs w) a) (\<lambda>ob. Inr (po_page ob, w)))"

definition new_page :: "page \<Rightarrow> nat M" where
  "new_page p = (\<lambda>w. Inr (length (w_objs w),
     w\<lparr>w_objs := w_objs w @ [\<lparr>po_dirty = None, po_page = p\<rparr>]\<rparr>))"

definition put_page :: "nat \<Rightarrow> page \<Rightarrow> unit M" where
  "put_page a p = (\<lambda>w. bindE (nthE (w_objs w) a) (\<lambda>ob.
     Inr ((), w\<lparr>w_objs := (w_objs w)[a := ob\<lparr>po_page := p\<rparr>]\<rparr>)))"

definition isDirty :: "nat \<Rightarrow> int option M" where
  "isDirty a = (\<lambda>w. bindE (nthE (w_objs w) a) (\<lambda>ob. Inr (po_dirty ob, w)))"

definition markDirty :: "nat \<Rightarrow> int option \<Rightarrow> unit M" where
  "markDirty a tid = (\<lambda>w. bindE (nthE (w_objs w) a) (\<lambda>ob.
     Inr ((), w\<lparr>w_objs := (w_objs w)[a := ob\<lparr>po_dirty := tid\<rparr>]\<rparr>)))"

text \<open>\<open>dynamic_cast\<close> to a page class followed by the use of the pointer.\<close>

definition leaf_at :: "nat \<Rightarrow> leaf_page M" where
  "leaf_at a = bindM (page_at a) (\<lambda>p. case p of LeafPg q \<Rightarrow> returnM q | _ \<Rightarrow> failM NullDeref)"

definition internal_at :: "nat \<Rightarrow> internal_page M" where
  "internal_at a = bindM (page_at a) (\<lambda>p. case p of IntPg q \<Rightarrow> returnM q | _ \<Rightarrow> failM NullDeref)"

definition header_at :: "nat \<Rightarrow> header_page M" where
  "header_at a = bindM (page_at a) (\<lambda>p. case p of HdrPg q \<Rightarrow> returnM q | _ \<Rightarrow> failM NullDeref)"

definition root_at :: "nat \<Rightarrow> root_ptr_page M" where
  "root_at a = bindM (page_at a) (\<lambda>p. case p of RootPg q \<Rightarrow> returnM q | _ \<Rightarrow> failM NullDeref)"

definition heap_at :: "nat \<Rightarrow> heap_page M" where
  "heap_at a = bindM (page_at a) (\<lambda>p. case p of HeapPg q \<Rightarrow> returnM q | _ \<Rightarrow> failM NullDeref)"

section \<open>The catalog and the files of the state\<close>

definition w_file_id :: "world \<Rightarrow> nat \<Rightarrow> int" where
  "w_file_id w i = file_getId (w_files w ! i)"

definition w_file_td :: "world \<Rightarrow> nat \<Rightarrow> tuple_desc" where
  "w_file_td w i = file_getTupleDesc (w_files w ! i)"

definition db_getTupleDesc :: "int \<Rightarrow> tuple_desc M" where
  "db_getTupleDesc tableid =
     (\<lambda>w. liftM (catalog_getTupleDesc (w_file_td w) (w_catalog w) tableid) w)"

definition db_getDatabaseFile :: "int \<Rightarrow> nat M" where
  "db_getDatabaseFile tableid = (\<lambda>w. liftM (getDatabaseFile (w_catalog w) tableid) w)"

definition db_getTableName :: "int \<Rightarrow> string M" where
  "db_getTableName tableid = (\<lambda>w. liftM (catalog_getTableName (w_catalog w) tableid) w)"

definition file_at :: "nat \<Rightarrow> db_file M" where
  "file_at i = (\<lambda>w. liftM (nthE (w_files w) i) w)"

definition put_file :: "nat \<Rightarrow> db_file \<Rightarrow> unit M" where
  "put_file i f = updM (\<lambda>w. w\<lparr>w_files := (w_files w)[i := f]\<rparr>)"

definition btree_at :: "nat \<Rightarrow> btree_file M" where
  "btree_at i = bindM (file_at i) (\<lambda>f. case f of BTreeF b \<Rightarrow> returnM b | _ \<Rightarrow> failM NullDeref)"

definition heapfile_at :: "nat \<Rightarrow> heap_file M" where
  "heapfile_at i = bindM (file_at i) (\<lambda>f. case f of HeapF b \<Rightarrow> returnM b | _ \<Rightarrow> failM NullDeref)"

text \<open>\<open>Database::reset\<close> and \<open>resetBufferPool\<close>: the default is 50 pages of 4096 bytes.\<close>

definition DEFAULT_PAGES :: int where
  "DEFAULT_PAGES = 50"

definition PAGE_SIZE :: nat where
  "PAGE_SIZE = 4096"

definition resetBufferPool :: "int \<Rightarrow> unit M" where
  "resetBufferPool pages =
     updM (\<lambda>w. w\<lparr>w_pool := [], w_numPages := pages, w_pageSize := PAGE_SIZE\<rparr>)"

definition database_reset :: "unit M" where
  "database_reset =
     bindM (updM (\<lambda>w. w\<lparr>w_catalog := Catalog_new\<rparr>)) (\<lambda>_. resetBufferPool DEFAULT_PAGES)"

section \<open>Disk access\<close>

text \<open>
  \<open>pwrite\<close> at an offset past the end leaves a hole of zeros, and does nothing at a negative one.
  \<open>pread\<close> returns what there is.
\<close>

definition disk_write :: "nat \<Rightarrow> byte list \<Rightarrow> byte list \<Rightarrow> byte list" where
  "disk_write off bs disk =
     take off (disk @ replicate (off - length disk) 0) @ bs @ drop (off + length bs) disk"

definition disk_pwrite :: "bool \<Rightarrow> int \<Rightarrow> byte list \<Rightarrow> byte list \<Rightarrow> byte list" where
  "disk_pwrite oapp off bs disk =
     (if off < 0 then disk else if oapp then disk @ bs else disk_write (nat off) bs disk)"

definition disk_pread :: "int \<Rightarrow> nat \<Rightarrow> byte list \<Rightarrow> byte list res" where
  "disk_pread off n disk =
     (if off < 0 then Inl AssertFail else Inr (take n (drop (nat off) disk)))"

text \<open>C division rounds towards zero.\<close>

definition c_div :: "int \<Rightarrow> int \<Rightarrow> int" where
  "c_div a b = sgn a * sgn b * (\<bar>a\<bar> div \<bar>b\<bar>)"

section \<open>\<open>HeapFile\<close>: pages\<close>

text \<open>
  \<open>open\<close> and \<open>fstat\<close> have succeeded: the content of the file is given, and \<open>h\<close> is the hash of
  its name.
\<close>

definition HeapFile_new :: "nat \<Rightarrow> int \<Rightarrow> byte list \<Rightarrow> tuple_desc \<Rightarrow> heap_file" where
  "HeapFile_new pageSize h disk td =
     \<lparr>hf_tableid = h, hf_td = td, hf_numPages = c_div (int (length disk)) (int pageSize),
      hf_disk = disk\<rparr>"

text \<open>
  The buffer is not initialised and the result of \<open>pread\<close> is not looked at: what the file
  does not have is whatever was in memory. The offset is a product of two \<open>int\<close>s, converted to
  \<open>off_t\<close> afterwards, here and in \<open>writePage\<close>.
\<close>

definition heap_page_bytes :: "(nat \<Rightarrow> byte) \<Rightarrow> nat \<Rightarrow> int \<Rightarrow> byte list \<Rightarrow> byte list" where
  "heap_page_bytes junk pageSize off disk =
     (let bs = (if off < 0 then [] else take pageSize (drop (nat off) disk))
      in bs @ map junk [length bs..<pageSize])"

definition HeapFile_readPage :: "nat \<Rightarrow> page_id \<Rightarrow> page M" where
  "HeapFile_readPage i pid =
     bindM (heapfile_at i) (\<lambda>f.
     bindM (readM w_pageSize) (\<lambda>ps.
     bindM (liftM (case pid of HeapPageId t n \<Rightarrow> Inr n | _ \<Rightarrow> Inl NullDeref)) (\<lambda>n.
     bindM (liftM (int_mulE n (int ps))) (\<lambda>off.
     bindM (db_getTupleDesc (getTableId pid)) (\<lambda>td.
     bindM (readM w_junk) (\<lambda>junk.
     bindM (liftM (HeapPage_new junk ps td pid (heap_page_bytes junk ps off (hf_disk f)))) (\<lambda>p.
       returnM (HeapPg p))))))))"

text \<open>A null buffer makes \<open>pwrite\<close> fail, which is not looked at.\<close>

definition HeapFile_writePage :: "nat \<Rightarrow> page \<Rightarrow> unit M" where
  "HeapFile_writePage i p =
     bindM (heapfile_at i) (\<lambda>f.
     bindM (readM w_pageSize) (\<lambda>ps.
     bindM (readM w_junk) (\<lambda>junk.
     bindM (liftM (page_getPageData junk ps p)) (\<lambda>data.
     bindM (liftM (int_mulE (pageNumber (page_getId p)) (int ps))) (\<lambda>off.
       case data of None \<Rightarrow> returnM ()
       | Some d \<Rightarrow> put_file i (HeapF (f\<lparr>hf_disk :=
           disk_pwrite False off (take ps d) (hf_disk f)\<rparr>)))))))"

section \<open>\<open>BTreeFile\<close>: pages\<close>

text \<open>The file is truncated when it is opened.\<close>

definition BTreeFile_new :: "int \<Rightarrow> int \<Rightarrow> tuple_desc \<Rightarrow> btree_file" where
  "BTreeFile_new h key td = \<lparr>bf_tableid = h, bf_td = td, bf_keyField = key, bf_disk = []\<rparr>"

text \<open>
  The code computes this offset with \<open>int\<close>s too. Unlike that of a heap file it is kept as an
  unbounded integer: the value is the code's as long as the file is smaller than two gigabytes
  (\<open>btree_offset_int32\<close>), and on pages of up to 32 KiB (the default is 4096 bytes) the files of
  the trees that the program can build, those below the capacity of one root page, are
  (\<open>tree_offset_int32\<close> in the theory of whole files).
\<close>

definition btree_offset :: "nat \<Rightarrow> int \<Rightarrow> int" where
  "btree_offset pageSize n = int ROOT_PAGE_SIZE + (n - 1) * int pageSize"

lemma btree_offset_int32:
  assumes "1 \<le> n" "int ROOT_PAGE_SIZE + (n - 1) * int ps < 2 ^ 31"
  shows "is_int32 ((n - 1) * int ps)" "is_int32 (btree_offset ps n)"
proof -
  have "0 \<le> (n - 1) * int ps" using assms(1) by simp
  then show "is_int32 ((n - 1) * int ps)" "is_int32 (btree_offset ps n)"
    using assms(2) by (simp_all add: is_int32_def btree_offset_def)
qed

definition BTreeFile_readPage :: "nat \<Rightarrow> page_id \<Rightarrow> page M" where
  "BTreeFile_readPage i pid =
     bindM (btree_at i) (\<lambda>f.
     bindM (readM w_pageSize) (\<lambda>ps.
     bindM (readM w_junk) (\<lambda>junk.
       case pid of
         BTreePageId t n ty \<Rightarrow>
           (if ty = ROOT_PTR
            then bindM (liftM (disk_pread 0 ROOT_PAGE_SIZE (bf_disk f))) (\<lambda>buf.
                 bindM (liftM (assertE (length buf = ROOT_PAGE_SIZE))) (\<lambda>_.
                 bindM (liftM (BTreeRootPtrPage_new junk pid buf)) (\<lambda>p. returnM (RootPg p))))
            else bindM (liftM (disk_pread (btree_offset ps n) ps (bf_disk f))) (\<lambda>buf.
                 bindM (liftM (assertE (length buf = ps))) (\<lambda>_.
                   if ty = INTERNAL
                   then bindM (db_getTupleDesc t) (\<lambda>td.
                        bindM (liftM (BTreeInternalPage_new junk ps td pid buf (bf_keyField f)))
                          (\<lambda>p. returnM (IntPg p)))
                   else if ty = LEAF
                   then bindM (db_getTupleDesc t) (\<lambda>td.
                        bindM (liftM (BTreeLeafPage_new junk ps td pid buf (bf_keyField f)))
                          (\<lambda>p. returnM (LeafPg p)))
                   else bindM (liftM (BTreeHeaderPage_new ps pid buf)) (\<lambda>p. returnM (HdrPg p)))))
       | _ \<Rightarrow> failM NullDeref)))"

definition BTreeFile_writePage :: "nat \<Rightarrow> page \<Rightarrow> unit M" where
  "BTreeFile_writePage i p =
     bindM (btree_at i) (\<lambda>f.
     bindM (readM w_pageSize) (\<lambda>ps.
     bindM (readM w_junk) (\<lambda>junk.
     bindM (readM w_append) (\<lambda>oapp.
     bindM (liftM (page_getPageData junk ps p)) (\<lambda>data.
       case page_getId p of
         BTreePageId t n ty \<Rightarrow>
           (case data of None \<Rightarrow> returnM ()
            | Some d \<Rightarrow>
                put_file i (BTreeF (f\<lparr>bf_disk :=
                  (if ty = ROOT_PTR
                   then disk_pwrite oapp 0 (take ROOT_PAGE_SIZE d) (bf_disk f)
                   else disk_pwrite oapp (btree_offset ps n) (take ps d) (bf_disk f))\<rparr>)))
       | _ \<Rightarrow> failM NullDeref)))))"

definition BTreeFile_getNumPages :: "nat \<Rightarrow> int M" where
  "BTreeFile_getNumPages i =
     bindM (btree_at i) (\<lambda>f.
     bindM (readM w_pageSize) (\<lambda>ps.
       returnM (c_div (int (length (bf_disk f)) - int ROOT_PAGE_SIZE) (int ps))))"

section \<open>\<open>SkeletonFile\<close>\<close>

definition SkeletonFile_new :: "int \<Rightarrow> tuple_desc \<Rightarrow> skel_file" where
  "SkeletonFile_new i td = \<lparr>sf_id = i, sf_td = td, sf_writes = 0\<rparr>"

definition SkeletonFile_readPage :: "page_id \<Rightarrow> page M" where
  "SkeletonFile_readPage pid = returnM (SkelPg pid)"

definition SkeletonFile_writePage :: "nat \<Rightarrow> page \<Rightarrow> unit M" where
  "SkeletonFile_writePage i p =
     bindM (file_at i) (\<lambda>f. case f of SkelF s \<Rightarrow> put_file i (SkelF (s\<lparr>sf_writes := sf_writes s + 1\<rparr>))
                             | _ \<Rightarrow> failM NullDeref)"

definition SkeletonFile_begin :: "unit M" where
  "SkeletonFile_begin = failM (RuntimeError ''not implemented'')"

definition SkeletonFile_end :: "unit M" where
  "SkeletonFile_end = failM (RuntimeError ''not implemented'')"

definition SkeletonFile_insertTuple :: "nat list M" where
  "SkeletonFile_insertTuple = returnM []"

definition SkeletonFile_deleteTuple :: "nat list M" where
  "SkeletonFile_deleteTuple = returnM []"

section \<open>Virtual dispatch\<close>

definition file_readPage :: "nat \<Rightarrow> page_id \<Rightarrow> page M" where
  "file_readPage i pid =
     bindM (file_at i) (\<lambda>f. case f of
         HeapF _ \<Rightarrow> HeapFile_readPage i pid
       | BTreeF _ \<Rightarrow> BTreeFile_readPage i pid
       | SkelF _ \<Rightarrow> SkeletonFile_readPage pid)"

definition file_writePage :: "nat \<Rightarrow> page \<Rightarrow> unit M" where
  "file_writePage i p =
     bindM (file_at i) (\<lambda>f. case f of
         HeapF _ \<Rightarrow> HeapFile_writePage i p
       | BTreeF _ \<Rightarrow> BTreeFile_writePage i p
       | SkelF _ \<Rightarrow> SkeletonFile_writePage i p)"

definition file_getNumPages :: "nat \<Rightarrow> int M" where
  "file_getNumPages i =
     bindM (file_at i) (\<lambda>f. case f of
         HeapF h \<Rightarrow> returnM (hf_numPages h)
       | BTreeF _ \<Rightarrow> BTreeFile_getNumPages i
       | SkelF _ \<Rightarrow> returnM 0)"

section \<open>Running an access\<close>

text \<open>An access to an object or a file that exists, followed by the rest of the operation.\<close>

lemma run_object [simp, run_simps]:
  assumes "a < length (w_objs w)"
  shows "bindM (page_at a) k w = k (po_page (w_objs w ! a)) w"
    and "bindM (isDirty a) l w = l (po_dirty (w_objs w ! a)) w"
    and "bindM (markDirty a d) m w =
      m () (w\<lparr>w_objs := (w_objs w)[a := (w_objs w ! a)\<lparr>po_dirty := d\<rparr>]\<rparr>)"
    and "bindM (put_page a p) n w =
      n () (w\<lparr>w_objs := (w_objs w)[a := (w_objs w ! a)\<lparr>po_page := p\<rparr>]\<rparr>)"
    and "page_at a w = Inr (po_page (w_objs w ! a), w)"
    and "isDirty a w = Inr (po_dirty (w_objs w ! a), w)"
    and "markDirty a d w = Inr ((), w\<lparr>w_objs := (w_objs w)[a := (w_objs w ! a)\<lparr>po_dirty := d\<rparr>]\<rparr>)"
    and "put_page a p w = Inr ((), w\<lparr>w_objs := (w_objs w)[a := (w_objs w ! a)\<lparr>po_page := p\<rparr>]\<rparr>)"
  using assms by (simp_all add: bindM_def page_at_def isDirty_def markDirty_def put_page_def)

lemma page_obj_both [simp, run_simps]:
  "(ob :: page_obj)\<lparr>po_page := p, po_dirty := d\<rparr> = \<lparr>po_dirty = d, po_page = p\<rparr>"
  by (cases ob) simp

lemma run_new_page [simp, run_simps]:
  "bindM (new_page p) k w = k (length (w_objs w)) (w\<lparr>w_objs := w_objs w @ [\<lparr>po_dirty = None, po_page = p\<rparr>]\<rparr>)"
  by (simp add: bindM_def new_page_def)

lemma run_heap_at [simp, run_simps]:
  assumes "a < length (w_objs w)" "po_page (w_objs w ! a) = HeapPg p"
  shows "bindM (heap_at a) k w = k p w" "heap_at a w = Inr (p, w)"
  using assms by (simp_all add: heap_at_def bindM_assoc)

lemma run_leaf_at [simp, run_simps]:
  assumes "a < length (w_objs w)" "po_page (w_objs w ! a) = LeafPg p"
  shows "bindM (leaf_at a) k w = k p w" "leaf_at a w = Inr (p, w)"
  using assms by (simp_all add: leaf_at_def bindM_assoc)

lemma run_internal_at [simp, run_simps]:
  assumes "a < length (w_objs w)" "po_page (w_objs w ! a) = IntPg p"
  shows "bindM (internal_at a) k w = k p w" "internal_at a w = Inr (p, w)"
  using assms by (simp_all add: internal_at_def bindM_assoc)

lemma run_root_at [simp, run_simps]:
  assumes "a < length (w_objs w)" "po_page (w_objs w ! a) = RootPg p"
  shows "bindM (root_at a) k w = k p w" "root_at a w = Inr (p, w)"
  using assms by (simp_all add: root_at_def bindM_assoc)

lemma run_header_at [simp, run_simps]:
  assumes "a < length (w_objs w)" "po_page (w_objs w ! a) = HdrPg p"
  shows "bindM (header_at a) k w = k p w" "header_at a w = Inr (p, w)"
  using assms by (simp_all add: header_at_def bindM_assoc)

lemma run_file [simp, run_simps]:
  assumes "i < length (w_files w)"
  shows "bindM (file_at i) k w = k (w_files w ! i) w" "file_at i w = Inr (w_files w ! i, w)"
  using assms by (simp_all add: bindM_def file_at_def)

lemma run_heapfile [simp, run_simps]:
  assumes "i < length (w_files w)" "w_files w ! i = HeapF f"
  shows "bindM (heapfile_at i) k w = k f w" "heapfile_at i w = Inr (f, w)"
  using assms by (simp_all add: heapfile_at_def bindM_assoc)

lemma run_btree [simp, run_simps]:
  assumes "i < length (w_files w)" "w_files w ! i = BTreeF f"
  shows "bindM (btree_at i) k w = k f w" "btree_at i w = Inr (f, w)"
  using assms by (simp_all add: btree_at_def bindM_assoc)

lemma run_put_file [simp, run_simps]:
  "bindM (put_file i f) k w = k () (w\<lparr>w_files := (w_files w)[i := f]\<rparr>)"
  "put_file i f w = Inr ((), w\<lparr>w_files := (w_files w)[i := f]\<rparr>)"
  by (simp_all add: put_file_def)

end
