(* ===== verification/BufferPool.thy ===== *)
theory BufferPool
  imports World
begin

text \<open>
  \<open>PagesMap\<close> (PagesMap.h) and the operations of \<open>BufferPool\<close> (BufferPool.cpp) on single pages:
  \<open>getPage\<close>, \<open>flushPage\<close>, \<open>flushAllPages\<close>, \<open>flushPages\<close>, \<open>discardPage\<close>, \<open>evictPage\<close>. Its
  \<open>insertTuple\<close> and \<open>deleteTuple\<close> call into the files and are in the theory of the storage
  layer.
\<close>

section \<open>Maps of pages\<close>

text \<open>
  The keys are compared with \<open>PageId::operator==\<close>, the key that is looked up on the left. In the code
  they are pointers to the page ids that the callers of \<open>getPage\<close> passed; here they are the values of
  these ids, which is the same while the ids live and do not change. The operation that changes one,
  \<open>operator++\<close> of the heap file iterator, detects it (\<open>KeyChanged\<close>).
\<close>

fun pm_find :: "page_id \<Rightarrow> pages_map \<Rightarrow> nat option" where
  "pm_find k [] = None"
| "pm_find k ((k', a) # m) = (if pid_eq k k' then Some a else pm_find k m)"

fun pm_put :: "page_id \<Rightarrow> nat \<Rightarrow> pages_map \<Rightarrow> pages_map" where
  "pm_put k a [] = [(k, a)]"
| "pm_put k a ((k', b) # m) = (if pid_eq k k' then (k', a) # m else (k', b) # pm_put k a m)"

fun pm_erase :: "page_id \<Rightarrow> pages_map \<Rightarrow> pages_map" where
  "pm_erase k [] = []"
| "pm_erase k ((k', b) # m) = (if pid_eq k k' then m else (k', b) # pm_erase k m)"

definition pm_inv :: "pages_map \<Rightarrow> bool" where
  "pm_inv m \<longleftrightarrow> distinct (map fst m)"

section \<open>The map interface\<close>

text \<open>
  What the buffer pool and the B+ tree rely on. The laws are stated for keys that compare like
  values; a skeleton page id equals any page id with its numbers, in one direction only.
\<close>

locale page_map =
  fixes find :: "'k \<Rightarrow> 'm \<Rightarrow> 'a option"
    and put :: "'k \<Rightarrow> 'a \<Rightarrow> 'm \<Rightarrow> 'm"
    and erase :: "'k \<Rightarrow> 'm \<Rightarrow> 'm"
    and size_of :: "'m \<Rightarrow> nat"
    and inv :: "'m \<Rightarrow> bool"
    and key_ok :: "'k \<Rightarrow> bool"
  assumes find_put: "key_ok k \<Longrightarrow> key_ok k' \<Longrightarrow> find k' (put k a m) = (if k' = k then Some a else find k' m)"
    and find_erase: "inv m \<Longrightarrow> key_ok k \<Longrightarrow> key_ok k' \<Longrightarrow>
          find k' (erase k m) = (if k' = k then None else find k' m)"
    and inv_put: "inv m \<Longrightarrow> key_ok k \<Longrightarrow> inv (put k a m)"
    and inv_erase: "inv m \<Longrightarrow> inv (erase k m)"
    and size_put: "size_of (put k a m) = (if find k m = None then Suc (size_of m) else size_of m)"
    and size_erase: "size_of (erase k m) = (if find k m = None then size_of m else size_of m - 1)"
    and size_pos: "find k m \<noteq> None \<Longrightarrow> 0 < size_of m"
begin

lemma find_put_same [simp]: "key_ok k \<Longrightarrow> find k (put k a m) = Some a"
  by (simp add: find_put)

lemma find_erase_same [simp]: "inv m \<Longrightarrow> key_ok k \<Longrightarrow> find k (erase k m) = None"
  by (simp add: find_erase)

lemma size_erase_less: "find k m \<noteq> None \<Longrightarrow> size_of (erase k m) < size_of m"
  using size_pos [of k m] by (simp add: size_erase)

text \<open>Making room and then storing keeps a map within its capacity.\<close>

lemma size_bounded_put:
  assumes "size_of m < cap \<or> find k m \<noteq> None" "size_of m \<le> cap"
  shows "size_of (put k a m) \<le> cap"
  using assms by (auto simp: size_put)

text \<open>Putting after erasing loses the old value and nothing else.\<close>

lemma find_erase_put:
  "inv m \<Longrightarrow> key_ok k \<Longrightarrow> key_ok k' \<Longrightarrow>
   find k' (put k a (erase k m)) = find k' (put k a m)"
  by (simp add: find_put find_erase)

lemma put_put: "key_ok k \<Longrightarrow> key_ok k' \<Longrightarrow> find k' (put k b (put k a m)) = find k' (put k b m)"
  by (simp add: find_put)

end

lemma pm_find_Some_set: "no_skeleton k \<Longrightarrow> pm_find k m = Some a \<Longrightarrow> (k, a) \<in> set m"
  by (induction k m rule: pm_find.induct) (auto simp: pid_eq_iff split: if_splits)

lemma pm_find_None: "no_skeleton k \<Longrightarrow> pm_find k m = None \<longleftrightarrow> k \<notin> fst ` set m"
  by (induction k m rule: pm_find.induct) (auto simp: pid_eq_iff)

lemma pm_put_keys:
  "no_skeleton k \<Longrightarrow> map fst (pm_put k a m) =
     (if pm_find k m = None then map fst m @ [k] else map fst m)"
  by (induction k a m rule: pm_put.induct) (auto simp: pid_eq_iff)

lemma set_pm_erase: "set (pm_erase k m) \<subseteq> set m"
  by (induction k m rule: pm_erase.induct) auto

lemma pm_find_erase_notin: "no_skeleton k \<Longrightarrow> k \<notin> fst ` set m \<Longrightarrow> pm_find k m = None"
  by (simp add: pm_find_None)

interpretation pages: page_map pm_find pm_put pm_erase length pm_inv no_skeleton
proof
  fix k k' :: page_id and a :: nat and m :: pages_map
  assume k: "no_skeleton k" "no_skeleton k'"
  show "pm_find k' (pm_put k a m) = (if k' = k then Some a else pm_find k' m)"
    using k by (induction k a m rule: pm_put.induct) (auto simp: pid_eq_iff)
next
  fix k k' :: page_id and m :: pages_map
  assume k: "pm_inv m" "no_skeleton k" "no_skeleton k'"
  then show "pm_find k' (pm_erase k m) = (if k' = k then None else pm_find k' m)"
  proof (induction k m rule: pm_erase.induct)
    case (2 k j b m)
    show ?case
    proof (cases "k = j")
      case True
      moreover have "pm_find j m = None" using 2 True by (simp add: pm_find_None pm_inv_def)
      ultimately show ?thesis using 2 by (auto simp: pid_eq_iff)
    next
      case False
      with 2 show ?thesis by (auto simp: pid_eq_iff pm_inv_def)
    qed
  qed simp
next
  fix k :: page_id and a :: nat and m :: pages_map
  assume "pm_inv m" "no_skeleton k"
  then show "pm_inv (pm_put k a m)"
    by (simp add: pm_inv_def pm_put_keys pm_find_None)
next
  fix k :: page_id and m :: pages_map
  assume "pm_inv m"
  then show "pm_inv (pm_erase k m)"
  proof (induction k m rule: pm_erase.induct)
    case (2 k j b m)
    then show ?case using set_pm_erase [of k m] by (auto simp: pm_inv_def)
  qed simp
next
  fix k :: page_id and a :: nat and m :: pages_map
  show "length (pm_put k a m) = (if pm_find k m = None then Suc (length m) else length m)"
    by (induction k a m rule: pm_put.induct) auto
next
  fix k :: page_id and m :: pages_map
  show "length (pm_erase k m) = (if pm_find k m = None then length m else length m - 1)"
  proof (induction k m rule: pm_erase.induct)
    case (2 k j b m)
    then show ?case by (cases m) auto
  qed simp
next
  fix k :: page_id and m :: pages_map
  show "pm_find k m \<noteq> None \<Longrightarrow> 0 < length m" by (cases m) auto
qed

section \<open>The buffer pool\<close>

text \<open>\<open>pages[pid] = page\<close> on the pool, and reading it.\<close>

definition pool_put :: "page_id \<Rightarrow> nat \<Rightarrow> unit M" where
  "pool_put k a = updM (\<lambda>w. w\<lparr>w_pool := pm_put k a (w_pool w)\<rparr>)"

definition flushPage :: "page_id \<Rightarrow> unit M" where
  "flushPage pid =
     bindM (readM w_pool) (\<lambda>pages.
       case pm_find pid pages of
         None \<Rightarrow> returnM ()
       | Some a \<Rightarrow>
           bindM (isDirty a) (\<lambda>d.
             if d \<noteq> None
             then bindM (markDirty a None) (\<lambda>_.
                  bindM (db_getDatabaseFile (getTableId pid)) (\<lambda>i.
                  bindM (page_at a) (\<lambda>p. file_writePage i p)))
             else returnM ()))"

text \<open>\<open>pages.begin()\<close> is the first element of the enumeration order.\<close>

definition evictPage :: "unit M" where
  "evictPage =
     bindM (readM (\<lambda>w. w_order w (w_pool w))) (\<lambda>elems.
       case elems of
         [] \<Rightarrow> returnM ()
       | (k, a) # _ \<Rightarrow>
           bindM (flushPage k) (\<lambda>_.
             updM (\<lambda>w. w\<lparr>w_pool := remove1 (k, a) (w_pool w)\<rparr>)))"

definition flushAllPages :: "unit M" where
  "flushAllPages =
     bindM (readM (\<lambda>w. w_order w (w_pool w))) (\<lambda>elems. forM elems (\<lambda>e. flushPage (fst e)))"

definition flushPages :: "int \<Rightarrow> unit M" where
  "flushPages tid =
     bindM (readM (\<lambda>w. w_order w (w_pool w))) (\<lambda>elems.
       forM elems (\<lambda>e. bindM (isDirty (snd e)) (\<lambda>d.
         if d = Some tid then flushPage (fst e) else returnM ())))"

definition discardPage :: "page_id \<Rightarrow> unit M" where
  "discardPage pid = updM (\<lambda>w. w\<lparr>w_pool := pm_erase pid (w_pool w)\<rparr>)"

text \<open>\<open>pages.size() >= numPages\<close> compares as unsigned numbers.\<close>

definition pool_full :: "world \<Rightarrow> bool" where
  "pool_full w \<longleftrightarrow> usize (w_numPages w) \<le> length (w_pool w)"

definition bp_getPage :: "page_id \<Rightarrow> nat M" where
  "bp_getPage pid =
     bindM (readM w_pool) (\<lambda>pages.
       case pm_find pid pages of
         Some a \<Rightarrow> returnM a
       | None \<Rightarrow>
           bindM (readM pool_full) (\<lambda>full.
           bindM (if full then evictPage else returnM ()) (\<lambda>_.
           bindM (db_getDatabaseFile (getTableId pid)) (\<lambda>i.
           bindM (file_readPage i pid) (\<lambda>p.
           bindM (new_page p) (\<lambda>a.
           bindM (pool_put pid a) (\<lambda>_. returnM a)))))))"

text \<open>The loop over the pages an operation dirtied, in \<open>insertTuple\<close> and \<open>deleteTuple\<close>.\<close>

fun pool_add_dirty :: "int \<Rightarrow> nat list \<Rightarrow> unit M" where
  "pool_add_dirty tid [] = returnM ()"
| "pool_add_dirty tid (a # as) =
     bindM (markDirty a (Some tid)) (\<lambda>_.
     bindM (page_at a) (\<lambda>p.
     let pid = page_getId p in
     bindM (readM (\<lambda>w. pool_full w \<and> pm_find pid (w_pool w) = None)) (\<lambda>b.
     bindM (if b then evictPage else returnM ()) (\<lambda>_.
     bindM (pool_put pid a) (\<lambda>_. pool_add_dirty tid as)))))"

end
