(* ===== verification/HeapFile.thy ===== *)
theory HeapFile
  imports BufferPool
begin

text \<open>
  \<open>HeapFile\<close> and \<open>HeapFileIterator\<close> (HeapFile.cpp, HeapFile_internal.cpp) above the buffer pool,
  and the \<open>SeqScan\<close> operator (SeqScan.cpp). Files are named by their position in \<open>w_files\<close>.
\<close>

section \<open>Insertion and deletion\<close>

text \<open>The loop that looks for a page with room, from page \<open>i\<close> on.\<close>

fun heapfile_find_page :: "int \<Rightarrow> nat \<Rightarrow> nat \<Rightarrow> nat option M" where
  "heapfile_find_page tableid i 0 = returnM None"
| "heapfile_find_page tableid i (Suc n) =
     bindM (bp_getPage (HeapPageId tableid (int i))) (\<lambda>a.
     bindM (heap_at a) (\<lambda>currPage.
       if heap_getNumEmptySlots currPage > 0
       then bindM (bp_getPage (HeapPageId tableid (int i))) (\<lambda>b. returnM (Some b))
       else heapfile_find_page tableid (Suc i) n))"

definition HeapFile_insertTuple :: "nat \<Rightarrow> int \<Rightarrow> tuple \<Rightarrow> (tuple \<times> nat list) M" where
  "HeapFile_insertTuple i tid t =
     bindM (heapfile_at i) (\<lambda>f.
     bindM (heapfile_find_page (hf_tableid f) 0 (nat (hf_numPages f))) (\<lambda>found.
     bindM (case found of
              Some a \<Rightarrow> returnM a
            | None \<Rightarrow>
                let pid = HeapPageId (hf_tableid f) (hf_numPages f) in
                bindM (db_getTupleDesc (hf_tableid f)) (\<lambda>td.
                bindM (readM w_pageSize) (\<lambda>ps.
                bindM (readM w_junk) (\<lambda>junk.
                bindM (liftM (HeapPage_new junk ps td pid (heap_createEmptyPageData ps))) (\<lambda>p.
                bindM (new_page (HeapPg p)) (\<lambda>a.
                bindM (heapfile_at i) (\<lambda>f'.
                bindM (put_file i (HeapF (f'\<lparr>hf_numPages := hf_numPages f' + 1\<rparr>))) (\<lambda>_.
                  returnM a)))))))) (\<lambda>a.
     bindM (heap_at a) (\<lambda>p.
     bindM (liftM (heap_insertTuple p t)) (\<lambda>(t', p').
     bindM (put_page a (HeapPg p')) (\<lambda>_. returnM (t', [a])))))))"

definition HeapFile_deleteTuple :: "nat \<Rightarrow> int \<Rightarrow> tuple \<Rightarrow> (tuple \<times> nat list) M" where
  "HeapFile_deleteTuple i tid t =
     bindM (liftM (derefE (tp_rid t))) (\<lambda>rid.
     bindM (bp_getPage (rid_pid rid)) (\<lambda>a.
     bindM (heap_at a) (\<lambda>p.
     bindM (liftM (heap_deleteTuple p t)) (\<lambda>p'.
     bindM (put_page a (HeapPg p')) (\<lambda>_. returnM (t, [a]))))))"

section \<open>The iterator\<close>

text \<open>
  The page and the page iterator of an end iterator are never set. The code passes the address of
  the iterator's own \<open>hpid\<close> to the buffer pool, which keeps it as the key of the page when the page
  was not resident. \<open>hi_keyed\<close> says that this happened to this iterator object: then the next
  assignment to \<open>hpid\<close>, while the page is still in the pool, changes a key inside the map
  (\<open>KeyChanged\<close>). \<open>begin\<close> returns a copy of an object that is never freed, so the key of page 0 is
  the \<open>hpid\<close> of that object and never changes.
\<close>

record heap_file_iter =
  hi_numPages :: int
  hi_hpid :: page_id
  hi_end :: bool
  hi_it :: "nat option"
  hi_page :: "nat option"
  hi_keyed :: bool

definition hfi_load :: "heap_file_iter \<Rightarrow> heap_file_iter M" where
  "hfi_load it =
     bindM (bp_getPage (hi_hpid it)) (\<lambda>a.
     bindM (page_at a) (\<lambda>pg.
       case pg of
         HeapPg p \<Rightarrow> returnM (it\<lparr>hi_page := Some a, hi_it := Some (heap_begin p)\<rparr>)
       | _ \<Rightarrow> failM (RuntimeError ''dynamic_cast'')))"

definition HeapFileIterator_new :: "int \<Rightarrow> int \<Rightarrow> bool \<Rightarrow> heap_file_iter M" where
  "HeapFileIterator_new tableid numPages end' =
     (let it = \<lparr>hi_numPages = numPages, hi_hpid = HeapPageId tableid (if end' then numPages else 0),
                hi_end = end', hi_it = None, hi_page = None, hi_keyed = False\<rparr>
      in if end' then returnM it else hfi_load it)"

definition hfi_ne :: "heap_file_iter \<Rightarrow> heap_file_iter \<Rightarrow> bool" where
  "hfi_ne a b \<longleftrightarrow> \<not> pid_eq (hi_hpid a) (hi_hpid b) \<or> hi_end a \<noteq> hi_end b"

definition hfi_deref :: "heap_file_iter \<Rightarrow> tuple M" where
  "hfi_deref it =
     bindM (liftM (derefE (hi_it it))) (\<lambda>slot.
     bindM (liftM (derefE (hi_page it))) (\<lambda>a.
     bindM (heap_at a) (\<lambda>p. liftM (hpi_deref p slot))))"

definition hfi_next :: "heap_file_iter \<Rightarrow> heap_file_iter M" where
  "hfi_next it =
     bindM (liftM (derefE (hi_it it))) (\<lambda>slot.
     bindM (liftM (derefE (hi_page it))) (\<lambda>a.
     bindM (heap_at a) (\<lambda>p.
     let slot' = hpi_next p slot in
       if slot' \<noteq> heap_end p then returnM (it\<lparr>hi_it := Some slot'\<rparr>)
       else
         bindM (readM (\<lambda>w. hi_keyed it \<and> pm_find (hi_hpid it) (w_pool w) = Some a)) (\<lambda>is_key.
         bindM (liftM (checkE (\<not> is_key) KeyChanged)) (\<lambda>_.
         let hpid = HeapPageId (getTableId (hi_hpid it)) (pageNumber (hi_hpid it) + 1);
             it1 = it\<lparr>hi_hpid := hpid, hi_it := None, hi_keyed := False\<rparr>
         in if hi_numPages it \<le> pageNumber hpid then returnM (it1\<lparr>hi_end := True\<rparr>)
            else bindM (readM (\<lambda>w. pm_find hpid (w_pool w) = None)) (\<lambda>miss.
                 hfi_load (it1\<lparr>hi_keyed := miss\<rparr>)))))))"

definition HeapFile_begin :: "nat \<Rightarrow> heap_file_iter M" where
  "HeapFile_begin i =
     bindM (heapfile_at i) (\<lambda>f. HeapFileIterator_new (hf_tableid f) (hf_numPages f) False)"

definition HeapFile_end :: "nat \<Rightarrow> heap_file_iter M" where
  "HeapFile_end i =
     bindM (heapfile_at i) (\<lambda>f. HeapFileIterator_new (hf_tableid f) (hf_numPages f) True)"

text \<open>\<open>for (auto &t : file)\<close>, for at most \<open>fuel\<close> tuples.\<close>

fun hfi_collect :: "nat \<Rightarrow> heap_file_iter \<Rightarrow> heap_file_iter \<Rightarrow> tuple list M" where
  "hfi_collect 0 it ite = failM OutOfFuel"
| "hfi_collect (Suc n) it ite =
     (if \<not> hfi_ne it ite then returnM []
      else bindM (hfi_deref it) (\<lambda>t.
           bindM (hfi_next it) (\<lambda>it'.
           bindM (hfi_collect n it' ite) (\<lambda>ts. returnM (t # ts)))))"

definition heapfile_scan :: "nat \<Rightarrow> nat \<Rightarrow> tuple list M" where
  "heapfile_scan fuel i =
     bindM (HeapFile_begin i) (\<lambda>it. bindM (HeapFile_end i) (\<lambda>ite. hfi_collect fuel it ite))"

section \<open>Sequential scan\<close>

record seq_scan =
  ss_tableid :: int
  ss_alias :: string
  ss_tableName :: string
  ss_it :: "heap_file_iter option"

definition SeqScan_reset :: "int \<Rightarrow> string \<Rightarrow> seq_scan M" where
  "SeqScan_reset tabid tableAlias =
     bindM (db_getTableName tabid) (\<lambda>n.
       returnM \<lparr>ss_tableid = tabid, ss_alias = tableAlias, ss_tableName = n, ss_it = None\<rparr>)"

definition SeqScan_new :: "int \<Rightarrow> string \<Rightarrow> seq_scan M" where
  "SeqScan_new tableid tableAlias = SeqScan_reset tableid tableAlias"

definition SeqScan_new_unaliased :: "int \<Rightarrow> seq_scan M" where
  "SeqScan_new_unaliased tableid = bindM (db_getTableName tableid) (SeqScan_new tableid)"

definition SeqScan_getTupleDesc :: "seq_scan \<Rightarrow> tuple_desc M" where
  "SeqScan_getTupleDesc s = db_getTupleDesc (ss_tableid s)"

definition SeqScan_open :: "seq_scan \<Rightarrow> seq_scan M" where
  "SeqScan_open s =
     bindM (db_getDatabaseFile (ss_tableid s)) (\<lambda>i.
     bindM (file_at i) (\<lambda>f.
       case f of HeapF _ \<Rightarrow> bindM (HeapFile_begin i) (\<lambda>it. returnM (s\<lparr>ss_it := Some it\<rparr>))
               | _ \<Rightarrow> failM (RuntimeError ''can't open'')))"

definition SeqScan_hasNext :: "seq_scan \<Rightarrow> bool M" where
  "SeqScan_hasNext s =
     bindM (db_getDatabaseFile (ss_tableid s)) (\<lambda>i.
     bindM (file_at i) (\<lambda>f.
       case f of
         HeapF _ \<Rightarrow>
           (case ss_it s of None \<Rightarrow> failM BadOptional
            | Some it \<Rightarrow> bindM (HeapFile_end i) (\<lambda>ite. returnM (hfi_ne it ite)))
       | _ \<Rightarrow> failM (RuntimeError ''can't next'')))"

text \<open>The iterator that is advanced is a local copy: a key that refers to it dies with it.\<close>

definition SeqScan_next :: "seq_scan \<Rightarrow> (tuple \<times> seq_scan) M" where
  "SeqScan_next s =
     (case ss_it s of None \<Rightarrow> failM BadOptional
      | Some it \<Rightarrow>
          bindM (hfi_deref it) (\<lambda>t.
          bindM (hfi_next it) (\<lambda>it'.
          bindM (liftM (checkE (\<not> hi_keyed it') KeyChanged)) (\<lambda>_.
            returnM (t, s\<lparr>ss_it := Some it'\<rparr>)))))"

definition SeqScan_close :: "seq_scan \<Rightarrow> seq_scan" where
  "SeqScan_close s = s\<lparr>ss_it := None\<rparr>"

definition SeqScan_rewind :: "seq_scan \<Rightarrow> seq_scan M" where
  "SeqScan_rewind s = SeqScan_open (SeqScan_close s)"

end
