(* ===== verification/BTreeFile.thy ===== *)
theory BTreeFile
  imports BufferPool
begin

text \<open>
  \<open>BTreeFile\<close> (BTreeFile.cpp): the B+ tree over the pages of a file. The file is named by its
  position in \<open>w_files\<close>, pages by their address. \<open>w_dirtypages\<close> is the map that every operation
  is passed by reference. Recursion over the height of the tree and over the list of header
  pages is bounded by a fuel argument; running out of it is the error \<open>OutOfFuel\<close>.
\<close>

section \<open>Access to pages\<close>

definition bt_getPage :: "page_id \<Rightarrow> bool \<Rightarrow> nat M" where
  "bt_getPage pid read_write =
     bindM (readM w_dirtypages) (\<lambda>dirtypages.
       case pm_find pid dirtypages of
         Some a \<Rightarrow> returnM a
       | None \<Rightarrow>
           bindM (bp_getPage pid) (\<lambda>p.
           bindM (if read_write
                  then updM (\<lambda>w. w\<lparr>w_dirtypages := pm_put pid p (w_dirtypages w)\<rparr>)
                  else returnM ()) (\<lambda>_. returnM p)))"

text \<open>A page id passed as a pointer: the hash function dereferences it.\<close>

definition bt_getPage_ptr :: "page_id option \<Rightarrow> bool \<Rightarrow> nat M" where
  "bt_getPage_ptr pid read_write = bindM (liftM (derefE pid)) (\<lambda>i. bt_getPage i read_write)"

text \<open>The members of \<open>BTreePage\<close>, on a pointer to a leaf or an internal page.\<close>

definition page_getParentId :: "page \<Rightarrow> page_id res" where
  "page_getParentId p =
     (case p of LeafPg q \<Rightarrow> Inr (getParentId q) | IntPg q \<Rightarrow> Inr (getParentId q)
      | _ \<Rightarrow> Inl NullDeref)"

definition page_setParentId :: "page \<Rightarrow> page_id option \<Rightarrow> page res" where
  "page_setParentId p i =
     (case p of
        LeafPg q \<Rightarrow> bindE (setParentId q i) (\<lambda>q'. Inr (LeafPg q'))
      | IntPg q \<Rightarrow> bindE (setParentId q i) (\<lambda>q'. Inr (IntPg q'))
      | _ \<Rightarrow> Inl NullDeref)"

definition setParentId_at :: "nat \<Rightarrow> page_id option \<Rightarrow> unit M" where
  "setParentId_at a i =
     bindM (page_at a) (\<lambda>p. bindM (liftM (page_setParentId p i)) (\<lambda>p'. put_page a p'))"

definition id_at :: "nat \<Rightarrow> page_id M" where
  "id_at a = bindM (page_at a) (\<lambda>p. returnM (page_getId p))"

text \<open>\<open>getRootPtrPage\<close> creates the root pointer page and an empty leaf in an empty file.\<close>

definition getRootPtrPage :: "nat \<Rightarrow> nat M" where
  "getRootPtrPage f =
     bindM (btree_at f) (\<lambda>b.
     bindM (if length (bf_disk b) = 0
            then bindM (readM w_pageSize) (\<lambda>ps.
                 bindM (readM w_append) (\<lambda>oapp.
                   put_file f (BTreeF (b\<lparr>bf_disk :=
                     disk_pwrite oapp (int ROOT_PAGE_SIZE) (btree_createEmptyPageData ps)
                       (disk_pwrite oapp 0 rootptr_createEmptyPageData (bf_disk b))\<rparr>))))
            else returnM ()) (\<lambda>_.
     bindM (bt_getPage (rootptr_getId (bf_tableid b)) False) (\<lambda>a.
     bindM (root_at a) (\<lambda>_. returnM a))))"

section \<open>Searching\<close>

lemma int_iter_deref_cur: "int_iter_deref p it = Inr e \<Longrightarrow> ii_cur it < np_numSlots p"
  by (auto simp: int_iter_deref_def int_getKey_def bindE_eq_Inr)

lemma int_next_used_ge: "i \<le> int_next_used p i"
  by (induction p i rule: int_next_used.induct) (subst int_next_used.simps, auto)

lemma int_iter_next_cur: "int_iter_next p it = Inr it' \<Longrightarrow> ii_cur it < ii_cur it'"
  using int_next_used_ge [of "ii_cur it + 1" p]
  by (auto simp: int_iter_next_def Let_def bindE_eq_Inr split: if_splits)

text \<open>The \<open>do\<close> loop of \<open>findLeafPage\<close>: the child to descend into.\<close>

function find_child :: "internal_page \<Rightarrow> field option \<Rightarrow> int_iter \<Rightarrow> page_id option res" where
  "find_child page f it =
     bindE (int_iter_deref page it) (\<lambda>entry.
     bindE (case f of None \<Rightarrow> Inr True
            | Some g \<Rightarrow> field_compare g LESS_THAN_OR_EQ (e_key entry)) (\<lambda>c.
       if c then Inr (e_left entry)
       else bindE (int_iter_next page it) (\<lambda>it'.
              if ii_cur it' \<noteq> np_numSlots page then find_child page f it'
              else Inr (e_right entry))))"
  by pat_completeness auto
termination
  by (relation "measure (\<lambda>(p, f, it). np_numSlots p - ii_cur it)")
    (auto dest!: int_iter_deref_cur int_iter_next_cur)

declare find_child.simps [simp del]

fun bt_findLeafPage :: "nat \<Rightarrow> page_id option \<Rightarrow> bool \<Rightarrow> field option \<Rightarrow> nat M" where
  "bt_findLeafPage 0 pid perm f = failM OutOfFuel"
| "bt_findLeafPage (Suc n) pid perm f =
     bindM (liftM (derefE pid)) (\<lambda>i.
       if btree_type i = LEAF
       then bindM (bt_getPage i perm) (\<lambda>a. bindM (leaf_at a) (\<lambda>_. returnM a))
       else if btree_type i \<noteq> INTERNAL then failM (RuntimeError ''Invalid page'')
       else
         bindM (bt_getPage i perm) (\<lambda>a.
         bindM (internal_at a) (\<lambda>page.
         bindM (liftM (int_begin page)) (\<lambda>it.
         bindM (liftM (int_end page)) (\<lambda>ite.
           if \<not> int_iter_ne it ite then failM (RuntimeError ''Empty page'')
           else bindM (liftM (find_child page f it)) (\<lambda>child.
                  bt_findLeafPage n child perm f))))))"

text \<open>The public \<open>findLeafPage\<close> has a map of its own.\<close>

definition findLeafPage :: "nat \<Rightarrow> page_id option \<Rightarrow> bool \<Rightarrow> field option \<Rightarrow> nat M" where
  "findLeafPage n pid perm f =
     bindM (readM w_dirtypages) (\<lambda>outer.
     bindM (updM (\<lambda>w. w\<lparr>w_dirtypages := []\<rparr>)) (\<lambda>_.
     bindM (bt_findLeafPage n pid perm f) (\<lambda>a.
     bindM (updM (\<lambda>w. w\<lparr>w_dirtypages := outer\<rparr>)) (\<lambda>_. returnM a))))"

section \<open>Free pages\<close>

text \<open>
  The loop of \<open>getEmptyPageNo\<close> along the header pages: it ends with the id and the address of
  a page with an empty slot, or with neither.
\<close>

fun find_header_page ::
    "nat \<Rightarrow> page_id \<Rightarrow> nat \<Rightarrow> int \<Rightarrow> (page_id option \<times> nat option \<times> int) M" where
  "find_header_page 0 headerId a cnt = failM OutOfFuel"
| "find_header_page (Suc n) headerId a cnt =
     bindM (header_at a) (\<lambda>headerPage.
     bindM (readM w_pageSize) (\<lambda>ps.
     bindM (liftM (header_getEmptySlot ps headerPage)) (\<lambda>s.
       if s \<noteq> - 1 then returnM (Some headerId, Some a, cnt)
       else case getNextPageId headerPage of
              None \<Rightarrow> returnM (None, None, cnt)
            | Some nextId \<Rightarrow>
                bindM (bt_getPage nextId False) (\<lambda>b.
                bindM (header_at b) (\<lambda>_. find_header_page n nextId b (cnt + 1))))))"

definition getEmptyPageNo :: "nat \<Rightarrow> nat \<Rightarrow> int M" where
  "getEmptyPageNo n f =
     bindM (getRootPtrPage f) (\<lambda>r.
     bindM (root_at r) (\<lambda>rootPtr.
     bindM (readM w_pageSize) (\<lambda>ps.
     bindM (case getHeaderId rootPtr of
              None \<Rightarrow> returnM (None, 0)
            | Some h \<Rightarrow>
                bindM (bt_getPage h False) (\<lambda>a.
                bindM (find_header_page n h a 0) (\<lambda>(headerId, headerPage, cnt).
                  case headerPage of
                    None \<Rightarrow> returnM (headerId, 0)
                  | Some _ \<Rightarrow>
                      bindM (bt_getPage_ptr headerId True) (\<lambda>c.
                      bindM (header_at c) (\<lambda>hp.
                      bindM (liftM (header_getEmptySlot ps hp)) (\<lambda>emptySlot.
                      bindM (liftM (header_markSlotUsed hp emptySlot True)) (\<lambda>hp'.
                      bindM (put_page c (HdrPg hp')) (\<lambda>_.
                        returnM (headerId, cnt * int (header_getNumSlots ps) + emptySlot)))))))))
       (\<lambda>(headerId, emptyPageNo).
       if headerId = None
       then bindM (btree_at f) (\<lambda>b.
            bindM (put_file f (BTreeF (b\<lparr>bf_disk := bf_disk b @ btree_createEmptyPageData ps\<rparr>))) (\<lambda>_.
              BTreeFile_getNumPages f))
       else returnM emptyPageNo))))"

text \<open>Only the 9 bytes of a root pointer page are cleared on disk.\<close>

definition getEmptyPage :: "nat \<Rightarrow> nat \<Rightarrow> page_type \<Rightarrow> nat M" where
  "getEmptyPage n f type =
     bindM (getEmptyPageNo n f) (\<lambda>emptyPageNo.
     bindM (btree_at f) (\<lambda>b.
     bindM (readM w_pageSize) (\<lambda>ps.
     bindM (readM w_append) (\<lambda>oapp.
     let newPageId = BTreePageId (bf_tableid b) emptyPageNo type in
     bindM (put_file f (BTreeF (b\<lparr>bf_disk :=
              disk_pwrite oapp (btree_offset ps emptyPageNo) (replicate ROOT_PAGE_SIZE 0) (bf_disk b)\<rparr>))) (\<lambda>_.
     bindM (discardPage newPageId) (\<lambda>_.
     bindM (updM (\<lambda>w. w\<lparr>w_dirtypages := pm_erase newPageId (w_dirtypages w)\<rparr>)) (\<lambda>_.
       bt_getPage newPageId True)))))))"

text \<open>The two loops of \<open>setEmptyPage\<close>.\<close>

fun skip_header_pages ::
    "nat \<Rightarrow> int \<Rightarrow> page_id option \<Rightarrow> page_id option \<Rightarrow> int \<Rightarrow> (page_id option \<times> page_id option \<times> int) M"
where
  "skip_header_pages 0 no headerId prevId cnt = failM OutOfFuel"
| "skip_header_pages (Suc n) no headerId prevId cnt =
     bindM (readM w_pageSize) (\<lambda>ps.
       case headerId of
         Some h \<Rightarrow>
           (if (cnt + 1) * int (header_getNumSlots ps) < no
            then bindM (bt_getPage h False) (\<lambda>a.
                 bindM (header_at a) (\<lambda>hp.
                   skip_header_pages n no (getNextPageId hp) headerId (cnt + 1)))
            else returnM (headerId, prevId, cnt))
       | None \<Rightarrow> returnM (headerId, prevId, cnt))"

fun add_header_pages ::
    "nat \<Rightarrow> nat \<Rightarrow> int \<Rightarrow> page_id option \<Rightarrow> page_id option \<Rightarrow> int \<Rightarrow> (page_id option \<times> int) M"
where
  "add_header_pages 0 f no headerId prevId cnt = failM OutOfFuel"
| "add_header_pages (Suc n) f no headerId prevId cnt =
     bindM (readM w_pageSize) (\<lambda>ps.
       if (cnt + 1) * int (header_getNumSlots ps) < no
       then bindM (bt_getPage_ptr prevId True) (\<lambda>pr.
            bindM (getEmptyPage n f HEADER) (\<lambda>a.
            bindM (header_at a) (\<lambda>hp.
            bindM (liftM (setPrevPageId (header_init ps hp) prevId)) (\<lambda>hp'.
            bindM (put_page a (HdrPg hp')) (\<lambda>_.
            bindM (header_at pr) (\<lambda>prevPage.
            bindM (liftM (setNextPageId prevPage (Some (hd_pid hp)))) (\<lambda>prevPage'.
            bindM (put_page pr (HdrPg prevPage')) (\<lambda>_.
              add_header_pages n f no (Some (hd_pid hp)) (Some (hd_pid hp)) (cnt + 1)))))))))
       else returnM (headerId, cnt))"

definition setEmptyPage :: "nat \<Rightarrow> nat \<Rightarrow> int \<Rightarrow> unit M" where
  "setEmptyPage n f emptyPageNo =
     bindM (getRootPtrPage f) (\<lambda>r0.
     bindM (root_at r0) (\<lambda>rootPtr0.
     bindM (btree_at f) (\<lambda>b.
     bindM (readM w_pageSize) (\<lambda>ps.
     bindM (case getHeaderId rootPtr0 of
              Some h \<Rightarrow> returnM (Some h)
            | None \<Rightarrow>
                bindM (bt_getPage (rootptr_getId (bf_tableid b)) True) (\<lambda>r.
                bindM (getEmptyPage n f HEADER) (\<lambda>a.
                bindM (header_at a) (\<lambda>hp.
                bindM (put_page a (HdrPg (header_init ps hp))) (\<lambda>_.
                bindM (root_at r) (\<lambda>rootPtr.
                bindM (liftM (setHeaderId rootPtr (Some (hd_pid hp)))) (\<lambda>rootPtr'.
                bindM (put_page r (RootPg rootPtr')) (\<lambda>_. returnM (Some (hd_pid hp)))))))))) (\<lambda>headerId0.
     bindM (skip_header_pages n emptyPageNo headerId0 None 0) (\<lambda>(headerId1, prevId, count1).
     bindM (add_header_pages n f emptyPageNo headerId1 prevId count1) (\<lambda>(headerId, cnt).
     bindM (bt_getPage_ptr headerId True) (\<lambda>a.
     bindM (header_at a) (\<lambda>hp.
     bindM (liftM (header_markSlotUsed hp (emptyPageNo - cnt * int (header_getNumSlots ps)) False)) (\<lambda>hp'.
       put_page a (HdrPg hp')))))))))))"

end
