(* ===== verification/BTreeInsert.thy ===== *)
theory BTreeInsert
  imports BTreeFile
begin

text \<open>
  Insertion into a B+ tree file (BTreeFile.cpp): \<open>splitLeafPage\<close>, \<open>splitInternalPage\<close>,
  \<open>getParentWithEmptySlots\<close>, \<open>updateParentPointer(s)\<close> and \<open>insertTuple\<close>.
\<close>

section \<open>Pages by address\<close>

text \<open>
  A leaf hands one of its tuples, by pointer to slot \<open>s\<close> of its array, to another leaf:
  \<open>a->deleteTuple(tuple); b->insertTuple(tuple);\<close>. Both calls change the record id of the tuple
  in that slot.
\<close>

definition set_slot :: "nat \<Rightarrow> nat \<Rightarrow> tuple \<Rightarrow> unit M" where
  "set_slot a s t =
     bindM (leaf_at a) (\<lambda>p. put_page a (LeafPg (p\<lparr>lp_tuples := (lp_tuples p)[s := t]\<rparr>)))"

definition leaf_give :: "nat \<Rightarrow> nat \<Rightarrow> nat \<Rightarrow> unit M" where
  "leaf_give a b s =
     bindM (leaf_at a) (\<lambda>p.
     bindM (liftM (nthE (lp_tuples p) s)) (\<lambda>t.
     bindM (liftM (leaf_deleteTuple p t)) (\<lambda>(t1, p1).
     bindM (put_page a (LeafPg p1)) (\<lambda>_.
     bindM (set_slot a s t1) (\<lambda>_.
     bindM (leaf_at b) (\<lambda>q.
     bindM (liftM (leaf_insertTuple q t1)) (\<lambda>(t2, q1).
     bindM (put_page b (LeafPg q1)) (\<lambda>_. set_slot a s t2))))))))"

definition insertEntry_at :: "nat \<Rightarrow> btree_entry \<Rightarrow> unit M" where
  "insertEntry_at a e =
     bindM (internal_at a) (\<lambda>p.
     bindM (readM w_pageSize) (\<lambda>ps.
     bindM (liftM (int_getMaxEntries ps (bp_td p) (bp_keyField p))) (\<lambda>maxEntries.
     bindM (liftM (insertEntry p maxEntries e)) (\<lambda>p'. put_page a (IntPg p')))))"

definition deleteKeyAndRightChild_at :: "nat \<Rightarrow> btree_entry \<Rightarrow> btree_entry M" where
  "deleteKeyAndRightChild_at a e =
     bindM (internal_at a) (\<lambda>p.
     bindM (liftM (deleteKeyAndRightChild p e)) (\<lambda>(e', p').
     bindM (put_page a (IntPg p')) (\<lambda>_. returnM e')))"

definition deleteKeyAndLeftChild_at :: "nat \<Rightarrow> btree_entry \<Rightarrow> btree_entry M" where
  "deleteKeyAndLeftChild_at a e =
     bindM (internal_at a) (\<lambda>p.
     bindM (liftM (deleteKeyAndLeftChild p e)) (\<lambda>(e', p').
     bindM (put_page a (IntPg p')) (\<lambda>_. returnM e')))"

section \<open>Parent pointers\<close>

definition updateParentPointer :: "page_id \<Rightarrow> page_id option \<Rightarrow> unit M" where
  "updateParentPointer pid child =
     bindM (bt_getPage_ptr child False) (\<lambda>a.
     bindM (page_at a) (\<lambda>page.
     bindM (liftM (page_getParentId page)) (\<lambda>parent.
       if \<not> pid_eq parent pid
       then bindM (bt_getPage_ptr child True) (\<lambda>b. setParentId_at b (Some pid))
       else returnM ())))"

text \<open>
  \<open>for (const auto &item : *page)\<close>. The loop body changes parent pointers only, and the
  iterator reads none, so the entries can be read first.
\<close>

function int_entries_from :: "internal_page \<Rightarrow> int_iter \<Rightarrow> btree_entry list res" where
  "int_entries_from page it =
     (if ii_cur it = np_numSlots page then Inr []
      else bindE (int_iter_deref page it) (\<lambda>e.
           bindE (int_iter_next page it) (\<lambda>it'.
           bindE (int_entries_from page it') (\<lambda>es. Inr (e # es)))))"
  by pat_completeness auto
termination
  by (relation "measure (\<lambda>(p, it). np_numSlots p - ii_cur it)")
    (auto dest!: int_iter_deref_cur int_iter_next_cur)

declare int_entries_from.simps [simp del]

definition int_entries :: "internal_page \<Rightarrow> btree_entry list res" where
  "int_entries page = bindE (int_begin page) (int_entries_from page)"

definition updateParentPointers :: "nat \<Rightarrow> unit M" where
  "updateParentPointers a =
     bindM (internal_at a) (\<lambda>page.
     bindM (liftM (int_entries page)) (\<lambda>es.
     bindM (forM es (\<lambda>e. updateParentPointer (bp_pid page) (e_left e))) (\<lambda>_.
       if es = [] then returnM ()
       else updateParentPointer (bp_pid page) (e_right (last es)))))"

section \<open>Splitting\<close>

text \<open>
  \<open>gp\<close> is \<open>getParentWithEmptySlots\<close> one level further up. The first loop moves the last
  \<open>middleIndex\<close> entries; the one before them goes up.
\<close>

fun split_internal_loop :: "nat \<Rightarrow> nat \<Rightarrow> nat \<Rightarrow> int_riter \<Rightarrow> int_riter M" where
  "split_internal_loop page right 0 it = returnM it"
| "split_internal_loop page right (Suc n) it =
     bindM (internal_at page) (\<lambda>p.
     bindM (liftM (int_riter_deref p it)) (\<lambda>entry.
     bindM (deleteKeyAndRightChild_at page entry) (\<lambda>entry'.
     bindM (insertEntry_at right entry') (\<lambda>_.
     bindM (internal_at page) (\<lambda>p'.
     bindM (liftM (int_riter_next p' it)) (\<lambda>it'. split_internal_loop page right n it'))))))"

definition splitInternalPage ::
    "(page_id \<Rightarrow> field option \<Rightarrow> nat M) \<Rightarrow> nat \<Rightarrow> nat \<Rightarrow> nat \<Rightarrow> field option \<Rightarrow> nat M" where
  "splitInternalPage gp n f page fld =
     bindM (getEmptyPage n f INTERNAL) (\<lambda>right.
     bindM (internal_at right) (\<lambda>_.
     bindM (internal_at page) (\<lambda>p.
     let middleIndex = c_div (int_getNumEntries p + 1) 2 - 1 in
     bindM (liftM (int_rbegin p)) (\<lambda>it0.
     bindM (split_internal_loop page right (nat middleIndex) it0) (\<lambda>it.
     bindM (internal_at page) (\<lambda>p1.
     bindM (liftM (int_riter_deref p1 it)) (\<lambda>entry.
     let index = e_key entry in
     bindM (deleteKeyAndRightChild_at page entry) (\<lambda>_.
     bindM (updateParentPointers right) (\<lambda>_.
     bindM (internal_at page) (\<lambda>p2.
     bindM (gp (getParentId p2) index) (\<lambda>parentPage.
     bindM (id_at right) (\<lambda>rightId.
     bindM (insertEntry_at parentPage (BTreeEntry_new index (Some (bp_pid p)) (Some rightId))) (\<lambda>_.
     bindM (updateParentPointers parentPage) (\<lambda>_.
     bindM (liftM (derefE fld)) (\<lambda>g.
     bindM (liftM (field_compare g LESS_THAN index)) (\<lambda>c.
       returnM (if c then page else right)))))))))))))))))"

fun getParentWithEmptySlots :: "nat \<Rightarrow> nat \<Rightarrow> page_id \<Rightarrow> field option \<Rightarrow> nat M" where
  "getParentWithEmptySlots 0 f parentId fld = failM OutOfFuel"
| "getParentWithEmptySlots (Suc n) f parentId fld =
     bindM (if btree_type parentId = ROOT_PTR
            then bindM (getEmptyPage n f INTERNAL) (\<lambda>parent.
                 bindM (internal_at parent) (\<lambda>_.
                 bindM (btree_at f) (\<lambda>b.
                 bindM (bt_getPage (BTreePageId (bf_tableid b) 0 ROOT_PTR) True) (\<lambda>r.
                 bindM (root_at r) (\<lambda>rootPtr.
                 let prevRootId = getRootId rootPtr in
                 bindM (id_at parent) (\<lambda>newRootId.
                 bindM (liftM (setRootId rootPtr (Some newRootId))) (\<lambda>rootPtr'.
                 bindM (put_page r (RootPg rootPtr')) (\<lambda>_.
                 bindM (bt_getPage_ptr prevRootId True) (\<lambda>page.
                 bindM (setParentId_at page (Some newRootId)) (\<lambda>_.
                   returnM parent))))))))))
            else bindM (bt_getPage parentId True) (\<lambda>parent.
                 bindM (internal_at parent) (\<lambda>_. returnM parent))) (\<lambda>parent.
     bindM (internal_at parent) (\<lambda>p.
       if int_getNumEmptySlots p = 0
       then splitInternalPage (getParentWithEmptySlots n f) n f parent fld
       else returnM parent))"

fun split_leaf_loop :: "nat \<Rightarrow> nat \<Rightarrow> nat \<Rightarrow> leaf_iter \<Rightarrow> leaf_iter M" where
  "split_leaf_loop page right 0 it = returnM it"
| "split_leaf_loop page right (Suc n) it =
     bindM (leaf_at page) (\<lambda>p.
     bindM (liftM (leaf_iter_deref p it)) (\<lambda>s.
     bindM (leaf_give page right s) (\<lambda>_.
     bindM (leaf_at page) (\<lambda>p'. split_leaf_loop page right n (leaf_iter_next p' it)))))"

text \<open>The pages are linked, the upper half of the tuples moves, the split key goes up.\<close>

definition splitLeafPage :: "nat \<Rightarrow> nat \<Rightarrow> nat \<Rightarrow> field \<Rightarrow> nat M" where
  "splitLeafPage n f page fld =
     bindM (getEmptyPage n f LEAF) (\<lambda>right.
     bindM (leaf_at right) (\<lambda>r0.
     bindM (leaf_at page) (\<lambda>p0.
     let nextPageId = getRightSiblingId p0 in
     bindM (case nextPageId of
              None \<Rightarrow> returnM ()
            | Some i \<Rightarrow>
                bindM (bt_getPage i True) (\<lambda>nx.
                bindM (leaf_at nx) (\<lambda>next.
                bindM (liftM (setLeftSiblingId next (Some (bp_pid r0)))) (\<lambda>next'.
                  put_page nx (LeafPg next'))))) (\<lambda>_.
     bindM (leaf_at right) (\<lambda>r1.
     bindM (liftM (setRightSiblingId r1 nextPageId)) (\<lambda>r2.
     bindM (liftM (setLeftSiblingId r2 (Some (bp_pid p0)))) (\<lambda>r3.
     bindM (put_page right (LeafPg r3)) (\<lambda>_.
     bindM (leaf_at page) (\<lambda>p1.
     bindM (liftM (setRightSiblingId p1 (Some (bp_pid r0)))) (\<lambda>p2.
     bindM (put_page page (LeafPg p2)) (\<lambda>_.
     let middleIndex = c_div (int (leaf_getNumTuples p2) + 1) 2 - 1 in
     bindM (split_leaf_loop page right (nat middleIndex) (leaf_rbegin p2)) (\<lambda>it.
     bindM (leaf_at page) (\<lambda>p3.
     bindM (liftM (leaf_iter_deref p3 it)) (\<lambda>s.
     bindM (liftM (nthE (lp_tuples p3) s)) (\<lambda>tuple.
     bindM (btree_at f) (\<lambda>b.
     bindM (liftM (getField tuple (bf_keyField b))) (\<lambda>index.
     bindM (leaf_give page right s) (\<lambda>_.
     bindM (leaf_at page) (\<lambda>p4.
     bindM (getParentWithEmptySlots n f (getParentId p4) (Some index)) (\<lambda>parentPage.
     bindM (insertEntry_at parentPage
              (BTreeEntry_new (Some index) (Some (bp_pid p0)) (Some (bp_pid r0)))) (\<lambda>_.
     bindM (updateParentPointers parentPage) (\<lambda>_.
     bindM (liftM (field_compare fld LESS_THAN (Some index))) (\<lambda>c.
       returnM (if c then page else right))))))))))))))))))))))))"

section \<open>\<open>insertTuple\<close>\<close>

text \<open>
  The tuple is the caller's object and is returned with its record id; the vector of dirty
  pages has the order in which the map is enumerated.
\<close>

definition dirty_pages :: "nat list M" where
  "dirty_pages = readM (\<lambda>w. map snd (w_order w (w_dirtypages w)))"

definition BTreeFile_insertTuple :: "nat \<Rightarrow> nat \<Rightarrow> int \<Rightarrow> tuple \<Rightarrow> (tuple \<times> nat list) M" where
  "BTreeFile_insertTuple n f tid t =
     bindM (updM (\<lambda>w. w\<lparr>w_dirtypages := []\<rparr>)) (\<lambda>_.
     bindM (getRootPtrPage f) (\<lambda>r0.
     bindM (root_at r0) (\<lambda>rootPtr.
     bindM (btree_at f) (\<lambda>b.
     bindM (case getRootId rootPtr of
              Some i \<Rightarrow> returnM (Some i)
            | None \<Rightarrow>
                bindM (BTreeFile_getNumPages f) (\<lambda>np.
                let rootId = BTreePageId (bf_tableid b) np LEAF in
                bindM (bt_getPage (rootptr_getId (bf_tableid b)) True) (\<lambda>r.
                bindM (root_at r) (\<lambda>rp.
                bindM (liftM (setRootId rp (Some rootId))) (\<lambda>rp'.
                bindM (put_page r (RootPg rp')) (\<lambda>_. returnM (Some rootId))))))) (\<lambda>rootId.
     bindM (liftM (getField t (bf_keyField b))) (\<lambda>key.
     bindM (bt_findLeafPage n rootId False (Some key)) (\<lambda>a.
     bindM (id_at a) (\<lambda>leafId.
     bindM (bt_getPage leafId True) (\<lambda>leaf0.
     bindM (leaf_at leaf0) (\<lambda>p.
     bindM (if leaf_getNumEmptySlots p = 0 then splitLeafPage n f leaf0 key else returnM leaf0) (\<lambda>leaf.
     bindM (leaf_at leaf) (\<lambda>q.
     bindM (liftM (leaf_insertTuple q t)) (\<lambda>(t', q').
     bindM (put_page leaf (LeafPg q')) (\<lambda>_.
     bindM dirty_pages (\<lambda>ds. returnM (t', ds))))))))))))))))"

end
