(* ===== verification/BTreeDelete.thy ===== *)
theory BTreeDelete
  imports BTreeInsert
begin

text \<open>
  Deletion from a B+ tree file (BTreeFile.cpp): stealing from and merging with a sibling, the
  handling of pages below minimum occupancy, and \<open>deleteTuple\<close>. \<open>dpe\<close> is \<open>deleteParentEntry\<close>
  one level further up. An entry is an object of its own, passed by pointer: the functions that
  change it return it.
\<close>

section \<open>Stealing\<close>

fun steal_leaf_loop :: "nat \<Rightarrow> nat \<Rightarrow> nat \<Rightarrow> leaf_iter \<Rightarrow> nat \<Rightarrow> (leaf_iter \<times> nat) M" where
  "steal_leaf_loop page sibling 0 it last_slot = returnM (it, last_slot)"
| "steal_leaf_loop page sibling (Suc n) it last_slot =
     bindM (leaf_at sibling) (\<lambda>p.
     bindM (liftM (leaf_iter_deref p it)) (\<lambda>s.
     bindM (leaf_give sibling page s) (\<lambda>_.
     bindM (leaf_at sibling) (\<lambda>p'.
       steal_leaf_loop page sibling n (leaf_iter_next p' it) s))))"

definition updateEntry_at :: "nat \<Rightarrow> btree_entry \<Rightarrow> unit M" where
  "updateEntry_at a e =
     bindM (internal_at a) (\<lambda>p. bindM (liftM (updateEntry p e)) (\<lambda>p'. put_page a (IntPg p')))"

text \<open>The last tuple that moved, or the next one of the right sibling, gives the new key.\<close>

definition stealFromLeafPage :: "nat \<Rightarrow> nat \<Rightarrow> nat \<Rightarrow> nat \<Rightarrow> btree_entry \<Rightarrow> bool \<Rightarrow> unit M" where
  "stealFromLeafPage f page sibling parent entry isRightSibling =
     bindM (leaf_at page) (\<lambda>p.
     bindM (leaf_at sibling) (\<lambda>sb.
     let itemsToMove = c_div (int (leaf_getNumTuples sb) - int (leaf_getNumTuples p)) 2 in
     if itemsToMove \<le> 0 then failM (RuntimeError ''Nothing to steal.'')
     else
       bindM (steal_leaf_loop page sibling (nat itemsToMove)
                (if isRightSibling then leaf_begin sb else leaf_rbegin sb) 0) (\<lambda>(it, s).
       bindM (leaf_at sibling) (\<lambda>sb'.
       bindM (if isRightSibling then liftM (leaf_iter_deref sb' it) else returnM s) (\<lambda>s'.
       bindM (liftM (nthE (lp_tuples sb') s')) (\<lambda>tuple.
       bindM (btree_at f) (\<lambda>b.
       bindM (liftM (getField tuple (bf_keyField b))) (\<lambda>k.
         updateEntry_at parent (entry\<lparr>e_key := Some k\<rparr>)))))))))"

fun steal_left_loop ::
    "nat \<Rightarrow> nat \<Rightarrow> nat \<Rightarrow> nat \<Rightarrow> int_riter \<Rightarrow> btree_entry \<Rightarrow> btree_entry \<Rightarrow> unit M" where
  "steal_left_loop page sibling parent 0 it rightEntry parentEntry = returnM ()"
| "steal_left_loop page sibling parent (Suc n) it rightEntry parentEntry =
     bindM (internal_at sibling) (\<lambda>sb.
     bindM (liftM (int_riter_deref sb it)) (\<lambda>leftEntry.
     bindM (deleteKeyAndRightChild_at parent parentEntry) (\<lambda>pe.
     let pe1 = pe\<lparr>e_left := e_right leftEntry, e_right := e_left rightEntry\<rparr> in
     bindM (insertEntry_at page pe1) (\<lambda>_.
     bindM (deleteKeyAndRightChild_at sibling leftEntry) (\<lambda>le.
     bindM (id_at sibling) (\<lambda>siblingId.
     bindM (id_at page) (\<lambda>pageId.
     let le1 = le\<lparr>e_left := Some siblingId, e_right := Some pageId\<rparr> in
     bindM (insertEntry_at parent le1) (\<lambda>_.
     bindM (internal_at sibling) (\<lambda>sb'.
     bindM (liftM (int_riter_next sb' it)) (\<lambda>it'.
       steal_left_loop page sibling parent n it' pe1 le1))))))))))"

definition stealFromLeftInternalPage :: "nat \<Rightarrow> nat \<Rightarrow> nat \<Rightarrow> btree_entry \<Rightarrow> unit M" where
  "stealFromLeftInternalPage page leftSibling parent parentEntry =
     bindM (internal_at page) (\<lambda>p.
     bindM (internal_at leftSibling) (\<lambda>sb.
     let itemsToMove = c_div (int_getNumEntries sb - int_getNumEntries p) 2 in
     if itemsToMove \<le> 0 then failM (RuntimeError ''Nothing to steal.'')
     else
       bindM (liftM (int_rbegin sb)) (\<lambda>it.
       bindM (liftM (int_begin p)) (\<lambda>pit.
       bindM (liftM (int_iter_deref p pit)) (\<lambda>rightEntry.
       bindM (steal_left_loop page leftSibling parent (nat itemsToMove) it rightEntry parentEntry) (\<lambda>_.
         updateParentPointers page))))))"

fun steal_right_loop ::
    "nat \<Rightarrow> nat \<Rightarrow> nat \<Rightarrow> nat \<Rightarrow> int_iter \<Rightarrow> btree_entry \<Rightarrow> btree_entry \<Rightarrow> unit M" where
  "steal_right_loop page sibling parent 0 it leftEntry parentEntry = returnM ()"
| "steal_right_loop page sibling parent (Suc n) it leftEntry parentEntry =
     bindM (internal_at sibling) (\<lambda>sb.
     bindM (liftM (int_iter_deref sb it)) (\<lambda>rightEntry.
     bindM (deleteKeyAndRightChild_at parent parentEntry) (\<lambda>pe.
     let pe1 = pe\<lparr>e_left := e_right leftEntry, e_right := e_left rightEntry\<rparr> in
     bindM (insertEntry_at page pe1) (\<lambda>_.
     bindM (deleteKeyAndLeftChild_at sibling rightEntry) (\<lambda>re.
     bindM (id_at sibling) (\<lambda>siblingId.
     bindM (id_at page) (\<lambda>pageId.
     let re1 = re\<lparr>e_left := Some pageId, e_right := Some siblingId\<rparr> in
     bindM (insertEntry_at parent re1) (\<lambda>_.
     bindM (internal_at sibling) (\<lambda>sb'.
     bindM (liftM (int_iter_next sb' it)) (\<lambda>it'.
       steal_right_loop page sibling parent n it' pe1 re1))))))))))"

definition stealFromRightInternalPage :: "nat \<Rightarrow> nat \<Rightarrow> nat \<Rightarrow> btree_entry \<Rightarrow> unit M" where
  "stealFromRightInternalPage page rightSibling parent parentEntry =
     bindM (internal_at page) (\<lambda>p.
     bindM (internal_at rightSibling) (\<lambda>sb.
     let itemsToMove = c_div (int_getNumEntries sb - int_getNumEntries p) 2 in
     if itemsToMove \<le> 0 then failM (RuntimeError ''Nothing to steal.'')
     else
       bindM (liftM (int_begin sb)) (\<lambda>it.
       bindM (liftM (int_rbegin p)) (\<lambda>pit.
       bindM (liftM (int_riter_deref p pit)) (\<lambda>leftEntry.
       bindM (steal_right_loop page rightSibling parent (nat itemsToMove) it leftEntry parentEntry) (\<lambda>_.
         updateParentPointers page))))))"

section \<open>Merging\<close>

text \<open>\<open>for (auto &tuple : *rightPage)\<close>: the index grows with every round, so a round per slot suffices.\<close>

fun merge_leaf_loop :: "nat \<Rightarrow> nat \<Rightarrow> nat \<Rightarrow> leaf_iter \<Rightarrow> leaf_iter \<Rightarrow> unit M" where
  "merge_leaf_loop 0 left right it ite = failM OutOfFuel"
| "merge_leaf_loop (Suc n) left right it ite =
     (if \<not> leaf_iter_ne it ite then returnM ()
      else
        bindM (leaf_at right) (\<lambda>p.
        bindM (liftM (leaf_iter_deref p it)) (\<lambda>s.
        bindM (leaf_give right left s) (\<lambda>_.
        bindM (leaf_at right) (\<lambda>p'. merge_leaf_loop n left right (leaf_iter_next p' it) ite)))))"

definition mergeLeafPages ::
    "(nat \<Rightarrow> nat \<Rightarrow> btree_entry \<Rightarrow> unit M) \<Rightarrow> nat \<Rightarrow> nat \<Rightarrow> nat \<Rightarrow> nat \<Rightarrow> nat \<Rightarrow> btree_entry \<Rightarrow> unit M"
where
  "mergeLeafPages dpe n f leftPage rightPage parent parentEntry =
     bindM (leaf_at rightPage) (\<lambda>p.
     bindM (merge_leaf_loop (Suc (lp_numSlots p)) leftPage rightPage (leaf_begin p) (leaf_end p)) (\<lambda>_.
     bindM (leaf_at rightPage) (\<lambda>p1.
     let nextPageId = getRightSiblingId p1 in
     bindM (leaf_at leftPage) (\<lambda>l.
     bindM (liftM (setRightSiblingId l nextPageId)) (\<lambda>l'.
     bindM (put_page leftPage (LeafPg l')) (\<lambda>_.
     bindM (case nextPageId of
              None \<Rightarrow> returnM ()
            | Some i \<Rightarrow>
                bindM (bt_getPage i True) (\<lambda>nx.
                bindM (leaf_at nx) (\<lambda>next.
                bindM (liftM (setLeftSiblingId next (Some (bp_pid l)))) (\<lambda>next'.
                  put_page nx (LeafPg next'))))) (\<lambda>_.
     bindM (dpe leftPage parent parentEntry) (\<lambda>_.
       setEmptyPage n f (pageNumber (bp_pid p))))))))))"

fun merge_internal_loop :: "nat \<Rightarrow> nat \<Rightarrow> nat \<Rightarrow> int_iter \<Rightarrow> int_iter \<Rightarrow> unit M" where
  "merge_internal_loop 0 left right it ite = failM OutOfFuel"
| "merge_internal_loop (Suc n) left right it ite =
     (if \<not> int_iter_ne it ite then returnM ()
      else
        bindM (internal_at right) (\<lambda>p.
        bindM (liftM (int_iter_deref p it)) (\<lambda>entry.
        bindM (deleteKeyAndRightChild_at right entry) (\<lambda>entry'.
        bindM (insertEntry_at left entry') (\<lambda>_.
        bindM (internal_at right) (\<lambda>p'.
        bindM (liftM (int_iter_next p' it)) (\<lambda>it'.
          merge_internal_loop n left right it' ite)))))))"

definition mergeInternalPages ::
    "(nat \<Rightarrow> nat \<Rightarrow> btree_entry \<Rightarrow> unit M) \<Rightarrow> nat \<Rightarrow> nat \<Rightarrow> nat \<Rightarrow> nat \<Rightarrow> nat \<Rightarrow> btree_entry \<Rightarrow> unit M"
where
  "mergeInternalPages dpe n f leftPage rightPage parent parentEntry =
     bindM (dpe leftPage parent parentEntry) (\<lambda>_.
     bindM (internal_at rightPage) (\<lambda>r.
     bindM (internal_at leftPage) (\<lambda>l.
     bindM (liftM (bindE (int_begin r) (int_iter_deref r))) (\<lambda>rightEntry.
     bindM (liftM (bindE (int_rbegin l) (int_riter_deref l))) (\<lambda>leftEntry.
     let pe = parentEntry\<lparr>e_rid := None, e_left := e_right leftEntry, e_right := e_left rightEntry\<rparr> in
     bindM (insertEntry_at leftPage pe) (\<lambda>_.
     bindM (internal_at rightPage) (\<lambda>r1.
     bindM (liftM (int_begin r1)) (\<lambda>it.
     bindM (liftM (int_end r1)) (\<lambda>ite.
     bindM (merge_internal_loop (Suc (np_numSlots r1)) leftPage rightPage it ite) (\<lambda>_.
     bindM (updateParentPointers leftPage) (\<lambda>_.
       setEmptyPage n f (pageNumber (bp_pid r)))))))))))))"

section \<open>Pages below minimum occupancy\<close>

text \<open>
  The loop over the parent's entries never advances its iterator. When the first entry's left
  child is not the page, it does not end, which is \<open>OutOfFuel\<close> for every fuel.
\<close>

fun find_siblings ::
    "nat \<Rightarrow> internal_page \<Rightarrow> page_id \<Rightarrow> int_iter \<Rightarrow> int_iter \<Rightarrow> btree_entry option \<Rightarrow>
     (btree_entry option \<times> btree_entry option) res"
where
  "find_siblings 0 parent pid it ite leftEntry = Inl OutOfFuel"
| "find_siblings (Suc n) parent pid it ite leftEntry =
     (if \<not> int_iter_ne it ite then Inr (leftEntry, None)
      else
        bindE (int_iter_deref parent it) (\<lambda>e.
        bindE (derefE (e_left e)) (\<lambda>l.
          if pid_eq l pid then Inr (leftEntry, Some e)
          else
            bindE (derefE (e_right e)) (\<lambda>r.
              find_siblings n parent pid it ite (if pid_eq r pid then Some e else leftEntry)))))"

text \<open>The sibling ids that the two handlers start from; a null entry gives a null id.\<close>

definition left_sibling :: "btree_entry option \<Rightarrow> page_id option" where
  "left_sibling leftEntry = (case leftEntry of None \<Rightarrow> None | Some e \<Rightarrow> e_left e)"

definition right_sibling :: "btree_entry option \<Rightarrow> page_id option" where
  "right_sibling rightEntry = (case rightEntry of None \<Rightarrow> None | Some e \<Rightarrow> e_right e)"

definition handleMinOccupancyLeafPage ::
    "(nat \<Rightarrow> nat \<Rightarrow> btree_entry \<Rightarrow> unit M) \<Rightarrow> nat \<Rightarrow> nat \<Rightarrow> nat \<Rightarrow> nat option \<Rightarrow>
     btree_entry option \<Rightarrow> btree_entry option \<Rightarrow> unit M"
where
  "handleMinOccupancyLeafPage dpe n f page parent leftEntry rightEntry =
     bindM (leaf_at page) (\<lambda>p.
     bindM (readM w_pageSize) (\<lambda>ps.
     let maxTuples = leaf_getMaxTuples ps (bp_td p);
         maxEmptySlots = maxTuples - maxTuples div 2 in
     case left_sibling leftEntry of
       Some leftSiblingId \<Rightarrow>
         bindM (bt_getPage leftSiblingId True) (\<lambda>leftSibling.
         bindM (leaf_at leftSibling) (\<lambda>sb.
         bindM (liftM (derefE parent)) (\<lambda>pa.
         bindM (liftM (derefE leftEntry)) (\<lambda>le.
           if maxEmptySlots \<le> leaf_getNumEmptySlots sb
           then mergeLeafPages dpe n f leftSibling page pa le
           else stealFromLeafPage f page leftSibling pa le False))))
     | None \<Rightarrow>
         (case right_sibling rightEntry of
            Some rightSiblingId \<Rightarrow>
              bindM (bt_getPage rightSiblingId True) (\<lambda>rightSibling.
              bindM (leaf_at rightSibling) (\<lambda>sb.
              bindM (liftM (derefE parent)) (\<lambda>pa.
              bindM (liftM (derefE rightEntry)) (\<lambda>re.
                if maxEmptySlots \<le> leaf_getNumEmptySlots sb
                then mergeLeafPages dpe n f page rightSibling pa re
                else stealFromLeafPage f page rightSibling pa re True))))
          | None \<Rightarrow> returnM ())))"

definition handleMinOccupancyInternalPage ::
    "(nat \<Rightarrow> nat \<Rightarrow> btree_entry \<Rightarrow> unit M) \<Rightarrow> nat \<Rightarrow> nat \<Rightarrow> nat \<Rightarrow> nat option \<Rightarrow>
     btree_entry option \<Rightarrow> btree_entry option \<Rightarrow> unit M"
where
  "handleMinOccupancyInternalPage dpe n f page parent leftEntry rightEntry =
     bindM (internal_at page) (\<lambda>p.
     bindM (readM w_pageSize) (\<lambda>ps.
     bindM (liftM (int_getMaxEntries ps (bp_td p) (bp_keyField p))) (\<lambda>maxEntries.
     let maxEmptySlots = maxEntries - maxEntries div 2 in
     case left_sibling leftEntry of
       Some leftSiblingId \<Rightarrow>
         bindM (bt_getPage leftSiblingId True) (\<lambda>leftSibling.
         bindM (internal_at leftSibling) (\<lambda>sb.
         bindM (liftM (derefE parent)) (\<lambda>pa.
         bindM (liftM (derefE leftEntry)) (\<lambda>le.
           if maxEmptySlots \<le> int_getNumEmptySlots sb
           then mergeInternalPages dpe n f leftSibling page pa le
           else stealFromLeftInternalPage page leftSibling pa le))))
     | None \<Rightarrow>
         (case right_sibling rightEntry of
            Some rightSiblingId \<Rightarrow>
              bindM (bt_getPage rightSiblingId True) (\<lambda>rightSibling.
              bindM (internal_at rightSibling) (\<lambda>sb.
              bindM (liftM (derefE parent)) (\<lambda>pa.
              bindM (liftM (derefE rightEntry)) (\<lambda>re.
                if maxEmptySlots \<le> int_getNumEmptySlots sb
                then mergeInternalPages dpe n f page rightSibling pa re
                else stealFromRightInternalPage page rightSibling pa re))))
          | None \<Rightarrow> returnM ()))))"

definition handleMinOccupancyPage ::
    "(nat \<Rightarrow> nat \<Rightarrow> btree_entry \<Rightarrow> unit M) \<Rightarrow> nat \<Rightarrow> nat \<Rightarrow> nat \<Rightarrow> unit M"
where
  "handleMinOccupancyPage dpe n f page =
     bindM (page_at page) (\<lambda>pg.
     bindM (liftM (page_getParentId pg)) (\<lambda>parentId.
     bindM (if btree_type parentId \<noteq> ROOT_PTR
            then bindM (bt_getPage parentId True) (\<lambda>pa.
                 bindM (internal_at pa) (\<lambda>parent.
                 bindM (liftM (int_begin parent)) (\<lambda>it.
                 bindM (liftM (int_end parent)) (\<lambda>ite.
                 bindM (liftM (find_siblings n parent (page_getId pg) it ite None)) (\<lambda>(le, re).
                   returnM (Some pa, le, re))))))
            else returnM (None, None, None)) (\<lambda>(parent, leftEntry, rightEntry).
       if btree_type (page_getId pg) = LEAF
       then handleMinOccupancyLeafPage dpe n f page parent leftEntry rightEntry
       else handleMinOccupancyInternalPage dpe n f page parent leftEntry rightEntry)))"

fun deleteParentEntry :: "nat \<Rightarrow> nat \<Rightarrow> nat \<Rightarrow> nat \<Rightarrow> btree_entry \<Rightarrow> unit M" where
  "deleteParentEntry 0 f leftPage parent parentEntry = failM OutOfFuel"
| "deleteParentEntry (Suc n) f leftPage parent parentEntry =
     bindM (deleteKeyAndRightChild_at parent parentEntry) (\<lambda>_.
     bindM (internal_at parent) (\<lambda>p.
     bindM (readM w_pageSize) (\<lambda>ps.
     bindM (liftM (int_getMaxEntries ps (bp_td p) (bp_keyField p))) (\<lambda>maxEntries.
     let maxEmptySlots = maxEntries - maxEntries div 2 in
     if int_getNumEmptySlots p = maxEntries
     then
       let rootPtrId = getParentId p in
       bindM (liftM (assertE (btree_type rootPtrId = ROOT_PTR))) (\<lambda>_.
       bindM (bt_getPage rootPtrId True) (\<lambda>r.
       bindM (root_at r) (\<lambda>_.
       bindM (setParentId_at leftPage (Some rootPtrId)) (\<lambda>_.
       bindM (id_at leftPage) (\<lambda>leftId.
       bindM (root_at r) (\<lambda>rootPtr.
       bindM (liftM (setRootId rootPtr (Some leftId))) (\<lambda>rootPtr'.
       bindM (put_page r (RootPg rootPtr')) (\<lambda>_.
         setEmptyPage n f (pageNumber (bp_pid p))))))))))
     else if maxEmptySlots < int_getNumEmptySlots p
     then handleMinOccupancyPage (deleteParentEntry n f) n f parent
     else returnM ()))))"

section \<open>\<open>deleteTuple\<close>\<close>

definition BTreeFile_deleteTuple :: "nat \<Rightarrow> nat \<Rightarrow> int \<Rightarrow> tuple \<Rightarrow> (tuple \<times> nat list) M" where
  "BTreeFile_deleteTuple n f tid t =
     bindM (updM (\<lambda>w. w\<lparr>w_dirtypages := []\<rparr>)) (\<lambda>_.
     bindM (btree_at f) (\<lambda>b.
     bindM (liftM (derefE (tp_rid t))) (\<lambda>rid.
     bindM (bt_getPage (BTreePageId (bf_tableid b) (pageNumber (rid_pid rid)) LEAF) True) (\<lambda>page.
     bindM (leaf_at page) (\<lambda>p.
     bindM (liftM (leaf_deleteTuple p t)) (\<lambda>(t', p').
     bindM (put_page page (LeafPg p')) (\<lambda>_.
     bindM (readM w_pageSize) (\<lambda>ps.
     let maxTuples = leaf_getMaxTuples ps (bp_td p');
         maxEmptySlots = maxTuples - maxTuples div 2 in
     bindM (if maxEmptySlots < leaf_getNumEmptySlots p'
            then handleMinOccupancyPage (deleteParentEntry n f) n f page
            else returnM ()) (\<lambda>_.
     bindM dirty_pages (\<lambda>ds. returnM (t', ds)))))))))))"

end
