(* ===== verification/Storage.thy ===== *)
theory Storage
  imports HeapFile BTreeDelete
begin

text \<open>
  What sits on top of the files: the iterator over a B+ tree (\<open>BTreeFileIterator\<close>,
  \<open>BTreeIterable\<close>), and \<open>insertTuple\<close> and \<open>deleteTuple\<close> of \<open>BufferPool\<close>, which call a file
  through the catalog and put the pages it dirtied into the pool.
\<close>

section \<open>Scanning a B+ tree\<close>

text \<open>An end iterator has no leaf and a page iterator that was never set.\<close>

record btree_iter =
  bi_file :: nat
  bi_pred :: "index_predicate option"
  bi_leaf :: "nat option"
  bi_it :: "leaf_iter option"

definition BTreeFileIterator_new ::
    "nat \<Rightarrow> index_predicate option \<Rightarrow> nat \<Rightarrow> bool \<Rightarrow> btree_iter M" where
  "BTreeFileIterator_new n pred f done' =
     (if done'
      then returnM \<lparr>bi_file = f, bi_pred = pred, bi_leaf = None, bi_it = None\<rparr>
      else
        bindM (btree_at f) (\<lambda>b.
        bindM (bp_getPage (rootptr_getId (bf_tableid b))) (\<lambda>r.
        bindM (root_at r) (\<lambda>rootPtr.
        bindM (case pred of
                 Some p \<Rightarrow>
                   if ip_op p = EQUALS \<or> ip_op p = GREATER_THAN \<or> ip_op p = GREATER_THAN_OR_EQ
                   then findLeafPage n (getRootId rootPtr) False (ip_fvalue p)
                   else findLeafPage n (getRootId rootPtr) False None
               | None \<Rightarrow> findLeafPage n (getRootId rootPtr) False None) (\<lambda>a.
        bindM (leaf_at a) (\<lambda>leaf.
          returnM \<lparr>bi_file = f, bi_pred = pred, bi_leaf = Some a, bi_it = Some (leaf_begin leaf)\<rparr>))))))"

definition BTreeIterable_begin :: "nat \<Rightarrow> index_predicate option \<Rightarrow> nat \<Rightarrow> btree_iter M" where
  "BTreeIterable_begin n pPredicate pFile = BTreeFileIterator_new n pPredicate pFile False"

definition BTreeIterable_end :: "nat \<Rightarrow> index_predicate option \<Rightarrow> nat \<Rightarrow> btree_iter M" where
  "BTreeIterable_end n pPredicate pFile = BTreeFileIterator_new n pPredicate pFile True"

definition bti_ne :: "btree_iter \<Rightarrow> btree_iter \<Rightarrow> bool" where
  "bti_ne a b \<longleftrightarrow> bi_leaf a \<noteq> bi_leaf b"

definition bti_advance :: "btree_iter \<Rightarrow> leaf_page \<Rightarrow> btree_iter M" where
  "bti_advance it leaf =
     (case getRightSiblingId leaf of
        None \<Rightarrow> returnM (it\<lparr>bi_leaf := None\<rparr>)
      | Some next_id \<Rightarrow>
          bindM (bp_getPage next_id) (\<lambda>a.
          bindM (leaf_at a) (\<lambda>leaf'.
            returnM (it\<lparr>bi_leaf := Some a, bi_it := Some (leaf_begin leaf')\<rparr>))))"

definition bti_next :: "btree_iter \<Rightarrow> btree_iter M" where
  "bti_next it =
     bindM (liftM (derefE (bi_leaf it))) (\<lambda>a.
     bindM (leaf_at a) (\<lambda>leaf.
     bindM (liftM (derefE (bi_it it))) (\<lambda>li.
       if leaf_iter_ne li (leaf_end leaf)
       then let li' = leaf_iter_next leaf li in
            if leaf_iter_ne li' (leaf_end leaf) then returnM (it\<lparr>bi_it := Some li'\<rparr>)
            else bti_advance (it\<lparr>bi_it := Some li'\<rparr>) leaf
       else bti_advance it leaf)))"

definition bti_deref :: "btree_iter \<Rightarrow> tuple M" where
  "bti_deref it =
     bindM (liftM (derefE (bi_leaf it))) (\<lambda>a.
     bindM (leaf_at a) (\<lambda>leaf.
     bindM (liftM (derefE (bi_it it))) (\<lambda>li.
     bindM (liftM (leaf_iter_deref leaf li)) (\<lambda>s. liftM (nthE (lp_tuples leaf) s)))))"

text \<open>\<open>for (auto &t : file.iterable(tid, ipred))\<close>, for at most \<open>k\<close> tuples.\<close>

fun bti_collect :: "nat \<Rightarrow> btree_iter \<Rightarrow> btree_iter \<Rightarrow> tuple list M" where
  "bti_collect 0 it ite = failM OutOfFuel"
| "bti_collect (Suc k) it ite =
     (if \<not> bti_ne it ite then returnM []
      else bindM (bti_deref it) (\<lambda>t.
           bindM (bti_next it) (\<lambda>it'.
           bindM (bti_collect k it' ite) (\<lambda>ts. returnM (t # ts)))))"

definition btree_scan :: "nat \<Rightarrow> nat \<Rightarrow> index_predicate option \<Rightarrow> nat \<Rightarrow> tuple list M" where
  "btree_scan n k pred f =
     bindM (BTreeIterable_begin n pred f) (\<lambda>it.
     bindM (BTreeIterable_end n pred f) (\<lambda>ite. bti_collect k it ite))"

section \<open>Inserting and deleting through the buffer pool\<close>

definition file_insertTuple :: "nat \<Rightarrow> nat \<Rightarrow> int \<Rightarrow> tuple \<Rightarrow> (tuple \<times> nat list) M" where
  "file_insertTuple n i tid t =
     bindM (file_at i) (\<lambda>f. case f of
         HeapF _ \<Rightarrow> HeapFile_insertTuple i tid t
       | BTreeF _ \<Rightarrow> BTreeFile_insertTuple n i tid t
       | SkelF _ \<Rightarrow> bindM SkeletonFile_insertTuple (\<lambda>ps. returnM (t, ps)))"

definition bp_insertTuple :: "nat \<Rightarrow> int \<Rightarrow> int \<Rightarrow> tuple \<Rightarrow> tuple M" where
  "bp_insertTuple n tid tableId t =
     bindM (db_getDatabaseFile tableId) (\<lambda>f.
     bindM (file_insertTuple n f tid t) (\<lambda>(t', dirtypages).
     bindM (pool_add_dirty tid dirtypages) (\<lambda>_. returnM t')))"

text \<open>\<open>deleteTuple\<close> too calls the \<open>insertTuple\<close> of the file.\<close>

definition bp_deleteTuple :: "nat \<Rightarrow> int \<Rightarrow> tuple \<Rightarrow> tuple M" where
  "bp_deleteTuple n tid t =
     bindM (liftM (derefE (tp_rid t))) (\<lambda>rid.
     let tableId = getTableId (rid_pid rid) in
     bindM (db_getDatabaseFile tableId) (\<lambda>f.
     bindM (file_insertTuple n f tid t) (\<lambda>(t', dirtypages).
     bindM (pool_add_dirty tid dirtypages) (\<lambda>_. returnM t'))))"

end
