(* ===== verification/BTreeInternalSpec.thy ===== *)
theory BTreeInternalSpec
  imports BTreeInsert
begin

text \<open>
  What the operations of an internal page do to its content, the list of its children with the
  key before each of them: insertion (\<open>insertEntry\<close>), iteration and the choice of a child in
  \<open>findLeafPage\<close>.
\<close>

section \<open>The content of an internal page\<close>

text \<open>
  One pair per used slot, its key and its child; slot 0 has no key.
\<close>

definition int_view :: "internal_page \<Rightarrow> (field option \<times> int) option list" where
  "int_view p =
     map (\<lambda>i. if int_isSlotUsed p i then Some (np_keys p ! i, np_children p ! i) else None)
       [0..<np_numSlots p]"

definition int_pairs :: "internal_page \<Rightarrow> (field option \<times> int) list" where
  "int_pairs p = somes (int_view p)"

text \<open>The invariant of an internal page of a tree keyed on an integer column.\<close>

definition int_ok :: "internal_page \<Rightarrow> bool" where
  "int_ok p \<longleftrightarrow>
     np_numSlots p \<le> 8 * length (np_header p) \<and> length (np_keys p) = np_numSlots p \<and>
     length (np_children p) = np_numSlots p \<and> 2 \<le> np_numSlots p \<and> np_keys p ! 0 = None \<and>
     getFieldType (bp_td p) (bp_keyField p) = Inr INT_TYPE \<and>
     (\<forall>i. 1 \<le> i \<longrightarrow> i < np_numSlots p \<longrightarrow> int_isSlotUsed p i \<longrightarrow> (\<exists>v. np_keys p ! i = Some (IntField v)))"

text \<open>The number in a key; a missing key is below every number.\<close>

definition key_le :: "field option \<Rightarrow> int \<Rightarrow> bool" where
  "key_le k n \<longleftrightarrow> (case k of None \<Rightarrow> True | Some f \<Rightarrow> int_val f \<le> n)"

definition key_ge :: "field option \<Rightarrow> int \<Rightarrow> bool" where
  "key_ge k n \<longleftrightarrow> (case k of None \<Rightarrow> False | Some f \<Rightarrow> n \<le> int_val f)"

definition int_frame :: "internal_page \<Rightarrow> internal_page \<Rightarrow> bool" where
  "int_frame p q \<longleftrightarrow>
     q = p\<lparr>np_header := np_header q, np_keys := np_keys q, np_children := np_children q\<rparr>"

lemma int_frame_simps:
  assumes "int_frame p q"
  shows "bp_pid q = bp_pid p" "bp_td q = bp_td p" "bp_keyField q = bp_keyField p"
    "bp_parent q = bp_parent p" "np_numSlots q = np_numSlots p"
    "np_childCategory q = np_childCategory p"
  by (subst assms [unfolded int_frame_def], simp)+

lemma int_frame_refl [simp]: "int_frame p p"
  by (simp add: int_frame_def)

lemma int_frame_trans [trans]: "int_frame p q \<Longrightarrow> int_frame q r \<Longrightarrow> int_frame p r"
  unfolding int_frame_def by (cases p; cases q; cases r) simp

lemma int_frame_update [simp]:
  "int_frame p (q\<lparr>np_keys := ks\<rparr>) = int_frame p q"
  "int_frame p (q\<lparr>np_children := cs\<rparr>) = int_frame p q"
  unfolding int_frame_def by (cases p; cases q; auto)+

lemma length_int_view [simp]: "length (int_view p) = np_numSlots p"
  by (simp add: int_view_def)

lemma int_view_nth:
  "i < np_numSlots p \<Longrightarrow>
   int_view p ! i = (if int_isSlotUsed p i then Some (np_keys p ! i, np_children p ! i) else None)"
  by (simp add: int_view_def)

lemma int_mark_used:
  "i < 8 * length (np_header p) \<Longrightarrow> j < 8 * length (np_header p) \<Longrightarrow>
   int_isSlotUsed (int_markSlotUsed p i v) j = (if j = i then v else int_isSlotUsed p j)"
  by (simp add: int_isSlotUsed_def int_markSlotUsed_def modb.used_mark)

lemma int_markSlotUsed_simps [simp]:
  "np_keys (int_markSlotUsed p i v) = np_keys p"
  "np_children (int_markSlotUsed p i v) = np_children p"
  "np_numSlots (int_markSlotUsed p i v) = np_numSlots p"
  "np_childCategory (int_markSlotUsed p i v) = np_childCategory p"
  "bp_pid (int_markSlotUsed p i v) = bp_pid p"
  "bp_td (int_markSlotUsed p i v) = bp_td p"
  "bp_keyField (int_markSlotUsed p i v) = bp_keyField p"
  "length (np_header (int_markSlotUsed p i v)) = length (np_header p)"
  "int_frame p (int_markSlotUsed p i v)"
  by (simp_all add: int_markSlotUsed_def int_frame_def modb.length_mark)

lemma int_isSlotUsed_update [simp]:
  "int_isSlotUsed (p\<lparr>np_keys := ks\<rparr>) = int_isSlotUsed p"
  "int_isSlotUsed (p\<lparr>np_children := cs\<rparr>) = int_isSlotUsed p"
  by (intro ext, simp add: int_isSlotUsed_def)+

text \<open>Storing a key and a child into a slot, the last step of a move and of an insertion.\<close>

definition int_put :: "internal_page \<Rightarrow> nat \<Rightarrow> field option \<Rightarrow> int \<Rightarrow> internal_page" where
  "int_put p i k c =
     (int_markSlotUsed p i True)\<lparr>np_keys := (np_keys p)[i := k], np_children := (np_children p)[i := c]\<rparr>"

lemma int_put_simps [simp]:
  "np_numSlots (int_put p i k c) = np_numSlots p"
  "length (np_header (int_put p i k c)) = length (np_header p)"
  "int_frame p (int_put p i k c)"
  by (simp_all add: int_put_def)

lemma int_put_view:
  assumes "int_ok p" "i < np_numSlots p"
  shows "int_view (int_put p i k c) = (int_view p)[i := Some (k, c)]"
  using assms by (intro nth_equalityI)
    (auto simp: int_view_nth int_put_def int_mark_used int_ok_def nth_list_update)

lemma int_put_ok:
  assumes "int_ok p" "i < np_numSlots p" "1 \<le> i" "k = Some (IntField v)"
  shows "int_ok (int_put p i k c)"
  using assms by (auto simp: int_ok_def int_put_def int_mark_used nth_list_update)

lemma int_free_view:
  assumes "int_ok p" "i < np_numSlots p"
  shows "int_view (int_markSlotUsed p i False) = (int_view p)[i := None]"
  using assms by (intro nth_equalityI)
    (auto simp: int_view_nth int_mark_used int_ok_def nth_list_update)

lemma int_free_ok:
  assumes "int_ok p" "i < np_numSlots p"
  shows "int_ok (int_markSlotUsed p i False)"
  using assms by (auto simp: int_ok_def int_mark_used)

lemma int_moveEntry_put:
  "int_moveEntry p from to =
     (if \<not> int_isSlotUsed p to \<and> int_isSlotUsed p from
      then int_markSlotUsed (int_put p to (np_keys p ! from) (np_children p ! from)) from False else p)"
  by (simp add: int_moveEntry_def int_put_def Let_def)

interpretation int_slots: slot_page int_view int_ok int_frame 1 int_moveEntry
  int_shift_down int_shift_up int_isSlotUsed int_emptySlot
proof
  fix p :: internal_page and "from" to :: nat
  assume ok: "int_ok p" and b: "1 \<le> from" "1 \<le> to" "from < length (int_view p)"
    "to < length (int_view p)" "from \<noteq> to"
  have key: "int_isSlotUsed p from \<Longrightarrow> \<exists>v. np_keys p ! from = Some (IntField v)"
    using ok b by (simp add: int_ok_def)
  show "int_view (int_moveEntry p from to) = vmove from to (int_view p)"
    using ok b key
    by (auto simp: int_moveEntry_put int_free_view int_put_view int_put_ok vmove_def int_view_nth)
  show "int_ok (int_moveEntry p from to)"
    using ok b key by (auto simp: int_moveEntry_put int_free_ok int_put_ok)
next
  fix p :: internal_page and "from" to :: nat
  show "int_frame p (int_moveEntry p from to)"
    using int_frame_trans [OF int_put_simps(3) int_markSlotUsed_simps(9)]
    by (simp add: int_moveEntry_put)
next
  fix p q r :: internal_page
  show "int_frame p q \<Longrightarrow> int_frame q r \<Longrightarrow> int_frame p r" by (rule int_frame_trans)
next
  fix p :: internal_page and i l :: nat
  show "int_shift_down p i l =
      (if i < l then int_shift_down (int_moveEntry p (Suc i) i) (Suc i) l else p)"
    by (rule int_shift_down.simps)
  show "int_shift_up p i l =
      (if l < i then int_shift_up (int_moveEntry p (i - 1) i) (i - 1) l else p)"
    by (rule int_shift_up.simps)
qed (auto simp: int_view_nth)

section \<open>Insertion of an entry\<close>

text \<open>
  The search finds the slot of the left child, when no other child of the page is one of the
  two and the keys around it allow the new key.
\<close>

lemma int_findChild_spec:
  assumes ok: "int_ok p" and c: "c < np_numSlots p" "int_isSlotUsed p c" "np_children p ! c = l"
    and kc: "key_le (np_keys p ! c) (sint kv)"
    and others: "\<And>j. j < np_numSlots p \<Longrightarrow> int_isSlotUsed p j \<Longrightarrow> j \<noteq> c \<Longrightarrow> np_children p ! j \<noteq> l"
    and fresh: "\<And>j. j < np_numSlots p \<Longrightarrow> int_isSlotUsed p j \<Longrightarrow> np_children p ! j \<noteq> r"
    and above: "\<And>j. c < j \<Longrightarrow> j < np_numSlots p \<Longrightarrow> int_isSlotUsed p j \<Longrightarrow> key_ge (np_keys p ! j) (sint kv)"
  shows "i + n = np_numSlots p \<Longrightarrow>
    int_findChild p (IntField kv) l r i n (if c < i then int c else - 1) = Inr (int c, p)"
proof (induction n arbitrary: i)
  case 0
  then show ?case using c by simp
next
  case (Suc n)
  then have i: "i < np_numSlots p" and n: "Suc i + n = np_numSlots p" by auto
  note IH = Suc.IH [OF n]
  have keys: "1 \<le> i \<Longrightarrow> int_isSlotUsed p i \<Longrightarrow> \<exists>v. np_keys p ! i = Some (IntField v)"
    using ok i by (simp add: int_ok_def)
  consider "\<not> int_isSlotUsed p i" | "int_isSlotUsed p i" "i = c" | "int_isSlotUsed p i" "i < c"
    | "int_isSlotUsed p i" "c < i" by linarith
  then show ?case
  proof cases
    case 1
    moreover from this c have "c < Suc i \<longleftrightarrow> c < i" by (metis less_SucE less_SucI)
    ultimately show ?thesis using IH by simp
  next
    case 2
    have lr: "l \<noteq> r" using fresh [OF c(1,2)] c(3) by simp
    show ?thesis
    proof (cases "i = 0")
      case True
      with IH 2 c lr show ?thesis by simp
    next
      case False
      then obtain v where "np_keys p ! i = Some (IntField v)" using keys 2 by auto
      with False IH 2 c lr kc show ?thesis by (simp add: key_le_def)
    qed
  next
    case 3
    then have "np_children p ! i \<noteq> l" "np_children p ! i \<noteq> r" using others fresh i by auto
    with 3 IH show ?thesis by simp
  next
    case 4
    then have "np_children p ! i \<noteq> l" "np_children p ! i \<noteq> r" using others fresh i by auto
    moreover obtain v where "np_keys p ! i = Some (IntField v)" using keys 4 by auto
    ultimately show ?thesis using 4 above [of i] i by (simp add: key_ge_def)
  qed
qed

lemma int_empty_hole:
  assumes "int_ok p" "0 < int_getNumEmptySlots p"
  obtains e where "int_emptySlot p 1 (np_numSlots p - 1) = int e" "1 \<le> e" "e < np_numSlots p"
    "\<not> int_isSlotUsed p e"
proof -
  from assms(2) obtain j where "j \<in> set [1..<np_numSlots p]" "\<not> int_isSlotUsed p j"
    unfolding int_getNumEmptySlots_def by (metis filter_False length_0_conv less_nat_zero_code)
  then have "int_emptySlot p 1 (np_numSlots p - 1) \<noteq> - 1"
    by (auto simp: int_slots.emptySlot_none intro!: exI [of _ j])
  from int_slots.emptySlot_some [OF this] assms(1) that show ?thesis by (auto simp: int_ok_def)
qed

text \<open>
  \<open>insertEntry\<close> splits a child: the pair of the left child is followed by the new key with the
  right child, and everything else keeps its place.
\<close>

text \<open>The slot of the left child, behind which the new entry goes.\<close>

lemma int_findChild_pairs:
  assumes ok: "int_ok p" and pairs: "int_pairs p = as @ (k0, l) # bs"
    and l: "l \<notin> snd ` set (as @ bs)" and r: "r \<notin> snd ` set (int_pairs p)"
    and k0: "key_le k0 (sint kv)" and bs: "\<And>b. b \<in> set bs \<Longrightarrow> key_ge (fst b) (sint kv)"
  obtains c where "c < np_numSlots p" "int_view p ! c = Some (k0, l)" "somes (take c (int_view p)) = as"
    "somes (drop (Suc c) (int_view p)) = bs" "int_isSlotUsed p c"
    "int_findChild p (IntField kv) l r 0 (np_numSlots p) (- 1) = Inr (int c, p)"
proof -
  let ?n = "np_numSlots p" and ?v = "int_view p"
  obtain c where c: "c < ?n" "?v ! c = Some (k0, l)" "somes (take c ?v) = as"
      "somes (drop (Suc c) ?v) = bs"
    using somes_split_elem [OF pairs [unfolded int_pairs_def]] by auto
  then have cu: "int_isSlotUsed p c" "np_keys p ! c = k0" "np_children p ! c = l"
    by (auto simp: int_view_nth split: if_splits)
  have mem: "(np_keys p ! j, np_children p ! j) \<in> set (int_pairs p)"
    if "j < ?n" "int_isSlotUsed p j" for j
    using that somes_nth_drop [of 0 j ?v] by (simp add: int_pairs_def int_view_nth)
  have mem': "(np_keys p ! j, np_children p ! j) \<in> set (as @ bs)"
    if "j < ?n" "int_isSlotUsed p j" "j \<noteq> c" for j
    using that c somes_nth_take [of j c ?v] somes_nth_drop [of "Suc c" j ?v]
    by (cases "j < c") (auto simp: int_view_nth)
  have memb: "(np_keys p ! j, np_children p ! j) \<in> set bs"
    if "j < ?n" "int_isSlotUsed p j" "c < j" for j
    using that c somes_nth_drop [of "Suc c" j ?v] by (auto simp: int_view_nth)
  have "int_findChild p (IntField kv) l r 0 ?n (- 1) = Inr (int c, p)"
  proof -
    have "int_findChild p (IntField kv) l r 0 ?n (if c < 0 then int c else - 1) = Inr (int c, p)"
    proof (rule int_findChild_spec [OF ok c(1) cu(1,3)])
      show "key_le (np_keys p ! c) (sint kv)" using k0 cu by simp
      show "np_children p ! j \<noteq> l" if "j < ?n" "int_isSlotUsed p j" "j \<noteq> c" for j
        using l mem' [OF that] by (metis image_eqI snd_conv)
      show "np_children p ! j \<noteq> r" if "j < ?n" "int_isSlotUsed p j" for j
        using r mem [OF that] by (metis image_eqI snd_conv)
      show "key_ge (np_keys p ! j) (sint kv)" if "c < j" "j < ?n" "int_isSlotUsed p j" for j
        using bs [OF memb [OF that(2,3,1)]] by simp
    qed simp
    then show ?thesis by simp
  qed
  with c cu(1) show ?thesis by (rule that)
qed

lemma int_insert_spec:
  assumes ok: "int_ok p" and e: "e_key e = Some (IntField kv)"
      "e_left e = Some (BTreePageId tab l ty)" "e_right e = Some (BTreePageId tab r ty)"
    and tab: "tab = getTableId (bp_pid p)" and ty: "ty = np_childCategory p" "ty \<noteq> ROOT_PTR"
    and room: "0 < int_getNumEmptySlots p" "int_getNumEmptySlots p \<noteq> maxEntries"
    and pairs: "int_pairs p = as @ (k0, l) # bs"
    and l: "l \<notin> snd ` set (as @ bs)" and r: "r \<notin> snd ` set (int_pairs p)"
    and k0: "key_le k0 (sint kv)" and bs: "\<And>b. b \<in> set bs \<Longrightarrow> key_ge (fst b) (sint kv)"
  shows "\<exists>p'. insertEntry p maxEntries e = Inr p' \<and> int_ok p' \<and> int_frame p p' \<and>
    int_pairs p' = as @ (k0, l) # (Some (IntField kv), r) # bs \<and>
    (int_isSlotUsed p 0 \<longrightarrow> int_isSlotUsed p 1 \<longrightarrow> int_isSlotUsed p' 0 \<and> int_isSlotUsed p' 1)"
proof -
  let ?n = "np_numSlots p" and ?v = "int_view p"
  obtain c where c: "c < ?n" "?v ! c = Some (k0, l)" "somes (take c ?v) = as" "somes (drop (Suc c) ?v) = bs"
    and cu: "int_isSlotUsed p c" and find: "int_findChild p (IntField kv) l r 0 ?n (- 1) = Inr (int c, p)"
    using int_findChild_pairs [OF ok pairs l r k0 bs] .
  obtain e' where e': "int_emptySlot p 1 (?n - 1) = int e'" "1 \<le> e'" "e' < ?n" "\<not> int_isSlotUsed p e'"
    using int_empty_hole [OF ok room(1)] .
  define g where "g = Suc c"
  have ve: "?v ! e' = None" using e' by (simp add: int_view_nth)
  have eg: "Suc e' \<noteq> g" using e' cu by (auto simp: g_def)
  define q where "q = (if Suc e' < g then int_shift_down p e' (g - 1) else int_shift_up p e' g)"
  define s where "s = (if Suc e' < g then g - 1 else g)"
  have q: "int_ok q" "int_frame p q"
      "int_view q = (if Suc e' < g then vshift_down e' (g - 1) ?v else vshift_up e' g ?v)"
    using int_slots.shift_down_spec [OF ok, of e' "g - 1"] int_slots.shift_up_spec [OF ok, of g e'] e' c(1)
    by (auto simp: q_def g_def)
  note qs = int_frame_simps [OF q(2)]
  have s: "s < ?n" "1 \<le> s" using c e' eg by (auto simp: s_def g_def)
  have view: "int_view (int_put q s (Some (IntField kv)) r) = vinsert e' g (Some (IntField kv), r) ?v"
    using int_put_view [OF q(1)] s qs q(3) by (auto simp: vinsert_def s_def)
  have "somes (take g ?v) = as @ [(k0, l)]" "somes (drop g ?v) = bs"
    using c by (auto simp: g_def somes_take_Suc)
  then have pr: "int_pairs (int_put q s (Some (IntField kv)) r) =
      as @ (k0, l) # (Some (IntField kv), r) # bs"
    using vinsert_spec(1) [of e' ?v g] ve eg e' c by (simp add: int_pairs_def view g_def)
  have cat: "int_checkCategory p (BTreePageId tab l ty) (BTreePageId tab r ty) = Inr p"
    using ty by (simp add: int_checkCategory_def)
  have put: "(int_markSlotUsed q s True)
        \<lparr>np_keys := (np_keys (int_markSlotUsed q s True))[s := Some (IntField kv)],
         np_children := (np_children (int_markSlotUsed q s True))[s := r]\<rparr> =
      int_put q s (Some (IntField kv)) r" by (simp add: int_put_def)
  have td: "getFieldType (bp_td p) (bp_keyField p) = Inr INT_TYPE" using ok by (simp add: int_ok_def)
  have "insertEntry p maxEntries e = Inr (int_put q s (Some (IntField kv)) r)"
  proof (cases "Suc e' < g")
    case True
    then have "int e' < int c" "q = int_shift_down p e' c" "s = c" by (auto simp: q_def s_def g_def)
    with e tab [symmetric] td room(2) e'(1) cat find put show ?thesis
      by (simp add: insertEntry_def Let_def)
  next
    case False
    then have "\<not> int e' < int c" "q = int_shift_up p e' (Suc c)" "s = Suc c"
      using eg by (auto simp: q_def s_def g_def)
    with e tab [symmetric] td room(2) e'(1) cat find put show ?thesis
      by (simp add: insertEntry_def Let_def nat_add_distrib)
  qed
  moreover have "int_ok (int_put q s (Some (IntField kv)) r)"
    using int_put_ok [OF q(1), of s] s qs by simp
  moreover have "int_frame p (int_put q s (Some (IntField kv)) r)"
    using int_frame_trans [OF q(2) int_put_simps(3)] .
  moreover have low: "int_isSlotUsed (int_put q s (Some (IntField kv)) r) i"
    if "i < 2" "int_isSlotUsed p 0" "int_isSlotUsed p 1" for i
  proof -
    have i: "i = 0 \<or> i = 1" using that(1) by auto
    have "e' \<noteq> 1" using that(3) e'(4) by auto
    then have "2 \<le> e'" using e'(2) by simp
    moreover have "?v ! i \<noteq> None" using that i e' by (auto simp: int_view_nth)
    ultimately have "vinsert e' g (Some (IntField kv), r) ?v ! i \<noteq> None"
      using ve eg e' c that(1) by (intro vinsert_low) (auto simp: g_def)
    then have "int_view (int_put q s (Some (IntField kv)) r) ! i \<noteq> None" by (simp add: view)
    moreover have "i < np_numSlots (int_put q s (Some (IntField kv)) r)" using \<open>2 \<le> e'\<close> that(1) e'(3) qs by simp
    ultimately show ?thesis by (metis int_view_nth)
  qed
  ultimately show ?thesis using pr low [of 0] low [of 1] by auto
qed

text \<open>On an empty page the entry takes slots 0 and 1.\<close>

lemma int_none_used:
  assumes "int_getNumEmptySlots p = np_numSlots p - 1" "1 \<le> i" "i < np_numSlots p"
  shows "\<not> int_isSlotUsed p i"
proof -
  have "filter (\<lambda>i. \<not> int_isSlotUsed p i) [1..<np_numSlots p] = [1..<np_numSlots p]"
    using assms(1) unfolding int_getNumEmptySlots_def
    by (metis filter_True filter_id_conv length_filter_less length_upt less_not_refl)
  then show ?thesis using assms(2,3) by (simp add: filter_id_conv)
qed

lemma int_insert_fresh:
  assumes ok: "int_ok p" and e: "e_key e = Some (IntField kv)"
      "e_left e = Some (BTreePageId tab l ty)" "e_right e = Some (BTreePageId tab r ty)"
    and tab: "tab = getTableId (bp_pid p)" and ty: "ty = np_childCategory p" "ty \<noteq> ROOT_PTR"
    and empty: "int_getNumEmptySlots p = np_numSlots p - 1" "maxEntries = np_numSlots p - 1"
  shows "\<exists>p'. insertEntry p maxEntries e = Inr p' \<and> int_ok p' \<and> int_frame p p' \<and>
    int_isSlotUsed p' 0 \<and> int_isSlotUsed p' 1 \<and> (\<forall>i. 2 \<le> i \<longrightarrow> i < np_numSlots p \<longrightarrow> \<not> int_isSlotUsed p' i) \<and>
    int_pairs p' = [(None, l), (Some (IntField kv), r)]"
proof -
  let ?n = "np_numSlots p"
  define q where "q = p\<lparr>np_children := (np_children p)[0 := l, 1 := r],
      np_keys := (np_keys p)[1 := Some (IntField kv)]\<rparr>"
  define p' where "p' = int_markSlotUsed (int_markSlotUsed q 0 True) 1 True"
  from ok have n: "2 \<le> ?n" "?n \<le> 8 * length (np_header p)" "length (np_keys p) = ?n"
      "length (np_children p) = ?n" "np_keys p ! 0 = None"
      "getFieldType (bp_td p) (bp_keyField p) = Inr INT_TYPE"
    by (auto simp: int_ok_def)
  have q: "np_numSlots q = ?n" "np_header q = np_header p" "int_isSlotUsed q = int_isSlotUsed p"
      "int_frame p q" by (simp_all add: q_def)
  have used: "int_isSlotUsed p' j \<longleftrightarrow> j = 0 \<or> j = 1" if "j < ?n" for j
  proof -
    have "np_header p \<noteq> []" "1 < 8 * length (np_header p)" using n by auto
    then show ?thesis
      using that n q int_none_used [OF empty(1), of j] by (auto simp: p'_def int_mark_used)
  qed
  have cat: "int_checkCategory p (BTreePageId tab l ty) (BTreePageId tab r ty) = Inr p"
    using ty by (simp add: int_checkCategory_def)
  have "insertEntry p maxEntries e = Inr p'"
    using e tab [symmetric] n(1,3,6) empty cat by (simp add: insertEntry_def p'_def q_def)
  moreover have f: "np_numSlots p' = ?n" "length (np_header p') = length (np_header p)"
      "np_keys p' = (np_keys p)[1 := Some (IntField kv)]" "np_children p' = (np_children p)[0 := l, 1 := r]"
      "bp_td p' = bp_td p" "bp_keyField p' = bp_keyField p"
    by (simp_all add: p'_def q_def)
  moreover have "int_ok p'"
    unfolding int_ok_def f length_list_update
  proof (intro conjI allI impI)
    show "(np_keys p)[1 := Some (IntField kv)] ! 0 = None" using n(5) by simp
    show "\<exists>v. (np_keys p)[1 := Some (IntField kv)] ! i = Some (IntField v)"
      if "1 \<le> i" "i < ?n" "int_isSlotUsed p' i" for i
      using that used [of i] n(1,3) by simp
  qed (rule n)+
  moreover have "int_frame p p'"
    by (simp add: p'_def q_def int_frame_def int_markSlotUsed_def)
  moreover have "int_pairs p' = [(None, l), (Some (IntField kv), r)]"
  proof -
    have "int_view p' = [Some (None, l), Some (Some (IntField kv), r)] @ replicate (?n - 2) None"
    proof (rule nth_equalityI)
      show "int_view p' ! j = ([Some (None, l), Some (Some (IntField kv), r)] @ replicate (?n - 2) None) ! j"
        if "j < length (int_view p')" for j
      proof -
        have j: "j < ?n" using that by (simp add: p'_def q)
        then have "int_view p' ! j = (if j = 0 \<or> j = 1 then Some (np_keys p' ! j, np_children p' ! j) else None)"
          using used by (simp add: int_view_nth p'_def q)
        moreover have "np_keys p' ! 0 = None" "np_children p' ! 0 = l"
          "np_keys p' ! 1 = Some (IntField kv)" "np_children p' ! 1 = r"
          using n by (simp_all add: p'_def q_def)
        ultimately show ?thesis using j by (auto simp: nth_append nth_Cons split: nat.split)
      qed
    qed (use n in \<open>simp add: p'_def q\<close>)
    then show ?thesis by (simp add: int_pairs_def)
  qed
  ultimately show ?thesis using used n by auto
qed

section \<open>Iteration and the search for a child\<close>

definition int_child :: "internal_page \<Rightarrow> int \<Rightarrow> page_id" where
  "int_child p c = BTreePageId (getTableId (bp_pid p)) c (np_childCategory p)"

text \<open>The iterator that stands on used slot \<open>i\<close>, with the child \<open>prev\<close> before it.\<close>

definition iter_on :: "internal_page \<Rightarrow> nat \<Rightarrow> int \<Rightarrow> int_iter \<Rightarrow> bool" where
  "iter_on p i prev it \<longleftrightarrow>
     1 \<le> i \<and> i < np_numSlots p \<and> int_isSlotUsed p i \<and>
     it = \<lparr>ii_cur = i, ii_prevChild = Some (int_child p prev),
           ii_currChild = Some (int_child p (np_children p ! i))\<rparr>"

lemma int_getChildId_used:
  "int_ok p \<Longrightarrow> i < np_numSlots p \<Longrightarrow> int_isSlotUsed p i \<Longrightarrow>
   int_getChildId p (int i) = Inr (Some (int_child p (np_children p ! i)))"
  by (simp add: int_getChildId_def int_child_def int_ok_def)

lemma int_next_used_spec:
  "i \<le> np_numSlots p \<Longrightarrow>
   i \<le> int_next_used p i \<and> int_next_used p i \<le> np_numSlots p \<and>
   (int_next_used p i < np_numSlots p \<longrightarrow> int_isSlotUsed p (int_next_used p i)) \<and>
   somes (drop i (int_view p)) = somes (drop (int_next_used p i) (int_view p))"
proof (induction p i rule: int_next_used.induct)
  case (1 p i)
  show ?case
  proof (cases "i < np_numSlots p \<and> \<not> int_isSlotUsed p i")
    case True
    have "drop i (int_view p) = int_view p ! i # drop (Suc i) (int_view p)"
      using True by (simp add: Cons_nth_drop_Suc)
    then have "somes (drop i (int_view p)) = somes (drop (Suc i) (int_view p))"
      using True by (simp add: int_view_nth)
    moreover have "int_next_used p i = int_next_used p (Suc i)"
      using True by (simp add: int_next_used.simps [of p i])
    ultimately show ?thesis using True "1.IH" by auto
  next
    case False
    with "1.prems" show ?thesis by (auto simp: int_next_used.simps [of p i])
  qed
qed

lemma int_view_drop_used:
  "i < np_numSlots p \<Longrightarrow> int_isSlotUsed p i \<Longrightarrow>
   somes (drop i (int_view p)) = (np_keys p ! i, np_children p ! i) # somes (drop (Suc i) (int_view p))"
  by (subst Cons_nth_drop_Suc [symmetric]) (auto simp: int_view_nth)

text \<open>One step: to the next used slot, or to the end when no slot after this one is used.\<close>

lemma iter_on_next:
  assumes ok: "int_ok p" and it: "iter_on p i prev it"
  obtains (more) j it' where "int_iter_next p it = Inr it'" "i < j" "iter_on p j (np_children p ! i) it'"
      "somes (drop i (int_view p)) = (np_keys p ! i, np_children p ! i) # somes (drop j (int_view p))"
  | (last) it' where "int_iter_next p it = Inr it'" "ii_cur it' = np_numSlots p"
      "somes (drop i (int_view p)) = [(np_keys p ! i, np_children p ! i)]"
proof -
  let ?j = "int_next_used p (Suc i)"
  from it have i: "1 \<le> i" "i < np_numSlots p" "int_isSlotUsed p i"
      "ii_cur it = i" "ii_currChild it = Some (int_child p (np_children p ! i))"
    by (auto simp: iter_on_def)
  have j: "Suc i \<le> ?j" "?j \<le> np_numSlots p" "?j < np_numSlots p \<longrightarrow> int_isSlotUsed p ?j"
      "somes (drop (Suc i) (int_view p)) = somes (drop ?j (int_view p))"
    using int_next_used_spec [of "Suc i" p] i by auto
  show ?thesis
  proof (cases "?j < np_numSlots p")
    case True
    then show ?thesis using more [of _ ?j] i j ok
      by (simp add: int_iter_next_def int_getChildId_used iter_on_def int_view_drop_used Let_def)
  next
    case False
    then show ?thesis using last i j
      by (simp add: int_iter_next_def int_view_drop_used Let_def)
  qed
qed

lemma iter_on_deref:
  assumes "int_ok p" "iter_on p i prev it"
  shows "int_iter_deref p it = Inr \<lparr>e_key = np_keys p ! i, e_left = Some (int_child p prev),
      e_right = Some (int_child p (np_children p ! i)),
      e_rid = Some \<lparr>rid_pid = bp_pid p, rid_tupleno = int i\<rparr>\<rparr>"
  using assms by (simp add: int_iter_deref_def int_getKey_def iter_on_def int_ok_def BTreeEntry_new_def)

text \<open>The child to descend into for a key: before the first key that is not smaller.\<close>

fun descend :: "int \<Rightarrow> int \<Rightarrow> (field option \<times> int) list \<Rightarrow> int" where
  "descend kv c0 [] = c0"
| "descend kv c0 ((k, c) # xs) = (if key_ge k kv then c0 else descend kv c xs)"

lemma find_child_spec:
  assumes ok: "int_ok p"
  shows "iter_on p i prev it \<Longrightarrow>
    find_child p (Some (IntField kv)) it =
      Inr (Some (int_child p (descend (sint kv) prev (somes (drop i (int_view p))))))"
proof (induction "np_numSlots p - i" arbitrary: i prev it rule: less_induct)
  case less
  note it = less.prems
  from it ok obtain v where v: "np_keys p ! i = Some (IntField v)"
    unfolding iter_on_def int_ok_def by blast
  from ok it show ?case
  proof (cases rule: iter_on_next)
    case (more j it')
    then have "np_numSlots p - j < np_numSlots p - i" "ii_cur it' \<noteq> np_numSlots p"
      by (auto simp: iter_on_def)
    with less.hyps [of j] more v show ?thesis
      by (simp add: find_child.simps [of p _ it] iter_on_deref [OF ok it] key_ge_def)
  next
    case (last it')
    with v show ?thesis
      by (simp add: find_child.simps [of p _ it] iter_on_deref [OF ok it] key_ge_def)
  qed
qed

lemma find_child_leftmost:
  "int_ok p \<Longrightarrow> iter_on p i prev it \<Longrightarrow> find_child p None it = Inr (Some (int_child p prev))"
  by (simp add: find_child.simps [of p _ it] iter_on_deref)

text \<open>The entries of the page: a key with the child before it and the child after it.\<close>

fun between :: "internal_page \<Rightarrow> int \<Rightarrow> (field option \<times> int) list \<Rightarrow>
    (field option \<times> page_id option \<times> page_id option) list" where
  "between p c0 [] = []"
| "between p c0 ((k, c) # xs) = (k, Some (int_child p c0), Some (int_child p c)) # between p c xs"

definition entry_core :: "btree_entry \<Rightarrow> field option \<times> page_id option \<times> page_id option" where
  "entry_core e = (e_key e, e_left e, e_right e)"

lemma int_entries_from_spec:
  assumes ok: "int_ok p"
  shows "iter_on p i prev it \<Longrightarrow>
    \<exists>es. int_entries_from p it = Inr es \<and>
         map entry_core es = between p prev (somes (drop i (int_view p)))"
proof (induction "np_numSlots p - i" arbitrary: i prev it rule: less_induct)
  case less
  note it = less.prems
  have cur: "ii_cur it \<noteq> np_numSlots p" using it by (auto simp: iter_on_def)
  from ok it show ?case
  proof (cases rule: iter_on_next)
    case (more j it')
    then have "np_numSlots p - j < np_numSlots p - i" by (auto simp: iter_on_def)
    with less.hyps [of j] more obtain es where "int_entries_from p it' = Inr es"
        "map entry_core es = between p (np_children p ! i) (somes (drop j (int_view p)))" by blast
    with more cur show ?thesis
      by (simp add: int_entries_from.simps [of p it] iter_on_deref [OF ok it] entry_core_def)
  next
    case (last it')
    then have "int_entries_from p it' = Inr []" by (simp add: int_entries_from.simps)
    with last cur show ?thesis
      by (simp add: int_entries_from.simps [of p it] iter_on_deref [OF ok it] entry_core_def)
  qed
qed

text \<open>The iteration starts at slot 1, which has to be used, as slot 0.\<close>

lemma int_begin_spec:
  assumes "int_ok p" "int_isSlotUsed p 0" "int_isSlotUsed p 1"
  obtains it where "int_begin p = Inr it" "iter_on p 1 (np_children p ! 0) it"
    "int_pairs p = (None, np_children p ! 0) # somes (drop 1 (int_view p))"
proof -
  from assms have n: "2 \<le> np_numSlots p" "np_keys p ! 0 = None" by (auto simp: int_ok_def)
  have "int_getChildId p (int 0) = Inr (Some (int_child p (np_children p ! 0)))"
    "int_getChildId p (int 1) = Inr (Some (int_child p (np_children p ! 1)))"
    using assms n by (intro int_getChildId_used; simp)+
  then have "\<exists>it. int_begin p = Inr it \<and> iter_on p 1 (np_children p ! 0) it"
    using n assms by (simp add: int_begin_def int_iter_new_def iter_on_def)
  moreover have "int_pairs p = (None, np_children p ! 0) # somes (drop 1 (int_view p))"
    using int_view_drop_used [of 0 p] assms n by (simp add: int_pairs_def)
  ultimately show ?thesis using that by blast
qed

section \<open>Deletion of an entry\<close>

text \<open>
  An entry that was read from a page carries the table id of that page, and the third assertion
  of \<open>deleteEntry\<close> demands another one.
\<close>

lemma int_delete_own:
  assumes "e_rid e = Some rid" "getTableId (rid_pid rid) = getTableId (bp_pid p)"
  shows "int_deleteEntry p e b = Inl AssertFail"
  using assms by (simp add: int_deleteEntry_def assertE_def)

section \<open>Properties\<close>

text \<open>
  A page of table 7 with four slots: children 4 and 5 around key 10, and room for two more
  entries when \<open>h\<close> is 3; an empty page when \<open>h\<close> is 0.
\<close>

definition int_example :: "byte \<Rightarrow> internal_page" where
  "int_example h = \<lparr>bp_pid = BTreePageId 7 3 INTERNAL, bp_td = leaf_example_td, bp_keyField = 0, bp_parent = 0,
     np_header = [h], np_keys = [None, Some (IntField 10), None, None], np_children = [4, 5, 0, 0],
     np_numSlots = 4, np_childCategory = LEAF\<rparr>"

definition entry_example :: "i32 \<Rightarrow> int \<Rightarrow> int \<Rightarrow> page_type \<Rightarrow> btree_entry" where
  "entry_example k l r ty =
     BTreeEntry_new (Some (IntField k)) (Some (BTreePageId 7 l ty)) (Some (BTreePageId 7 r ty))"

lemma int_example_simps [simp]:
  "bp_pid (int_example h) = BTreePageId 7 3 INTERNAL" "np_childCategory (int_example h) = LEAF"
  "np_numSlots (int_example h) = 4" "bp_td (int_example h) = leaf_example_td" "bp_keyField (int_example h) = 0"
  by (simp_all add: int_example_def)

lemma entry_example_simps [simp]:
  "e_key (entry_example k l r ty) = Some (IntField k)"
  "e_left (entry_example k l r ty) = Some (BTreePageId 7 l ty)"
  "e_right (entry_example k l r ty) = Some (BTreePageId 7 r ty)"
  by (simp_all add: entry_example_def BTreeEntry_new_def)

lemma int_example_ok: "h \<in> {0, 3} \<Longrightarrow> int_ok (int_example h)"
proof -
  assume h: "h \<in> {0, 3}"
  have "getFieldType leaf_example_td 0 = Inr INT_TYPE" by code_simp
  moreover have "\<exists>v. np_keys (int_example h) ! i = Some (IntField v)"
    if "1 \<le> i" "i < 4" "int_isSlotUsed (int_example h) i" for i
  proof -
    have "\<not> int_isSlotUsed (int_example h) 2" "\<not> int_isSlotUsed (int_example h) 3"
      using h by (elim insertE emptyE; simp only:; code_simp)+
    moreover have "i = 1 \<or> i = 2 \<or> i = 3" using that(1,2) by arith
    ultimately have "i = 1" using that(3) by auto
    then show ?thesis by (simp add: int_example_def)
  qed
  ultimately show ?thesis by (auto simp: int_ok_def int_example_def)
qed

text \<open>C11
  \<open>insertEntry\<close> on a well-formed internal page with a free slot and at least one entry, for an
  entry whose left child is on the page and whose right child is new to it, with the key in order
  between its neighbours: it succeeds for
  every pattern of holes, and the content of the page is the old one with the pair of the new
  key and the right child behind the left child. The page stays well-formed.
\<close>

theorem insertEntry_refines:
  assumes "int_ok p" "e_key e = Some (IntField kv)"
    "e_left e = Some (BTreePageId (getTableId (bp_pid p)) l (np_childCategory p))"
    "e_right e = Some (BTreePageId (getTableId (bp_pid p)) r (np_childCategory p))"
    "np_childCategory p \<noteq> ROOT_PTR"
    "0 < int_getNumEmptySlots p" "int_getNumEmptySlots p \<noteq> maxEntries"
    "int_pairs p = as @ (k0, l) # bs" "l \<notin> snd ` set (as @ bs)" "r \<notin> snd ` set (int_pairs p)"
    "key_le k0 (sint kv)" "\<And>b. b \<in> set bs \<Longrightarrow> key_ge (fst b) (sint kv)"
  shows "\<exists>p'. insertEntry p maxEntries e = Inr p' \<and> int_ok p' \<and> int_frame p p' \<and>
    int_pairs p' = as @ (k0, l) # (Some (IntField kv), r) # bs"
  using int_insert_spec [OF assms(1-4) refl refl assms(5-12)] by blast

theorem insertEntry_refines_witness:
  "\<exists>p'. insertEntry (int_example 3) 3 (entry_example 20 5 6 LEAF) = Inr p' \<and> int_ok p' \<and>
     int_pairs p' = [(None, 4), (Some (IntField 10), 5), (Some (IntField 20), 6)]"
proof -
  have "int_pairs (int_example 3) = [(None, 4)] @ (Some (IntField 10), 5) # []"
    "int_getNumEmptySlots (int_example 3) = 2" by code_simp+
  then show ?thesis
    using insertEntry_refines [of "int_example 3" "entry_example 20 5 6 LEAF" 20 5 6 3
        "[(None, 4)]" "Some (IntField 10)" "[]"]
    by (auto simp: int_example_ok key_le_def)
qed

text \<open>
  \<open>insertEntry\<close> into an empty internal page puts the two children into slots 0 and 1 with the
  key between them, and nothing else.
\<close>

lemma insertEntry_first:
  assumes "int_ok p" "e_key e = Some (IntField kv)"
    "e_left e = Some (BTreePageId (getTableId (bp_pid p)) l (np_childCategory p))"
    "e_right e = Some (BTreePageId (getTableId (bp_pid p)) r (np_childCategory p))"
    "np_childCategory p \<noteq> ROOT_PTR"
    "int_getNumEmptySlots p = np_numSlots p - 1"
  shows "\<exists>p'. insertEntry p (np_numSlots p - 1) e = Inr p' \<and> int_ok p' \<and> int_frame p p' \<and>
    int_pairs p' = [(None, l), (Some (IntField kv), r)] \<and>
    int_entries p' = Inr [\<lparr>e_key = Some (IntField kv), e_left = Some (int_child p' l),
      e_right = Some (int_child p' r), e_rid = Some \<lparr>rid_pid = bp_pid p', rid_tupleno = 1\<rparr>\<rparr>]"
proof -
  obtain p' where p': "insertEntry p (np_numSlots p - 1) e = Inr p'" "int_ok p'" "int_frame p p'"
      "int_isSlotUsed p' 0" "int_isSlotUsed p' 1" "int_pairs p' = [(None, l), (Some (IntField kv), r)]"
    using int_insert_fresh [where ty = "np_childCategory p" and maxEntries = "np_numSlots p - 1",
        OF assms(1-4) _ _ assms(5,6)] by auto
  obtain it where it: "int_begin p' = Inr it" "iter_on p' 1 (np_children p' ! 0) it"
      "int_pairs p' = (None, np_children p' ! 0) # somes (drop 1 (int_view p'))"
    using int_begin_spec [OF p'(2,4,5)] .
  then have c: "np_children p' ! 0 = l" "somes (drop 1 (int_view p')) = [(Some (IntField kv), r)]"
    using p'(6) by auto
  have "1 < np_numSlots p'" using p'(2) by (auto simp: int_ok_def)
  then have k: "np_keys p' ! 1 = Some (IntField kv)" "np_children p' ! 1 = r"
    "somes (drop 2 (int_view p')) = []"
    using int_view_drop_used [of 1 p'] p'(5) c(2) by (auto simp: numeral_2_eq_2)
  from p'(2) it(2) have "int_entries_from p' it = Inr [\<lparr>e_key = Some (IntField kv), e_left = Some (int_child p' l),
      e_right = Some (int_child p' r), e_rid = Some \<lparr>rid_pid = bp_pid p', rid_tupleno = 1\<rparr>\<rparr>]"
  proof (cases rule: iter_on_next)
    case (more j it')
    then have "somes (drop j (int_view p')) = []" using c by simp
    then have False using more(3) int_view_drop_used [of j p'] by (simp add: iter_on_def)
    then show ?thesis ..
  next
    case (last it')
    then have "int_entries_from p' it' = Inr []" by (simp add: int_entries_from.simps)
    then show ?thesis using last it(2) iter_on_deref [OF p'(2) it(2)] c k
      by (subst int_entries_from.simps) (auto simp: iter_on_def)
  qed
  with p' it show ?thesis by (auto simp: int_entries_def)
qed

lemma insertEntry_first_example:
  "\<exists>p'. insertEntry (int_example 0) 3 (entry_example 20 5 6 LEAF) = Inr p' \<and>
     int_pairs p' = [(None, 5), (Some (IntField 20), 6)]"
proof -
  have "int_getNumEmptySlots (int_example 0) = 3" by code_simp
  then show ?thesis
    using insertEntry_first [of "int_example 0" "entry_example 20 5 6 LEAF" 20 5 6]
    by (auto simp: int_example_ok)
qed

text \<open>C30
  No entry that an iterator of an internal page returns can be deleted from that page, by
  either deletion operation: the assertion on the table id demands that the entry comes from
  another table, and the process aborts. Splits of internal pages, merges and stealing all
  start with such a deletion.
\<close>

theorem deleteEntry_aborts:
  assumes "int_iter_deref p it = Inr e \<or> int_riter_deref p rit = Inr e"
  shows "deleteKeyAndRightChild p e = Inl AssertFail \<and> deleteKeyAndLeftChild p e = Inl AssertFail"
proof -
  have "\<exists>n. e_rid e = Some \<lparr>rid_pid = bp_pid p, rid_tupleno = n\<rparr>"
    using assms by (auto simp: int_iter_deref_def int_riter_deref_def bindE_eq_Inr)
  then show ?thesis
    by (auto simp: deleteKeyAndRightChild_def deleteKeyAndLeftChild_def int_delete_own)
qed

theorem deleteEntry_aborts_witness:
  "\<exists>it e. int_begin (int_example 3) = Inr it \<and> int_iter_deref (int_example 3) it = Inr e \<and>
     deleteKeyAndRightChild (int_example 3) e = Inl AssertFail"
proof -
  have ok: "int_ok (int_example 3)" by (simp add: int_example_ok)
  have "int_isSlotUsed (int_example 3) 0" "int_isSlotUsed (int_example 3) 1" by code_simp+
  from int_begin_spec [OF ok this] obtain it where
    it: "int_begin (int_example 3) = Inr it" "iter_on (int_example 3) 1 (np_children (int_example 3) ! 0) it" .
  from deleteEntry_aborts [OF disjI1 [OF iter_on_deref [OF ok it(2)]]] it iter_on_deref [OF ok it(2)]
  show ?thesis by blast
qed

text \<open>C31
  An internal page fresh from the constructor takes no entry whose children are internal
  pages, whatever the bytes of the page are: the constructor fixes the category of the children
  to leaf. A tree of three levels cannot be built.
\<close>

theorem insertEntry_internal_children_abort:
  assumes "BTreeInternalPage_new junk pageSize td pid data key = Inr p" "e_key e = Some (IntField kv)"
    "getFieldType td key = Inr INT_TYPE"
    "e_left e = Some (BTreePageId (getTableId pid) l INTERNAL)"
    "e_right e = Some (BTreePageId (getTableId pid) r INTERNAL)"
  shows "insertEntry p maxEntries e = Inl AssertFail"
proof -
  have "bp_pid p = pid" "bp_td p = td" "bp_keyField p = key" "np_childCategory p = LEAF"
    using assms(1) by (auto simp: BTreeInternalPage_new_def bindE_eq_Inr Let_def)
  with assms(2-) show ?thesis by (simp add: insertEntry_def int_checkCategory_def assertE_def)
qed

theorem insertEntry_internal_children_abort_witness:
  "\<exists>p. BTreeInternalPage_new (\<lambda>_. 0) 30 leaf_example_td (BTreePageId 7 3 INTERNAL) (replicate 30 0) 0 = Inr p \<and>
     insertEntry p 2 (entry_example 20 5 6 INTERNAL) = Inl AssertFail"
proof -
  have td: "getFieldType leaf_example_td 0 = Inr INT_TYPE" by code_simp
  have "\<not> isl (BTreeInternalPage_new (\<lambda>_. 0) 30 leaf_example_td (BTreePageId 7 3 INTERNAL) (replicate 30 0) 0)"
    by code_simp
  then obtain p where p: "BTreeInternalPage_new (\<lambda>_. 0) 30 leaf_example_td (BTreePageId 7 3 INTERNAL)
      (replicate 30 0) 0 = Inr p" by (auto simp: isl_def split: sum.splits) (metis sumE)
  show ?thesis
    using insertEntry_internal_children_abort [OF p, of "entry_example 20 5 6 INTERNAL"] p td
    by auto
qed

text \<open>C16
  The search of \<open>findLeafPage\<close> in an internal page, for a key: the child it descends into is the
  one before the first key that is not smaller, the last one when there is none. Without a key
  it is the leftmost child.
\<close>

theorem find_child_correct:
  assumes "int_ok p" "int_isSlotUsed p 0" "int_isSlotUsed p 1" "int_begin p = Inr it"
  shows "find_child p (Some (IntField kv)) it =
      Inr (Some (int_child p (descend (sint kv) (snd (hd (int_pairs p))) (tl (int_pairs p))))) \<and>
    find_child p None it = Inr (Some (int_child p (snd (hd (int_pairs p)))))"
proof -
  obtain it' where "int_begin p = Inr it'" "iter_on p 1 (np_children p ! 0) it'"
      "int_pairs p = (None, np_children p ! 0) # somes (drop 1 (int_view p))"
    using int_begin_spec [OF assms(1-3)] .
  with assms find_child_spec [OF assms(1)] find_child_leftmost [OF assms(1)] show ?thesis by auto
qed

theorem find_child_correct_witness:
  "\<exists>it. int_begin (int_example 3) = Inr it \<and>
     find_child (int_example 3) (Some (IntField 11)) it = Inr (Some (BTreePageId 7 5 LEAF))"
proof -
  have ok: "int_ok (int_example 3)" by (simp add: int_example_ok)
  have u: "int_isSlotUsed (int_example 3) 0" "int_isSlotUsed (int_example 3) 1" by code_simp+
  have v: "int_pairs (int_example 3) = [(None, 4), (Some (IntField 10), 5)]" by code_simp
  from int_begin_spec [OF ok u] obtain it where it: "int_begin (int_example 3) = Inr it" .
  from find_child_correct [OF ok u it, of 11] it v show ?thesis
    by (auto simp: key_ge_def int_child_def)
qed

end
