(* ===== verification/HeapPageSpec.thy ===== *)
theory HeapPageSpec
  imports HeapPage
begin

text \<open>
  Heap pages: the round trip through \<open>getPageData\<close> and the constructor, and the properties of
  insertion, deletion and iteration.
\<close>

section \<open>Serialised tuples\<close>

definition tuple_bytes :: "(nat \<Rightarrow> byte) \<Rightarrow> tuple \<Rightarrow> byte list" where
  "tuple_bytes junk t =
     concat (map (\<lambda>f. case f of Some g \<Rightarrow> field_serialize junk g | None \<Rightarrow> []) (tp_fields t))"

definition slot_bytes :: "(nat \<Rightarrow> byte) \<Rightarrow> heap_page \<Rightarrow> nat \<Rightarrow> byte list" where
  "slot_bytes junk p i =
     (if heap_isSlotUsed p i then tuple_bytes junk (hp_tuples p ! i)
      else replicate (getSize (hp_td p)) 0)"

lemma fits_fields:
  assumes "fits td t"
  obtains vs where "tp_fields t = map (\<lambda>v. Some (IntField v)) vs" "length vs = numFields td"
proof -
  have "\<forall>f \<in> set (tp_fields t). \<exists>v. f = Some (IntField v)" using assms by (simp add: fits_def)
  then have "map (\<lambda>v. Some (IntField v)) (map (\<lambda>f. case f of Some (IntField v) \<Rightarrow> v | _ \<Rightarrow> 0) (tp_fields t))
      = tp_fields t" by (auto intro!: map_idI simp: comp_def)
  with assms show ?thesis using that [of "map (\<lambda>f. case f of Some (IntField v) \<Rightarrow> v | _ \<Rightarrow> 0) (tp_fields t)"]
    by (simp add: fits_def)
qed

lemma concat_length4: "length (concat (map bytes_of_i32 vs)) = 4 * length vs"
  by (induction vs) auto

lemma tuple_bytes_vals:
  "tp_fields t = map (\<lambda>v. Some (IntField v)) vs \<Longrightarrow> tuple_bytes junk t = concat (map bytes_of_i32 vs)"
  by (simp add: tuple_bytes_def comp_def)

lemma int_schema_getSize: "int_schema td \<Longrightarrow> getSize td = 4 * numFields td"
  by (simp add: getSize_def int_schema_size)

lemma length_slot_bytes:
  assumes "int_schema (hp_td p)" "heap_isSlotUsed p i \<Longrightarrow> fits (hp_td p) (hp_tuples p ! i)"
  shows "length (slot_bytes junk p i) = getSize (hp_td p)"
proof (cases "heap_isSlotUsed p i")
  case True
  from fits_fields [OF assms(2) [OF True]] obtain vs where
    "tp_fields (hp_tuples p ! i) = map (\<lambda>v. Some (IntField v)) vs" "length vs = numFields (hp_td p)" .
  with True show ?thesis
    by (simp add: slot_bytes_def tuple_bytes_vals concat_length4 int_schema_getSize [OF assms(1)])
next
  case False
  then show ?thesis by (simp add: slot_bytes_def)
qed

section \<open>Writing\<close>

lemma heap_write_fields_spec:
  assumes "tp_fields t = map (\<lambda>v. Some (IntField v)) vs"
  shows "j + n = length vs \<Longrightarrow> length pre = offset \<Longrightarrow> length old = 4 * n \<Longrightarrow>
    heap_write_fields junk t j n offset (pre @ old @ post) =
      Inr (offset + 4 * n, pre @ concat (map bytes_of_i32 (drop j vs)) @ post)"
proof (induction n arbitrary: j pre offset old)
  case 0
  then show ?case by simp
next
  case (Suc n)
  have "getField t (int j) = Inr (IntField (vs ! j))"
    using Suc.prems assms by (simp add: getField_def)
  moreover have "buf_write offset (bytes_of_i32 (vs ! j)) (pre @ old @ post) =
      Inr ((pre @ bytes_of_i32 (vs ! j)) @ drop 4 old @ post)"
    using Suc.prems by (simp add: buf_write_def)
  moreover have "heap_write_fields junk t (Suc j) n (offset + 4) ((pre @ bytes_of_i32 (vs ! j)) @ drop 4 old @ post)
      = Inr (offset + 4 + 4 * n, (pre @ bytes_of_i32 (vs ! j)) @ concat (map bytes_of_i32 (drop (Suc j) vs)) @ post)"
    using Suc.prems by (intro Suc.IH) auto
  moreover have "drop j vs = vs ! j # drop (Suc j) vs"
    using Suc.prems by (simp add: Cons_nth_drop_Suc)
  ultimately show ?case by (simp add: add.assoc)
qed

lemma heap_write_slots_spec:
  assumes sch: "int_schema (hp_td p)" and len: "length (hp_tuples p) = hp_numSlots p"
    and fit: "\<And>i. i < hp_numSlots p \<Longrightarrow> heap_isSlotUsed p i \<Longrightarrow> fits (hp_td p) (hp_tuples p ! i)"
  shows "i + n = hp_numSlots p \<Longrightarrow> length pre = offset \<Longrightarrow> length old = getSize (hp_td p) * n \<Longrightarrow>
    heap_write_slots junk p i n offset (pre @ old) =
      Inr (pre @ concat (map (slot_bytes junk p) [i..<i + n]))"
proof (induction n arbitrary: i pre offset old)
  case 0
  then show ?case by simp
next
  case (Suc n)
  let ?s = "getSize (hp_td p)"
  have i: "i < hp_numSlots p" using Suc.prems by simp
  have old: "old = take ?s old @ drop ?s old" "length (take ?s old) = ?s" "length (drop ?s old) = ?s * n"
    using Suc.prems by auto
  have sb: "length (slot_bytes junk p i) = ?s" using length_slot_bytes [OF sch] fit i by simp
  have IH: "heap_write_slots junk p (Suc i) n (offset + ?s) ((pre @ slot_bytes junk p i) @ drop ?s old) =
      Inr ((pre @ slot_bytes junk p i) @ concat (map (slot_bytes junk p) [Suc i..<Suc i + n]))"
    using Suc.prems old sb by (intro Suc.IH) auto
  have upt: "[i..<i + Suc n] = i # [Suc i..<Suc i + n]" by (simp add: upt_conv_Cons)
  have "heap_write_slots junk p i (Suc n) offset (pre @ take ?s old @ drop ?s old) =
      heap_write_slots junk p (Suc i) n (offset + ?s) ((pre @ slot_bytes junk p i) @ drop ?s old)"
  proof (cases "heap_isSlotUsed p i")
    case True
    from fits_fields [OF fit [OF i True]] obtain vs where vs:
      "tp_fields (hp_tuples p ! i) = map (\<lambda>v. Some (IntField v)) vs" "length vs = numFields (hp_td p)" .
    have "heap_write_fields junk (hp_tuples p ! i) 0 (numFields (hp_td p)) offset (pre @ take ?s old @ drop ?s old)
        = Inr (offset + 4 * numFields (hp_td p), pre @ concat (map bytes_of_i32 vs) @ drop ?s old)"
      using heap_write_fields_spec [OF vs(1), of 0 "numFields (hp_td p)" pre offset "take ?s old" junk "drop ?s old"]
        vs(2) Suc.prems(2) old(2) int_schema_getSize [OF sch]
      by (simp only: add_0 drop_0 simp_thms)
    moreover have "slot_bytes junk p i = concat (map bytes_of_i32 vs)"
      using True vs by (simp add: slot_bytes_def tuple_bytes_vals)
    ultimately show ?thesis using True i len int_schema_getSize [OF sch]
      by (simp only: heap_write_slots.simps) simp
  next
    case False
    then have "buf_write offset (replicate ?s 0) (pre @ take ?s old @ drop ?s old) =
        Inr (pre @ slot_bytes junk p i @ drop ?s old)"
      using Suc.prems(2) old(2) by (simp add: slot_bytes_def buf_write_def)
    with False i len show ?thesis by (simp only: heap_write_slots.simps) simp
  qed
  with IH old(1) upt show ?case by simp
qed

lemma heap_sizes:
  assumes "hp_numSlots p = heap_getNumTuples ps (hp_td p)"
  shows "heap_getHeaderSize ps (hp_td p) (hp_numSlots p) + getSize (hp_td p) * hp_numSlots p = ps"
proof -
  let ?s = "getSize (hp_td p)"
  have "hp_numSlots p * (?s * 8 + 1) \<le> ps * 8"
    unfolding assms heap_getNumTuples_def by (rule div_times_less_eq_dividend)
  then have "8 * (?s * hp_numSlots p) + hp_numSlots p \<le> 8 * ps" by (simp add: algebra_simps)
  then have "?s * hp_numSlots p \<le> ps" by linarith
  then show ?thesis by (simp add: heap_getHeaderSize_def)
qed

text \<open>What is on disk: the header, then the slots one after the other.\<close>

lemma heap_getPageData_spec:
  assumes ok: "heap_ok ps p" and sch: "int_schema (hp_td p)"
    and fit: "\<And>i. i < hp_numSlots p \<Longrightarrow> heap_isSlotUsed p i \<Longrightarrow> fits (hp_td p) (hp_tuples p ! i)"
  shows "heap_getPageData junk ps p =
    Inr (hp_header p @ concat (map (slot_bytes junk p) [0..<hp_numSlots p]))"
proof -
  let ?h = "heap_getHeaderSize ps (hp_td p) (hp_numSlots p)" and ?n = "hp_numSlots p"
  have len: "length (hp_header p) = ?h" "length (hp_tuples p) = ?n" using ok by (auto simp: heap_ok_def)
  have ps: "?h + getSize (hp_td p) * ?n = ps" using ok by (intro heap_sizes) (simp add: heap_ok_def)
  have "buf_write 0 (hp_header p) (heap_createEmptyPageData ps) =
      Inr (hp_header p @ replicate (getSize (hp_td p) * ?n) 0)"
    using ps len by (auto simp: buf_write_def heap_createEmptyPageData_def)
  moreover have "heap_write_slots junk p 0 ?n ?h (hp_header p @ replicate (getSize (hp_td p) * ?n) 0) =
      Inr (hp_header p @ concat (map (slot_bytes junk p) [0..<0 + ?n]))"
    using len by (intro heap_write_slots_spec sch fit) auto
  ultimately show ?thesis using len by (simp add: heap_getPageData_def buf_read_def)
qed

section \<open>Reading\<close>

lemma read_fields_spec:
  "(\<forall>it \<in> set items. fieldType it = INT_TYPE) \<Longrightarrow> length vs = length items \<Longrightarrow>
   i + length items = length (tp_fields t) \<Longrightarrow>
   read_fields junk items (concat (map bytes_of_i32 vs) @ rest) (int i) t =
     Inr (t\<lparr>tp_fields := take i (tp_fields t) @ map (\<lambda>v. Some (IntField v)) vs\<rparr>)"
proof (induction items arbitrary: vs i t)
  case Nil
  then show ?case by simp
next
  case (Cons it items)
  then obtain v vs' where vs: "vs = v # vs'" "length vs' = length items" by (cases vs) auto
  have i: "i < length (tp_fields t)" using Cons.prems by simp
  let ?t = "t\<lparr>tp_fields := (tp_fields t)[i := Some (IntField v)]\<rparr>"
  have "read_fields junk items (concat (map bytes_of_i32 vs') @ rest) (int (Suc i)) ?t =
      Inr (?t\<lparr>tp_fields := take (Suc i) (tp_fields ?t) @ map (\<lambda>v. Some (IntField v)) vs'\<rparr>)"
    using Cons.prems vs by (intro Cons.IH) auto
  moreover have "take (Suc i) ((tp_fields t)[i := Some (IntField v)]) = take i (tp_fields t) @ [Some (IntField v)]"
    using i by (simp add: take_Suc_conv_app_nth)
  ultimately show ?case using Cons.prems(1) vs i by (simp add: setField_def add.commute)
qed

lemma heap_readTuple_spec:
  assumes sch: "int_schema td" and fit: "fits td t"
    and rid: "tp_rid t = Some \<lparr>rid_pid = pid, rid_tupleno = int i\<rparr>"
  shows "heap_readTuple junk td pid (tuple_bytes junk' t @ rest) i = Inr t"
proof -
  from fits_fields [OF fit] obtain vs where vs:
    "tp_fields t = map (\<lambda>v. Some (IntField v)) vs" "length vs = numFields td" .
  let ?t0 = "Tuple_new td (Some \<lparr>rid_pid = pid, rid_tupleno = int i\<rparr>)"
  have "read_fields junk (td_items td) (concat (map bytes_of_i32 vs) @ rest) (int 0) ?t0 =
      Inr (?t0\<lparr>tp_fields := take 0 (tp_fields ?t0) @ map (\<lambda>v. Some (IntField v)) vs\<rparr>)"
    using sch vs by (intro read_fields_spec) (auto simp: int_schema_def numFields_def Tuple_new_def)
  moreover have "?t0\<lparr>tp_fields := map (\<lambda>v. Some (IntField v)) vs\<rparr> = t"
    using fit rid vs(1) by (cases t) (simp add: Tuple_new_def fits_def)
  ultimately show ?thesis using vs(1) by (simp add: heap_readTuple_def tuple_bytes_vals)
qed

lemma heap_read_slots_spec:
  assumes sch: "int_schema (hp_td p)"
    and fit: "\<And>i. i < hp_numSlots p \<Longrightarrow> heap_isSlotUsed p i \<Longrightarrow>
       fits (hp_td p) (hp_tuples p ! i) \<and> tp_rid (hp_tuples p ! i) = Some \<lparr>rid_pid = pid, rid_tupleno = int i\<rparr>"
  shows "i + n = hp_numSlots p \<Longrightarrow> drop offset data = concat (map (slot_bytes junk' p) [i..<i + n]) \<Longrightarrow>
    heap_read_slots junk (hp_td p) pid (hp_header p) data offset i n =
      Inr (map (\<lambda>j. if heap_isSlotUsed p j then hp_tuples p ! j else Tuple_default) [i..<i + n])"
proof (induction n arbitrary: i offset)
  case 0
  then show ?case by simp
next
  case (Suc n)
  let ?s = "getSize (hp_td p)"
  have i: "i < hp_numSlots p" using Suc.prems by simp
  have upt: "[i..<i + Suc n] = i # [Suc i..<Suc i + n]" by (simp add: upt_conv_Cons)
  have d: "drop offset data = slot_bytes junk' p i @ concat (map (slot_bytes junk' p) [Suc i..<Suc i + n])"
    using Suc.prems(2) unfolding upt by (simp only: list.map concat.simps)
  have "length (slot_bytes junk' p i) = ?s" using length_slot_bytes [OF sch] fit i by simp
  then have "drop ?s (drop offset data) = concat (map (slot_bytes junk' p) [Suc i..<Suc i + n])"
    unfolding d by (metis append_eq_conv_conj)
  then have "drop (offset + ?s) data = concat (map (slot_bytes junk' p) [Suc i..<Suc i + n])"
    by (simp only: drop_drop add.commute)
  then have IH: "heap_read_slots junk (hp_td p) pid (hp_header p) data (offset + ?s) (Suc i) n =
      Inr (map (\<lambda>j. if heap_isSlotUsed p j then hp_tuples p ! j else Tuple_default) [Suc i..<Suc i + n])"
    using Suc.prems(1) by (intro Suc.IH) (simp_all only: add_Suc add_Suc_right)
  show ?case
  proof (cases "heap_isSlotUsed p i")
    case True
    then have "heap_readTuple junk (hp_td p) pid (drop offset data) i = Inr (hp_tuples p ! i)"
      unfolding d using fit [OF i True] by (simp add: slot_bytes_def heap_readTuple_spec [OF sch])
    with True IH upt show ?thesis by (simp add: heap_isSlotUsed_def)
  next
    case False
    with IH upt show ?thesis by (simp add: heap_isSlotUsed_def)
  qed
qed

section \<open>Properties\<close>

text \<open>A page of 10 bytes for one integer column: two header bytes, two slots.\<close>

definition heap_example_td :: tuple_desc where
  "heap_example_td = TupleDesc_types [INT_TYPE]"

definition heap_example_tuple :: "i32 \<Rightarrow> record_id option \<Rightarrow> tuple" where
  "heap_example_tuple v r = \<lparr>tp_rid = r, tp_fields = [Some (IntField v)], tp_td = heap_example_td\<rparr>"

definition heap_example :: "byte \<Rightarrow> heap_page" where
  "heap_example h = \<lparr>hp_pid = HeapPageId 7 0, hp_td = heap_example_td, hp_header = [h, 0],
     hp_tuples = [heap_example_tuple 10 (Some \<lparr>rid_pid = HeapPageId 7 0, rid_tupleno = 0\<rparr>),
                  heap_example_tuple 20 (Some \<lparr>rid_pid = HeapPageId 7 0, rid_tupleno = 1\<rparr>)],
     hp_numSlots = 2\<rparr>"

lemma heap_example_sizes:
  "heap_getNumTuples 10 heap_example_td = 2" "heap_getHeaderSize 10 heap_example_td 2 = 2"
  "numFields heap_example_td = 1" "int_schema heap_example_td"
  by (simp_all add: heap_getNumTuples_def heap_getHeaderSize_def heap_example_td_def TupleDesc_types_spec
      getSize_def numFields_def int_schema_def td_ok_def)

lemma heap_example_simps [simp]:
  "hp_td (heap_example h) = heap_example_td" "hp_numSlots (heap_example h) = 2"
  "hp_pid (heap_example h) = HeapPageId 7 0"
  by (simp_all add: heap_example_def)

lemma heap_example_fits: "fits heap_example_td (heap_example_tuple v r)"
  by (simp add: fits_def heap_example_tuple_def heap_example_sizes)

lemma heap_example_tuples:
  "i < 2 \<Longrightarrow> \<exists>v. hp_tuples (heap_example h) ! i =
     heap_example_tuple v (Some \<lparr>rid_pid = HeapPageId 7 0, rid_tupleno = int i\<rparr>)"
  by (cases i) (auto simp: heap_example_def)

lemma heap_example_ok: "heap_ok 10 (heap_example h)"
proof -
  have "tp_rid (hp_tuples (heap_example h) ! i) = Some \<lparr>rid_pid = HeapPageId 7 0, rid_tupleno = int i\<rparr> \<and>
      tp_td (hp_tuples (heap_example h) ! i) = heap_example_td" if "i < 2" for i
    using heap_example_tuples [OF that, of h] by (auto simp: heap_example_tuple_def)
  then show ?thesis by (auto simp: heap_ok_def heap_example_sizes) (auto simp: heap_example_def)
qed

lemma heap_page_rt:
  assumes "heap_ok ps p" "int_schema (hp_td p)"
    "\<And>i. i < hp_numSlots p \<Longrightarrow> heap_isSlotUsed p i \<Longrightarrow> fits (hp_td p) (hp_tuples p ! i)"
  shows "\<exists>data q. heap_getPageData junk ps p = Inr data \<and> length data = ps \<and>
    HeapPage_new junk' ps (hp_td p) (hp_pid p) data = Inr q \<and>
    heap_ok ps q \<and> hp_header q = hp_header p \<and> heap_view q = heap_view p"
proof -
  let ?n = "hp_numSlots p" and ?h = "heap_getHeaderSize ps (hp_td p) (hp_numSlots p)"
  let ?body = "concat (map (slot_bytes junk p) [0..<?n])"
  let ?ts = "map (\<lambda>j. if heap_isSlotUsed p j then hp_tuples p ! j else Tuple_default) [0..<0 + ?n]"
  let ?q = "\<lparr>hp_pid = hp_pid p, hp_td = hp_td p, hp_header = hp_header p, hp_tuples = ?ts, hp_numSlots = ?n\<rparr>"
  have len: "length (hp_header p) = ?h" "?n = heap_getNumTuples ps (hp_td p)"
    using assms(1) by (auto simp: heap_ok_def)
  have slot: "length (slot_bytes junk p i) = getSize (hp_td p)" if "i < ?n" for i
    using length_slot_bytes [OF assms(2)] assms(3) that by blast
  have "length ?body = sum_list (map (\<lambda>i. getSize (hp_td p)) [0..<?n])"
    unfolding length_concat map_map comp_def using slot by (intro arg_cong [of _ _ sum_list] map_cong) auto
  then have "length (hp_header p @ ?body) = ps"
    using heap_sizes [OF len(2)] len(1) by (simp add: sum_list_triv mult.commute)
  moreover have "heap_getPageData junk ps p = Inr (hp_header p @ ?body)"
    using heap_getPageData_spec [OF assms] .
  moreover have "heap_read_slots junk' (hp_td p) (hp_pid p) (hp_header p) (hp_header p @ ?body) ?h 0 ?n = Inr ?ts"
    using assms len by (intro heap_read_slots_spec [where junk' = junk]) (auto simp: heap_ok_def)
  then have "HeapPage_new junk' ps (hp_td p) (hp_pid p) (hp_header p @ ?body) = Inr ?q"
    using len(1) by (simp add: HeapPage_new_def buf_read_def Let_def len(2) [symmetric])
  moreover have "heap_ok ps ?q"
    using assms(1) by (auto simp: heap_ok_def heap_isSlotUsed_def)
  moreover have "heap_view ?q = heap_view p"
    by (auto simp: heap_view_def heap_isSlotUsed_def)
  ultimately show ?thesis by auto
qed

text \<open>C14
  Round trip: for a well-formed page over integer columns, \<open>getPageData\<close> succeeds with exactly
  a page of bytes, and the constructor makes of them a well-formed page with the same header
  that holds the same tuple in every used slot, record ids included, whatever uninitialised
  memory holds.
\<close>

theorem heap_page_roundtrip:
  assumes "heap_ok ps p" "int_schema (hp_td p)"
    "\<And>i. i < hp_numSlots p \<Longrightarrow> heap_isSlotUsed p i \<Longrightarrow> fits (hp_td p) (hp_tuples p ! i)"
  shows "\<exists>data q. heap_getPageData junk ps p = Inr data \<and> length data = ps \<and>
    HeapPage_new junk' ps (hp_td p) (hp_pid p) data = Inr q \<and>
    heap_ok ps q \<and> hp_header q = hp_header p \<and> heap_view q = heap_view p"
  using heap_page_rt [OF assms] .

theorem heap_page_roundtrip_witness:
  "\<exists>data q. heap_getPageData (\<lambda>_. 1) 10 (heap_example 1) = Inr data \<and>
     HeapPage_new (\<lambda>_. 2) 10 heap_example_td (HeapPageId 7 0) data = Inr q \<and>
     heap_view q = heap_view (heap_example 1)"
proof -
  have "fits heap_example_td (hp_tuples (heap_example 1) ! i)" if i: "i < 2" for i
  proof -
    obtain v where "hp_tuples (heap_example 1) ! i =
        heap_example_tuple v (Some \<lparr>rid_pid = HeapPageId 7 0, rid_tupleno = int i\<rparr>)"
      using heap_example_tuples [OF i, of 1] by (elim exE)
    then show ?thesis by (simp only: heap_example_fits)
  qed
  then show ?thesis
    using heap_page_roundtrip [OF heap_example_ok, of 1 "\<lambda>_. 1" "\<lambda>_. 2"]
    by (simp only: heap_example_simps heap_example_sizes simp_thms) blast
qed

text \<open>C20
  \<open>insertTuple\<close> on a well-formed heap page with room and a matching schema: the tuple is stored
  in the first free slot with its record id set to that slot, every other slot keeps its tuple,
  the page stays well-formed and has one empty slot less.
\<close>

theorem heap_insertTuple_spec:
  assumes "heap_ok ps p" "td_eq (hp_td p) (tp_td t)" "0 < heap_getNumEmptySlots p"
  shows "\<exists>s t' p'. heap_insertTuple p t = Inr (t', p') \<and> s < hp_numSlots p \<and> heap_view p ! s = None \<and>
    (\<forall>i < s. heap_view p ! i \<noteq> None) \<and>
    t' = setRecordId t (Some \<lparr>rid_pid = hp_pid p, rid_tupleno = int s\<rparr>) \<and>
    heap_view p' = (heap_view p)[s := Some t'] \<and> heap_ok ps p' \<and>
    Suc (heap_getNumEmptySlots p') = heap_getNumEmptySlots p"
proof -
  obtain s where s: "s < hp_numSlots p" "heap_view p ! s = None" "\<forall>i < s. heap_view p ! i \<noteq> None"
    and r: "heap_insertTuple p t =
       Inr (setRecordId t (Some \<lparr>rid_pid = hp_pid p, rid_tupleno = int s\<rparr>),
            p\<lparr>hp_header := shift_mark (hp_header p) s True,
              hp_tuples := (hp_tuples p)[s :=
                setRecordId t (Some \<lparr>rid_pid = hp_pid p, rid_tupleno = int s\<rparr>)]\<rparr>)"
    using heap_insert_step [OF assms] .
  let ?t = "setRecordId t (Some \<lparr>rid_pid = hp_pid p, rid_tupleno = int s\<rparr>)"
  let ?p = "p\<lparr>hp_header := shift_mark (hp_header p) s True, hp_tuples := (hp_tuples p)[s := ?t]\<rparr>"
  have v: "heap_view ?p = (heap_view p)[s := Some ?t]"
    using s(1) heap_ok_slots [OF assms(1)] assms(1) by (intro heap_view_update) (auto simp: heap_ok_def)
  have "length (heap_tuples ?p) = Suc (length (heap_tuples p))"
    using s(1,2) somes_split [of s "heap_view p"] somes_update [of s "heap_view p" "Some ?t"]
    by (simp add: heap_tuples_def v)
  then have "Suc (heap_getNumEmptySlots ?p) = heap_getNumEmptySlots p"
    using heap_occupancy [of ?p] heap_occupancy [of p] by simp
  with s r v heap_ok_insert [OF assms(1,2) s(1)] show ?thesis by blast
qed

theorem heap_insertTuple_spec_witness:
  "\<exists>t' p'. heap_insertTuple (heap_example 1) (heap_example_tuple 5 None) = Inr (t', p') \<and> heap_ok 10 p'"
proof -
  have "heap_getNumEmptySlots (heap_example 1) = 1" by code_simp
  then show ?thesis
    using heap_insertTuple_spec [OF heap_example_ok [of 1], of "heap_example_tuple 5 None"]
    by (auto simp: heap_example_tuple_def)
qed

text \<open>
  The heap page refuses what it cannot store: \<open>insertTuple\<close> throws on a full page and on a
  tuple of another schema; \<open>deleteTuple\<close> throws on a tuple of another page.
\<close>

lemma heap_page_errors:
  assumes "tp_rid t = Some \<lparr>rid_pid = pid, rid_tupleno = i\<rparr>"
  shows "(heap_getNumEmptySlots p = 0 \<longrightarrow> heap_insertTuple p t = Inl (RuntimeError ''No space'')) \<and>
    (0 < heap_getNumEmptySlots p \<longrightarrow> \<not> td_eq (hp_td p) (tp_td t) \<longrightarrow>
       heap_insertTuple p t = Inl (RuntimeError ''Wrong tuple description'')) \<and>
    (\<not> pid_eq pid (hp_pid p) \<longrightarrow> heap_deleteTuple p t = Inl (RuntimeError ''Wrong page''))"
  using assms by (auto simp: heap_insertTuple_def heap_deleteTuple_def)

text \<open>C21
  Deleting the tuple that a slot holds frees exactly that slot: the page stays well-formed and
  holds every other tuple as before. The tuple keeps its record id, although the documentation says
  that it is updated to be on no page, so that a second deletion of it finds the slot, and throws
  because it is empty.
\<close>

theorem heap_deleteTuple_spec:
  assumes "heap_ok ps p" "i < hp_numSlots p" "heap_view p ! i = Some t"
  shows "\<exists>p'. heap_deleteTuple p t = Inr p' \<and> heap_ok ps p' \<and> heap_view p' = (heap_view p)[i := None] \<and>
    mset (heap_tuples p) = add_mset t (mset (heap_tuples p')) \<and>
    heap_deleteTuple p' t = Inl (RuntimeError ''Empty slot'')"
proof -
  let ?p = "heap_markSlotUsed p i False"
  have v: "heap_view ?p = (heap_view p)[i := None]"
    using assms heap_ok_slots [OF assms(1)] by (intro heap_view_delete)
  have used: "heap_isSlotUsed p i" "t = hp_tuples p ! i"
    using assms(2,3) by (auto simp: heap_view_nth split: if_splits)
  have rid: "tp_rid t = Some \<lparr>rid_pid = hp_pid p, rid_tupleno = int i\<rparr>"
    using assms(1,2) used by (simp add: heap_ok_def)
  have "hp_numSlots ?p = hp_numSlots p" by (simp add: heap_markSlotUsed_def)
  then have "\<not> heap_isSlotUsed ?p i"
    using heap_view_nth [of i ?p] v assms(2) by (auto split: if_splits)
  moreover have "length (hp_header ?p) = length (hp_header p)" "hp_pid ?p = hp_pid p"
    by (simp_all add: heap_markSlotUsed_def shift.length_mark)
  ultimately have "heap_deleteTuple ?p t = Inl (RuntimeError ''Empty slot'')"
    using rid heap_ok_slots [OF assms(1)] assms(2) by (simp add: heap_deleteTuple_def heap_isSlotUsedE_def)
  then show ?thesis
    using heap_delete_step [OF assms] heap_ok_delete [OF assms(1,2)] v assms(2,3)
      somes_update_None_mset [of i "heap_view p" t] by (simp add: heap_tuples_def)
qed

theorem heap_deleteTuple_spec_witness:
  "\<exists>p'. heap_deleteTuple (heap_example 3)
        (heap_example_tuple 20 (Some \<lparr>rid_pid = HeapPageId 7 0, rid_tupleno = 1\<rparr>)) = Inr p' \<and>
     heap_ok 10 p'"
proof -
  have "heap_view (heap_example 3) ! 1 =
      Some (heap_example_tuple 20 (Some \<lparr>rid_pid = HeapPageId 7 0, rid_tupleno = 1\<rparr>))" by code_simp
  from heap_deleteTuple_spec [OF heap_example_ok _ this] show ?thesis by auto
qed

text \<open>
  Iterating over a heap page from \<open>begin\<close> to \<open>end\<close> yields the tuples of the used slots, in slot
  order, each once, and terminates.
\<close>

lemma heap_page_iteration:
  assumes "heap_ok ps p"
  shows "heap_scan p (heap_begin p) = Inr (heap_tuples p)"
  using heap_scan_view [of p 0] assms
  by (simp add: heap_ok_def heap_begin_def hpi_new_def heap_tuples_def)

end
