(* ===== verification/PoolSpec.thy ===== *)
theory PoolSpec
  imports HeapFile HeapPageSpec
begin

text \<open>
  The buffer pool as a step system: what every operation keeps (\<open>pool_ok\<close>), what flushing and
  reading do, and that what is flushed can be read back.
\<close>

section \<open>Frames\<close>

text \<open>Everything but the pool, the files and the dirty marks is as before.\<close>

definition same_base :: "world \<Rightarrow> world \<Rightarrow> bool" where
  "same_base w w' \<longleftrightarrow> w_pageSize w' = w_pageSize w \<and> w_numPages w' = w_numPages w \<and>
     w_catalog w' = w_catalog w \<and> w_order w' = w_order w \<and> w_junk w' = w_junk w \<and>
     w_append w' = w_append w"

lemma same_base_refl [simp]: "same_base w w"
  by (simp add: same_base_def)

lemma same_base_trans: "same_base u v \<Longrightarrow> same_base v w \<Longrightarrow> same_base u w"
  by (simp add: same_base_def)

lemma file_writePage_frame:
  assumes "file_writePage i p w = Inr (u, w')"
  shows "w' = w\<lparr>w_files := w_files w'\<rparr> \<and> length (w_files w') = length (w_files w)"
  using assms
  by (cases "page_getId p")
    (auto simp: file_writePage_def HeapFile_writePage_def BTreeFile_writePage_def SkeletonFile_writePage_def
      bindM_eq_Inr file_at_def heapfile_at_def btree_at_def put_file_def nthE_eq_Inr
      split: db_file.splits option.splits)

lemma file_readPage_frame:
  assumes "file_readPage i pid w = Inr (p, w')"
  shows "w' = w \<and> page_getId p = pid"
  using assms
  by (auto simp: file_readPage_def HeapFile_readPage_def BTreeFile_readPage_def SkeletonFile_readPage_def
      bindM_eq_Inr file_at_def heapfile_at_def btree_at_def db_getTupleDesc_def
      HeapPage_new_def BTreeLeafPage_new_def BTreeInternalPage_new_def BTreeHeaderPage_new_def
      BTreeRootPtrPage_new_def bindE_eq_Inr Let_def
      split: db_file.splits option.splits page_id.splits page_type.splits if_splits)

lemma db_getDatabaseFile_Inr:
  "db_getDatabaseFile t w = Inr (i, w') \<longleftrightarrow> getDatabaseFile (w_catalog w) t = Inr i \<and> w' = w"
  by (simp add: db_getDatabaseFile_def)


text \<open>Clearing the mark of an object.\<close>

definition clean_obj :: "nat option \<Rightarrow> page_obj list \<Rightarrow> page_obj list" where
  "clean_obj x obs = (case x of None \<Rightarrow> obs | Some a \<Rightarrow> obs[a := (obs ! a)\<lparr>po_dirty := None\<rparr>])"

lemma length_clean_obj [simp]: "length (clean_obj x obs) = length obs"
  by (simp add: clean_obj_def split: option.split)

lemma page_clean_obj [simp]: "po_page (clean_obj x obs ! a) = po_page (obs ! a)"
proof (cases x)
  case None
  then show ?thesis by (simp add: clean_obj_def)
next
  case (Some b)
  then show ?thesis
    by (cases "b < length obs") (auto simp: clean_obj_def nth_list_update list_update_beyond)
qed

lemma dirty_clean_obj:
  "a < length obs \<Longrightarrow> po_dirty (clean_obj x obs ! a) = (if x = Some a then None else po_dirty (obs ! a))"
  by (auto simp: clean_obj_def nth_list_update split: option.split)

lemma clean_obj_noop: "po_dirty (obs ! a) = None \<Longrightarrow> clean_obj (Some a) obs = obs"
proof -
  assume "po_dirty (obs ! a) = None"
  then have "(obs ! a)\<lparr>po_dirty := None\<rparr> = obs ! a" by (cases "obs ! a") simp
  then show ?thesis by (simp add: clean_obj_def)
qed

lemma flushPage_eff:
  assumes "flushPage k w = Inr (u, w')"
  shows "same_base w w' \<and> w_pool w' = w_pool w \<and> length (w_files w') = length (w_files w) \<and>
    w_objs w' = clean_obj (pm_find k (w_pool w)) (w_objs w)"
proof (cases "pm_find k (w_pool w)")
  case None
  with assms show ?thesis by (simp add: flushPage_def clean_obj_def)
next
  case (Some a)
  show ?thesis
  proof (cases "a < length (w_objs w) \<and> po_dirty (w_objs w ! a) \<noteq> None")
    case True
    let ?w = "w\<lparr>w_objs := clean_obj (Some a) (w_objs w)\<rparr>"
    from assms True obtain i p where "file_writePage i p ?w = Inr (u, w')"
      by (auto simp: flushPage_def Some bindM_eq_Inr db_getDatabaseFile_Inr clean_obj_def)
    from file_writePage_frame [OF this] obtain fs where
      "w' = ?w\<lparr>w_files := fs\<rparr>" "length fs = length (w_files w)" by auto
    then show ?thesis unfolding Some by (simp add: same_base_def)
  next
    case False
    then show ?thesis using assms Some
      by (auto simp: flushPage_def bindM_eq_Inr isDirty_def bindE_eq_Inr nthE_eq_Inr clean_obj_noop
          split: if_splits)
  qed
qed

section \<open>The invariant of the pool\<close>

text \<open>
  No two entries for one page, every entry leads to an existing object that holds the page of
  that id, and the capacity is respected; a pool of capacity 0 still holds one page. The
  enumeration of the map is some permutation of its entries.
\<close>

definition entry_ok :: "world \<Rightarrow> page_id \<times> nat \<Rightarrow> bool" where
  "entry_ok w e \<longleftrightarrow> no_skeleton (fst e) \<and> snd e < length (w_objs w) \<and>
     page_getId (po_page (w_objs w ! snd e)) = fst e"

definition pool_ok :: "world \<Rightarrow> bool" where
  "pool_ok w \<longleftrightarrow> pm_inv (w_pool w) \<and>
     (\<forall>e \<in> set (w_pool w). entry_ok w e) \<and>
     length (w_pool w) \<le> max 1 (usize (w_numPages w)) \<and>
     (\<forall>m. mset (w_order w m) = mset m)"

text \<open>Objects may be added and may change, as long as no page changes its id.\<close>

definition same_ids :: "world \<Rightarrow> world \<Rightarrow> bool" where
  "same_ids w w' \<longleftrightarrow> length (w_objs w) \<le> length (w_objs w') \<and>
     (\<forall>a < length (w_objs w). page_getId (po_page (w_objs w' ! a)) = page_getId (po_page (w_objs w ! a)))"

lemma same_ids_refl [simp]: "same_ids w w"
  by (simp add: same_ids_def)

lemma same_ids_trans: "same_ids u v \<Longrightarrow> same_ids v w \<Longrightarrow> same_ids u w"
  by (simp add: same_ids_def)

lemma entry_ok_mono: "same_ids w w' \<Longrightarrow> entry_ok w e \<Longrightarrow> entry_ok w' e"
  by (simp add: same_ids_def entry_ok_def)

lemma entry_ok_put [simp]: "entry_ok (w\<lparr>w_pool := m\<rparr>) = entry_ok w"
  by (simp add: entry_ok_def fun_eq_iff)

lemma pool_ok_smaller:
  assumes "pool_ok w" "same_base w w'" "same_ids w w'" "set (w_pool w') \<subseteq> set (w_pool w)"
    "pm_inv (w_pool w')" "length (w_pool w') \<le> length (w_pool w)"
  shows "pool_ok w'"
proof -
  have "entry_ok w' e" if "e \<in> set (w_pool w')" for e
    using that assms(1,4) by (intro entry_ok_mono [OF assms(3)]) (auto simp: pool_ok_def)
  with assms(1,2,5,6) show ?thesis by (simp add: pool_ok_def same_base_def)
qed

lemma pool_ok_mono:
  assumes "pool_ok w" "same_base w w'" "same_ids w w'" "w_pool w' = w_pool w"
  shows "pool_ok w'"
  using assms by (intro pool_ok_smaller [OF assms(1-3)]) (auto simp: pool_ok_def)

lemma pool_ok_put:
  assumes ok: "pool_ok w" and a: "a < length (w_objs w)" "page_getId (po_page (w_objs w ! a)) = k"
    and k: "no_skeleton k" and room: "length (w_pool w) < max 1 (usize (w_numPages w)) \<or> pm_find k (w_pool w) \<noteq> None"
  shows "pool_ok (w\<lparr>w_pool := pm_put k a (w_pool w)\<rparr>)"
proof -
  have "set (pm_put k a m) \<subseteq> insert (k, a) (set m)" for m
    using k by (induction k a m rule: pm_put.induct) (auto simp: pid_eq_iff)
  then have "set (pm_put k a (w_pool w)) \<subseteq> insert (k, a) (set (w_pool w))" .
  moreover have "\<forall>e \<in> insert (k, a) (set (w_pool w)). entry_ok w e"
    using ok a k by (simp add: pool_ok_def entry_ok_def)
  ultimately have "\<forall>e \<in> set (pm_put k a (w_pool w)). entry_ok w e" by blast
  moreover have "length (pm_put k a (w_pool w)) \<le> max 1 (usize (w_numPages w))"
    using ok room by (intro pages.size_bounded_put) (auto simp: pool_ok_def)
  ultimately show ?thesis using ok k by (simp add: pool_ok_def pages.inv_put)
qed

lemma pool_ok_flush:
  assumes "pool_ok w" "flushPage k w = Inr (u, w')"
  shows "pool_ok w' \<and> same_base w w' \<and> same_ids w w' \<and> w_pool w' = w_pool w"
proof -
  have "same_ids w w'" using flushPage_eff [OF assms(2)] by (simp add: same_ids_def)
  with flushPage_eff [OF assms(2)] pool_ok_mono [OF assms(1)] show ?thesis by blast
qed

text \<open>Eviction drops the first page of the enumeration, after writing it if it is dirty.\<close>

lemma evictPage_eff:
  assumes ok: "pool_ok w" and ev: "evictPage w = Inr (u, w')"
  shows "(w_pool w = [] \<and> w' = w) \<or>
    (\<exists>k a v. (k, a) \<in> set (w_pool w) \<and> hd (w_order w (w_pool w)) = (k, a) \<and>
      flushPage k w = Inr ((), v) \<and> w' = v\<lparr>w_pool := remove1 (k, a) (w_pool w)\<rparr>)"
proof (cases "w_order w (w_pool w)")
  case Nil
  have "mset (w_order w (w_pool w)) = mset (w_pool w)" using ok by (simp add: pool_ok_def)
  with Nil have "w_pool w = []" by simp
  with Nil ev show ?thesis by (simp add: evictPage_def)
next
  case (Cons e es)
  obtain k a where e: "e = (k, a)" by (cases e)
  have "mset (w_order w (w_pool w)) = mset (w_pool w)" using ok by (simp add: pool_ok_def)
  then have "set (w_order w (w_pool w)) = set (w_pool w)" by (metis set_mset_mset)
  with Cons e have "(k, a) \<in> set (w_pool w)" by auto
  moreover obtain v where "flushPage k w = Inr ((), v)" "w' = v\<lparr>w_pool := remove1 (k, a) (w_pool v)\<rparr>"
    using ev Cons e by (auto simp: evictPage_def bindM_eq_Inr)
  ultimately show ?thesis using Cons e flushPage_eff [of k w] by auto
qed

lemma pm_inv_remove1: "pm_inv m \<Longrightarrow> pm_inv (remove1 e m)"
proof (induction m)
  case (Cons x m)
  have "set (remove1 e m) \<subseteq> set m" by (rule set_remove1_subset)
  with Cons show ?case by (auto simp: pm_inv_def)
qed simp

lemma pm_find_mem: "pm_inv m \<Longrightarrow> (k, a) \<in> set m \<Longrightarrow> no_skeleton k \<Longrightarrow> pm_find k m = Some a"
  by (induction m) (auto simp: pm_inv_def pid_eq_iff rev_image_eqI)

lemma pm_find_remove1:
  assumes "pm_inv m" "(k, a) \<in> set m" "no_skeleton k" "no_skeleton k'"
  shows "pm_find k' (remove1 (k, a) m) = (if k' = k then None else pm_find k' m)"
  using assms
proof (induction m)
  case (Cons e m)
  obtain j b where e: "e = (j, b)" by (cases e)
  show ?case
  proof (cases "e = (k, a)")
    case True
    with Cons.prems have "pm_find k m = None" by (simp add: pm_find_None pm_inv_def)
    with True Cons.prems show ?thesis by (auto simp: pid_eq_iff)
  next
    case False
    with Cons.prems have "(k, a) \<in> set m" "pm_inv m" "j \<noteq> k"
      by (auto simp: pm_inv_def e rev_image_eqI)
    with Cons e False show ?thesis by (auto simp: pid_eq_iff)
  qed
qed simp


lemma pool_ok_evict:
  assumes ok: "pool_ok w" and ev: "evictPage w = Inr (u, w')"
  shows "pool_ok w' \<and> same_base w w' \<and> same_ids w w' \<and> set (w_pool w') \<subseteq> set (w_pool w) \<and>
    length (w_pool w') = length (w_pool w) - 1"
  using evictPage_eff [OF ok ev]
proof (elim disjE exE conjE)
  assume "w_pool w = []" "w' = w"
  with ok show ?thesis by simp
next
  fix k a v
  assume m: "(k, a) \<in> set (w_pool w)" and f: "flushPage k w = Inr ((), v)"
    and w': "w' = v\<lparr>w_pool := remove1 (k, a) (w_pool w)\<rparr>"
  have base: "same_base w w'" "same_ids w w'"
    using flushPage_eff [OF f] w' by (auto simp: same_base_def same_ids_def)
  have "pm_inv (remove1 (k, a) (w_pool w))"
    using ok by (simp add: pool_ok_def pm_inv_remove1)
  moreover have "set (remove1 (k, a) (w_pool w)) \<subseteq> set (w_pool w)" by (rule set_remove1_subset)
  moreover have "length (remove1 (k, a) (w_pool w)) = length (w_pool w) - 1"
    using m by (simp add: length_remove1)
  ultimately show ?thesis using base w' pool_ok_smaller [OF ok base] by simp
qed


section \<open>\<open>getPage\<close>\<close>

lemma getPage_hit [run_simps]:
  assumes "pm_find k (w_pool w) = Some a"
  shows "bindM (bp_getPage k) l w = l a w" "bp_getPage k w = Inr (a, w)"
  using assms by (simp_all add: bp_getPage_def bindM_def)

lemma pool_not_full:
  assumes "pool_ok w" "\<not> pool_full w"
  shows "length (w_pool w) < max 1 (usize (w_numPages w))"
  using assms by (simp add: pool_full_def)

text \<open>What eviction may do to the objects.\<close>

lemma evictPage_objs:
  assumes "pool_ok w" "evictPage w = Inr (u, w')"
  obtains x where "w_objs w' = clean_obj x (w_objs w)" "\<And>a. x = Some a \<Longrightarrow> a \<in> snd ` set (w_pool w)"
  using evictPage_eff [OF assms]
proof (elim disjE exE conjE)
  assume "w_pool w = []" "w' = w"
  then show ?thesis by (intro that [of None]) (simp_all add: clean_obj_def)
next
  fix k a v
  assume m: "(k, a) \<in> set (w_pool w)" and f: "flushPage k w = Inr ((), v)"
    and w': "w' = v\<lparr>w_pool := remove1 (k, a) (w_pool w)\<rparr>"
  have "no_skeleton k" "pm_inv (w_pool w)" using assms(1) m by (auto simp: pool_ok_def entry_ok_def)
  then have "pm_find k (w_pool w) = Some a" using m by (intro pm_find_mem)
  then show ?thesis using flushPage_eff [OF f] w' m by (intro that [of "Some a"]) force+
qed

text \<open>Making room as \<open>getPage\<close> and the loop over dirty pages do.\<close>

lemma make_room:
  assumes ok: "pool_ok w" and b: "b \<longleftrightarrow> pool_full w \<and> P"
    and r: "(if b then evictPage else returnM ()) w = Inr (u, v)"
  shows "pool_ok v \<and> same_base w v \<and> same_ids w v \<and> set (w_pool v) \<subseteq> set (w_pool w) \<and>
    (P \<longrightarrow> length (w_pool v) < max 1 (usize (w_numPages v)))"
proof (cases b)
  case True
  from pool_ok_evict [OF ok, of u v] r True have e: "pool_ok v" "same_base w v" "same_ids w v"
      "set (w_pool v) \<subseteq> set (w_pool w)" "length (w_pool v) = length (w_pool w) - 1" by simp_all
  moreover have "length (w_pool w) \<le> max 1 (usize (w_numPages v))"
    using ok e(2) by (simp add: pool_ok_def same_base_def)
  moreover have "length (w_pool w) - 1 < max 1 (usize (w_numPages v))" using calculation(6) by linarith
  ultimately show ?thesis by simp
next
  case False
  with r have "v = w" by simp
  with False b ok pool_not_full [OF ok] show ?thesis by auto
qed

lemma pm_find_subset:
  assumes "set m' \<subseteq> set m" "no_skeleton k" "pm_find k m = None"
  shows "pm_find k m' = None"
  using assms by (auto simp: pm_find_None)

lemma bp_getPage_miss:
  assumes ok: "pool_ok w" and k: "no_skeleton pid" and miss: "pm_find pid (w_pool w) = None"
    and g: "bp_getPage pid w = Inr (a, w')"
  obtains v i p where "(if pool_full w then evictPage else returnM ()) w = Inr ((), v)"
    "getDatabaseFile (w_catalog w) (getTableId pid) = Inr i" "file_readPage i pid v = Inr (p, v)"
    "page_getId p = pid" "a = length (w_objs v)"
    "w' = v\<lparr>w_objs := w_objs v @ [\<lparr>po_dirty = None, po_page = p\<rparr>], w_pool := pm_put pid a (w_pool v)\<rparr>"
proof -
  from g miss obtain v where v: "(if pool_full w then evictPage else returnM ()) w = Inr ((), v)"
    and rest: "bindM (db_getDatabaseFile (getTableId pid)) (\<lambda>i.
           bindM (file_readPage i pid) (\<lambda>p. bindM (new_page p) (\<lambda>a.
           bindM (pool_put pid a) (\<lambda>_. returnM a)))) v = Inr (a, w')"
    by (auto simp: bp_getPage_def bindM_eq_Inr [of "if pool_full w then evictPage else returnM ()"])
  have base: "same_base w v" using make_room [OF ok, of _ True, OF _ v] by simp
  from rest obtain i p v' where i: "getDatabaseFile (w_catalog v) (getTableId pid) = Inr i"
    and p: "file_readPage i pid v = Inr (p, v')"
    and r: "bindM (new_page p) (\<lambda>a. bindM (pool_put pid a) (\<lambda>_. returnM a)) v' = Inr (a, w')"
    by (auto simp: bindM_eq_Inr [of "db_getDatabaseFile (getTableId pid)"] db_getDatabaseFile_Inr
        bindM_eq_Inr [of "file_readPage i pid" for i])
  from file_readPage_frame [OF p] have "v' = v" "page_getId p = pid" by auto
  with r i p base show ?thesis
    by (intro that [OF v, of i p]) (auto simp: pool_put_def same_base_def)
qed

lemma pool_ok_getPage:
  assumes ok: "pool_ok w" and k: "no_skeleton pid" and g: "bp_getPage pid w = Inr (a, w')"
  shows "pool_ok w' \<and> same_base w w' \<and> same_ids w w' \<and> pm_find pid (w_pool w') = Some a"
proof (cases "pm_find pid (w_pool w)")
  case (Some b)
  with g ok show ?thesis by (simp add: bp_getPage_def)
next
  case None
  from bp_getPage_miss [OF ok k None g] obtain v i p where
    v: "(if pool_full w then evictPage else returnM ()) w = Inr ((), v)" and
    p: "page_getId p = pid" "a = length (w_objs v)" and
    w': "w' = v\<lparr>w_objs := w_objs v @ [\<lparr>po_dirty = None, po_page = p\<rparr>], w_pool := pm_put pid a (w_pool v)\<rparr>" .
  from make_room [OF ok, of _ True, OF _ v] have r: "pool_ok v" "same_base w v" "same_ids w v"
      "length (w_pool v) < max 1 (usize (w_numPages v))" by simp_all
  let ?v = "v\<lparr>w_objs := w_objs v @ [\<lparr>po_dirty = None, po_page = p\<rparr>]\<rparr>"
  have "pool_ok ?v"
    using r(1) by (rule pool_ok_mono) (auto simp: same_base_def same_ids_def nth_append)
  then have "pool_ok (?v\<lparr>w_pool := pm_put pid a (w_pool ?v)\<rparr>)"
    using p k r(4) by (intro pool_ok_put) auto
  moreover have "same_base w w'" "same_ids w w'"
    using r(2,3) w' by (auto simp: same_base_def same_ids_def nth_append)
  moreover have "pm_find pid (w_pool w') = Some a" using w' k by simp
  ultimately show ?thesis using w' by simp
qed


section \<open>The other operations\<close>

lemma pool_ok_flush_list:
  assumes "pool_ok w" "forM (es :: (page_id \<times> nat) list) (\<lambda>e. flushPage (fst e)) w = Inr (u, w')"
  shows "pool_ok w' \<and> same_base w w' \<and> same_ids w w' \<and> w_pool w' = w_pool w"
  using assms
proof (induction es arbitrary: w)
  case (Cons e es)
  then obtain v where "flushPage (fst e) w = Inr ((), v)" "forM es (\<lambda>e. flushPage (fst e)) v = Inr (u, w')"
    by (auto simp: bindM_eq_Inr)
  note v = this
  have e: "pool_ok v \<and> same_base w v \<and> same_ids w v \<and> w_pool v = w_pool w"
    using pool_ok_flush [OF Cons.prems(1) v(1)] .
  with Cons.IH [OF conjunct1 [OF e] v(2)] show ?case
    using same_base_trans same_ids_trans by metis
qed simp

lemma pool_ok_flush_tid:
  assumes "pool_ok w" "\<forall>e \<in> set es. snd e < length (w_objs w)"
    "forM es (\<lambda>e. bindM (isDirty (snd e)) (\<lambda>d. if d = Some tid then flushPage (fst e) else returnM ())) w = Inr (u, w')"
  shows "pool_ok w' \<and> same_base w w' \<and> same_ids w w' \<and> w_pool w' = w_pool w"
  using assms
proof (induction es arbitrary: w)
  case (Cons e es)
  let ?f = "\<lambda>e. bindM (isDirty (snd e)) (\<lambda>d. if d = Some tid then flushPage (fst e) else returnM ())"
  from Cons.prems obtain v where v: "?f e w = Inr ((), v)" "forM es ?f v = Inr (u, w')"
    by (auto simp: bindM_eq_Inr [of "?f e"])
  then have e: "pool_ok v \<and> same_base w v \<and> same_ids w v \<and> w_pool v = w_pool w"
    using Cons.prems pool_ok_flush [OF Cons.prems(1)] by (auto split: if_splits)
  then have "\<forall>e \<in> set es. snd e < length (w_objs v)" using Cons.prems by (auto simp: same_ids_def)
  from Cons.IH [OF conjunct1 [OF e] this v(2)] e show ?case
    using same_base_trans same_ids_trans by metis
qed simp

lemma pool_ok_discard:
  "pool_ok w \<Longrightarrow> discardPage k w = Inr (u, w') \<Longrightarrow> pool_ok w'"
proof -
  assume ok: "pool_ok w" and d: "discardPage k w = Inr (u, w')"
  then have w': "w' = w\<lparr>w_pool := pm_erase k (w_pool w)\<rparr>" by (simp add: discardPage_def)
  show "pool_ok w'"
  proof (rule pool_ok_smaller [OF ok])
    show "pm_inv (w_pool w')" using ok w' pages.inv_erase by (simp add: pool_ok_def)
    show "length (w_pool w') \<le> length (w_pool w)" using w' by (simp add: pages.size_erase)
  qed (use w' set_pm_erase in \<open>auto simp: same_base_def same_ids_def\<close>)
qed

lemma pool_ok_add_dirty:
  assumes "pool_ok w" "\<forall>a \<in> set as. a < length (w_objs w) \<and> no_skeleton (page_getId (po_page (w_objs w ! a)))"
    "pool_add_dirty tid as w = Inr (u, w')"
  shows "pool_ok w'"
  using assms
proof (induction as arbitrary: w)
  case Nil
  then show ?case by simp
next
  case (Cons a as)
  let ?w = "w\<lparr>w_objs := (w_objs w)[a := (w_objs w ! a)\<lparr>po_dirty := Some tid\<rparr>]\<rparr>"
  let ?pid = "page_getId (po_page (w_objs w ! a))"
  let ?b = "pool_full ?w \<and> pm_find ?pid (w_pool ?w) = None"
  have a: "a < length (w_objs w)" "no_skeleton ?pid" using Cons.prems by auto
  have ids: "same_ids w ?w" using a by (auto simp: same_ids_def nth_list_update)
  have ok: "pool_ok ?w"
    using Cons.prems(1) by (rule pool_ok_mono) (use ids in \<open>auto simp: same_base_def\<close>)
  from Cons.prems(3) a obtain v where v: "(if ?b then evictPage else returnM ()) ?w = Inr ((), v)"
    and rest: "pool_add_dirty tid as (v\<lparr>w_pool := pm_put ?pid a (w_pool v)\<rparr>) = Inr (u, w')"
    by (auto simp: bindM_eq_Inr [of "if c then evictPage else returnM ()" for c] pool_put_def Let_def)
  note r = make_room [OF ok refl v]
  have "a < length (w_objs v)" "page_getId (po_page (w_objs v ! a)) = ?pid"
    using r a ids by (auto simp: same_ids_def nth_list_update)
  moreover have "length (w_pool v) < max 1 (usize (w_numPages v)) \<or> pm_find ?pid (w_pool v) \<noteq> None"
  proof (cases "pm_find ?pid (w_pool ?w) = None")
    case True
    with r show ?thesis by simp
  next
    case False
    then have "\<not> ?b" by simp
    with v have "v = ?w" by (simp only: if_False runM sum.inject prod.inject)
    with False show ?thesis by simp
  qed
  ultimately have "pool_ok (v\<lparr>w_pool := pm_put ?pid a (w_pool v)\<rparr>)"
    using r a(2) by (intro pool_ok_put) auto
  moreover have "\<forall>b \<in> set as. b < length (w_objs v) \<and> no_skeleton (page_getId (po_page (w_objs v ! b)))"
    using Cons.prems(2) r ids by (auto simp: same_ids_def)
  ultimately show ?case using rest by (intro Cons.IH) auto
qed

lemma pm_put_new: "pm_find k m = None \<Longrightarrow> pm_put k a m = m @ [(k, a)]"
  by (induction k a m rule: pm_put.induct) (auto split: if_splits)

lemma pm_put_same: "pm_find k m = Some a \<Longrightarrow> pm_put k a m = m"
  by (induction k m rule: pm_find.induct) (auto split: if_splits)

text \<open>The bookkeeping of the pool for one page that is already in it.\<close>

lemma pool_add_dirty_hit:
  assumes "a < length (w_objs w)" "pm_find (page_getId (po_page (w_objs w ! a))) (w_pool w) = Some a"
  shows "pool_add_dirty tid [a] w =
    Inr ((), w\<lparr>w_objs := (w_objs w)[a := (w_objs w ! a)\<lparr>po_dirty := Some tid\<rparr>]\<rparr>)"
  using assms by (simp add: pool_put_def pm_put_same Let_def)

section \<open>The pool as a step system\<close>

text \<open>
  What a client can do: the operations of the pool, creating a page object, changing a page
  through a pointer (to a page with the same id) and marking it, the loop with which the pool
  records the pages an insertion dirtied, and the steps of the heap file iterator.

  The keys of the code's map are pointers to page ids of the callers. They are given by their
  values here, which is what the code does as long as these objects live and keep their values.
  The one place that changes such an object is \<open>operator++\<close> of the heap file iterator, which fails
  then in the model (\<open>KeyChanged\<close>); every other caller passes an id that is allocated for the call
  and never freed, or the id in a page object or record id, which is never assigned to.
\<close>

inductive pool_step :: "world \<Rightarrow> world \<Rightarrow> bool" where
  get: "no_skeleton pid \<Longrightarrow> bp_getPage pid w = Inr (a, w') \<Longrightarrow> pool_step w w'"
| flush: "flushPage pid w = Inr (u, w') \<Longrightarrow> pool_step w w'"
| flush_all: "flushAllPages w = Inr (u, w') \<Longrightarrow> pool_step w w'"
| flush_tid: "flushPages tid w = Inr (u, w') \<Longrightarrow> pool_step w w'"
| evict: "evictPage w = Inr (u, w') \<Longrightarrow> pool_step w w'"
| discard: "discardPage pid w = Inr (u, w') \<Longrightarrow> pool_step w w'"
| create: "new_page p w = Inr (a, w') \<Longrightarrow> pool_step w w'"
| store: "a < length (w_objs w) \<Longrightarrow> page_getId p = page_getId (po_page (w_objs w ! a)) \<Longrightarrow>
    put_page a p w = Inr (u, w') \<Longrightarrow> pool_step w w'"
| mark: "a < length (w_objs w) \<Longrightarrow> markDirty a d w = Inr (u, w') \<Longrightarrow> pool_step w w'"
| dirtied: "\<forall>a \<in> set as. a < length (w_objs w) \<and> no_skeleton (page_getId (po_page (w_objs w ! a))) \<Longrightarrow>
    pool_add_dirty tid as w = Inr (u, w') \<Longrightarrow> pool_step w w'"
| scan_begin: "HeapFileIterator_new tableid n end' w = Inr (it, w') \<Longrightarrow> pool_step w w'"
| scan_next: "hfi_next it w = Inr (it', w') \<Longrightarrow> pool_step w w'"

text \<open>The iterator reaches the pool through \<open>getPage\<close> only.\<close>

lemma page_at_pure: "page_at a w = Inr (p, v) \<Longrightarrow> v = w"
  by (auto simp: page_at_def bindM_eq_Inr bindE_eq_Inr)

lemma heap_at_pure: "heap_at a w = Inr (p, v) \<Longrightarrow> v = w"
proof -
  assume "heap_at a w = Inr (p, v)"
  then obtain pg u where "page_at a w = Inr (pg, u)" "(case pg of HeapPg q \<Rightarrow> returnM q | _ \<Rightarrow> failM NullDeref) u = Inr (p, v)"
    by (auto simp: heap_at_def bindM_eq_Inr)
  then show "v = w" using page_at_pure [of a w pg u] by (cases pg) auto
qed

lemma hfi_load_step:
  assumes "hfi_load it w = Inr (it', w')"
  shows "\<exists>a. bp_getPage (hi_hpid it) w = Inr (a, w')"
proof -
  obtain a v pg u where r: "bp_getPage (hi_hpid it) w = Inr (a, v)" "page_at a v = Inr (pg, u)"
      "(case pg of HeapPg p \<Rightarrow> returnM (it\<lparr>hi_page := Some a, hi_it := Some (heap_begin p)\<rparr>)
        | _ \<Rightarrow> failM (RuntimeError ''dynamic_cast'')) u = Inr (it', w')"
    using assms by (auto simp: hfi_load_def bindM_eq_Inr)
  then have "w' = v" using page_at_pure [OF r(2)] by (cases pg) auto
  with r(1) show ?thesis by blast
qed

lemma hfi_new_step:
  assumes "HeapFileIterator_new tableid n end' w = Inr (it, w')"
  shows "w' = w \<or> (\<exists>a. bp_getPage (HeapPageId tableid 0) w = Inr (a, w'))"
  using assms by (auto simp: HeapFileIterator_new_def Let_def dest!: hfi_load_step split: if_splits)

lemma hfi_next_step:
  assumes "hfi_next it w = Inr (it', w')"
  shows "w' = w \<or> (\<exists>t n a. bp_getPage (HeapPageId t n) w = Inr (a, w'))"
  using assms
  by (auto simp: hfi_next_def bindM_eq_Inr Let_def dest!: heap_at_pure hfi_load_step split: if_splits)

inductive pool_reach :: "world \<Rightarrow> world \<Rightarrow> bool" where
  start: "pool_reach w w"
| step: "pool_reach w v \<Longrightarrow> pool_step v w' \<Longrightarrow> pool_reach w w'"

lemma pool_ok_step:
  assumes "pool_step w w'" "pool_ok w"
  shows "pool_ok w'"
  using assms(1)
proof cases
  case (get pid a)
  with pool_ok_getPage [OF assms(2)] show ?thesis by blast
next
  case (flush pid u)
  with pool_ok_flush [OF assms(2)] show ?thesis by blast
next
  case (flush_all u)
  with pool_ok_flush_list [OF assms(2)] show ?thesis by (auto simp: flushAllPages_def)
next
  case (flush_tid tid u)
  have "mset (w_order w (w_pool w)) = mset (w_pool w)" using assms(2) by (simp add: pool_ok_def)
  then have "set (w_order w (w_pool w)) = set (w_pool w)" by (metis set_mset_mset)
  then have "\<forall>e \<in> set (w_order w (w_pool w)). snd e < length (w_objs w)"
    using assms(2) by (simp add: pool_ok_def entry_ok_def)
  then show ?thesis
    using flush_tid pool_ok_flush_tid [OF assms(2), of "w_order w (w_pool w)" tid u w']
    by (simp add: flushPages_def)
next
  case (evict u)
  with pool_ok_evict [OF assms(2)] show ?thesis by blast
next
  case (discard pid u)
  with pool_ok_discard [OF assms(2)] show ?thesis by blast
next
  case (create p a)
  show ?thesis using assms(2)
    by (rule pool_ok_mono) (use create in \<open>auto simp: new_page_def same_base_def same_ids_def nth_append\<close>)
next
  case (store a p u)
  show ?thesis using assms(2)
    by (rule pool_ok_mono) (use store in \<open>auto simp: same_base_def same_ids_def nth_list_update\<close>)
next
  case (mark a d u)
  show ?thesis using assms(2)
    by (rule pool_ok_mono) (use mark in \<open>auto simp: same_base_def same_ids_def nth_list_update\<close>)
next
  case (dirtied as tid u)
  with pool_ok_add_dirty [OF assms(2)] show ?thesis by blast
next
  case (scan_begin tableid n end' it)
  from hfi_new_step [OF this] pool_ok_getPage [OF assms(2), of "HeapPageId tableid 0"] assms(2) show ?thesis by auto
next
  case (scan_next it it')
  from hfi_next_step [OF this] show ?thesis
  proof
    assume "\<exists>t n a. bp_getPage (HeapPageId t n) w = Inr (a, w')"
    then obtain t n a where "bp_getPage (HeapPageId t n) w = Inr (a, w')" by blast
    from pool_ok_getPage [OF assms(2) _ this] show ?thesis by simp
  qed (use assms(2) in simp)
qed

lemma pool_ok_reach: "pool_reach w w' \<Longrightarrow> pool_ok w \<Longrightarrow> pool_ok w'"
  by (induction rule: pool_reach.induct) (auto intro: pool_ok_step)


section \<open>Heap pages on disk\<close>

lemma heap_page_bytes_written:
  assumes "length d = ps" "0 \<le> n"
  shows "heap_page_bytes junk ps (n * int ps) (disk_pwrite False (n * int ps) d disk) = d"
proof -
  have off: "0 \<le> n * int ps" using assms by simp
  let ?o = "nat (n * int ps)"
  have "length (take ?o (disk @ replicate (?o - length disk) 0)) = ?o" by simp
  then have "drop ?o (disk_write ?o d disk) = d @ drop (?o + ps) disk"
    using assms(1) by (simp add: disk_write_def)
  with assms(1) off show ?thesis by (simp add: heap_page_bytes_def disk_pwrite_def)
qed

lemma length_disk_write: "length (disk_write off d disk) = max (length disk) (off + length d)"
  by (simp add: disk_write_def)

lemma disk_write_other:
  assumes "length d = ps" "off' + ps \<le> length disk" "off' + ps \<le> off \<or> off + ps \<le> off'"
  shows "take ps (drop off' (disk_write off d disk)) = take ps (drop off' disk)"
proof (rule nth_equalityI)
  show "length (take ps (drop off' (disk_write off d disk))) = length (take ps (drop off' disk))"
    using assms(2) by (simp add: length_disk_write)
next
  fix j assume "j < length (take ps (drop off' (disk_write off d disk)))"
  then have j: "j < ps" by simp
  have "disk_write off d disk ! (off' + j) = disk ! (off' + j)"
    using assms j by (auto simp: disk_write_def nth_append)
  moreover have "off' \<le> length (disk_write off d disk)" using assms(2) by (simp add: length_disk_write)
  ultimately show "take ps (drop off' (disk_write off d disk)) ! j = take ps (drop off' disk) ! j"
    using assms(2) j by simp
qed

lemma heap_page_bytes_other:
  assumes "length d = ps" "0 \<le> n" "0 \<le> m" "m \<noteq> n" "(m + 1) * int ps \<le> int (length disk)"
  shows "heap_page_bytes junk ps (m * int ps) (disk_pwrite False (n * int ps) d disk) =
    heap_page_bytes junk ps (m * int ps) disk"
proof -
  obtain n' m' where nm: "n = int n'" "m = int m'" using assms(2,3) nonneg_int_cases by metis
  have "int ((m' + 1) * ps) \<le> int (length disk)" using assms(5) nm by (simp add: distrib_right)
  then have "(m' + 1) * ps \<le> length disk" by linarith
  moreover have "Suc m' * ps \<le> n' * ps \<or> Suc n' * ps \<le> m' * ps"
    using assms(4) nm by (metis Suc_leI linorder_neqE_nat mult_le_mono1)
  ultimately have "take ps (drop (m' * ps) (disk_write (n' * ps) d disk)) = take ps (drop (m' * ps) disk)"
    using assms(1) by (intro disk_write_other) auto
  moreover have "nat (m * int ps) = m' * ps" "nat (n * int ps) = n' * ps" "0 \<le> m * int ps" "0 \<le> n * int ps"
    using nm by (simp_all flip: of_nat_mult)
  ultimately show ?thesis by (simp add: heap_page_bytes_def disk_pwrite_def)
qed

lemma heap_write_run:
  assumes "i < length (w_files w)" "w_files w ! i = HeapF f"
    "heap_getPageData (w_junk w) (w_pageSize w) p = Inr d" "length d = w_pageSize w"
    "is_int32 (pageNumber (hp_pid p) * int (w_pageSize w))"
  shows "file_writePage i (HeapPg p) w = Inr ((), w\<lparr>w_files := (w_files w)[i := HeapF (f\<lparr>hf_disk :=
    disk_pwrite False (pageNumber (hp_pid p) * int (w_pageSize w)) d (hf_disk f)\<rparr>)]\<rparr>)"
  using assms by (simp add: file_writePage_def HeapFile_writePage_def)

lemma heap_tupleDesc:
  assumes "getDatabaseFile (w_catalog w) t = Inr i" "i < length (w_files w)" "w_files w ! i = HeapF f"
  shows "db_getTupleDesc t w = Inr (hf_td f, w)"
  using assms
  by (auto simp: db_getTupleDesc_def catalog_getTupleDesc_def getDatabaseFile_def w_file_td_def split: option.splits)

lemma heap_read_run:
  assumes "i < length (w_files w)" "w_files w ! i = HeapF f"
    "getDatabaseFile (w_catalog w) t = Inr i"
    "HeapPage_new (w_junk w) (w_pageSize w) (hf_td f) (HeapPageId t n)
       (heap_page_bytes (w_junk w) (w_pageSize w) (n * int (w_pageSize w)) (hf_disk f)) = Inr q"
    "is_int32 (n * int (w_pageSize w))"
  shows "file_readPage i (HeapPageId t n) w = Inr (HeapPg q, w)"
proof -
  have "db_getTupleDesc t w = Inr (hf_td f, w)" by (rule heap_tupleDesc [OF assms(3,1,2)])
  then have "bindM (db_getTupleDesc t) k w = k (hf_td f) w" for k :: "tuple_desc \<Rightarrow> page M"
    by (simp add: bindM_def)
  with assms show ?thesis by (simp add: file_readPage_def HeapFile_readPage_def)
qed

lemma flushPage_run:
  assumes "pm_find k (w_pool w) = Some a" "a < length (w_objs w)" "po_dirty (w_objs w ! a) \<noteq> None"
    "getDatabaseFile (w_catalog w) (getTableId k) = Inr i"
  shows "flushPage k w =
    file_writePage i (po_page (w_objs w ! a)) (w\<lparr>w_objs := clean_obj (Some a) (w_objs w)\<rparr>)"
proof -
  have db: "bindM (db_getDatabaseFile (getTableId k)) l v = l i v"
    if "w_catalog v = w_catalog w" for l :: "nat \<Rightarrow> unit M" and v
    using assms(4) that by (simp add: bindM_def db_getDatabaseFile_def)
  show ?thesis using assms by (simp add: flushPage_def db clean_obj_def)
qed

lemma bp_getPage_run:
  assumes "pm_find pid (w_pool w) = None" "(if pool_full w then evictPage else returnM ()) w = Inr ((), v)"
    "getDatabaseFile (w_catalog v) (getTableId pid) = Inr i" "file_readPage i pid v = Inr (p, v)"
  shows "bp_getPage pid w = Inr (length (w_objs v), v\<lparr>w_objs := w_objs v @ [\<lparr>po_dirty = None, po_page = p\<rparr>],
    w_pool := pm_put pid (length (w_objs v)) (w_pool v)\<rparr>)"
proof -
  have "bindM (if pool_full w then evictPage else returnM ()) l w = l () v" for l :: "unit \<Rightarrow> nat M"
    using assms(2) by (simp add: bindM_def)
  moreover have "bindM (db_getDatabaseFile (getTableId pid)) l v = l i v" for l :: "nat \<Rightarrow> nat M"
    using assms(3) by (simp add: bindM_def db_getDatabaseFile_def)
  moreover have "bindM (file_readPage i pid) l v = l p v" for l :: "page \<Rightarrow> nat M"
    using assms(4) by (simp add: bindM_def)
  ultimately show ?thesis using assms(1) by (simp add: bp_getPage_def pool_put_def)
qed

text \<open>
  The examples: table 7 is a heap file of two pages of 10 bytes; the pool has room for one page
  and is empty, or holds page 0 of the table, changed by transaction 1.
\<close>

definition pool_example_file :: heap_file where
  "pool_example_file = \<lparr>hf_tableid = 7, hf_td = heap_example_td, hf_numPages = 2,
     hf_disk = [1, 0] @ bytes_of_i32 11 @ replicate 4 0 @ [3, 0] @ bytes_of_i32 12 @ bytes_of_i32 13\<rparr>"

definition pool_example0 :: world where
  "pool_example0 = \<lparr>w_pageSize = 10, w_numPages = 1, w_pool = [], w_objs = [],
     w_catalog = \<lparr>ct_idToTable = [(7, \<lparr>tb_file = 0, tb_name = ''t'', tb_pkeyField = ''''\<rparr>)],
       ct_nameToTable = [(''t'', \<lparr>tb_file = 0, tb_name = ''t'', tb_pkeyField = ''''\<rparr>)]\<rparr>,
     w_files = [HeapF pool_example_file],
     w_uuid = 0, w_dirtypages = [], w_order = (\<lambda>m. m), w_append = False, w_junk = (\<lambda>i. 0)\<rparr>"

definition pool_example :: world where
  "pool_example = pool_example0\<lparr>w_pool := [(HeapPageId 7 0, 0)],
     w_objs := [\<lparr>po_dirty = Some 1, po_page = HeapPg (heap_example 1)\<rparr>]\<rparr>"

lemma pool_example_simps [simp]:
  "w_pool pool_example0 = []" "w_objs pool_example0 = []" "w_numPages pool_example0 = 1"
  "w_pageSize pool_example0 = 10" "w_order pool_example0 = (\<lambda>m. m)" "w_junk pool_example0 = (\<lambda>i. 0)"
  "getDatabaseFile (w_catalog pool_example0) 7 = Inr 0" "w_files pool_example0 = [HeapF pool_example_file]"
  by (simp_all add: pool_example0_def getDatabaseFile_def)

lemma pool_example_ok: "pool_ok pool_example0" "pool_ok pool_example"
  by (simp_all add: pool_ok_def pool_example_def pm_inv_def entry_ok_def)

text \<open>Page 1 of the example file, as the constructor reads it.\<close>

definition pool_example_page1 :: heap_page where
  "pool_example_page1 = \<lparr>hp_pid = HeapPageId 7 1, hp_td = heap_example_td, hp_header = [3, 0],
     hp_tuples = [heap_example_tuple 12 (Some \<lparr>rid_pid = HeapPageId 7 1, rid_tupleno = 0\<rparr>),
       heap_example_tuple 13 (Some \<lparr>rid_pid = HeapPageId 7 1, rid_tupleno = 1\<rparr>)], hp_numSlots = 2\<rparr>"

lemma pool_example_bytes:
  "heap_page_bytes (\<lambda>i. 0) 10 10 (hf_disk pool_example_file) = [3, 0] @ bytes_of_i32 12 @ bytes_of_i32 13"
  by (simp add: heap_page_bytes_def pool_example_file_def)

lemma pool_example_read:
  assumes "w_files w = [HeapF pool_example_file]" "w_pageSize w = 10" "w_junk w = (\<lambda>i. 0)"
    "getDatabaseFile (w_catalog w) 7 = Inr 0"
  shows "file_readPage 0 (HeapPageId 7 1) w = Inr (HeapPg pool_example_page1, w)"
proof -
  have "HeapPage_new (\<lambda>_. 0) 10 heap_example_td (HeapPageId 7 1) ([3, 0] @ bytes_of_i32 12 @ bytes_of_i32 13) =
     Inr pool_example_page1" by code_simp
  then show ?thesis using assms pool_example_bytes
    by (intro heap_read_run [where f = pool_example_file]) (simp_all add: pool_example_file_def is_int32_def)
qed

section \<open>Properties\<close>

text \<open>A heap page that the pool holds under its id and that can be written to its file.\<close>

definition heap_resident :: "world \<Rightarrow> int \<Rightarrow> int \<Rightarrow> nat \<Rightarrow> heap_page \<Rightarrow> nat \<Rightarrow> heap_file \<Rightarrow> bool" where
  "heap_resident w t n a p i f \<longleftrightarrow>
     pm_find (HeapPageId t n) (w_pool w) = Some a \<and> a < length (w_objs w) \<and>
     po_page (w_objs w ! a) = HeapPg p \<and> hp_pid p = HeapPageId t n \<and> 0 \<le> n \<and>
     getDatabaseFile (w_catalog w) t = Inr i \<and> i < length (w_files w) \<and> w_files w ! i = HeapF f \<and>
     hf_td f = hp_td p \<and> heap_ok (w_pageSize w) p \<and> int_schema (hp_td p) \<and>
     (\<forall>j < hp_numSlots p. heap_isSlotUsed p j \<longrightarrow> fits (hp_td p) (hp_tuples p ! j))"

text \<open>
  Flushing a dirty page of a heap file succeeds, leaves the page object clean, and reading the page
  from the file then gives a well-formed page with the same tuples in the same slots; the bytes of
  every other page on the disk are unchanged.
\<close>

lemma heap_flush_durable:
  assumes "heap_resident w t n a p i f" "po_dirty (w_objs w ! a) \<noteq> None" "is_int32 (n * int (w_pageSize w))"
  shows "\<exists>w' f' q. flushPage (HeapPageId t n) w = Inr ((), w') \<and> isDirty a w' = Inr (None, w') \<and>
    w_pool w' = w_pool w \<and> w_files w' ! i = HeapF f' \<and>
    file_readPage i (HeapPageId t n) w' = Inr (HeapPg q, w') \<and>
    heap_ok (w_pageSize w) q \<and> heap_view q = heap_view p \<and>
    (\<forall>m. 0 \<le> m \<longrightarrow> m \<noteq> n \<longrightarrow> (m + 1) * int (w_pageSize w) \<le> int (length (hf_disk f)) \<longrightarrow>
      heap_page_bytes (w_junk w) (w_pageSize w) (m * int (w_pageSize w)) (hf_disk f') =
      heap_page_bytes (w_junk w) (w_pageSize w) (m * int (w_pageSize w)) (hf_disk f))"
proof -
  let ?ps = "w_pageSize w" and ?k = "HeapPageId t n"
  from assms(1) have p: "heap_ok ?ps p" "int_schema (hp_td p)"
      "\<And>j. j < hp_numSlots p \<Longrightarrow> heap_isSlotUsed p j \<Longrightarrow> fits (hp_td p) (hp_tuples p ! j)"
    and r: "pm_find ?k (w_pool w) = Some a" "a < length (w_objs w)" "po_page (w_objs w ! a) = HeapPg p"
      "hp_pid p = ?k" "0 \<le> n" "getDatabaseFile (w_catalog w) t = Inr i" "i < length (w_files w)"
      "w_files w ! i = HeapF f" "hf_td f = hp_td p"
    by (auto simp: heap_resident_def)
  obtain d q where d: "heap_getPageData (w_junk w) ?ps p = Inr d" "length d = ?ps"
    and q: "HeapPage_new (w_junk w) ?ps (hp_td p) ?k d = Inr q" "heap_ok ?ps q" "heap_view q = heap_view p"
    using heap_page_rt [OF p, of "w_junk w" "w_junk w"] r(4) by auto
  let ?f = "f\<lparr>hf_disk := disk_pwrite False (n * int ?ps) d (hf_disk f)\<rparr>"
  let ?w = "w\<lparr>w_objs := clean_obj (Some a) (w_objs w), w_files := (w_files w)[i := HeapF ?f]\<rparr>"
  have "flushPage ?k w = Inr ((), ?w)"
    using flushPage_run [OF r(1,2) assms(2), of i] r d assms(3)
      heap_write_run [of i "w\<lparr>w_objs := clean_obj (Some a) (w_objs w)\<rparr>" f p d] by simp
  moreover have "file_readPage i ?k ?w = Inr (HeapPg q, ?w)"
    using r q(1) d(2) assms(3) by (intro heap_read_run [where f = ?f]) (simp_all add: heap_page_bytes_written)
  moreover have "isDirty a ?w = Inr (None, ?w)" using r(2) by (simp add: dirty_clean_obj)
  ultimately show ?thesis
    using q(2,3) r(7) heap_page_bytes_other [OF d(2) r(5), of _ "hf_disk f" "w_junk w"]
    by (intro exI [of _ ?w] exI [of _ ?f] exI [of _ q]) simp
qed

text \<open>C10
  The pool invariant: from an empty pool, after any sequence of pool operations, page creations,
  changes through page pointers, insertions' bookkeeping and steps of heap file iterators that all
  return, no page is in the pool twice, there are at most \<open>numPages\<close> pages (one, when the capacity
  is 0), every entry leads to the page of its id, and asking for a page that is present returns that
  object and changes nothing. The map's keys are pointers to the callers' page ids, so this is a
  claim about callers that leave these ids alone; the iterator does not, and its step that changes
  a key does not return in the model.
\<close>

theorem pool_invariant:
  assumes "pool_reach w0 w" "w_pool w0 = []" "\<And>m. mset (w_order w0 m) = mset m"
  shows "distinct (map fst (w_pool w)) \<and> length (w_pool w) \<le> max 1 (usize (w_numPages w)) \<and>
    (\<forall>k a. no_skeleton k \<longrightarrow> pm_find k (w_pool w) = Some a \<longrightarrow>
      bp_getPage k w = Inr (a, w) \<and> a < length (w_objs w) \<and> page_getId (po_page (w_objs w ! a)) = k)"
proof -
  have "pool_ok w0" using assms(2,3) by (simp add: pool_ok_def pm_inv_def)
  then have ok: "pool_ok w" using pool_ok_reach [OF assms(1)] by simp
  have "bp_getPage k w = Inr (a, w) \<and> a < length (w_objs w) \<and> page_getId (po_page (w_objs w ! a)) = k"
    if "no_skeleton k" "pm_find k (w_pool w) = Some a" for k a
    using ok that pm_find_Some_set [OF that] by (auto simp: pool_ok_def entry_ok_def bp_getPage_def)
  with ok show ?thesis by (simp add: pool_ok_def pm_inv_def)
qed

theorem pool_invariant_witness:
  "\<exists>w. pool_reach pool_example0 w \<and> pm_find (HeapPageId 7 1) (w_pool w) = Some 0 \<and>
     length (w_pool w) \<le> 1 \<and> bp_getPage (HeapPageId 7 1) w = Inr (0, w)"
proof -
  have "\<not> pool_full pool_example0" by (simp add: pool_full_def)
  then obtain w where w: "bp_getPage (HeapPageId 7 1) pool_example0 = Inr (0, w)"
    using bp_getPage_run [of "HeapPageId 7 1" pool_example0 pool_example0 0] pool_example_read by auto
  then have "pool_step pool_example0 w" by (intro pool_step.get) auto
  then have r: "pool_reach pool_example0 w" by (intro pool_reach.step [OF pool_reach.start])
  have f: "pm_find (HeapPageId 7 1) (w_pool w) = Some 0" and "w_numPages w = 1"
    using pool_ok_getPage [OF pool_example_ok(1) _ w] by (auto simp: same_base_def)
  with pool_invariant [OF r] r show ?thesis by (intro exI [of _ w]) auto
qed

text \<open>C18
  A miss with room in the pool: \<open>getPage\<close> reads the page from its file into a new clean object
  and adds it to the pool; nothing that was in the pool is lost, and asking again returns the
  same object without reading.
\<close>

theorem getPage_loads:
  assumes "pool_ok w" "no_skeleton pid" "pm_find pid (w_pool w) = None" "\<not> pool_full w"
    "getDatabaseFile (w_catalog w) (getTableId pid) = Inr i" "file_readPage i pid w = Inr (p, w)"
  shows "\<exists>w'. bp_getPage pid w = Inr (length (w_objs w), w') \<and>
    w_objs w' = w_objs w @ [\<lparr>po_dirty = None, po_page = p\<rparr>] \<and> w_files w' = w_files w \<and> page_getId p = pid \<and>
    (\<forall>k. no_skeleton k \<longrightarrow> pm_find k (w_pool w') =
       (if k = pid then Some (length (w_objs w)) else pm_find k (w_pool w))) \<and>
    bp_getPage pid w' = Inr (length (w_objs w), w')"
proof -
  have "bp_getPage pid w = Inr (length (w_objs w), w\<lparr>w_objs := w_objs w @ [\<lparr>po_dirty = None, po_page = p\<rparr>],
      w_pool := pm_put pid (length (w_objs w)) (w_pool w)\<rparr>)"
    using assms by (intro bp_getPage_run) auto
  moreover have "page_getId p = pid" using file_readPage_frame [OF assms(6)] by simp
  ultimately show ?thesis
    using assms(2) by (auto simp: pages.find_put bp_getPage_def)
qed

theorem getPage_loads_witness:
  "\<exists>w'. bp_getPage (HeapPageId 7 1) pool_example0 = Inr (0, w') \<and>
     bp_getPage (HeapPageId 7 1) w' = Inr (0, w')"
proof -
  have "\<not> pool_full pool_example0" by (simp add: pool_full_def)
  then show ?thesis
    using getPage_loads [OF pool_example_ok(1), of "HeapPageId 7 1" 0 "HeapPg pool_example_page1"] pool_example_read
    by auto
qed

text \<open>C17
  A miss with a full pool: the page that the map enumerates first is written to its file if it
  is dirty, is clean afterwards and leaves the pool; every other page stays, the new page takes
  the place, and the pool does not grow.
\<close>

theorem getPage_evicts:
  assumes "pool_ok w" "no_skeleton pid" "pm_find pid (w_pool w) = None" "pool_full w"
    "w_order w (w_pool w) = (k, a) # rest" "flushPage k w = Inr ((), u)"
    "getDatabaseFile (w_catalog w) (getTableId pid) = Inr i"
    "file_readPage i pid (u\<lparr>w_pool := remove1 (k, a) (w_pool w)\<rparr>) =
       Inr (p, u\<lparr>w_pool := remove1 (k, a) (w_pool w)\<rparr>)"
  shows "\<exists>w'. bp_getPage pid w = Inr (length (w_objs w), w') \<and> w_files w' = w_files u \<and>
    length (w_pool w') = length (w_pool w) \<and> po_dirty (w_objs w' ! a) = None \<and>
    (\<forall>k'. no_skeleton k' \<longrightarrow> pm_find k' (w_pool w') =
       (if k' = pid then Some (length (w_objs w)) else if k' = k then None else pm_find k' (w_pool w)))"
proof -
  let ?v = "u\<lparr>w_pool := remove1 (k, a) (w_pool w)\<rparr>"
  let ?w = "?v\<lparr>w_objs := w_objs u @ [\<lparr>po_dirty = None, po_page = p\<rparr>],
    w_pool := pm_put pid (length (w_objs u)) (remove1 (k, a) (w_pool w))\<rparr>"
  have eff: "same_base w u" "w_pool u = w_pool w" "w_objs u = clean_obj (pm_find k (w_pool w)) (w_objs w)"
    using flushPage_eff [OF assms(6)] by auto
  have "mset ((k, a) # rest) = mset (w_pool w)" using assms(1,5) by (metis pool_ok_def)
  then have mem: "(k, a) \<in> set (w_pool w)" by (metis list.set_intros(1) mset_eq_setD)
  then have ka: "no_skeleton k" "a < length (w_objs w)" using assms(1) by (auto simp: pool_ok_def entry_ok_def)
  have inv: "pm_inv (w_pool w)" using assms(1) by (simp add: pool_ok_def)
  have fk: "pm_find k (w_pool w) = Some a" using inv mem ka(1) by (rule pm_find_mem)
  have ev: "evictPage w = Inr ((), ?v)"
    using assms(5,6) eff(2) by (simp add: evictPage_def bindM_def)
  have "bp_getPage pid w = Inr (length (w_objs w), ?w)"
    using bp_getPage_run [of pid w ?v i p] assms(3,4,7,8) ev eff by (simp add: same_base_def)
  moreover have "pm_find pid (remove1 (k, a) (w_pool w)) = None"
    using pm_find_subset [OF set_remove1_subset assms(2,3)] .
  then have "length (w_pool ?w) = length (w_pool w)"
    using mem length_pos_if_in_set [OF mem] by (simp add: pages.size_put length_remove1)
  moreover have "po_dirty (w_objs ?w ! a) = None"
    using ka(2) fk eff(3) by (simp add: nth_append dirty_clean_obj)
  moreover have "pm_find k' (remove1 (k, a) (w_pool w)) = (if k' = k then None else pm_find k' (w_pool w))"
    if "no_skeleton k'" for k' using pm_find_remove1 [OF inv mem ka(1) that] .
  moreover have "length (w_objs u) = length (w_objs w)" using eff(3) by simp
  ultimately show ?thesis using assms(2) by (intro exI [of _ ?w]) (simp add: pages.find_put)
qed

theorem getPage_evicts_witness:
  "\<exists>w'. bp_getPage (HeapPageId 7 1) pool_example = Inr (1, w') \<and> length (w_pool w') = 1 \<and>
     pm_find (HeapPageId 7 0) (w_pool w') = None \<and> po_dirty (w_objs w' ! 0) = None"
proof -
  let ?d = "[1, 0] @ bytes_of_i32 10 @ replicate 4 (0 :: byte)"
  let ?f = "pool_example_file\<lparr>hf_disk := disk_pwrite False 0 ?d (hf_disk pool_example_file)\<rparr>"
  let ?u = "pool_example\<lparr>w_objs := clean_obj (Some 0) (w_objs pool_example), w_files := [HeapF ?f]\<rparr>"
  have "heap_getPageData (\<lambda>_. 0) 10 (heap_example 1) = Inr ?d" by code_simp
  then have "flushPage (HeapPageId 7 0) pool_example = Inr ((), ?u)"
    using flushPage_run [of "HeapPageId 7 0" pool_example 0 0]
      heap_write_run [of 0 "pool_example\<lparr>w_objs := clean_obj (Some 0) (w_objs pool_example)\<rparr>"
        pool_example_file "heap_example 1" ?d]
    by (simp add: pool_example_def is_int32_def)
  moreover have "HeapPage_new (\<lambda>_. 0) 10 heap_example_td (HeapPageId 7 1) ([3, 0] @ bytes_of_i32 12 @ bytes_of_i32 13) =
     Inr pool_example_page1" by code_simp
  then have "file_readPage 0 (HeapPageId 7 1) (?u\<lparr>w_pool := []\<rparr>) =
      Inr (HeapPg pool_example_page1, ?u\<lparr>w_pool := []\<rparr>)"
    by (intro heap_read_run [where f = ?f])
      (simp_all add: pool_example_def pool_example_file_def heap_page_bytes_def disk_pwrite_def disk_write_def is_int32_def)
  ultimately show ?thesis
    using getPage_evicts [OF pool_example_ok(2), of "HeapPageId 7 1" "HeapPageId 7 0" 0 "[]" ?u 0 "HeapPg pool_example_page1"]
    by (auto simp: pool_example_def pool_full_def)
qed

end
