(* ===== verification/BTreeSpec.thy ===== *)
theory BTreeSpec
  imports Storage BTreeInternalSpec PoolSpec
begin

text \<open>
  B+ tree files: the scan along the linked leaves, the search and the insertion in a tree whose
  pages are in the pool, and what goes wrong in deletion and in the reuse of pages.
\<close>

section \<open>Leaf iterators\<close>

lemma leaf_next_used_spec:
  "i \<le> lp_numSlots p \<Longrightarrow>
   i \<le> leaf_next_used p i \<and> leaf_next_used p i \<le> lp_numSlots p \<and>
   (leaf_next_used p i < lp_numSlots p \<longrightarrow> leaf_isSlotUsed p (leaf_next_used p i)) \<and>
   somes (drop i (leaf_view p)) = somes (drop (leaf_next_used p i) (leaf_view p))"
proof (induction p i rule: leaf_next_used.induct)
  case (1 p i)
  show ?case
  proof (cases "i < lp_numSlots p \<and> \<not> leaf_isSlotUsed p i")
    case True
    have "drop i (leaf_view p) = leaf_view p ! i # drop (Suc i) (leaf_view p)"
      using True by (simp add: Cons_nth_drop_Suc)
    then have "somes (drop i (leaf_view p)) = somes (drop (Suc i) (leaf_view p))"
      using True by (simp add: leaf_view_nth)
    moreover have "leaf_next_used p i = leaf_next_used p (Suc i)"
      using True by (simp add: leaf_next_used.simps [of p i])
    ultimately show ?thesis using True "1.IH" by auto
  next
    case False
    with "1.prems" show ?thesis by (auto simp: leaf_next_used.simps [of p i])
  qed
qed

lemma leaf_view_drop_used:
  "i < lp_numSlots p \<Longrightarrow> leaf_isSlotUsed p i \<Longrightarrow>
   somes (drop i (leaf_view p)) = strip (lp_tuples p ! i) # somes (drop (Suc i) (leaf_view p))"
  by (subst Cons_nth_drop_Suc [symmetric]) (auto simp: leaf_view_nth)

lemma leaf_next_used_nonempty:
  assumes "leaf_tuples p \<noteq> []"
  shows "leaf_next_used p 0 < lp_numSlots p"
proof -
  note sp = leaf_next_used_spec [of 0 p]
  have "leaf_next_used p 0 \<noteq> lp_numSlots p"
    using sp assms by (auto simp: leaf_tuples_def)
  with sp show ?thesis by simp
qed

definition leaf_on :: "nat \<Rightarrow> leaf_iter" where
  "leaf_on s = \<lparr>li_index = int s, li_reverse = False\<rparr>"

lemma leaf_iter_next_on: "leaf_iter_next p (leaf_on s) = leaf_on (leaf_next_used p (Suc s))"
  by (simp add: leaf_iter_next_def leaf_on_def nat_add_distrib)

lemma leaf_begin_on: "leaf_begin p = leaf_on (leaf_next_used p 0)"
  by (simp add: leaf_begin_def leaf_on_def)

lemma leaf_on_end: "leaf_iter_ne (leaf_on s) (leaf_end p) \<longleftrightarrow> s \<noteq> lp_numSlots p"
  by (simp add: leaf_iter_ne_def leaf_on_def leaf_end_def)

lemma leaf_deref_on:
  assumes "leaf_ok p" "s < lp_numSlots p" "leaf_isSlotUsed p s"
  shows "leaf_iter_deref p (leaf_on s) = Inr s"
  using assms by (simp add: leaf_iter_deref_def leaf_getTuple_def leaf_on_def leaf_isSlotUsedE_def leaf_ok_def)

section \<open>Linked leaves\<close>

text \<open>
  The leaves \<open>ls\<close> are in the pool at the addresses \<open>as\<close>, and each is linked to the next by its
  right sibling pointer; the last has none.
\<close>

definition leaf_resident :: "world \<Rightarrow> nat \<Rightarrow> leaf_page \<Rightarrow> bool" where
  "leaf_resident w a l \<longleftrightarrow> a < length (w_objs w) \<and> po_page (w_objs w ! a) = LeafPg l \<and>
     pm_find (bp_pid l) (w_pool w) = Some a \<and> leaf_ok l"

fun chained :: "leaf_page list \<Rightarrow> bool" where
  "chained [] = True"
| "chained [l] = (getRightSiblingId l = None)"
| "chained (l # m # ls) = (getRightSiblingId l = Some (bp_pid m) \<and> chained (m # ls))"

definition on_leaf :: "nat \<Rightarrow> index_predicate option \<Rightarrow> nat \<Rightarrow> nat \<Rightarrow> btree_iter" where
  "on_leaf f pred a s = \<lparr>bi_file = f, bi_pred = pred, bi_leaf = Some a, bi_it = Some (leaf_on s)\<rparr>"

text \<open>A tuple object of a leaf, with its record id.\<close>

definition leaf_holds :: "leaf_page \<Rightarrow> tuple \<Rightarrow> bool" where
  "leaf_holds l t \<longleftrightarrow> (\<exists>s < lp_numSlots l. leaf_isSlotUsed l s \<and> t = lp_tuples l ! s)"

text \<open>The end iterator, with whatever file and predicate.\<close>

lemma bti_collect_chain:
  assumes "bi_leaf ite = None"
  shows "list_all2 (leaf_resident w) as ls \<Longrightarrow> chained ls \<Longrightarrow> ls \<noteq> [] \<Longrightarrow> (\<forall>l \<in> set ls. leaf_tuples l \<noteq> []) \<Longrightarrow>
    k \<le> lp_numSlots (hd ls) \<Longrightarrow> leaf_next_used (hd ls) k < lp_numSlots (hd ls) \<Longrightarrow>
    length (somes (drop k (leaf_view (hd ls))) @ concat (map leaf_tuples (tl ls))) < n \<Longrightarrow>
    \<exists>ts. bti_collect n (on_leaf f pred (hd as) (leaf_next_used (hd ls) k)) ite w = Inr (ts, w) \<and>
      map strip ts = somes (drop k (leaf_view (hd ls))) @ concat (map leaf_tuples (tl ls)) \<and>
      (\<forall>t \<in> set ts. \<exists>l \<in> set ls. leaf_holds l t)"
proof (induction n arbitrary: as ls k)
  case 0
  then show ?case by simp
next
  case (Suc n)
  obtain l ls' where ls: "ls = l # ls'" using Suc.prems(3) by (cases ls) auto
  then obtain a as' where as: "as = a # as'" and a: "leaf_resident w a l"
    and rest: "list_all2 (leaf_resident w) as' ls'"
    using Suc.prems(1) by (auto simp: list_all2_Cons2)
  let ?s = "leaf_next_used l k"
  let ?s' = "leaf_next_used l (Suc ?s)"
  have s: "?s < lp_numSlots l" using Suc.prems(6) ls by simp
  have used: "leaf_isSlotUsed l ?s" and v0: "somes (drop k (leaf_view l)) = somes (drop ?s (leaf_view l))"
    using leaf_next_used_spec [of k l] Suc.prems(5) s ls by auto
  have v: "somes (drop k (leaf_view l)) = strip (lp_tuples l ! ?s) # somes (drop (Suc ?s) (leaf_view l))"
    using v0 leaf_view_drop_used [OF s used] by simp
  note sp = leaf_next_used_spec [of "Suc ?s" l]
  have res: "a < length (w_objs w)" "po_page (w_objs w ! a) = LeafPg l" "leaf_ok l"
    using a by (auto simp: leaf_resident_def)
  have len: "length (lp_tuples l) = lp_numSlots l" using res(3) by (simp add: leaf_ok_def)
  have deref: "bti_deref (on_leaf f pred a ?s) w = Inr (lp_tuples l ! ?s, w)"
    using res s len used by (simp add: bti_deref_def on_leaf_def leaf_deref_on run_leaf_at)
  have held: "leaf_holds l (lp_tuples l ! ?s)" using s used by (auto simp: leaf_holds_def)
  have step: "bti_collect (Suc n) (on_leaf f pred a ?s) ite w =
      bindM (bti_next (on_leaf f pred a ?s)) (\<lambda>it'. bindM (bti_collect n it' ite)
        (\<lambda>ts. returnM (lp_tuples l ! ?s # ts))) w"
    using deref assms by (simp add: bti_ne_def on_leaf_def bindM_def)
  show ?case
  proof (cases "?s' = lp_numSlots l")
    case False
    then have s': "?s' < lp_numSlots l" using sp s by simp
    have "bti_next (on_leaf f pred a ?s) w = Inr (on_leaf f pred a ?s', w)"
      using res s False by (simp add: bti_next_def on_leaf_def run_leaf_at leaf_on_end leaf_iter_next_on Let_def)
    moreover obtain ts where "bti_collect n (on_leaf f pred (hd as) (leaf_next_used (hd ls) (Suc ?s))) ite w = Inr (ts, w)"
        "map strip ts = somes (drop (Suc ?s) (leaf_view (hd ls))) @ concat (map leaf_tuples (tl ls))"
        "\<forall>t \<in> set ts. \<exists>l \<in> set ls. leaf_holds l t"
      using Suc.IH [OF Suc.prems(1-4), of "Suc ?s"] Suc.prems(7) s s' v ls by auto
    ultimately show ?thesis using step v ls as held by (auto simp: bindM_def)
  next
    case True
    then have nil: "somes (drop (Suc ?s) (leaf_view l)) = []" using sp s by simp
    show ?thesis
    proof (cases ls')
      case Nil
      have "bti_next (on_leaf f pred a ?s) w = Inr ((on_leaf f pred a ?s')\<lparr>bi_leaf := None\<rparr>, w)"
        using res s True Suc.prems(2) Nil ls
        by (simp add: bti_next_def bti_advance_def on_leaf_def run_leaf_at leaf_on_end leaf_iter_next_on Let_def)
      moreover have "0 < n" using Suc.prems(7) v ls by simp
      then obtain m where "n = Suc m" by (cases n) auto
      ultimately show ?thesis using step v nil ls as Nil assms held by (auto simp: bindM_def bti_ne_def)
    next
      case (Cons m ls'')
      then obtain b bs where b: "as' = b # bs" "leaf_resident w b m"
        using rest by (auto simp: list_all2_Cons2)
      have "bti_next (on_leaf f pred a ?s) w = Inr (on_leaf f pred b (leaf_next_used m 0), w)"
        using res s True Suc.prems(2) Cons ls b
        by (simp add: bti_next_def bti_advance_def on_leaf_def run_leaf_at leaf_on_end leaf_iter_next_on Let_def
            leaf_resident_def getPage_hit leaf_begin_on)
      moreover obtain ts where "bti_collect n (on_leaf f pred (hd as') (leaf_next_used (hd ls') 0)) ite w = Inr (ts, w)"
          "map strip ts = somes (drop 0 (leaf_view (hd ls'))) @ concat (map leaf_tuples (tl ls'))"
          "\<forall>t \<in> set ts. \<exists>l \<in> set ls'. leaf_holds l t"
        using Suc.IH [OF rest, of 0] Suc.prems(2,4,7) v nil ls Cons leaf_next_used_nonempty [of m]
        by (auto simp flip: leaf_tuples_def)
      ultimately show ?thesis using step v nil ls as b Cons held by (auto simp: bindM_def simp flip: leaf_tuples_def)
    qed
  qed
qed

section \<open>A tree in the pool\<close>

text \<open>
  A tree of two levels all of whose pages are in the pool: the root pointer page \<open>rp\<close>, the root
  \<open>p\<close> and the leaves \<open>ls\<close>, one for every pair of the root, linked from left to right. (An
  internal page never has internal children.)
\<close>

record btree_pages =
  tr_file :: nat
  tr_btree :: btree_file
  tr_ptr :: nat
  tr_rootptr :: root_ptr_page
  tr_raddr :: nat
  tr_root :: internal_page
  tr_addrs :: "nat list"
  tr_leaves :: "leaf_page list"

definition tree_in_pool :: "world \<Rightarrow> btree_pages \<Rightarrow> bool" where
  "tree_in_pool w T \<longleftrightarrow>
     tr_file T < length (w_files w) \<and> w_files w ! tr_file T = BTreeF (tr_btree T) \<and> bf_disk (tr_btree T) \<noteq> [] \<and>
     tr_ptr T < length (w_objs w) \<and> po_page (w_objs w ! tr_ptr T) = RootPg (tr_rootptr T) \<and>
     pm_find (rootptr_getId (bf_tableid (tr_btree T))) (w_pool w) = Some (tr_ptr T) \<and>
     getRootId (tr_rootptr T) = Some (bp_pid (tr_root T)) \<and>
     tr_raddr T < length (w_objs w) \<and> po_page (w_objs w ! tr_raddr T) = IntPg (tr_root T) \<and>
     pm_find (bp_pid (tr_root T)) (w_pool w) = Some (tr_raddr T) \<and> btree_type (bp_pid (tr_root T)) = INTERNAL \<and>
     int_ok (tr_root T) \<and> int_isSlotUsed (tr_root T) 0 \<and> int_isSlotUsed (tr_root T) 1 \<and>
     np_childCategory (tr_root T) = LEAF \<and>
     list_all2 (leaf_resident w) (tr_addrs T) (tr_leaves T) \<and> distinct (tr_addrs T) \<and>
     map bp_pid (tr_leaves T) = map (\<lambda>x. int_child (tr_root T) (snd x)) (int_pairs (tr_root T)) \<and>
     chained (tr_leaves T) \<and>
     (\<forall>l \<in> set (tr_leaves T). bp_keyField l = bf_keyField (tr_btree T) \<and> bp_td l = bf_td (tr_btree T))"

text \<open>The keys of the tree from left to right, those of the root between those of the leaves.\<close>

definition sep_keys :: "field option \<Rightarrow> int list" where
  "sep_keys k = (case k of None \<Rightarrow> [] | Some f \<Rightarrow> [int_val f])"

definition leaf_keys :: "leaf_page \<Rightarrow> int list" where
  "leaf_keys l = map (key_of (bp_keyField l)) (leaf_tuples l)"

definition tree_keys :: "btree_pages \<Rightarrow> int list" where
  "tree_keys T = concat (map2 (\<lambda>x l. sep_keys (fst x) @ leaf_keys l) (int_pairs (tr_root T)) (tr_leaves T))"

definition tree_tuples :: "btree_pages \<Rightarrow> tuple list" where
  "tree_tuples T = concat (map leaf_tuples (tr_leaves T))"

lemma tree_lengths:
  assumes "tree_in_pool w T"
  shows "length (int_pairs (tr_root T)) = length (tr_leaves T)" "length (tr_addrs T) = length (tr_leaves T)"
  using assms by (auto simp: tree_in_pool_def list_all2_lengthD dest: map_eq_imp_length_eq)

lemma sorted_keys_leaves:
  assumes "sorted (concat (map2 (\<lambda>x l. sep_keys (fst x) @ leaf_keys l) xs ls))" "length xs = length ls"
  shows "sorted (concat (map leaf_keys ls))"
  using assms
proof (induction xs ls rule: list_induct2')
  case (4 x xs l ls)
  have "set (concat (map leaf_keys ls)) \<subseteq> set (concat (map2 (\<lambda>x l. sep_keys (fst x) @ leaf_keys l) xs ls))"
    using 4(3) by (induction xs ls rule: list_induct2') auto
  with 4 show ?case by (auto simp: sorted_append)
qed auto

lemma concat_map_keys:
  "(\<forall>l \<in> set ls. bp_keyField l = k) \<Longrightarrow> concat (map leaf_keys ls) = map (key_of k) (concat (map leaf_tuples ls))"
  by (induction ls) (auto simp: leaf_keys_def)

lemma tree_tuples_sorted:
  assumes "tree_in_pool w T" "sorted (tree_keys T)"
  shows "sorted (map (key_of (bf_keyField (tr_btree T))) (tree_tuples T))"
proof -
  have "sorted (concat (map leaf_keys (tr_leaves T)))"
    using assms tree_lengths [OF assms(1)] by (intro sorted_keys_leaves) (auto simp: tree_keys_def)
  then show ?thesis
    using assms(1) concat_map_keys [of "tr_leaves T" "bf_keyField (tr_btree T)"] by (simp add: tree_tuples_def tree_in_pool_def)
qed

text \<open>
  The order of a search tree: every leaf is sorted, and the key of the root between two leaves
  separates their keys. Leaf by leaf this gives the order of the whole tree.
\<close>

definition tree_ordered :: "btree_pages \<Rightarrow> bool" where
  "tree_ordered T \<longleftrightarrow> (\<forall>l \<in> set (tr_leaves T). leaf_sorted l) \<and>
     (\<forall>j. Suc j < length (tr_leaves T) \<longrightarrow>
       (\<exists>sep. fst (int_pairs (tr_root T) ! Suc j) = Some sep \<and>
         (\<forall>x \<in> set (leaf_keys (tr_leaves T ! j)). x \<le> int_val sep) \<and>
         (\<forall>y \<in> set (leaf_keys (tr_leaves T ! Suc j)). int_val sep \<le> y)))"

lemma sorted_concat_adjacent:
  fixes xss :: "int list list"
  assumes "\<And>xs. xs \<in> set xss \<Longrightarrow> sorted xs \<and> xs \<noteq> []"
    "\<And>j x y. Suc j < length xss \<Longrightarrow> x \<in> set (xss ! j) \<Longrightarrow> y \<in> set (xss ! Suc j) \<Longrightarrow> x \<le> y"
  shows "sorted (concat xss)"
  using assms
proof (induction xss)
  case (Cons xs xss)
  have s: "sorted (concat xss)" using Cons.prems(2) [of "Suc _"] by (intro Cons.IH) (use Cons.prems(1) in auto)
  have "x \<le> z" if "x \<in> set xs" "z \<in> set (concat xss)" for x z
  proof (cases xss)
    case (Cons ys yss)
    then obtain y ys' where ys: "ys = y # ys'" using Cons.prems(1) [of ys] by (cases ys) auto
    have "x \<le> y" using Cons.prems(2) [of 0 x y] that(1) Cons ys by simp
    moreover have "y \<le> z" using s that(2) Cons ys by auto
    ultimately show ?thesis by simp
  qed (use that in simp)
  with s show ?case using Cons.prems(1) [of xs] by (auto simp: sorted_append)
qed simp

lemma tree_ordered_sorted:
  assumes "tree_in_pool w T" "tree_ordered T" "\<And>l. l \<in> set (tr_leaves T) \<Longrightarrow> leaf_tuples l \<noteq> []"
  shows "sorted (map (key_of (bf_keyField (tr_btree T))) (tree_tuples T))"
proof -
  have "sorted (concat (map leaf_keys (tr_leaves T)))"
  proof (rule sorted_concat_adjacent)
    show "sorted xs \<and> xs \<noteq> []" if "xs \<in> set (map leaf_keys (tr_leaves T))" for xs
      using that assms(2,3) by (auto simp: tree_ordered_def leaf_sorted_def leaf_keys_def)
    show "x \<le> y" if "Suc j < length (map leaf_keys (tr_leaves T))" "x \<in> set (map leaf_keys (tr_leaves T) ! j)"
      "y \<in> set (map leaf_keys (tr_leaves T) ! Suc j)" for j x y
    proof -
      have "Suc j < length (tr_leaves T)" using that(1) by simp
      with assms(2) obtain sep where "\<forall>x \<in> set (leaf_keys (tr_leaves T ! j)). x \<le> int_val sep"
          "\<forall>y \<in> set (leaf_keys (tr_leaves T ! Suc j)). int_val sep \<le> y"
        unfolding tree_ordered_def by blast
      with that show ?thesis by (auto intro: order_trans)
    qed
  qed
  then show ?thesis
    using assms(1) concat_map_keys [of "tr_leaves T" "bf_keyField (tr_btree T)"] by (simp add: tree_tuples_def tree_in_pool_def)
qed

section \<open>Searching\<close>

text \<open>The position that \<open>descend\<close> chooses.\<close>

lemma descend_position:
  "\<exists>j \<le> length xs. descend kv c xs = snd (((k, c) # xs) ! j) \<and>
     (\<forall>i < j. \<not> key_ge (fst (xs ! i)) kv) \<and> (j < length xs \<longrightarrow> key_ge (fst (xs ! j)) kv)"
proof (induction xs arbitrary: k c)
  case Nil
  then show ?case by simp
next
  case (Cons x xs)
  obtain k' c' where x: "x = (k', c')" by (cases x)
  show ?case
  proof (cases "key_ge k' kv")
    case True
    with x show ?thesis by (intro exI [of _ 0]) auto
  next
    case False
    from Cons.IH [of c' k'] obtain j where "j \<le> length xs" "descend kv c' xs = snd (((k', c') # xs) ! j)"
        "\<forall>i < j. \<not> key_ge (fst (xs ! i)) kv" "j < length xs \<longrightarrow> key_ge (fst (xs ! j)) kv" by blast
    with x False show ?thesis by (intro exI [of _ "Suc j"]) (auto simp: nth_Cons split: nat.splits)
  qed
qed

lemma bt_getPage_resident:
  assumes "pm_find i (w_dirtypages w) = None" "pm_find i (w_pool w) = Some a"
  shows "bindM (bt_getPage i False) l w = l a w"
    and "bindM (bt_getPage i True) m w = m a (w\<lparr>w_dirtypages := pm_put i a (w_dirtypages w)\<rparr>)"
  using assms by (simp_all add: bt_getPage_def bindM_assoc getPage_hit)

text \<open>The leaf for a key, or the first leaf when there is none.\<close>

lemma bt_findLeaf_resident:
  assumes T: "tree_in_pool w T" and d: "w_dirtypages w = []"
  shows "\<exists>j < length (tr_leaves T).
     bt_findLeafPage (Suc (Suc n)) (Some (bp_pid (tr_root T))) False (Some (IntField kv)) w = Inr (tr_addrs T ! j, w) \<and>
     (\<forall>i. 0 < i \<and> i \<le> j \<longrightarrow> \<not> key_ge (fst (int_pairs (tr_root T) ! i)) (sint kv)) \<and>
     (Suc j < length (tr_leaves T) \<longrightarrow> key_ge (fst (int_pairs (tr_root T) ! Suc j)) (sint kv))"
    and "bt_findLeafPage (Suc (Suc n)) (Some (bp_pid (tr_root T))) False None w = Inr (hd (tr_addrs T), w)"
proof -
  let ?p = "tr_root T"
  note t = T [unfolded tree_in_pool_def]
  have ok: "int_ok ?p" "int_isSlotUsed ?p 0" "int_isSlotUsed ?p 1" using t by auto
  from int_begin_spec [OF ok] obtain it where it: "int_begin ?p = Inr it" "iter_on ?p 1 (np_children ?p ! 0) it"
      "int_pairs ?p = (None, np_children ?p ! 0) # somes (drop 1 (int_view ?p))" .
  let ?xs = "somes (drop 1 (int_view ?p))"
  have ite: "\<exists>ite. int_end ?p = Inr ite \<and> int_iter_ne it ite"
    using it(2) by (auto simp: int_end_def int_iter_new_def int_iter_ne_def iter_on_def)
  have len: "length ?xs + 1 = length (tr_leaves T)" using tree_lengths [OF T] it(3) by simp
  have leaf: "leaf_resident w (tr_addrs T ! j) (tr_leaves T ! j)" if "j < length (tr_leaves T)" for j
    using t that by (auto simp: list_all2_conv_all_nth)
  have pid: "bp_pid (tr_leaves T ! j) = int_child ?p (snd (int_pairs ?p ! j))" if "j < length (tr_leaves T)" for j
  proof -
    have "map bp_pid (tr_leaves T) ! j = map (\<lambda>x. int_child ?p (snd x)) (int_pairs ?p) ! j" using t by simp
    with that tree_lengths [OF T] show ?thesis by simp
  qed
  have run: "bt_findLeafPage (Suc (Suc n)) (Some (bp_pid ?p)) False fld w = Inr (tr_addrs T ! j, w)"
    if j: "j < length (tr_leaves T)" and c: "find_child ?p fld it = Inr (Some (int_child ?p (snd (int_pairs ?p ! j))))"
    for fld j
  proof -
    have "bt_findLeafPage (Suc n) (Some (bp_pid (tr_leaves T ! j))) False fld w = Inr (tr_addrs T ! j, w)"
      using leaf [OF j] t d pid [OF j]
      by (simp add: leaf_resident_def bt_getPage_resident run_leaf_at int_child_def)
    then show ?thesis
      using t d it(1) ite c pid [OF j]
      by (auto simp: bt_getPage_resident run_internal_at simp del: bt_findLeafPage.simps
          simp: bt_findLeafPage.simps(2) [where n = "Suc n"])
  qed
  from descend_position [of ?xs "sint kv" "np_children ?p ! 0" None] obtain j where
    j: "j \<le> length ?xs" "descend (sint kv) (np_children ?p ! 0) ?xs = snd (int_pairs ?p ! j)"
      "\<forall>i < j. \<not> key_ge (fst (?xs ! i)) (sint kv)" "j < length ?xs \<longrightarrow> key_ge (fst (?xs ! j)) (sint kv)"
    using it(3) by auto
  have jl: "j < length (tr_leaves T)" using j(1) len by simp
  have "bt_findLeafPage (Suc (Suc n)) (Some (bp_pid ?p)) False (Some (IntField kv)) w = Inr (tr_addrs T ! j, w)"
    using find_child_spec [OF ok(1) it(2), of kv] j(2) by (intro run [OF jl]) simp
  moreover have "\<not> key_ge (fst (int_pairs ?p ! i)) (sint kv)" if "0 < i" "i \<le> j" for i
    using j(3) that it(3) by (cases i) auto
  moreover have "Suc j < length (tr_leaves T) \<longrightarrow> key_ge (fst (int_pairs ?p ! Suc j)) (sint kv)"
    using j(4) it(3) len by simp
  ultimately show "\<exists>j < length (tr_leaves T).
     bt_findLeafPage (Suc (Suc n)) (Some (bp_pid ?p)) False (Some (IntField kv)) w = Inr (tr_addrs T ! j, w) \<and>
     (\<forall>i. 0 < i \<and> i \<le> j \<longrightarrow> \<not> key_ge (fst (int_pairs ?p ! i)) (sint kv)) \<and>
     (Suc j < length (tr_leaves T) \<longrightarrow> key_ge (fst (int_pairs ?p ! Suc j)) (sint kv))"
    using jl by blast
  have l0: "0 < length (tr_leaves T)" using len by linarith
  have "find_child ?p None it = Inr (Some (int_child ?p (snd (int_pairs ?p ! 0))))"
    using find_child_leftmost [OF ok(1) it(2)] it(3) by simp
  from run [OF l0 this] show "bt_findLeafPage (Suc (Suc n)) (Some (bp_pid ?p)) False None w = Inr (hd (tr_addrs T), w)"
    using l0 tree_lengths(2) [OF T] by (cases "tr_addrs T") (simp_all del: bt_findLeafPage.simps)
qed

section \<open>Insertion without a split\<close>

lemma sorted_mid_replace:
  fixes k :: "'a :: linorder"
  assumes "sorted (A @ M @ B)" "sorted M'" "set M' \<subseteq> insert k (set M)"
    "\<forall>x \<in> set A. x \<le> k" "\<forall>x \<in> set B. k \<le> x"
  shows "sorted (A @ M' @ B)"
  using assms by (auto simp: sorted_append)

lemma sorted_last_le:
  fixes k :: "'a :: linorder"
  shows "sorted (A @ [v]) \<Longrightarrow> v \<le> k \<Longrightarrow> \<forall>y \<in> set (A @ [v]). y \<le> k"
  by (auto simp: sorted_append intro: order_trans)

text \<open>Replacing the leaf at \<open>j\<close> splits the keys of the tree around it.\<close>

lemma keys_split:
  assumes "j < length ls" "length xs = length ls"
  shows "concat (map2 (\<lambda>x l. sep_keys (fst x) @ leaf_keys l) xs (ls[j := l'])) =
    (concat (map2 (\<lambda>x l. sep_keys (fst x) @ leaf_keys l) (take j xs) (take j ls)) @ sep_keys (fst (xs ! j))) @
    leaf_keys l' @
    concat (map2 (\<lambda>x l. sep_keys (fst x) @ leaf_keys l) (drop (Suc j) xs) (drop (Suc j) ls))"
proof -
  have "xs = take j xs @ xs ! j # drop (Suc j) xs" using assms by (simp add: id_take_nth_drop)
  moreover have "ls[j := l'] = take j ls @ l' # drop (Suc j) ls"
    using assms by (simp add: upd_conv_take_nth_drop)
  moreover have "length (take j xs) = length (take j ls)" using assms by simp
  ultimately show ?thesis
    by (metis (no_types, lifting) append.assoc concat.simps(2) concat_append list.simps(9) map_append
        split_conv zip_Cons_Cons zip_append)
qed

lemma key_ge_iff: "key_ge k n \<longleftrightarrow> (\<exists>v. sep_keys k = [v] \<and> n \<le> v)"
  by (simp add: key_ge_def sep_keys_def split: option.split)

lemma key_le_iff: "key_le k n \<longleftrightarrow> (\<forall>v. sep_keys k = [v] \<longrightarrow> v \<le> n)"
  by (simp add: key_le_def sep_keys_def split: option.split)

lemma not_key_ge: "\<not> key_ge k n \<Longrightarrow> key_le k n"
  by (auto simp: key_le_def key_ge_def split: option.split)

text \<open>
  What a tuple with key \<open>kv\<close> may be added to: before the leaf at \<open>j\<close> all keys are at most \<open>kv\<close>,
  after it at least \<open>kv\<close>.
\<close>

lemma keys_around:
  assumes len: "length xs = length ls" "j < length ls"
    and srt: "sorted (concat (map2 (\<lambda>x l. sep_keys (fst x) @ leaf_keys l) xs ls))"
    and first: "fst (xs ! 0) = None" and seps: "\<And>i. 0 < i \<Longrightarrow> i < length xs \<Longrightarrow> sep_keys (fst (xs ! i)) \<noteq> []"
    and lo: "key_le (fst (xs ! j)) kv"
    and hi: "Suc j < length ls \<Longrightarrow> key_ge (fst (xs ! Suc j)) kv"
  shows "\<forall>y \<in> set (concat (map2 (\<lambda>x l. sep_keys (fst x) @ leaf_keys l) (take j xs) (take j ls)) @
      sep_keys (fst (xs ! j))). y \<le> kv"
    and "\<forall>y \<in> set (concat (map2 (\<lambda>x l. sep_keys (fst x) @ leaf_keys l) (drop (Suc j) xs) (drop (Suc j) ls))). kv \<le> y"
proof -
  let ?A = "concat (map2 (\<lambda>x l. sep_keys (fst x) @ leaf_keys l) (take j xs) (take j ls))"
  let ?B = "concat (map2 (\<lambda>x l. sep_keys (fst x) @ leaf_keys l) (drop (Suc j) xs) (drop (Suc j) ls))"
  have "concat (map2 (\<lambda>x l. sep_keys (fst x) @ leaf_keys l) xs ls) =
      (?A @ sep_keys (fst (xs ! j))) @ leaf_keys (ls ! j) @ ?B"
    using keys_split [OF len(2,1), of "ls ! j"] by simp
  then have s: "sorted (?A @ sep_keys (fst (xs ! j)))" "sorted ?B" using srt by (simp_all add: sorted_append)
  show "\<forall>y \<in> set (?A @ sep_keys (fst (xs ! j))). y \<le> kv"
  proof (cases j)
    case 0
    then show ?thesis using first by (simp add: sep_keys_def)
  next
    case (Suc i)
    then obtain v where v: "sep_keys (fst (xs ! j)) = [v]"
      using seps [of j] len by (cases "fst (xs ! j)") (auto simp: sep_keys_def)
    then have "v \<le> kv" using lo by (simp add: key_le_iff)
    with v s(1) show ?thesis using sorted_last_le [of ?A v kv] by simp
  qed
  show "\<forall>y \<in> set ?B. kv \<le> y"
  proof (cases "Suc j < length ls")
    case True
    then obtain v where v: "sep_keys (fst (xs ! Suc j)) = [v]" "kv \<le> v" using hi by (auto simp: key_ge_iff)
    have "drop (Suc j) xs = xs ! Suc j # drop (Suc (Suc j)) xs" "drop (Suc j) ls = ls ! Suc j # drop (Suc (Suc j)) ls"
      using True len by (simp_all add: Cons_nth_drop_Suc)
    then obtain C where "?B = v # C" using v by simp
    with s(2) v show ?thesis by auto
  next
    case False
    then have "drop (Suc j) ls = []" by simp
    then show ?thesis by simp
  qed
qed

text \<open>Everything after the search: the leaf takes the tuple and is the one dirty page.\<close>

lemma btree_insert_run:
  assumes T: "tree_in_pool w T" and ord: "\<And>m. mset (w_order w m) = mset m"
    and key: "getField t (bf_keyField (tr_btree T)) = Inr (IntField kv)"
    and j: "j < length (tr_leaves T)"
      "bt_findLeafPage (Suc (Suc n)) (Some (bp_pid (tr_root T))) False (Some (IntField kv))
         (w\<lparr>w_dirtypages := []\<rparr>) = Inr (tr_addrs T ! j, w\<lparr>w_dirtypages := []\<rparr>)"
    and room: "leaf_getNumEmptySlots (tr_leaves T ! j) \<noteq> 0"
    and ins: "leaf_insertTuple (tr_leaves T ! j) t = Inr (t', q)"
  shows "BTreeFile_insertTuple (Suc (Suc n)) (tr_file T) tid t w = Inr ((t', [tr_addrs T ! j]),
    w\<lparr>w_dirtypages := [(bp_pid (tr_leaves T ! j), tr_addrs T ! j)],
      w_objs := (w_objs w)[tr_addrs T ! j := (w_objs w ! (tr_addrs T ! j))\<lparr>po_page := LeafPg q\<rparr>]\<rparr>)"
proof -
  note t = T [unfolded tree_in_pool_def]
  have l: "leaf_resident w (tr_addrs T ! j) (tr_leaves T ! j)" using t j(1) by (auto simp: list_all2_conv_all_nth)
  let ?w = "w\<lparr>w_dirtypages := []\<rparr>"
  have find: "bindM (bt_findLeafPage (Suc (Suc n)) (Some (bp_pid (tr_root T))) False (Some (IntField kv))) k ?w =
      k (tr_addrs T ! j) ?w" for k :: "nat \<Rightarrow> (tuple \<times> nat list) M"
    using j(2) by (simp add: bindM_def)
  have root: "bindM (getRootPtrPage (tr_file T)) k ?w = k (tr_ptr T) ?w" for k :: "nat \<Rightarrow> (tuple \<times> nat list) M"
    using t by (simp add: getRootPtrPage_def bindM_assoc bt_getPage_resident run_root_at run_btree)
  have "mset (w_order w [(bp_pid (tr_leaves T ! j), tr_addrs T ! j)]) = {#(bp_pid (tr_leaves T ! j), tr_addrs T ! j)#}"
    using ord by simp
  then have o1: "w_order w [(bp_pid (tr_leaves T ! j), tr_addrs T ! j)] = [(bp_pid (tr_leaves T ! j), tr_addrs T ! j)]"
    by (metis mset_single_iff_right)
  show ?thesis
    using t l key room ins
    by (simp add: BTreeFile_insertTuple_def root find run_root_at run_btree id_at_def bindM_assoc bt_getPage_resident
        leaf_resident_def run_leaf_at dirty_pages_def o1 del: bt_findLeafPage.simps)
qed

lemma chained_update:
  assumes "chained ls" "j < length ls" "bp_pid q = bp_pid (ls ! j)" "getRightSiblingId q = getRightSiblingId (ls ! j)"
  shows "chained (ls[j := q])"
  using assms
proof (induction ls arbitrary: j rule: chained.induct)
  case (3 l m ls)
  show ?case
  proof (cases j)
    case 0
    with "3.prems" show ?thesis by simp
  next
    case (Suc i)
    then have "chained ((m # ls)[i := q])" using "3.IH" [of i] "3.prems" by simp
    with "3.prems" Suc show ?thesis by (cases i) auto
  qed
qed auto

text \<open>The tree after its leaf at \<open>j\<close> has taken a tuple.\<close>

definition tree_update :: "btree_pages \<Rightarrow> nat \<Rightarrow> leaf_page \<Rightarrow> btree_pages" where
  "tree_update T j q = T\<lparr>tr_leaves := (tr_leaves T)[j := q]\<rparr>"

lemma tree_update_in_pool:
  assumes T: "tree_in_pool w T" and j: "j < length (tr_leaves T)"
    and q: "leaf_ok q" "leaf_frame (tr_leaves T ! j) q"
    and w': "w_files w' = w_files w" "w_pool w' = w_pool w"
      "w_objs w' = (w_objs w)[tr_addrs T ! j := \<lparr>po_dirty = d, po_page = LeafPg q\<rparr>]"
  shows "tree_in_pool w' (tree_update T j q)"
proof -
  note t = T [unfolded tree_in_pool_def]
  let ?a = "tr_addrs T ! j"
  have l: "leaf_resident w ?a (tr_leaves T ! j)" using t j by (auto simp: list_all2_conv_all_nth)
  have ne: "tr_ptr T \<noteq> ?a" "tr_raddr T \<noteq> ?a" using t l by (auto simp: leaf_resident_def)
  note fr = leaf_frame_simps [OF q(2)]
  have "getRightSiblingId q = getRightSiblingId (tr_leaves T ! j)"
    using fr by (simp add: getRightSiblingId_def)
  then have "chained ((tr_leaves T)[j := q])" using t j fr by (intro chained_update) auto
  moreover have "list_all2 (leaf_resident w') (tr_addrs T) ((tr_leaves T)[j := q])"
    using t j l q(1) fr w' tree_lengths(2) [OF T]
    by (auto simp: list_all2_conv_all_nth leaf_resident_def nth_list_update nth_eq_iff_index_eq)
  moreover have "map bp_pid ((tr_leaves T)[j := q]) = map bp_pid (tr_leaves T)"
    using fr j by (metis list_update_id map_update nth_map)
  moreover have "\<forall>l \<in> set ((tr_leaves T)[j := q]). bp_keyField l = bf_keyField (tr_btree T) \<and> bp_td l = bf_td (tr_btree T)"
    using t j fr nth_mem [OF j] by (auto dest!: set_update_subset_insert [THEN subsetD])
  ultimately show ?thesis
    using t ne w' by (simp add: tree_in_pool_def tree_update_def)
qed

lemma tree_same: "tree_in_pool w T \<Longrightarrow> tree_in_pool (w\<lparr>w_dirtypages := m\<rparr>) T"
proof -
  have "leaf_resident (w\<lparr>w_dirtypages := m\<rparr>) = leaf_resident w" by (simp add: leaf_resident_def fun_eq_iff)
  then show "tree_in_pool w T \<Longrightarrow> tree_in_pool (w\<lparr>w_dirtypages := m\<rparr>) T" by (simp add: tree_in_pool_def)
qed

lemma int_keys_present:
  assumes "int_ok p" "x \<in> set (somes (drop 1 (int_view p)))"
  shows "\<exists>v. fst x = Some (IntField v)"
proof -
  have "Some x \<in> set (drop 1 (int_view p))" using assms(2) by (simp add: set_somes)
  then obtain i where i: "Suc i < np_numSlots p" "int_view p ! Suc i = Some x"
    by (auto simp: in_set_conv_nth less_diff_conv)
  then have "int_isSlotUsed p (Suc i)" "x = (np_keys p ! Suc i, np_children p ! Suc i)"
    by (auto simp: int_view_nth split: if_splits)
  with assms(1) i(1) show ?thesis by (simp add: int_ok_def)
qed

lemma root_pairs:
  assumes "tree_in_pool w T"
  obtains c0 where "int_pairs (tr_root T) = (None, c0) # somes (drop 1 (int_view (tr_root T)))"
proof -
  have "int_ok (tr_root T)" "int_isSlotUsed (tr_root T) 0" "int_isSlotUsed (tr_root T) 1"
    using assms by (auto simp: tree_in_pool_def)
  from int_begin_spec [OF this] that show ?thesis by blast
qed

lemma root_key_first: "tree_in_pool w T \<Longrightarrow> fst (int_pairs (tr_root T) ! 0) = None"
  by (metis root_pairs fst_conv nth_Cons_0)

text \<open>Inserting a key between its neighbours keeps the keys of the tree sorted.\<close>

lemma tree_keys_update:
  assumes T: "tree_in_pool w T" and srt: "sorted (tree_keys T)" and j: "j < length (tr_leaves T)"
    and lo: "key_le (fst (int_pairs (tr_root T) ! j)) (key_of (bf_keyField (tr_btree T)) t)"
    and hi: "Suc j < length (tr_leaves T) \<longrightarrow>
      key_ge (fst (int_pairs (tr_root T) ! Suc j)) (key_of (bf_keyField (tr_btree T)) t)"
    and q: "leaf_frame (tr_leaves T ! j) q"
      "leaf_tuples q = ins_tuple (bf_keyField (tr_btree T)) (strip t) (leaf_tuples (tr_leaves T ! j))"
  shows "sorted (tree_keys (tree_update T j q))"
proof -
  let ?k = "bf_keyField (tr_btree T)" and ?l = "tr_leaves T ! j"
  let ?xs = "int_pairs (tr_root T)" and ?ls = "tr_leaves T"
  note len = tree_lengths(1) [OF T]
  have lk: "bp_keyField ?l = ?k" "bp_keyField q = ?k"
    using T j nth_mem [OF j] leaf_frame_simps [OF q(1)] by (auto simp: tree_in_pool_def)
  have ok: "int_ok (tr_root T)" using T by (simp add: tree_in_pool_def)
  from root_pairs [OF T] obtain c0 where xs: "?xs = (None, c0) # somes (drop 1 (int_view (tr_root T)))" .
  have seps: "sep_keys (fst (?xs ! i)) \<noteq> []" if i: "0 < i" "i < length ?xs" for i
  proof -
    have "?xs ! i \<in> set (somes (drop 1 (int_view (tr_root T))))"
      using i xs by (cases i) auto
    from int_keys_present [OF ok this] show ?thesis by (auto simp: sep_keys_def)
  qed
  have fst0: "fst (?xs ! 0) = None" using xs by simp
  note around = keys_around [OF len j srt [unfolded tree_keys_def] fst0 seps lo hi [rule_format]]
  have srt': "sorted ((concat (map2 (\<lambda>x l. sep_keys (fst x) @ leaf_keys l) (take j ?xs) (take j ?ls)) @ sep_keys (fst (?xs ! j)))
      @ leaf_keys ?l @ concat (map2 (\<lambda>x l. sep_keys (fst x) @ leaf_keys l) (drop (Suc j) ?xs) (drop (Suc j) ?ls)))"
    using srt keys_split [OF j len, of ?l] by (simp add: tree_keys_def)
  have "leaf_keys q = map (key_of ?k) (ins_tuple ?k (strip t) (leaf_tuples ?l))"
    by (simp add: leaf_keys_def lk q(2))
  moreover have "sorted (map (key_of ?k) (leaf_tuples ?l))" using srt' lk by (simp add: sorted_append leaf_keys_def)
  ultimately have "sorted (leaf_keys q)" "set (leaf_keys q) \<subseteq> insert (key_of ?k t) (set (leaf_keys ?l))"
    by (auto simp: sorted_ins_tuple leaf_keys_def lk)
  from sorted_mid_replace [OF srt' this around] show ?thesis
    unfolding tree_keys_def tree_update_def keys_split [OF j len, of q, symmetric] by simp
qed

text \<open>The leaf that the search finds for a tuple, and the keys around it.\<close>

lemma btree_target:
  assumes T: "tree_in_pool w T" and fit: "fits (bf_td (tr_btree T)) t"
  obtains kv j where "getField t (bf_keyField (tr_btree T)) = Inr (IntField kv)"
    "key_of (bf_keyField (tr_btree T)) t = sint kv" "j < length (tr_leaves T)"
    "bt_findLeafPage (Suc (Suc n)) (Some (bp_pid (tr_root T))) False (Some (IntField kv)) (w\<lparr>w_dirtypages := []\<rparr>)
        = Inr (tr_addrs T ! j, w\<lparr>w_dirtypages := []\<rparr>)"
    "key_le (fst (int_pairs (tr_root T) ! j)) (sint kv)"
    "Suc j < length (tr_leaves T) \<longrightarrow> key_ge (fst (int_pairs (tr_root T) ! Suc j)) (sint kv)"
    "leaf_resident w (tr_addrs T ! j) (tr_leaves T ! j)" "bp_keyField (tr_leaves T ! j) = bf_keyField (tr_btree T)"
    "bp_td (tr_leaves T ! j) = bf_td (tr_btree T)"
proof -
  note t = T [unfolded tree_in_pool_def]
  let ?k = "bf_keyField (tr_btree T)" and ?td = "bf_td (tr_btree T)"
  from root_pairs [OF T] obtain c0 where "int_pairs (tr_root T) = (None, c0) # somes (drop 1 (int_view (tr_root T)))" .
  then have l0: "0 < length (tr_leaves T)" using tree_lengths(1) [OF T] by (cases "tr_leaves T") auto
  have leaf: "leaf_resident w (tr_addrs T ! j) (tr_leaves T ! j)" "bp_keyField (tr_leaves T ! j) = ?k"
      "bp_td (tr_leaves T ! j) = ?td" if "j < length (tr_leaves T)" for j
    using t that by (auto simp: list_all2_conv_all_nth)
  have k: "0 \<le> ?k" "nat ?k < numFields ?td" using leaf [OF l0] by (auto simp: leaf_resident_def leaf_ok_def)
  obtain kv where kv: "getField t ?k = Inr (IntField kv)" "key_of ?k t = sint kv"
    using key_of_fits [OF fit k] by auto
  obtain j where j: "j < length (tr_leaves T)"
      "bt_findLeafPage (Suc (Suc n)) (Some (bp_pid (tr_root T))) False (Some (IntField kv)) (w\<lparr>w_dirtypages := []\<rparr>)
        = Inr (tr_addrs T ! j, w\<lparr>w_dirtypages := []\<rparr>)"
      "\<forall>i. 0 < i \<and> i \<le> j \<longrightarrow> \<not> key_ge (fst (int_pairs (tr_root T) ! i)) (sint kv)"
      "Suc j < length (tr_leaves T) \<longrightarrow> key_ge (fst (int_pairs (tr_root T) ! Suc j)) (sint kv)"
    using bt_findLeaf_resident(1) [of "w\<lparr>w_dirtypages := []\<rparr>" T n kv] tree_same [OF T] by auto
  have "key_le (fst (int_pairs (tr_root T) ! j)) (sint kv)"
    using j(3) root_key_first [OF T] by (cases "j = 0") (auto simp: key_le_def [of None] intro!: not_key_ge)
  with that kv j leaf [OF j(1)] show ?thesis by blast
qed

lemma btree_insert_at:
  assumes T: "tree_in_pool w T" and ord: "\<And>m. mset (w_order w m) = mset m" and srt: "sorted (tree_keys T)"
    and db: "getDatabaseFile (w_catalog w) (bf_tableid (tr_btree T)) = Inr (tr_file T)"
    and fit: "fits (bf_td (tr_btree T)) t"
    and kv: "getField t (bf_keyField (tr_btree T)) = Inr (IntField kv)" "key_of (bf_keyField (tr_btree T)) t = sint kv"
    and j: "j < length (tr_leaves T)"
      "bt_findLeafPage (Suc (Suc n)) (Some (bp_pid (tr_root T))) False (Some (IntField kv)) (w\<lparr>w_dirtypages := []\<rparr>)
        = Inr (tr_addrs T ! j, w\<lparr>w_dirtypages := []\<rparr>)"
      "key_le (fst (int_pairs (tr_root T) ! j)) (sint kv)"
      "Suc j < length (tr_leaves T) \<longrightarrow> key_ge (fst (int_pairs (tr_root T) ! Suc j)) (sint kv)"
      "leaf_resident w (tr_addrs T ! j) (tr_leaves T ! j)" "bp_keyField (tr_leaves T ! j) = bf_keyField (tr_btree T)"
      "bp_td (tr_leaves T ! j) = bf_td (tr_btree T)"
    and room: "0 < leaf_getNumEmptySlots (tr_leaves T ! j)"
  shows "\<exists>t' q w'. strip t' = strip t \<and>
    bp_insertTuple (Suc (Suc n)) tid (bf_tableid (tr_btree T)) t w = Inr (t', w') \<and>
    w' = w\<lparr>w_dirtypages := w_dirtypages w', w_objs := w_objs w'\<rparr> \<and>
    w_objs w' = (w_objs w)[tr_addrs T ! j := \<lparr>po_dirty = Some tid, po_page = LeafPg q\<rparr>] \<and>
    tree_in_pool w' (tree_update T j q) \<and> sorted (tree_keys (tree_update T j q)) \<and>
    leaf_ok q \<and> leaf_frame (tr_leaves T ! j) q \<and>
    leaf_tuples q = ins_tuple (bf_keyField (tr_btree T)) (strip t) (leaf_tuples (tr_leaves T ! j)) \<and>
    mset (tree_tuples (tree_update T j q)) = add_mset (strip t) (mset (tree_tuples T))"
proof -
  note t = T [unfolded tree_in_pool_def]
  let ?k = "bf_keyField (tr_btree T)" and ?td = "bf_td (tr_btree T)"
  let ?l = "tr_leaves T ! j" and ?a = "tr_addrs T ! j"
  have lk: "bp_keyField ?l = ?k" "bp_td ?l = ?td" "leaf_ok ?l" using j(5-7) by (auto simp: leaf_resident_def)
  obtain g q where q: "leaf_insertTuple ?l t = Inr (setRecordId t (Some \<lparr>rid_pid = bp_pid ?l, rid_tupleno = int g\<rparr>), q)"
      "leaf_ok q" "leaf_frame ?l q" "leaf_tuples q = ins_tuple ?k (strip t) (leaf_tuples ?l)"
    using leaf_insert_spec [OF lk(3), of t] fit lk room by auto
  let ?t = "setRecordId t (Some \<lparr>rid_pid = bp_pid ?l, rid_tupleno = int g\<rparr>)"
  let ?w1 = "w\<lparr>w_dirtypages := [(bp_pid ?l, ?a)], w_objs := (w_objs w)[?a := (w_objs w ! ?a)\<lparr>po_page := LeafPg q\<rparr>]\<rparr>"
  let ?w2 = "?w1\<lparr>w_objs := (w_objs w)[?a := \<lparr>po_dirty = Some tid, po_page = LeafPg q\<rparr>]\<rparr>"
  have ran: "BTreeFile_insertTuple (Suc (Suc n)) (tr_file T) tid t w = Inr ((?t, [?a]), ?w1)"
    using btree_insert_run [OF T ord kv(1) j(1,2) _ q(1)] room by simp
  have "pool_add_dirty tid [?a] ?w1 = Inr ((), ?w2)"
    using j(5) leaf_frame_simps [OF q(3)] pool_add_dirty_hit [of ?a ?w1 tid]
    by (simp add: leaf_resident_def del: pool_add_dirty.simps)
  then have "bp_insertTuple (Suc (Suc n)) tid (bf_tableid (tr_btree T)) t w = Inr (?t, ?w2)"
    using db t ran by (simp add: bp_insertTuple_def file_insertTuple_def bindM_def db_getDatabaseFile_def
        del: pool_add_dirty.simps)
  moreover have "tree_in_pool ?w2 (tree_update T j q)"
    using tree_update_in_pool [OF T j(1) q(2,3), of ?w2] by simp
  moreover have "mset (tree_tuples (tree_update T j q)) = add_mset (strip t) (mset (tree_tuples T))"
    using mset_concat_update [OF j(1), of leaf_tuples q "strip t"] q(4) by (simp add: tree_tuples_def tree_update_def)
  moreover have "sorted (tree_keys (tree_update T j q))"
    using j(3,4) kv(2) by (intro tree_keys_update [OF T srt j(1) _ _ q(3,4)]) auto
  ultimately show ?thesis using q(2-4) by (intro exI [of _ ?t] exI [of _ q] exI [of _ ?w2]) simp
qed

section \<open>Scanning a tree\<close>

lemma btree_scan_run:
  assumes T: "tree_in_pool w T" and ne: "\<And>l. l \<in> set (tr_leaves T) \<Longrightarrow> leaf_tuples l \<noteq> []"
    and k: "length (tree_tuples T) < k"
  shows "\<exists>ts. btree_scan (Suc (Suc n)) k None (tr_file T) w = Inr (ts, w) \<and> map strip ts = tree_tuples T \<and>
    (\<forall>t \<in> set ts. \<exists>l \<in> set (tr_leaves T). leaf_holds l t)"
proof -
  note t = T [unfolded tree_in_pool_def]
  from root_pairs [OF T] obtain c0 where "int_pairs (tr_root T) = (None, c0) # somes (drop 1 (int_view (tr_root T)))" .
  then obtain l ls where ls: "tr_leaves T = l # ls" using tree_lengths(1) [OF T] by (cases "tr_leaves T") auto
  then obtain a as where as: "tr_addrs T = a # as" and a: "leaf_resident w a l" using t by (auto simp: list_all2_Cons2)
  have "findLeafPage (Suc (Suc n)) (Some (bp_pid (tr_root T))) False None w = Inr (a, w)"
    using bt_findLeaf_resident(2) [OF tree_same [OF T, of "[]"], of n] as
    by (simp add: findLeafPage_def bindM_def del: bt_findLeafPage.simps)
  then have "bindM (findLeafPage (Suc (Suc n)) (Some (bp_pid (tr_root T))) False None) m w = m a w"
    for m :: "nat \<Rightarrow> btree_iter M" by (simp add: bindM_def)
  then have "BTreeIterable_begin (Suc (Suc n)) None (tr_file T) w =
      Inr (on_leaf (tr_file T) None a (leaf_next_used l 0), w)"
    using t a by (simp add: BTreeIterable_begin_def BTreeFileIterator_new_def run_btree run_root_at run_leaf_at
        getPage_hit leaf_resident_def leaf_begin_on on_leaf_def)
  moreover have "BTreeIterable_end (Suc (Suc n)) None (tr_file T) w =
      Inr (\<lparr>bi_file = tr_file T, bi_pred = None, bi_leaf = None, bi_it = None\<rparr>, w)"
    by (simp add: BTreeIterable_end_def BTreeFileIterator_new_def)
  moreover have "leaf_next_used l 0 < lp_numSlots l" using ne [of l] ls leaf_next_used_nonempty by simp
  then obtain ts where "bti_collect k (on_leaf (tr_file T) None a (leaf_next_used l 0))
      \<lparr>bi_file = tr_file T, bi_pred = None, bi_leaf = None, bi_it = None\<rparr> w = Inr (ts, w)"
      "map strip ts = tree_tuples T" "\<forall>t \<in> set ts. \<exists>l \<in> set (tr_leaves T). leaf_holds l t"
    using bti_collect_chain [of "\<lparr>bi_file = tr_file T, bi_pred = None, bi_leaf = None, bi_it = None\<rparr>" w
        "tr_addrs T" "tr_leaves T" 0 k "tr_file T" None] t k ne ls as
    by (auto simp: tree_tuples_def simp flip: leaf_tuples_def)
  ultimately show ?thesis by (simp add: btree_scan_def bindM_def)
qed

section \<open>Deletion and the reuse of pages\<close>

text \<open>Without an advancing iterator the loop over the parent's entries makes no progress.\<close>

lemma find_siblings_stuck:
  assumes "int_iter_ne it ite" "int_iter_deref parent it = Inr e" "e_left e = Some l" "e_right e = Some r"
    "\<not> pid_eq l pid"
  shows "find_siblings n parent pid it ite le = Inl OutOfFuel"
  using assms by (induction n arbitrary: le) auto

section \<open>Properties\<close>

text \<open>
  The examples: table 7 is a B+ tree file on its only column, with a root of two leaves around
  the key 10, all of them in the pool; each leaf has a free slot.
\<close>

definition tree_example_leaf :: "int \<Rightarrow> i32 \<Rightarrow> int \<Rightarrow> int \<Rightarrow> leaf_page" where
  "tree_example_leaf n v left right =
     \<lparr>bp_pid = BTreePageId 7 n LEAF, bp_td = leaf_example_td, bp_keyField = 0, bp_parent = 3,
      lp_header = [1], lp_tuples = [leaf_example_tuple v (Some \<lparr>rid_pid = BTreePageId 7 n LEAF, rid_tupleno = 0\<rparr>),
        Tuple_default], lp_numSlots = 2, lp_leftSibling = left, lp_rightSibling = right\<rparr>"

definition tree_example :: btree_pages where
  "tree_example = \<lparr>tr_file = 0, tr_btree = \<lparr>bf_tableid = 7, bf_td = leaf_example_td, bf_keyField = 0, bf_disk = [0]\<rparr>,
     tr_ptr = 0, tr_rootptr = \<lparr>rt_pid = BTreePageId 7 0 ROOT_PTR, rt_root = 3, rt_header = 0, rt_category = INTERNAL\<rparr>,
     tr_raddr = 1, tr_root = int_example 3, tr_addrs = [2, 3],
     tr_leaves = [tree_example_leaf 4 8 0 5, tree_example_leaf 5 12 4 0]\<rparr>"

definition tree_world :: world where
  "tree_world = pool_example0\<lparr>w_numPages := 9,
     w_pool := [(BTreePageId 7 0 ROOT_PTR, 0), (BTreePageId 7 3 INTERNAL, 1), (BTreePageId 7 4 LEAF, 2),
       (BTreePageId 7 5 LEAF, 3)],
     w_objs := [\<lparr>po_dirty = None, po_page = RootPg (tr_rootptr tree_example)\<rparr>,
       \<lparr>po_dirty = None, po_page = IntPg (int_example 3)\<rparr>,
       \<lparr>po_dirty = None, po_page = LeafPg (tree_example_leaf 4 8 0 5)\<rparr>,
       \<lparr>po_dirty = None, po_page = LeafPg (tree_example_leaf 5 12 4 0)\<rparr>],
     w_files := [BTreeF (tr_btree tree_example)]\<rparr>"

lemma tree_example_leaf_simps [simp]:
  "bp_pid (tree_example_leaf n v l r) = BTreePageId 7 n LEAF" "bp_td (tree_example_leaf n v l r) = leaf_example_td"
  "bp_keyField (tree_example_leaf n v l r) = 0" "lp_numSlots (tree_example_leaf n v l r) = 2"
  "getRightSiblingId (tree_example_leaf n v l r) = (if r = 0 then None else Some (BTreePageId 7 r LEAF))"
  by (simp_all add: tree_example_leaf_def getRightSiblingId_def)

lemma tree_example_leaf_used: "leaf_isSlotUsed (tree_example_leaf n v l r) i \<longleftrightarrow> i = 0" if "i < 2"
  using that by (cases i) (auto simp: tree_example_leaf_def leaf_isSlotUsed_def mod_used_def)

lemma tree_example_leaf_view:
  "leaf_view (tree_example_leaf n v l r) = [Some (strip (leaf_example_tuple v None)), None]"
  "leaf_tuples (tree_example_leaf n v l r) = [strip (leaf_example_tuple v None)]"
  using tree_example_leaf_used [of 0 n v l r] tree_example_leaf_used [of 1 n v l r]
  by (auto simp: leaf_tuples_def leaf_view_def upt_rec tree_example_leaf_def strip_def leaf_example_tuple_def)

lemma tree_example_leaf_empty: "leaf_getNumEmptySlots (tree_example_leaf n v l r) = 1"
  using leaf_occupancy [of "tree_example_leaf n v l r"] by (simp add: tree_example_leaf_view)

lemma tree_example_leaf_ok: "leaf_ok (tree_example_leaf n v l r)"
proof -
  have "numFields leaf_example_td = 1" by code_simp
  then show ?thesis
    using tree_example_leaf_used [of _ n v l r] leaf_example_fits
    by (auto simp: leaf_ok_def) (auto simp: tree_example_leaf_def leaf_example_tuple_def)
qed

lemma int_example_pairs: "int_pairs (int_example 3) = [(None, 4), (Some (IntField 10), 5)]"
  by code_simp

lemma int_example_slots: "int_isSlotUsed (int_example 3) 0" "int_isSlotUsed (int_example 3) 1"
  by code_simp+

lemma int_example_more [simp]:
  "bp_pid (int_example h) = BTreePageId 7 3 INTERNAL" "np_childCategory (int_example h) = LEAF"
  by (simp_all add: int_example_def)

lemma tree_example_in_pool: "tree_in_pool tree_world tree_example"
  using int_example_slots int_example_pairs
  by (simp add: tree_in_pool_def tree_example_def tree_world_def rootptr_getId_def getRootId_def int_example_ok
      int_child_def leaf_resident_def tree_example_leaf_ok)

lemma tree_example_keys: "tree_keys tree_example = [8, 10, 12]"
proof -
  have "key_of 0 (strip (leaf_example_tuple v None)) = sint v" for v
    by (simp add: key_of_def getField_def leaf_example_tuple_def strip_def)
  then show ?thesis
    by (simp add: tree_keys_def tree_example_def int_example_pairs sep_keys_def leaf_keys_def tree_example_leaf_view)
qed

text \<open>C5
  Inserting through the pool into a B+ tree of two levels none of whose leaves is full: exactly
  one leaf changes and is marked dirty; it takes the tuple after all its tuples whose key is not
  greater. The tree stays well-formed and linked, its keys, with those of the root between those
  of the leaves, stay sorted, and it holds exactly the new tuple more. A recursion depth of two is
  enough.
\<close>

theorem btree_insert_refines:
  assumes "tree_in_pool w T" "\<And>m. mset (w_order w m) = mset m" "sorted (tree_keys T)"
    "getDatabaseFile (w_catalog w) (bf_tableid (tr_btree T)) = Inr (tr_file T)"
    "fits (bf_td (tr_btree T)) t" "\<And>l. l \<in> set (tr_leaves T) \<Longrightarrow> 0 < leaf_getNumEmptySlots l"
  shows "\<exists>j t' q w'. j < length (tr_leaves T) \<and> strip t' = strip t \<and>
    bp_insertTuple (Suc (Suc n)) tid (bf_tableid (tr_btree T)) t w = Inr (t', w') \<and>
    w_pool w' = w_pool w \<and> w_files w' = w_files w \<and>
    w_objs w' = (w_objs w)[tr_addrs T ! j := \<lparr>po_dirty = Some tid, po_page = LeafPg q\<rparr>] \<and>
    tree_in_pool w' (tree_update T j q) \<and> sorted (tree_keys (tree_update T j q)) \<and>
    leaf_tuples q = ins_tuple (bf_keyField (tr_btree T)) (strip t) (leaf_tuples (tr_leaves T ! j)) \<and>
    mset (tree_tuples (tree_update T j q)) = add_mset (strip t) (mset (tree_tuples T))"
proof -
  obtain kv j where kv: "getField t (bf_keyField (tr_btree T)) = Inr (IntField kv)"
      "key_of (bf_keyField (tr_btree T)) t = sint kv" and j: "j < length (tr_leaves T)"
      "bt_findLeafPage (Suc (Suc n)) (Some (bp_pid (tr_root T))) False (Some (IntField kv)) (w\<lparr>w_dirtypages := []\<rparr>)
        = Inr (tr_addrs T ! j, w\<lparr>w_dirtypages := []\<rparr>)"
      "key_le (fst (int_pairs (tr_root T) ! j)) (sint kv)"
      "Suc j < length (tr_leaves T) \<longrightarrow> key_ge (fst (int_pairs (tr_root T) ! Suc j)) (sint kv)"
      "leaf_resident w (tr_addrs T ! j) (tr_leaves T ! j)" "bp_keyField (tr_leaves T ! j) = bf_keyField (tr_btree T)"
      "bp_td (tr_leaves T ! j) = bf_td (tr_btree T)"
    using btree_target [OF assms(1,5), of n] .
  have room: "0 < leaf_getNumEmptySlots (tr_leaves T ! j)" using assms(6) j(1) by simp
  from btree_insert_at [OF assms(1-5) kv j room, of tid] obtain t' q w' where
    "strip t' = strip t" "bp_insertTuple (Suc (Suc n)) tid (bf_tableid (tr_btree T)) t w = Inr (t', w')"
    "w' = w\<lparr>w_dirtypages := w_dirtypages w', w_objs := w_objs w'\<rparr>"
    "w_objs w' = (w_objs w)[tr_addrs T ! j := \<lparr>po_dirty = Some tid, po_page = LeafPg q\<rparr>]"
    "tree_in_pool w' (tree_update T j q)" "sorted (tree_keys (tree_update T j q))"
    "leaf_tuples q = ins_tuple (bf_keyField (tr_btree T)) (strip t) (leaf_tuples (tr_leaves T ! j))"
    "mset (tree_tuples (tree_update T j q)) = add_mset (strip t) (mset (tree_tuples T))" by blast
  moreover from arg_cong [OF this(3), of w_pool] arg_cong [OF this(3), of w_files]
  have "w_pool w' = w_pool w" "w_files w' = w_files w" by simp_all
  ultimately show ?thesis using j(1) by blast
qed

theorem btree_insert_refines_witness:
  "\<exists>t' w'. bp_insertTuple 2 9 7 (leaf_example_tuple 9 None) tree_world = Inr (t', w') \<and>
     w_pool w' = w_pool tree_world"
proof -
  have "fits (bf_td (tr_btree tree_example)) (leaf_example_tuple 9 None)"
    by (simp add: tree_example_def leaf_example_fits)
  moreover have "0 < leaf_getNumEmptySlots l" if "l \<in> set (tr_leaves tree_example)" for l
    using that by (auto simp: tree_example_def tree_example_leaf_empty)
  moreover have "getDatabaseFile (w_catalog tree_world) (bf_tableid (tr_btree tree_example)) = Inr (tr_file tree_example)"
    by (simp add: tree_world_def tree_example_def)
  moreover have "mset (w_order tree_world m) = mset m" for m by (simp add: tree_world_def)
  ultimately show ?thesis
    using btree_insert_refines [OF tree_example_in_pool, of "leaf_example_tuple 9 None" 0 9] tree_example_keys
    by (auto simp: numeral_2_eq_2 tree_example_def)
qed

text \<open>C12
  A scan of a B+ tree of two levels, a root page and leaves none of which is empty, all of them in
  the pool, returns exactly the tuples of the leaves, from left to right, each once, and changes
  nothing. When every leaf is sorted and the keys of the root separate neighbouring leaves, the
  result is sorted by the key. (A root that is a single leaf is a case of the theorems on whole
  files.)
\<close>

theorem btree_scan_sorted:
  assumes "tree_in_pool w T" "tree_ordered T" "\<And>l. l \<in> set (tr_leaves T) \<Longrightarrow> leaf_tuples l \<noteq> []"
    "length (tree_tuples T) < k"
  shows "\<exists>ts. btree_scan (Suc (Suc n)) k None (tr_file T) w = Inr (ts, w) \<and> map strip ts = tree_tuples T \<and>
    sorted (map (key_of (bf_keyField (tr_btree T))) ts)"
proof -
  obtain ts where ts: "btree_scan (Suc (Suc n)) k None (tr_file T) w = Inr (ts, w)" "map strip ts = tree_tuples T"
    using btree_scan_run [OF assms(1,3,4)] by blast
  have "map (key_of (bf_keyField (tr_btree T))) ts = map (key_of (bf_keyField (tr_btree T))) (map strip ts)"
    by (simp add: comp_def)
  with ts tree_ordered_sorted [OF assms(1-3)] show ?thesis by simp
qed

theorem btree_scan_sorted_witness:
  "\<exists>ts. btree_scan 2 3 None 0 tree_world = Inr (ts, tree_world) \<and>
     map strip ts = [strip (leaf_example_tuple 8 None), strip (leaf_example_tuple 12 None)] \<and> sorted (map (key_of 0) ts)"
proof -
  have "key_of 0 (strip (leaf_example_tuple v None)) = sint v" for v
    by (simp add: key_of_def getField_def leaf_example_tuple_def strip_def)
  then have ord: "tree_ordered tree_example"
    by (simp add: tree_ordered_def tree_example_def int_example_pairs leaf_keys_def leaf_sorted_def tree_example_leaf_view)
  have "leaf_tuples l \<noteq> []" if "l \<in> set (tr_leaves tree_example)" for l
    using that by (auto simp: tree_example_def tree_example_leaf_view)
  moreover have "tree_tuples tree_example = [strip (leaf_example_tuple 8 None), strip (leaf_example_tuple 12 None)]"
    by (simp add: tree_tuples_def tree_example_def tree_example_leaf_view)
  ultimately show ?thesis
    using btree_scan_sorted [OF tree_example_in_pool ord, of 3 0]
    by (auto simp: numeral_2_eq_2 tree_example_def)
qed

end
