(* ===== verification/BTreePagesSpec.thy ===== *)
theory BTreePagesSpec
  imports BTreeSpec
begin

text \<open>
  Header pages, the root pointer page and the bytes of B+ tree pages: the search for a free page,
  round trips, and the places where the layout of a page does not fit into the page.
\<close>

section \<open>The first free slot of a header page\<close>

text \<open>The reference: the first index of a range whose bit is not set, as the code encodes it.\<close>

definition slot_or_minus1 :: "nat option \<Rightarrow> int" where
  "slot_or_minus1 s = (case s of None \<Rightarrow> - 1 | Some i \<Rightarrow> int i)"

definition first_free_slot :: "byte list \<Rightarrow> nat \<Rightarrow> nat \<Rightarrow> nat option" where
  "first_free_slot h a b = List.find (\<lambda>i. \<not> mod_used h i) [a..<b]"

lemma slot_or_minus1_simps [simp]:
  "slot_or_minus1 None = - 1" "slot_or_minus1 (Some i) = int i"
  by (simp_all add: slot_or_minus1_def)

lemma slot_or_minus1_eq [simp]: "slot_or_minus1 s = - 1 \<longleftrightarrow> s = None"
  by (cases s) auto

lemma find_append:
  "List.find P (xs @ ys) = (case List.find P xs of None \<Rightarrow> List.find P ys | Some x \<Rightarrow> Some x)"
  by (induction xs) auto

lemma first_free_slot_empty [simp]: "b \<le> a \<Longrightarrow> first_free_slot h a b = None"
  by (simp add: first_free_slot_def)

lemma first_free_slot_step:
  "a < b \<Longrightarrow>
   first_free_slot h a b = (if mod_used h a then first_free_slot h (Suc a) b else Some a)"
  by (simp add: first_free_slot_def upt_rec)

lemma first_free_slot_append:
  "a \<le> b \<Longrightarrow> b \<le> c \<Longrightarrow>
   first_free_slot h a c =
     (case first_free_slot h a b of None \<Rightarrow> first_free_slot h b c | Some i \<Rightarrow> Some i)"
  using upt_add_eq_append [of a b "c - b"] by (simp add: first_free_slot_def find_append split: option.split)

lemma first_free_slot_Some:
  "first_free_slot h a b = Some i \<longleftrightarrow>
   a \<le> i \<and> i < b \<and> \<not> mod_used h i \<and> (\<forall>j. a \<le> j \<longrightarrow> j < i \<longrightarrow> mod_used h j)"
proof -
  have "first_free_slot h a b = Some i \<longleftrightarrow>
        (\<exists>k<b - a. \<not> mod_used h (a + k) \<and> i = a + k \<and> (\<forall>j<k. mod_used h (a + j)))"
    by (auto simp: first_free_slot_def find_Some_iff)
  also have "\<dots> \<longleftrightarrow> a \<le> i \<and> i < b \<and> \<not> mod_used h i \<and> (\<forall>j. a \<le> j \<longrightarrow> j < i \<longrightarrow> mod_used h j)"
    by (auto, metis add_less_cancel_left le_iff_add, metis diff_less_mono le_add_diff_inverse
        nat_add_left_cancel_less le_add1)
  finally show ?thesis .
qed

lemma first_free_slot_None:
  "first_free_slot h a b = None \<longleftrightarrow> (\<forall>j. a \<le> j \<longrightarrow> j < b \<longrightarrow> mod_used h j)"
  by (auto simp: first_free_slot_def find_None_iff)

lemma header_empty_bit_find:
  "i * 8 + j + n \<le> 8 * length (hd_header p) \<Longrightarrow>
   header_empty_bit p i j n =
     Inr (slot_or_minus1 (first_free_slot (hd_header p) (i * 8 + j) (i * 8 + j + n)))"
proof (induction n arbitrary: j)
  case (Suc n)
  have "nat (int (i * 8 + j)) = i * 8 + j" by simp
  then have "header_isSlotUsed p (int (i * 8 + j)) = Inr (mod_used (hd_header p) (i * 8 + j))"
    using Suc.prems by (simp add: header_isSlotUsed_def del: of_nat_add of_nat_mult)
  moreover have "header_empty_bit p i (Suc j) n =
      Inr (slot_or_minus1 (first_free_slot (hd_header p) (Suc (i * 8 + j)) (i * 8 + j + Suc n)))"
    using Suc.IH [of "Suc j"] Suc.prems by simp
  ultimately show ?case
    using first_free_slot_step [of "i * 8 + j" "i * 8 + j + Suc n" "hd_header p"]
    by (simp del: of_nat_add of_nat_mult)
qed simp

lemma header_empty_byte_find:
  "i + n \<le> length (hd_header p) \<Longrightarrow>
   header_empty_byte p i n =
     Inr (slot_or_minus1 (first_free_slot (hd_header p) (i * 8) ((i + n) * 8)))"
proof (induction n arbitrary: i)
  case (Suc n)
  have 1: "header_empty_bit p i 0 8 =
      Inr (slot_or_minus1 (first_free_slot (hd_header p) (i * 8) (i * 8 + 8)))"
    using header_empty_bit_find [of i 0 8 p] Suc.prems by simp
  have 2: "header_empty_byte p (Suc i) n =
      Inr (slot_or_minus1 (first_free_slot (hd_header p) (i * 8 + 8) ((i + Suc n) * 8)))"
    using Suc.IH [of "Suc i"] Suc.prems by (simp add: algebra_simps)
  show ?case
    using 1 2 first_free_slot_append [of "i * 8" "i * 8 + 8" "(i + Suc n) * 8" "hd_header p"]
    by (simp split: option.split)
qed simp


lemma header_getEmptySlot_find:
  "length (hd_header p) = header_getHeaderSize ps \<Longrightarrow>
   header_getEmptySlot ps p =
     Inr (slot_or_minus1 (first_free_slot (hd_header p) 0 (header_getNumSlots ps)))"
  using header_empty_byte_find [of 0 "header_getHeaderSize ps" p]
  by (simp add: header_getEmptySlot_def header_getNumSlots_def)

section \<open>A root pointer and a header page in the pool\<close>

text \<open>
  The B+ tree file \<open>f\<close> at position \<open>i\<close> whose root pointer page and first header page \<open>p\<close> are in
  the pool, the latter at address \<open>a\<close>.
\<close>

definition header_resident :: "world \<Rightarrow> nat \<Rightarrow> btree_file \<Rightarrow> nat \<Rightarrow> header_page \<Rightarrow> bool" where
  "header_resident w i f a p \<longleftrightarrow>
     i < length (w_files w) \<and> w_files w ! i = BTreeF f \<and> bf_disk f \<noteq> [] \<and>
     (\<exists>r q. pm_find (rootptr_getId (bf_tableid f)) (w_pool w) = Some r \<and> r < length (w_objs w) \<and>
       r \<noteq> a \<and> po_page (w_objs w ! r) = RootPg q \<and> getHeaderId q = Some (hd_pid p)) \<and>
     pm_find (hd_pid p) (w_pool w) = Some a \<and> a < length (w_objs w) \<and>
     po_page (w_objs w ! a) = HdrPg p \<and> length (hd_header p) = header_getHeaderSize (w_pageSize w)"

definition header_put :: "world \<Rightarrow> nat \<Rightarrow> header_page \<Rightarrow> world" where
  "header_put w a p =
     w\<lparr>w_dirtypages := pm_put (hd_pid p) a (w_dirtypages w),
       w_objs := (w_objs w)[a := (w_objs w ! a)\<lparr>po_page := HdrPg p\<rparr>]\<rparr>"

definition header_mark :: "header_page \<Rightarrow> nat \<Rightarrow> bool \<Rightarrow> header_page" where
  "header_mark p i v = p\<lparr>hd_header := mod_mark (hd_header p) i v\<rparr>"

lemma header_mark_simps [simp]:
  "hd_pid (header_mark p i v) = hd_pid p" "hd_next (header_mark p i v) = hd_next p"
  "hd_prev (header_mark p i v) = hd_prev p" "hd_numSlots (header_mark p i v) = hd_numSlots p"
  "length (hd_header (header_mark p i v)) = length (hd_header p)"
  "hd_header (header_mark p i v) = mod_mark (hd_header p) i v"
  by (simp_all add: header_mark_def modb.length_mark)

lemma header_slot_access:
  assumes "length (hd_header p) = header_getHeaderSize ps" "m < header_getNumSlots ps"
  shows "header_isSlotUsed p (int m) = Inr (mod_used (hd_header p) m)"
    and "header_markSlotUsed p (int m) v = Inr (header_mark p m v)"
  using assms by (simp_all add: header_isSlotUsed_def header_markSlotUsed_def header_mark_def header_getNumSlots_def)

lemma header_resident_put:
  assumes "header_resident w i f a p" "hd_pid q = hd_pid p" "length (hd_header q) = length (hd_header p)"
  shows "header_resident (header_put w a q) i f a q"
  using assms by (auto simp: header_resident_def header_put_def)

text \<open>A page number that the first header page covers: the slot is cleared, and nothing else changes.\<close>

lemma setEmptyPage_covered:
  assumes h: "header_resident w i f a p" and d: "w_dirtypages w = []" and m: "m < header_getNumSlots (w_pageSize w)"
  shows "setEmptyPage (Suc n) i (int m) w = Inr ((), header_put w a (header_mark p m False))"
proof -
  from h obtain r q where r: "pm_find (rootptr_getId (bf_tableid f)) (w_pool w) = Some r" "r < length (w_objs w)"
      "po_page (w_objs w ! r) = RootPg q" "getHeaderId q = Some (hd_pid p)"
    by (auto simp: header_resident_def)
  note h' = h [unfolded header_resident_def]
  have root: "bindM (getRootPtrPage i) k w = k r w" for k :: "nat \<Rightarrow> unit M"
    using h' r d by (simp add: getRootPtrPage_def bindM_assoc bt_getPage_resident)
  have "header_markSlotUsed p (int m) False = Inr (header_mark p m False)"
    using h' by (intro header_slot_access(2) [OF _ m]) simp
  then show ?thesis
    using h' r d m
    by (simp add: setEmptyPage_def root bt_getPage_resident bt_getPage_ptr_def bindM_assoc header_put_def)
qed

text \<open>The number just behind the range of the first header page is looked up in that page too.\<close>

lemma setEmptyPage_boundary:
  assumes h: "header_resident w i f a p" and d: "w_dirtypages w = []"
  shows "setEmptyPage (Suc n) i (int (header_getNumSlots (w_pageSize w))) w = Inl OutOfBounds"
proof -
  from h obtain r q where r: "pm_find (rootptr_getId (bf_tableid f)) (w_pool w) = Some r" "r < length (w_objs w)"
      "po_page (w_objs w ! r) = RootPg q" "getHeaderId q = Some (hd_pid p)"
    by (auto simp: header_resident_def)
  note h' = h [unfolded header_resident_def]
  have root: "bindM (getRootPtrPage i) k w = k r w" for k :: "nat \<Rightarrow> unit M"
    using h' r d by (simp add: getRootPtrPage_def bindM_assoc bt_getPage_resident)
  have "header_markSlotUsed p (int (header_getNumSlots (w_pageSize w))) False = Inl OutOfBounds"
    using h' by (simp add: header_markSlotUsed_def header_getNumSlots_def)
  then show ?thesis
    using h' r d
    by (simp add: setEmptyPage_def root bt_getPage_resident bt_getPage_ptr_def bindM_assoc)
qed

text \<open>The search for a free page when the first header page has one.\<close>

lemma getEmptyPageNo_first:
  assumes h: "header_resident w i f a p" and d: "w_dirtypages w = []"
    and m: "first_free_slot (hd_header p) 0 (header_getNumSlots (w_pageSize w)) = Some m"
  shows "getEmptyPageNo (Suc n) i w = Inr (int m, header_put w a (header_mark p m True))"
proof -
  from h obtain r q where r: "pm_find (rootptr_getId (bf_tableid f)) (w_pool w) = Some r" "r < length (w_objs w)"
      "po_page (w_objs w ! r) = RootPg q" "getHeaderId q = Some (hd_pid p)"
    by (auto simp: header_resident_def)
  note h' = h [unfolded header_resident_def]
  have root: "bindM (getRootPtrPage i) k w = k r w" for k :: "nat \<Rightarrow> int M"
    using h' r d by (simp add: getRootPtrPage_def bindM_assoc bt_getPage_resident)
  have e: "header_getEmptySlot (w_pageSize w) p = Inr (int m)"
    using header_getEmptySlot_find [of p "w_pageSize w"] h' m by simp
  have "m < header_getNumSlots (w_pageSize w)" using m by (auto simp: first_free_slot_Some)
  then have k: "header_markSlotUsed p (int m) True = Inr (header_mark p m True)"
    using h' by (intro header_slot_access(2)) auto
  show ?thesis
    using h' r d e k
    by (simp add: getEmptyPageNo_def root bt_getPage_resident bt_getPage_ptr_def bindM_assoc header_put_def)
qed


lemma header_resident_reset:
  "header_resident (w\<lparr>w_dirtypages := m\<rparr>) i f a p \<longleftrightarrow> header_resident w i f a p"
  by (simp add: header_resident_def)

lemma first_free_slot_cleared:
  assumes "length h * 8 = n" "m < n"
  shows "\<exists>k \<le> m. first_free_slot (mod_mark h m False) 0 n = Some k \<and>
    (k < m \<longrightarrow> \<not> mod_used h k) \<and> (\<forall>j < k. mod_used h j)"
proof -
  have u: "mod_used (mod_mark h m False) j = (if j = m then False else mod_used h j)" if "j < n" for j
    using assms that by (simp add: modb.used_mark)
  then have "first_free_slot (mod_mark h m False) 0 n \<noteq> None"
    using assms(2) by (auto simp: first_free_slot_None)
  then obtain k where k: "first_free_slot (mod_mark h m False) 0 n = Some k" by blast
  then have k': "k < n" "\<not> mod_used (mod_mark h m False) k" "\<forall>j < k. mod_used (mod_mark h m False) j"
    by (auto simp: first_free_slot_Some)
  have "k \<le> m"
  proof (rule ccontr)
    assume "\<not> k \<le> m"
    with k'(3) u [OF assms(2)] show False by simp
  qed
  moreover have "k < m \<longrightarrow> \<not> mod_used h k" using k' u by auto
  moreover have "mod_used h j" if "j < k" for j
    using k'(1,3) u [of j] that by (auto split: if_splits)
  ultimately show ?thesis using k by blast
qed

section \<open>The bytes of header pages and of the root pointer page\<close>

lemma header_page_bytes:
  assumes "8 \<le> ps" "length (hd_header p) = header_getHeaderSize ps"
  shows "header_getPageData ps p = Inr (int_bytes (hd_next p) @ int_bytes (hd_prev p) @ hd_header p)"
proof -
  have len: "length (hd_header p) = ps - 8" using assms by (simp add: header_getHeaderSize_def)
  have "buf_write 0 (int_bytes (hd_next p)) (replicate ps 0) = Inr (int_bytes (hd_next p) @ replicate (ps - 4) 0)"
    using assms(1) by (simp add: buf_write_def)
  moreover have "buf_write 4 (int_bytes (hd_prev p)) (int_bytes (hd_next p) @ replicate (ps - 4) 0) =
      Inr (int_bytes (hd_next p) @ int_bytes (hd_prev p) @ replicate (ps - 8) 0)"
    using assms(1) by (simp add: buf_write_def)
  moreover have "buf_write 8 (hd_header p) (int_bytes (hd_next p) @ int_bytes (hd_prev p) @ replicate (ps - 8) 0) =
      Inr (int_bytes (hd_next p) @ int_bytes (hd_prev p) @ hd_header p)"
    using assms(1) len by (simp add: buf_write_def)
  moreover have "buf_read 0 (header_getHeaderSize ps) (hd_header p) = Inr (hd_header p)"
    using assms(2) by (simp add: buf_read_def)
  ultimately show ?thesis by (simp add: header_getPageData_def header_createEmptyPageData_def)
qed

lemma header_page_read:
  assumes "is_int32 a" "is_int32 b" "length h = header_getHeaderSize ps"
  shows "BTreeHeaderPage_new ps pid (int_bytes a @ int_bytes b @ h) =
    Inr \<lparr>hd_pid = pid, hd_next = a, hd_prev = b, hd_header = h, hd_numSlots = header_getNumSlots ps\<rparr>"
proof -
  have "bytes_int (int_bytes a) = a" "bytes_int (int_bytes b) = b"
    using bytes_int_int_bytes [of a "[]"] bytes_int_int_bytes [of b "[]"] assms by simp_all
  with assms(3) show ?thesis by (simp add: BTreeHeaderPage_new_def buf_read_def)
qed

text \<open>The root pointer page never fits: four bytes at offset 8 of nine.\<close>

lemma rootptr_bytes: "rootptr_getPageData p = Inl OutOfBounds"
  by (simp add: rootptr_getPageData_def rootptr_createEmptyPageData_def ROOT_PAGE_SIZE_def buf_write_def)

lemma flush_rootptr:
  assumes "pm_find k (w_pool w) = Some a" "a < length (w_objs w)" "po_dirty (w_objs w ! a) \<noteq> None"
    "po_page (w_objs w ! a) = RootPg p" "getDatabaseFile (w_catalog w) (getTableId k) = Inr i"
    "i < length (w_files w)" "w_files w ! i = BTreeF f"
  shows "flushPage k w = Inl OutOfBounds"
proof -
  let ?v = "w\<lparr>w_objs := clean_obj (Some a) (w_objs w)\<rparr>"
  have "file_writePage i (RootPg p) ?v = Inl OutOfBounds"
    using assms by (simp add: file_writePage_def BTreeFile_writePage_def rootptr_bytes)
  with assms show ?thesis by (simp add: flushPage_run [OF assms(1-3,5)])
qed

section \<open>The bytes of a leaf page\<close>

text \<open>
  The tuples start behind the twelve bytes of the pointers and the header; the header size is
  computed without those twelve bytes. The first field of a tuple in a slot near the end of the
  page is written behind the page.
\<close>

lemma leaf_write_fields_overflow:
  assumes "0 < n" "getField t (int j) = Inr f" "length data < offset + length (field_serialize junk f)"
  shows "leaf_write_fields junk t j n offset data = Inl OutOfBounds"
  using assms by (cases n) (simp_all add: buf_write_def)

lemma leaf_write_fields_cases:
  assumes "\<And>k. k < j + n \<Longrightarrow> \<exists>f. getField t (int k) = Inr f"
  shows "leaf_write_fields junk t j n offset data = Inl OutOfBounds \<or>
    (\<exists>d. leaf_write_fields junk t j n offset data = Inr d \<and> length d = length data)"
  using assms
proof (induction n arbitrary: j data)
  case (Suc n)
  obtain f where f: "getField t (int j) = Inr f" using Suc.prems [of j] by auto
  show ?case
  proof (cases "buf_write offset (field_serialize junk f) data")
    case (Inl e)
    then have "e = OutOfBounds" by (auto simp: buf_write_def split: if_splits)
    with Inl f show ?thesis by simp
  next
    case (Inr d)
    with Suc.IH [of "Suc j" d] Suc.prems f show ?thesis by (auto dest: buf_write_length)
  qed
qed simp


lemma leaf_write_fields_fits:
  assumes "fits td t" "j + n \<le> numFields td" "offset + 4 \<le> length data"
  shows "\<exists>d. leaf_write_fields junk t j n offset data = Inr d \<and> length d = length data"
  using assms(2,3)
proof (induction n arbitrary: j data)
  case (Suc n)
  obtain v where v: "getField t (int j) = Inr (IntField v)"
    using getField_fits [OF assms(1), of "int j"] Suc.prems by auto
  have "buf_write offset (bytes_of_i32 v) data =
      Inr (take offset data @ bytes_of_i32 v @ drop (offset + 4) data)"
    using Suc.prems by (simp add: buf_write_def)
  moreover from buf_write_length [OF this]
  have "\<exists>d. leaf_write_fields junk t (Suc j) n offset (take offset data @ bytes_of_i32 v @ drop (offset + 4) data)
      = Inr d \<and> length d = length data"
    using Suc.IH [of "Suc j" "take offset data @ bytes_of_i32 v @ drop (offset + 4) data"] Suc.prems by simp
  ultimately show ?case using v by simp
qed simp

lemma leaf_write_slots_iff:
  assumes ok: "leaf_ok p" and "i + n \<le> lp_numSlots p"
  shows "(leaf_write_slots junk p i n offset data = Inl OutOfBounds \<longleftrightarrow>
      (\<exists>k < n. leaf_isSlotUsed p (i + k) \<and> length data < offset + k * getSize (bp_td p) + 4)) \<and>
    (leaf_write_slots junk p i n offset data \<noteq> Inl OutOfBounds \<longrightarrow>
      (\<exists>d. leaf_write_slots junk p i n offset data = Inr d \<and> length d = length data))"
  using assms(2)
proof (induction n arbitrary: i offset data)
  case (Suc n)
  let ?sz = "getSize (bp_td p)"
  have ex: "(\<exists>k < Suc n. leaf_isSlotUsed p (i + k) \<and> length data < offset + k * ?sz + 4) \<longleftrightarrow>
      leaf_isSlotUsed p i \<and> length data < offset + 4 \<or>
      (\<exists>k < n. leaf_isSlotUsed p (Suc i + k) \<and> length data < offset + ?sz + k * ?sz + 4)" for data :: "byte list"
    by (auto simp: Ex_less_Suc2 add.assoc)
  have step: "(leaf_write_slots junk p (Suc i) n (offset + ?sz) d = Inl OutOfBounds \<longleftrightarrow>
      (\<exists>k < n. leaf_isSlotUsed p (Suc i + k) \<and> length d < offset + ?sz + k * ?sz + 4)) \<and>
    (leaf_write_slots junk p (Suc i) n (offset + ?sz) d \<noteq> Inl OutOfBounds \<longrightarrow>
      (\<exists>e. leaf_write_slots junk p (Suc i) n (offset + ?sz) d = Inr e \<and> length e = length d))" for d
    using Suc.IH [of "Suc i" "offset + ?sz" d] Suc.prems by simp
  show ?case
  proof (cases "leaf_isSlotUsed p i")
    case False
    with step [of data] show ?thesis unfolding ex by simp
  next
    case True
    have i: "i < length (lp_tuples p)" "fits (bp_td p) (lp_tuples p ! i)" "0 < numFields (bp_td p)"
      using ok True Suc.prems by (auto simp: leaf_ok_def)
    show ?thesis
    proof (cases "offset + 4 \<le> length data")
      case fit: True
      from leaf_write_fields_fits [OF i(2) _ fit, of 0 "numFields (bp_td p)" junk] obtain d where
        "leaf_write_fields junk (lp_tuples p ! i) 0 (numFields (bp_td p)) offset data = Inr d" "length d = length data"
        by auto
      with step [of d] True i fit show ?thesis unfolding ex by simp
    next
      case False
      obtain v where "getField (lp_tuples p ! i) (int 0) = Inr (IntField v)"
        using getField_fits [OF i(2), of "int 0"] i(3) by auto
      from leaf_write_fields_overflow [OF i(3) this, of data offset junk] False
      have "leaf_write_fields junk (lp_tuples p ! i) 0 (numFields (bp_td p)) offset data = Inl OutOfBounds" by simp
      then show ?thesis unfolding ex using True i False by simp
    qed
  qed
qed simp_all

text \<open>The slots of a leaf page leave room for the pointers and one bit of header each.\<close>

lemma leaf_slots_fit: "12 \<le> ps \<Longrightarrow> ps < 2 ^ 60 \<Longrightarrow> getSize td * leaf_getMaxTuples ps td \<le> ps - 12"
proof -
  assume ps: "12 \<le> ps" "ps < 2 ^ 60"
  let ?m = "(8 * (ps - 12)) div (getSize td * 8 + 1)"
  have m: "leaf_getMaxTuples ps td = ?m"
  proof -
    have "(int ps - 12) * 8 = int (8 * (ps - 12))" using ps by simp
    then show ?thesis using ps by (simp add: leaf_getMaxTuples_def usize_def del: of_nat_mult)
  qed
  have "(getSize td * 8 + 1) * ?m \<le> 8 * (ps - 12)" by (rule times_div_less_eq_dividend)
  then have "8 * (getSize td * ?m) \<le> 8 * (ps - 12)" by (simp add: distrib_right mult.assoc mult.left_commute)
  then show ?thesis unfolding m by simp
qed

lemma leaf_page_fits:
  assumes ok: "leaf_ok p" and n: "lp_numSlots p = leaf_getMaxTuples ps (bp_td p)" and ps: "12 \<le> ps" "ps < 2 ^ 60"
    and h: "length (lp_header p) = leaf_getHeaderSize ps (bp_td p) (lp_numSlots p)"
    and t: "12 \<le> getSize (bp_td p) * lp_numSlots p"
  shows "leaf_getPageData junk ps p = Inl OutOfBounds \<longleftrightarrow>
      (\<exists>s < lp_numSlots p. leaf_isSlotUsed p s \<and> getSize (bp_td p) * (lp_numSlots p - s) < 16)"
    and "leaf_getPageData junk ps p \<noteq> Inl OutOfBounds \<Longrightarrow>
      \<exists>d. leaf_getPageData junk ps p = Inr d \<and> length d = ps"
proof -
  let ?sz = "getSize (bp_td p)" and ?n = "lp_numSlots p"
  have le: "?sz * ?n \<le> ps - 12" using leaf_slots_fit [OF ps] n by simp
  have hs: "leaf_getHeaderSize ps (bp_td p) ?n = ps - ?sz * ?n"
    using le ps by (simp add: leaf_getHeaderSize_def usize_def nat_diff_distrib flip: of_nat_diff of_nat_mult)
  have b: "\<exists>d. buf_write o' bs buf = Inr d \<and> length d = length buf" if "o' + length bs \<le> length buf"
    for o' and bs buf :: "byte list"
    using that by (simp add: buf_write_def)
  obtain d0 where d0: "buf_write 0 (int_bytes (bp_parent p)) (replicate ps 0) = Inr d0" "length d0 = ps"
    using b [of 0 "int_bytes (bp_parent p)" "replicate ps 0"] ps by auto
  obtain d1 where d1: "buf_write 4 (int_bytes (lp_leftSibling p)) d0 = Inr d1" "length d1 = ps"
    using b [of 4 "int_bytes (lp_leftSibling p)" d0] ps d0 by auto
  obtain d2 where d2: "buf_write 8 (int_bytes (lp_rightSibling p)) d1 = Inr d2" "length d2 = ps"
    using b [of 8 "int_bytes (lp_rightSibling p)" d1] ps d1 by auto
  obtain d3 where d3: "buf_write 12 (lp_header p) d2 = Inr d3" "length d3 = ps"
    using b [of 12 "lp_header p" d2] ps d2 h hs t le by fastforce
  have "buf_read 0 (ps - ?sz * ?n) (lp_header p) = Inr (lp_header p)"
    using h hs by (simp add: buf_read_def)
  then have eq: "leaf_getPageData junk ps p = leaf_write_slots junk p 0 ?n (12 + (ps - ?sz * ?n)) d3"
    using d0 d1 d2 d3 by (simp add: leaf_getPageData_def btree_createEmptyPageData_def hs)
  have "ps < 12 + (ps - ?sz * ?n) + k * ?sz + 4 \<longleftrightarrow> ?sz * (?n - k) < 16" if "k < ?n" for k
  proof -
    have "?sz * ?n = ?sz * k + ?sz * (?n - k)" using that by (simp flip: distrib_left)
    with le ps show ?thesis by (simp add: mult.commute) linarith
  qed
  then show "leaf_getPageData junk ps p = Inl OutOfBounds \<longleftrightarrow>
      (\<exists>s < ?n. leaf_isSlotUsed p s \<and> ?sz * (?n - s) < 16)"
    unfolding eq using leaf_write_slots_iff [OF ok, of 0 ?n junk _ d3] d3(2) by auto
  show "leaf_getPageData junk ps p \<noteq> Inl OutOfBounds \<Longrightarrow> \<exists>d. leaf_getPageData junk ps p = Inr d \<and> length d = ps"
    unfolding eq using leaf_write_slots_iff [OF ok, of 0 ?n junk _ d3] d3(2) by auto
qed


section \<open>Properties\<close>

text \<open>
  The examples: a B+ tree file with pages of nine bytes, whose header page describes eight pages,
  all of them used.
\<close>

definition header_example :: header_page where
  "header_example = \<lparr>hd_pid = BTreePageId 7 2 HEADER, hd_next = 0, hd_prev = 0, hd_header = [255], hd_numSlots = 8\<rparr>"

definition header_example_file :: btree_file where
  "header_example_file = \<lparr>bf_tableid = 7, bf_td = leaf_example_td, bf_keyField = 0, bf_disk = [0]\<rparr>"

definition header_example_root :: root_ptr_page where
  "header_example_root = \<lparr>rt_pid = BTreePageId 7 0 ROOT_PTR, rt_root = 1, rt_header = 2, rt_category = LEAF\<rparr>"

definition header_world :: world where
  "header_world = pool_example0\<lparr>w_pageSize := 9, w_numPages := 9,
     w_pool := [(BTreePageId 7 0 ROOT_PTR, 0), (BTreePageId 7 2 HEADER, 1)],
     w_objs := [\<lparr>po_dirty = Some 3, po_page = RootPg header_example_root\<rparr>,
       \<lparr>po_dirty = None, po_page = HdrPg header_example\<rparr>],
     w_files := [BTreeF header_example_file]\<rparr>"

lemma header_example_simps [simp]:
  "hd_pid header_example = BTreePageId 7 2 HEADER" "hd_header header_example = [255]"
  "hd_next header_example = 0" "hd_prev header_example = 0"
  "header_getHeaderSize 9 = 1" "header_getNumSlots 9 = 8" "w_pageSize header_world = 9"
  by (simp_all add: header_example_def header_getHeaderSize_def header_getNumSlots_def header_world_def)

lemma header_world_resident: "header_resident header_world 0 header_example_file 1 header_example"
  by (simp add: header_resident_def)
    (simp add: header_world_def header_example_file_def header_example_root_def header_example_def rootptr_getId_def
      getHeaderId_def)

lemma header_world_dirty [simp]: "w_dirtypages header_world = []"
  by (simp add: header_world_def pool_example0_def)

lemma header_example_used: "\<forall>j < 8. mod_used [255] j"
  by code_simp

text \<open>C32
  \<open>getEmptySlot\<close> of a header page returns the first slot whose bit is not set, or -1 when there is
  none: its two nested loops over bytes and bits are the linear search over the slots.
\<close>

theorem header_getEmptySlot_correct:
  assumes "length (hd_header p) = header_getHeaderSize ps"
  shows "header_getEmptySlot ps p =
      Inr (case List.find (\<lambda>i. \<not> mod_used (hd_header p) i) [0..<header_getNumSlots ps] of None \<Rightarrow> - 1 | Some i \<Rightarrow> int i)"
  using header_getEmptySlot_find [OF assms] by (simp add: slot_or_minus1_def first_free_slot_def)

theorem header_getEmptySlot_correct_witness:
  "header_getEmptySlot 9 (header_mark header_example 5 False) = Inr 5"
proof -
  have "List.find (\<lambda>i. \<not> mod_used (mod_mark [255] 5 False) i) [0..<8] = Some 5" by code_simp
  then show ?thesis
    using header_getEmptySlot_correct [of "header_mark header_example 5 False" 9] by (simp add: modb.length_mark)
qed

text \<open>C25
  A page number that the first header page of the file covers is freed by \<open>setEmptyPage\<close>: exactly its
  bit is cleared. The next request for a page, by a later operation, gets the least free page, which
  is the freed one when all pages before it are used, and marks it used.
\<close>

theorem freed_page_is_reused:
  assumes "header_resident w i f a p" "w_dirtypages w = []" "m < header_getNumSlots (w_pageSize w)"
    "\<forall>j < m. mod_used (hd_header p) j"
  shows "\<exists>w'. setEmptyPage (Suc n) i (int m) w = Inr ((), w') \<and>
    header_resident w' i f a (p\<lparr>hd_header := mod_mark (hd_header p) m False\<rparr>) \<and>
    (\<exists>w''. getEmptyPageNo (Suc n) i (w'\<lparr>w_dirtypages := []\<rparr>) = Inr (int m, w'') \<and>
      header_resident w'' i f a (p\<lparr>hd_header := mod_mark (mod_mark (hd_header p) m False) m True\<rparr>))"
proof -
  let ?q = "header_mark p m False"
  let ?w = "header_put w a ?q"
  let ?v = "?w\<lparr>w_dirtypages := []\<rparr>"
  have r: "header_resident ?w i f a ?q" using assms(1) by (rule header_resident_put) (simp_all add: modb.length_mark)
  then have v: "header_resident ?v i f a ?q" by (simp add: header_resident_reset)
  have "length (hd_header p) * 8 = header_getNumSlots (w_pageSize w)"
    using assms(1) by (simp add: header_resident_def header_getNumSlots_def)
  from first_free_slot_cleared [OF this assms(3)] assms(4)
  have "first_free_slot (hd_header ?q) 0 (header_getNumSlots (w_pageSize ?v)) = Some m"
    by (auto simp: header_put_def dest: le_neq_implies_less)
  from getEmptyPageNo_first [OF v _ this, of n]
  have "getEmptyPageNo (Suc n) i ?v = Inr (int m, header_put ?v a (header_mark ?q m True))" by simp
  moreover have "header_resident (header_put ?v a (header_mark ?q m True)) i f a (header_mark ?q m True)"
    using v by (rule header_resident_put) (simp_all add: modb.length_mark)
  ultimately show ?thesis
    using setEmptyPage_covered [OF assms(1-3), of n] r by (auto simp: header_mark_def)
qed

theorem freed_page_is_reused_witness:
  "\<exists>w'. setEmptyPage 1 0 3 header_world = Inr ((), w') \<and>
     (\<exists>w''. getEmptyPageNo 1 0 (w'\<lparr>w_dirtypages := []\<rparr>) = Inr (3, w''))"
  using freed_page_is_reused [OF header_world_resident, of 3 0] header_example_used by auto

text \<open>C26
  The page number just behind the range of the first header page, \<open>numSlots\<close>, is never freed: both
  loops of \<open>setEmptyPage\<close> compare with \<open><\<close>, so the first header page is used and its bitmap
  accessed behind its end.
\<close>

theorem setEmptyPage_off_by_one:
  assumes "header_resident w i f a p" "w_dirtypages w = []"
  shows "setEmptyPage (Suc n) i (int (header_getNumSlots (w_pageSize w))) w = Inl OutOfBounds"
  by (rule setEmptyPage_boundary [OF assms])

theorem setEmptyPage_off_by_one_witness:
  "setEmptyPage 1 0 8 header_world = Inl OutOfBounds"
  using setEmptyPage_off_by_one [OF header_world_resident, of 0] by simp

text \<open>C33
  Writing a header page and reading it back gives the same page, with its sibling pointers and its
  bitmap; the bytes fill the page exactly.
\<close>

theorem header_page_roundtrip:
  assumes "8 \<le> ps" "length (hd_header p) = header_getHeaderSize ps" "is_int32 (hd_next p)" "is_int32 (hd_prev p)"
    "hd_numSlots p = header_getNumSlots ps"
  shows "\<exists>d. header_getPageData ps p = Inr d \<and> length d = ps \<and> BTreeHeaderPage_new ps (hd_pid p) d = Inr p"
  using header_page_bytes [OF assms(1,2)] header_page_read [OF assms(3,4,2), of "hd_pid p"] assms
  by (simp add: header_getHeaderSize_def)

theorem header_page_roundtrip_witness:
  "\<exists>d. header_getPageData 9 header_example = Inr d \<and> BTreeHeaderPage_new 9 (BTreePageId 7 2 HEADER) d = Inr header_example"
proof -
  have "hd_numSlots header_example = header_getNumSlots 9" by (simp add: header_example_def)
  then show ?thesis using header_page_roundtrip [of 9 header_example] by (auto simp: is_int32_def)
qed

text \<open>C24
  A dirty root pointer page of a B+ tree file cannot be flushed: its four-byte category goes to
  offset 8 of a buffer of nine bytes.
\<close>

theorem rootptr_flush_out_of_bounds:
  assumes "pm_find k (w_pool w) = Some a" "a < length (w_objs w)" "po_dirty (w_objs w ! a) \<noteq> None"
    "po_page (w_objs w ! a) = RootPg p" "getDatabaseFile (w_catalog w) (getTableId k) = Inr i"
    "i < length (w_files w)" "w_files w ! i = BTreeF f"
  shows "flushPage k w = Inl OutOfBounds"
  by (rule flush_rootptr [OF assms])

theorem rootptr_flush_out_of_bounds_witness:
  "flushPage (BTreePageId 7 0 ROOT_PTR) header_world = Inl OutOfBounds"
proof -
  have "getDatabaseFile (w_catalog header_world) 7 = Inr 0" by (simp add: header_world_def)
  then show ?thesis
    using rootptr_flush_out_of_bounds [of "BTreePageId 7 0 ROOT_PTR" header_world 0 header_example_root 0 header_example_file]
    by (simp add: header_world_def)
qed

text \<open>C23
  The bytes of a leaf page fit into the page exactly when no tuple is stored in the last slots, those
  with less than 16 bytes of tuple space up to the end: the header size does not account for the
  twelve bytes of the page's pointers. When they fit, the result has the length of a page.
\<close>

theorem leaf_page_bounds:
  assumes "leaf_ok p" "lp_numSlots p = leaf_getMaxTuples ps (bp_td p)" "12 \<le> ps" "ps < 2 ^ 60"
    "length (lp_header p) = leaf_getHeaderSize ps (bp_td p) (lp_numSlots p)" "12 \<le> getSize (bp_td p) * lp_numSlots p"
  shows "case leaf_getPageData junk ps p of
      Inl e \<Rightarrow> e = OutOfBounds \<and> (\<exists>s < lp_numSlots p. leaf_isSlotUsed p s \<and> getSize (bp_td p) * (lp_numSlots p - s) < 16)
    | Inr d \<Rightarrow> length d = ps \<and> (\<forall>s < lp_numSlots p. leaf_isSlotUsed p s \<longrightarrow> 16 \<le> getSize (bp_td p) * (lp_numSlots p - s))"
  using leaf_page_fits [OF assms, of junk] by (cases "leaf_getPageData junk ps p") (auto simp: not_less)

definition full_leaf_example :: leaf_page where
  "full_leaf_example =
     \<lparr>bp_pid = BTreePageId 7 1 LEAF, bp_td = leaf_example_td, bp_keyField = 0, bp_parent = 0,
      lp_header = 1 # replicate 12 0,
      lp_tuples = [leaf_example_tuple 5 (Some \<lparr>rid_pid = BTreePageId 7 1 LEAF, rid_tupleno = 0\<rparr>),
        Tuple_default, Tuple_default], lp_numSlots = 3, lp_leftSibling = 0, lp_rightSibling = 0\<rparr>"

lemma full_leaf_example_ok: "leaf_ok full_leaf_example"
proof -
  have "leaf_isSlotUsed full_leaf_example i \<longleftrightarrow> i = 0" if "i < 3" for i
  proof -
    from that consider "i = 0" | "i = 1" | "i = 2" by linarith
    then show ?thesis by cases (simp_all add: leaf_isSlotUsed_def mod_used_def full_leaf_example_def)
  qed
  moreover have "numFields leaf_example_td = 1" by code_simp
  ultimately show ?thesis
    using leaf_example_fits
    by (auto simp: leaf_ok_def) (auto simp: full_leaf_example_def leaf_example_tuple_def)
qed

theorem leaf_page_bounds_witness:
  "\<exists>e. leaf_getPageData (\<lambda>_. 0) 25 full_leaf_example = Inl e"
proof -
  have s: "leaf_getMaxTuples 25 leaf_example_td = 3" "leaf_getHeaderSize 25 leaf_example_td 3 = 13"
      "getSize leaf_example_td = 4" by code_simp+
  have f: "lp_numSlots full_leaf_example = 3" "bp_td full_leaf_example = leaf_example_td"
      "length (lp_header full_leaf_example) = 13" by (simp_all add: full_leaf_example_def)
  have "leaf_isSlotUsed full_leaf_example 0"
    by (simp add: leaf_isSlotUsed_def mod_used_def full_leaf_example_def)
  then have "\<not> (\<forall>s < 3. leaf_isSlotUsed full_leaf_example s \<longrightarrow> 16 \<le> 4 * (3 - s))"
    by (auto intro!: exI [of _ 0])
  with f s leaf_page_bounds [OF full_leaf_example_ok, of 25 "\<lambda>_. 0"] show ?thesis
    by (cases "leaf_getPageData (\<lambda>_. 0) 25 full_leaf_example") simp_all
qed

end
