(* ===== verification/BTreeEmptySpec.thy ===== *)
theory BTreeEmptySpec
  imports BTreePagesSpec
begin

text \<open>
  The first insertion into an empty B+ tree file: \<open>getRootPtrPage\<close> lays out the file, and the
  insertion makes its second page the root, a leaf with the one tuple.
\<close>

section \<open>The pages of a file of zeros\<close>

lemma mod_used_zeros: "i < 8 * n \<Longrightarrow> \<not> mod_used (replicate n 0) i"
  by (simp add: mod_used_bit less_mult_imp_div_less mult.commute)

lemma leaf_readTuples_unused:
  "\<forall>s < i + n. \<not> mod_used header s \<Longrightarrow>
   leaf_readTuples junk td pid header data offset i n = Inr (replicate n Tuple_default)"
  by (induction n arbitrary: i offset) simp_all

definition empty_leaf :: "nat \<Rightarrow> tuple_desc \<Rightarrow> page_id \<Rightarrow> int \<Rightarrow> leaf_page" where
  "empty_leaf ps td pid key =
     (let n = leaf_getMaxTuples ps td in
      \<lparr>bp_pid = pid, bp_td = td, bp_keyField = key, bp_parent = 0, lp_header = replicate (ps - getSize td * n) 0,
       lp_tuples = replicate n Tuple_default, lp_numSlots = n, lp_leftSibling = 0, lp_rightSibling = 0\<rparr>)"

lemma empty_leaf_simps [simp]:
  "bp_pid (empty_leaf ps td pid key) = pid" "bp_td (empty_leaf ps td pid key) = td"
  "bp_keyField (empty_leaf ps td pid key) = key" "lp_numSlots (empty_leaf ps td pid key) = leaf_getMaxTuples ps td"
  "lp_header (empty_leaf ps td pid key) = replicate (ps - getSize td * leaf_getMaxTuples ps td) 0"
  "lp_tuples (empty_leaf ps td pid key) = replicate (leaf_getMaxTuples ps td) Tuple_default"
  by (simp_all add: empty_leaf_def Let_def)

text \<open>There is a header bit for every slot.\<close>

lemma leaf_header_bits:
  assumes "12 \<le> ps" "ps < 2 ^ 60"
  shows "leaf_getMaxTuples ps td \<le> 8 * (ps - getSize td * leaf_getMaxTuples ps td)"
proof -
  let ?m = "(8 * (ps - 12)) div (getSize td * 8 + 1)"
  have "(int ps - 12) * 8 = int (8 * (ps - 12))" using assms by simp
  then have m: "leaf_getMaxTuples ps td = ?m"
    using assms by (simp add: leaf_getMaxTuples_def usize_def del: of_nat_mult)
  have "(getSize td * 8 + 1) * ?m \<le> 8 * (ps - 12)" by (rule times_div_less_eq_dividend)
  then have "8 * (getSize td * ?m) + ?m \<le> 8 * (ps - 12)" by (simp add: distrib_right mult.assoc mult.left_commute)
  then show ?thesis unfolding m by linarith
qed

lemma leaf_headerSize_eq:
  assumes "12 \<le> ps" "ps < 2 ^ 60"
  shows "leaf_getHeaderSize ps td (leaf_getMaxTuples ps td) = ps - getSize td * leaf_getMaxTuples ps td"
  using leaf_slots_fit [OF assms, of td] assms
  by (simp add: leaf_getHeaderSize_def usize_def nat_diff_distrib flip: of_nat_diff of_nat_mult)

lemma empty_leaf_unused:
  assumes "12 \<le> ps" "ps < 2 ^ 60" "i < leaf_getMaxTuples ps td"
  shows "\<not> leaf_isSlotUsed (empty_leaf ps td pid key) i"
  unfolding leaf_isSlotUsed_def empty_leaf_simps
  by (rule mod_used_zeros) (use leaf_header_bits [OF assms(1,2), of td] assms(3) in linarith)

lemma empty_leaf_spec:
  assumes "12 \<le> ps" "ps < 2 ^ 60" "0 \<le> key" "nat key < numFields td"
  shows "leaf_ok (empty_leaf ps td pid key)" "leaf_tuples (empty_leaf ps td pid key) = []"
    "leaf_getNumEmptySlots (empty_leaf ps td pid key) = leaf_getMaxTuples ps td"
proof -
  note u = empty_leaf_unused [OF assms(1,2)]
  show "leaf_ok (empty_leaf ps td pid key)"
    using leaf_header_bits [OF assms(1,2), of td] u assms by (simp add: leaf_ok_def)
  have "x \<notin> set (leaf_tuples (empty_leaf ps td pid key))" for x
    using u by (auto simp: leaf_tuples_def set_somes leaf_view_def u simp del: set_empty)
  from this [of "hd (leaf_tuples (empty_leaf ps td pid key))"]
  show t: "leaf_tuples (empty_leaf ps td pid key) = []" by (meson hd_in_set)
  show "leaf_getNumEmptySlots (empty_leaf ps td pid key) = leaf_getMaxTuples ps td"
    using leaf_occupancy [of "empty_leaf ps td pid key"] t by simp
qed

lemma BTreeLeafPage_new_zeros:
  assumes "12 \<le> ps" "ps < 2 ^ 60" "12 \<le> getSize td * leaf_getMaxTuples ps td"
  shows "BTreeLeafPage_new junk ps td pid (replicate ps 0) key = Inr (empty_leaf ps td pid key)"
proof -
  let ?n = "leaf_getMaxTuples ps td"
  let ?hs = "ps - getSize td * ?n"
  have le: "12 + ?hs \<le> ps" using leaf_slots_fit [OF assms(1,2), of td] assms by linarith
  have "\<forall>s < 0 + ?n. \<not> mod_used (replicate ?hs 0) s"
    using leaf_header_bits [OF assms(1,2), of td] by (auto intro!: mod_used_zeros)
  from leaf_readTuples_unused [OF this]
  have "leaf_readTuples junk td pid (replicate ?hs 0) (drop (12 + ?hs) (replicate ps 0)) 0 0 ?n =
      Inr (replicate ?n Tuple_default)" by simp
  moreover have "buf_read o' k (replicate ps 0) = Inr (replicate k 0)" if "o' + k \<le> ps" for o' k
    using that by (simp add: buf_read_def)
  ultimately show ?thesis
    using le assms by (simp add: BTreeLeafPage_new_def leaf_headerSize_eq empty_leaf_def Let_def)
qed

section \<open>Creating the file\<close>

lemma fresh_disk:
  "disk_pwrite oapp 9 (replicate ps 0) (disk_pwrite oapp 0 (replicate 9 0) []) = replicate (9 + ps) 0"
  by (simp add: disk_pwrite_def disk_write_def replicate_add)

definition fresh_rootptr :: "(nat \<Rightarrow> byte) \<Rightarrow> int \<Rightarrow> root_ptr_page" where
  "fresh_rootptr junk t = \<lparr>rt_pid = rootptr_getId t, rt_root = 0, rt_header = 0,
     rt_category = page_type_of_int (bytes_int (0 # map junk [0..<3]))\<rparr>"

lemma BTreeRootPtrPage_new_zeros:
  "BTreeRootPtrPage_new junk (rootptr_getId t) (replicate 9 0) = Inr (fresh_rootptr junk t)"
proof -
  have "replicate 9 (0 :: byte) = replicate 8 0 @ [0]" by (simp add: numeral_eq_Suc)
  then have "buf_read 8 4 (replicate 9 0 @ map junk [0..<3]) = Inr (0 # map junk [0..<3])"
    by (simp add: buf_read_def)
  moreover have "buf_read 0 4 (replicate 9 (0 :: byte)) = Inr (replicate 4 0)"
      "buf_read 4 4 (replicate 9 (0 :: byte)) = Inr (replicate 4 0)" by (simp_all add: buf_read_def)
  ultimately show ?thesis by (simp add: BTreeRootPtrPage_new_def fresh_rootptr_def)
qed


text \<open>The two reads of the insertion: the root pointer page and the leaf behind it.\<close>

lemma read_fresh_rootptr:
  assumes "i < length (w_files w)" "w_files w ! i = BTreeF f" "bf_disk f = replicate (9 + ps) 0"
    "w_pageSize w = ps"
  shows "file_readPage i (rootptr_getId t) w = Inr (RootPg (fresh_rootptr (w_junk w) t), w)"
proof -
  have "disk_pread 0 9 (bf_disk f) = Inr (replicate 9 0)"
    using assms(3) by (simp add: disk_pread_def)
  then show ?thesis
    using assms(1,2) BTreeRootPtrPage_new_zeros [of "w_junk w" t]
    by (simp add: file_readPage_def BTreeFile_readPage_def ROOT_PAGE_SIZE_def rootptr_getId_def)
qed

lemma read_fresh_leaf:
  assumes "i < length (w_files w)" "w_files w ! i = BTreeF f" "bf_disk f = replicate (9 + ps) 0"
    "w_pageSize w = ps" "12 \<le> ps" "ps < 2 ^ 60" "12 \<le> getSize (bf_td f) * leaf_getMaxTuples ps (bf_td f)"
    "getDatabaseFile (w_catalog w) t = Inr i"
  shows "file_readPage i (BTreePageId t 1 LEAF) w =
    Inr (LeafPg (empty_leaf ps (bf_td f) (BTreePageId t 1 LEAF) (bf_keyField f)), w)"
proof -
  have "db_getTupleDesc t w = Inr (bf_td f, w)"
    using assms(2,8)
    by (auto simp: db_getTupleDesc_def catalog_getTupleDesc_def getDatabaseFile_def w_file_td_def split: option.splits)
  then have td: "bindM (db_getTupleDesc t) k w = k (bf_td f) w" for k :: "tuple_desc \<Rightarrow> page M"
    by (simp add: bindM_def)
  have "disk_pread (btree_offset ps 1) ps (bf_disk f) = Inr (replicate ps 0)"
    using assms(3) by (simp add: disk_pread_def btree_offset_def ROOT_PAGE_SIZE_def)
  then show ?thesis
    using assms(1,2,4) BTreeLeafPage_new_zeros [OF assms(5-7), of "w_junk w" "BTreePageId t 1 LEAF" "bf_keyField f"]
    by (simp add: file_readPage_def BTreeFile_readPage_def td)
qed

section \<open>The first insertion\<close>

lemma bt_getPage_load:
  assumes "pm_find pid (w_dirtypages w) = None" "pm_find pid (w_pool w) = None" "\<not> pool_full w"
    "getDatabaseFile (w_catalog w) (getTableId pid) = Inr i" "file_readPage i pid w = Inr (p, w)"
  shows "bt_getPage pid False w = Inr (length (w_objs w), w\<lparr>w_objs := w_objs w @ [\<lparr>po_dirty = None, po_page = p\<rparr>],
    w_pool := pm_put pid (length (w_objs w)) (w_pool w)\<rparr>)"
proof -
  have "bp_getPage pid w = Inr (length (w_objs w), w\<lparr>w_objs := w_objs w @ [\<lparr>po_dirty = None, po_page = p\<rparr>],
    w_pool := pm_put pid (length (w_objs w)) (w_pool w)\<rparr>)"
    using assms by (intro bp_getPage_run) simp_all
  with assms(1) show ?thesis by (simp add: bt_getPage_def bindM_def)
qed

lemma mset_pair_order:
  assumes "mset (g [x, y]) = mset [x, y]"
  shows "g [x, y] = [x, y] \<or> g [x, y] = [y, x]"
proof -
  have "length (g [x, y]) = 2" using assms by (metis mset_eq_length length_Cons list.size(3) numeral_2_eq_2)
  then obtain a b where g: "g [x, y] = [a, b]"
    by (metis (no_types, opaque_lifting) length_0_conv length_Suc_conv numeral_2_eq_2)
  with assms show ?thesis by (auto simp: add_eq_conv_ex)
qed

lemma first_insert_run:
  assumes i: "i < length (w_files w)" "w_files w ! i = BTreeF f" "bf_disk f = []"
    and cat: "getDatabaseFile (w_catalog w) (bf_tableid f) = Inr i"
    and pool: "w_pool w = []" "2 \<le> usize (w_numPages w)"
    and ps: "12 \<le> w_pageSize w" "w_pageSize w < 2 ^ 60"
      "12 \<le> getSize (bf_td f) * leaf_getMaxTuples (w_pageSize w) (bf_td f)"
    and key: "getField t (bf_keyField f) = Inr kv"
    and ins: "leaf_insertTuple (empty_leaf (w_pageSize w) (bf_td f) (BTreePageId (bf_tableid f) 1 LEAF) (bf_keyField f)) t =
        Inr (t', q)"
    and slots: "leaf_getNumEmptySlots (empty_leaf (w_pageSize w) (bf_td f) (BTreePageId (bf_tableid f) 1 LEAF) (bf_keyField f)) \<noteq> 0"
  defines "r \<equiv> rootptr_getId (bf_tableid f)" and "l \<equiv> BTreePageId (bf_tableid f) 1 LEAF" and "a \<equiv> length (w_objs w)"
  shows "BTreeFile_insertTuple (Suc n) i tid t w =
    (let w' = w\<lparr>w_files := (w_files w)[i := BTreeF (f\<lparr>bf_disk := replicate (9 + w_pageSize w) 0\<rparr>)],
           w_pool := [(r, a), (l, Suc a)], w_dirtypages := [(r, a), (l, Suc a)],
           w_objs := w_objs w @
             [\<lparr>po_dirty = None, po_page = RootPg ((fresh_rootptr (w_junk w) (bf_tableid f))\<lparr>rt_root := 1, rt_category := LEAF\<rparr>)\<rparr>,
              \<lparr>po_dirty = None, po_page = LeafPg q\<rparr>]\<rparr>
     in Inr ((t', map snd (w_order w [(r, a), (l, Suc a)])), w'))"
proof -
  let ?ps = "w_pageSize w"
  let ?f = "f\<lparr>bf_disk := replicate (9 + ?ps) 0\<rparr>"
  let ?w1 = "w\<lparr>w_dirtypages := [], w_files := (w_files w)[i := BTreeF ?f]\<rparr>"
  let ?rp = "fresh_rootptr (w_junk w) (bf_tableid f)"
  let ?rp' = "?rp\<lparr>rt_root := 1, rt_category := LEAF\<rparr>"
  let ?w2 = "?w1\<lparr>w_objs := w_objs w @ [\<lparr>po_dirty = None, po_page = RootPg ?rp\<rparr>], w_pool := [(r, a)]\<rparr>"
  let ?w3 = "w\<lparr>w_files := (w_files w)[i := BTreeF ?f], w_pool := [(r, a)], w_dirtypages := [(r, a)],
     w_objs := w_objs w @ [\<lparr>po_dirty = None, po_page = RootPg ?rp'\<rparr>]\<rparr>"
  let ?lf = "empty_leaf ?ps (bf_td f) l (bf_keyField f)"
  let ?w4 = "w\<lparr>w_files := (w_files w)[i := BTreeF ?f], w_dirtypages := [(r, a)],
     w_objs := w_objs w @ [\<lparr>po_dirty = None, po_page = RootPg ?rp'\<rparr>, \<lparr>po_dirty = None, po_page = LeafPg ?lf\<rparr>],
     w_pool := [(r, a), (l, Suc a)]\<rparr>"
  have rl: "\<not> pid_eq l r" "\<not> pid_eq r l" "pid_eq r r" "pid_eq l l"
    by (simp_all add: r_def l_def rootptr_getId_def)
  have i1: "i < length (w_files ?w1)" "w_files ?w1 ! i = BTreeF ?f" using i by simp_all
  have full: "\<not> pool_full v" if "w_numPages v = w_numPages w" "length (w_pool v) \<le> 1" for v
    using that pool(2) by (simp add: pool_full_def)
  have g1: "bt_getPage r False ?w1 = Inr (a, ?w2)"
  proof -
    have "file_readPage i r ?w1 = Inr (RootPg ?rp, ?w1)"
      using read_fresh_rootptr [OF i1, of ?ps "bf_tableid f"] by (simp add: r_def)
    moreover have "getTableId r = bf_tableid f" by (simp add: r_def rootptr_getId_def)
    ultimately show ?thesis
      using bt_getPage_load [of r ?w1 i "RootPg ?rp"] full [of ?w1] cat pool(1) by (simp add: a_def)
  qed
  have disk: "disk_pwrite oapp (int ROOT_PAGE_SIZE) (btree_createEmptyPageData ?ps)
      (disk_pwrite oapp 0 rootptr_createEmptyPageData []) = replicate (9 + ?ps) 0" for oapp
    using fresh_disk [of oapp ?ps]
    by (simp add: ROOT_PAGE_SIZE_def btree_createEmptyPageData_def rootptr_createEmptyPageData_def)
  from g1 have g1': "bindM (bt_getPage r False) k ?w1 = k a ?w2" for k :: "nat \<Rightarrow> nat M"
    by (rule bindM_apply(1))
  have root: "getRootPtrPage i (w\<lparr>w_dirtypages := []\<rparr>) = Inr (a, ?w2)"
    using i g1' by (simp add: getRootPtrPage_def bindM_assoc disk r_def [symmetric]) (simp add: a_def)
  have b2: "btree_at i ?w2 = Inr (?f, ?w2)" using i by simp
  have "c_div (int (9 + ?ps) - int ROOT_PAGE_SIZE) (int ?ps) = 1"
    using ps(1) by (simp add: c_div_def ROOT_PAGE_SIZE_def)
  then have np: "BTreeFile_getNumPages i ?w2 = Inr (1, ?w2)"
    using b2 i by (simp add: BTreeFile_getNumPages_def)
  have set_root: "setRootId ?rp (Some l) = Inr ?rp'"
    by (simp add: setRootId_def l_def fresh_rootptr_def rootptr_getId_def)
  have g3: "bt_getPage l False ?w3 = Inr (Suc a, ?w4)"
  proof -
    have "file_readPage i l ?w3 = Inr (LeafPg ?lf, ?w3)"
      using read_fresh_leaf [of i ?w3 ?f ?ps "bf_tableid f"] i cat ps by (simp add: l_def)
    moreover have "getTableId l = bf_tableid f" by (simp add: l_def)
    ultimately show ?thesis
      using bt_getPage_load [of l ?w3 i "LeafPg ?lf"] full [of ?w3] cat rl by (simp add: a_def)
  qed
  have leaf4: "leaf_at (Suc a) ?w4 = Inr (?lf, ?w4)" by (simp add: a_def nth_append)
  have find: "bt_findLeafPage (Suc n) (Some l) False (Some kv) ?w3 = Inr (Suc a, ?w4)"
    using g3 leaf4 by (simp add: l_def bindM_def)
  have root0: "getRootId ?rp = None" by (simp add: getRootId_def fresh_rootptr_def)
  have k: "bindM (getRootPtrPage i) k1 (w\<lparr>w_dirtypages := []\<rparr>) = k1 a ?w2"
      "bindM (BTreeFile_getNumPages i) k2 ?w2 = k2 1 ?w2"
      "bindM (bt_findLeafPage (Suc n) (Some l) False (Some kv)) k1 ?w3 = k1 (Suc a) ?w4"
    for k1 :: "nat \<Rightarrow> (tuple \<times> nat list) M" and k2 :: "int \<Rightarrow> (tuple \<times> nat list) M"
    by (rule bindM_apply(1), fact)+
  have nth: "(w_objs w @ [x, y]) ! a = x" "(w_objs w @ [x, y]) ! Suc a = y" "(w_objs w @ [x]) ! a = x" for x y
    by (simp_all add: a_def nth_append)
  have upd: "(w_objs w @ [x, y])[Suc a := z] = w_objs w @ [x, z]" "(w_objs w @ [x])[a := z] = w_objs w @ [z]" for x y z
    by (simp_all add: a_def list_update_append)
  have lt: "a < Suc (length (w_objs w))" "Suc a < Suc (Suc (length (w_objs w)))" by (simp_all add: a_def)
  show ?thesis
    using i rl nth upd lt ins slots key root0 set_root
    by (simp add: BTreeFile_insertTuple_def k root0 bt_getPage_resident id_at_def dirty_pages_def bindM_assoc
        l_def [symmetric] r_def [symmetric] del: bt_findLeafPage.simps)
qed


lemma pool_add_dirty_hit_Cons:
  assumes "a < length (w_objs w)" "pm_find (page_getId (po_page (w_objs w ! a))) (w_pool w) = Some a"
  shows "pool_add_dirty tid (a # as) w =
    pool_add_dirty tid as (w\<lparr>w_objs := (w_objs w)[a := (w_objs w ! a)\<lparr>po_dirty := Some tid\<rparr>]\<rparr>)"
  using assms by (simp add: pool_put_def pm_put_same Let_def)

text \<open>The two dirty pages may be enumerated in either order.\<close>

lemma pool_add_dirty_two:
  assumes "w_objs w = os @ [\<lparr>po_dirty = d, po_page = p\<rparr>, \<lparr>po_dirty = d', po_page = q\<rparr>]"
    "w_pool w = [(page_getId p, length os), (page_getId q, Suc (length os))]"
    "\<not> pid_eq (page_getId q) (page_getId p)" "no_skeleton (page_getId p)" "no_skeleton (page_getId q)"
    "as = [length os, Suc (length os)] \<or> as = [Suc (length os), length os]"
  shows "pool_add_dirty tid as w = Inr ((), w\<lparr>w_objs :=
    os @ [\<lparr>po_dirty = Some tid, po_page = p\<rparr>, \<lparr>po_dirty = Some tid, po_page = q\<rparr>]\<rparr>)"
  using assms(6)
proof
  assume as: "as = [length os, Suc (length os)]"
  show ?thesis
    using assms(1-5) by (simp add: as pool_add_dirty_hit_Cons nth_append list_update_append pid_eq_iff del: pool_add_dirty.simps(2))
next
  assume as: "as = [Suc (length os), length os]"
  show ?thesis
    using assms(1-5) by (simp add: as pool_add_dirty_hit_Cons nth_append list_update_append pid_eq_iff del: pool_add_dirty.simps(2))
qed

lemma first_insert_pool:
  assumes i: "i < length (w_files w)" "w_files w ! i = BTreeF f" "bf_disk f = []"
    "getDatabaseFile (w_catalog w) (bf_tableid f) = Inr i" and pool: "w_pool w = []" "2 \<le> usize (w_numPages w)"
    and ps: "12 \<le> w_pageSize w" "w_pageSize w < 2 ^ 60" "12 \<le> getSize (bf_td f) * leaf_getMaxTuples (w_pageSize w) (bf_td f)"
    and t: "fits (bf_td f) t" "0 \<le> bf_keyField f" "nat (bf_keyField f) < numFields (bf_td f)" and ord: "\<And>m. mset (w_order w m) = mset m"
  defines "l \<equiv> BTreePageId (bf_tableid f) 1 LEAF" and "a \<equiv> length (w_objs w)"
  defines "rp \<equiv> (fresh_rootptr (w_junk w) (bf_tableid f))\<lparr>rt_root := 1, rt_category := LEAF\<rparr>"
    and "d \<equiv> [(rootptr_getId (bf_tableid f), a), (l, Suc a)]"
  shows "\<exists>t' q. bp_insertTuple (Suc n) tid (bf_tableid f) t w = Inr (t', w\<lparr>
      w_files := (w_files w)[i := BTreeF (f\<lparr>bf_disk := replicate (9 + w_pageSize w) 0\<rparr>)], w_pool := d, w_dirtypages := d,
      w_objs := w_objs w @ [\<lparr>po_dirty = Some tid, po_page = RootPg rp\<rparr>, \<lparr>po_dirty = Some tid, po_page = LeafPg q\<rparr>]\<rparr>) \<and>
    strip t' = strip t \<and> leaf_ok q \<and> leaf_frame (empty_leaf (w_pageSize w) (bf_td f) l (bf_keyField f)) q \<and>
    leaf_tuples q = [strip t]"
proof -
  let ?lf = "empty_leaf (w_pageSize w) (bf_td f) l (bf_keyField f)"
  note e = empty_leaf_spec [OF ps(1,2) t(2,3), of l]
  have slots: "0 < leaf_getNumEmptySlots ?lf" using e(3) ps(3) by (cases "leaf_getMaxTuples (w_pageSize w) (bf_td f)") auto
  obtain t' q where q: "leaf_insertTuple ?lf t = Inr (t', q)" "strip t' = strip t" "leaf_ok q" "leaf_frame ?lf q"
      "leaf_tuples q = ins_tuple (bf_keyField f) (strip t) (leaf_tuples ?lf)"
    using leaf_insert_spec [OF e(1) _ slots, of t] t(1) by auto
  have pid: "bp_pid q = l" using leaf_frame_simps [OF q(4)] by simp
  obtain kv where kv: "getField t (bf_keyField f) = Inr kv" using getField_fits [OF t] by blast
  let ?w = "w\<lparr>w_files := (w_files w)[i := BTreeF (f\<lparr>bf_disk := replicate (9 + w_pageSize w) 0\<rparr>)],
     w_pool := d, w_dirtypages := d,
     w_objs := w_objs w @ [\<lparr>po_dirty = None, po_page = RootPg rp\<rparr>, \<lparr>po_dirty = None, po_page = LeafPg q\<rparr>]\<rparr>"
  have run: "BTreeFile_insertTuple (Suc n) i tid t w = Inr ((t', map snd (w_order w d)), ?w)"
    using first_insert_run [OF i pool ps kv q(1) [unfolded l_def], of n tid] slots by (simp add: Let_def d_def rp_def a_def l_def)
  have "map snd (w_order w d) = [a, Suc a] \<or> map snd (w_order w d) = [Suc a, a]"
    using mset_pair_order [of "w_order w" "(rootptr_getId (bf_tableid f), a)" "(l, Suc a)", OF ord]
    unfolding d_def by (elim disjE) simp_all
  then have "pool_add_dirty tid (map snd (w_order w d)) ?w = Inr ((), ?w\<lparr>w_objs := w_objs w @
      [\<lparr>po_dirty = Some tid, po_page = RootPg rp\<rparr>, \<lparr>po_dirty = Some tid, po_page = LeafPg q\<rparr>]\<rparr>)"
    using pid by (intro pool_add_dirty_two [where d = None and d' = None])
      (auto simp: fresh_rootptr_def rootptr_getId_def d_def rp_def a_def l_def)
  then have "bp_insertTuple (Suc n) tid (bf_tableid f) t w = Inr (t', ?w\<lparr>w_objs := w_objs w @
      [\<lparr>po_dirty = Some tid, po_page = RootPg rp\<rparr>, \<lparr>po_dirty = Some tid, po_page = LeafPg q\<rparr>]\<rparr>)"
    using i run by (simp add: bp_insertTuple_def db_getDatabaseFile_def file_insertTuple_def bindM_def)
  then show ?thesis using q e(2) by (intro exI [of _ t'] exI [of _ q]) (simp add: ins_tuple_def)
qed

section \<open>Property\<close>

text \<open>C15
  The first insertion into a B+ tree file that is empty, through a pool that is empty and has room
  for two pages: the file gets its root pointer page and one more page, the latter becomes the root,
  a leaf that holds exactly the tuple; both pages are in the pool, dirty, in whatever order the map
  of dirty pages is enumerated. This needs a page with at least twelve bytes of tuple slots.
\<close>

theorem btree_first_insert:
  assumes "i < length (w_files w)" "w_files w ! i = BTreeF f" "bf_disk f = []"
    "getDatabaseFile (w_catalog w) (bf_tableid f) = Inr i" "w_pool w = []" "2 \<le> w_numPages w" "is_int32 (w_numPages w)"
    "12 \<le> w_pageSize w" "w_pageSize w < 2 ^ 60" "12 \<le> getSize (bf_td f) * leaf_getMaxTuples (w_pageSize w) (bf_td f)"
    "fits (bf_td f) t" "0 \<le> bf_keyField f" "nat (bf_keyField f) < numFields (bf_td f)" "\<And>m. mset (w_order w m) = mset m"
  shows "\<exists>t' r q w'. bp_insertTuple (Suc n) tid (bf_tableid f) t w = Inr (t', w') \<and> strip t' = strip t \<and>
    w_objs w' = w_objs w @ [\<lparr>po_dirty = Some tid, po_page = RootPg r\<rparr>, \<lparr>po_dirty = Some tid, po_page = LeafPg q\<rparr>] \<and>
    w_pool w' = [(BTreePageId (bf_tableid f) 0 ROOT_PTR, length (w_objs w)), (bp_pid q, Suc (length (w_objs w)))] \<and>
    getRootId r = Some (bp_pid q) \<and> bp_pid q = BTreePageId (bf_tableid f) 1 LEAF \<and>
    leaf_ok q \<and> leaf_tuples q = [strip t] \<and>
    w_files w' = (w_files w)[i := BTreeF (f\<lparr>bf_disk := replicate (9 + w_pageSize w) 0\<rparr>)]"
proof -
  have room: "2 \<le> usize (w_numPages w)" using assms(6,7) by (simp add: is_int32_def)
  from first_insert_pool [OF assms(1-5) room assms(8-14), of n tid] obtain t' q where
    "bp_insertTuple (Suc n) tid (bf_tableid f) t w = Inr (t', w\<lparr>
      w_files := (w_files w)[i := BTreeF (f\<lparr>bf_disk := replicate (9 + w_pageSize w) 0\<rparr>)],
      w_pool := [(rootptr_getId (bf_tableid f), length (w_objs w)), (BTreePageId (bf_tableid f) 1 LEAF, Suc (length (w_objs w)))],
      w_dirtypages := [(rootptr_getId (bf_tableid f), length (w_objs w)), (BTreePageId (bf_tableid f) 1 LEAF, Suc (length (w_objs w)))],
      w_objs := w_objs w @ [\<lparr>po_dirty = Some tid, po_page = RootPg ((fresh_rootptr (w_junk w) (bf_tableid f))\<lparr>rt_root := 1, rt_category := LEAF\<rparr>)\<rparr>,
        \<lparr>po_dirty = Some tid, po_page = LeafPg q\<rparr>]\<rparr>)"
    and q: "strip t' = strip t" "leaf_ok q" "leaf_frame (empty_leaf (w_pageSize w) (bf_td f) (BTreePageId (bf_tableid f) 1 LEAF) (bf_keyField f)) q"
      "leaf_tuples q = [strip t]" by blast
  moreover have "bp_pid q = BTreePageId (bf_tableid f) 1 LEAF" using leaf_frame_simps [OF q(3)] by simp
  ultimately show ?thesis by (simp add: getRootId_def fresh_rootptr_def rootptr_getId_def)
qed

definition empty_tree_world :: world where
  "empty_tree_world = pool_example0\<lparr>w_pageSize := 40, w_numPages := 2, w_files := [BTreeF (BTreeFile_new 7 0 leaf_example_td)]\<rparr>"

theorem btree_first_insert_witness:
  "\<exists>t' w' q. bp_insertTuple 1 9 7 (leaf_example_tuple 5 None) empty_tree_world = Inr (t', w') \<and>
     po_page (last (w_objs w')) = LeafPg q \<and> leaf_tuples q = [strip (leaf_example_tuple 5 None)]"
proof -
  let ?f = "BTreeFile_new 7 0 leaf_example_td"
  have w: "w_files empty_tree_world = [BTreeF ?f]" "w_pool empty_tree_world = []" "w_numPages empty_tree_world = 2"
      "w_pageSize empty_tree_world = 40" "getDatabaseFile (w_catalog empty_tree_world) 7 = Inr 0"
      "w_order empty_tree_world = (\<lambda>m. m)"
    by (simp_all add: empty_tree_world_def)
  have s: "12 \<le> getSize leaf_example_td * leaf_getMaxTuples 40 leaf_example_td" "numFields leaf_example_td = 1" by code_simp+
  show ?thesis
    using btree_first_insert [of 0 empty_tree_world ?f "leaf_example_tuple 5 None" 0 9] w s leaf_example_fits
    by (auto simp: BTreeFile_new_def is_int32_def)
qed

end
