(* ===== verification/BTreeRun.thy ===== *)
theory BTreeRun
  imports BTreeEmptySpec
begin

text \<open>
  Running the operations of a B+ tree file that change several pages: a state is given by what
  the page objects hold and by the map of dirty pages, and an access is one rewrite step. On top
  of it, the parts of \<open>splitLeafPage\<close>: a fresh page from \<open>getEmptyPage\<close>, the loop that moves
  tuples from one leaf to another, and the marking of the dirty pages.
\<close>

section \<open>States by the content of the pages\<close>

text \<open>
  The state \<open>w\<close> with the page objects holding the pages \<open>g\<close> and the map of dirty pages \<open>m\<close>.
\<close>

definition with_pages :: "world \<Rightarrow> (nat \<Rightarrow> page) \<Rightarrow> pages_map \<Rightarrow> world" where
  "with_pages w g m = w\<lparr>w_dirtypages := m,
     w_objs := map (\<lambda>i. \<lparr>po_dirty = po_dirty (w_objs w ! i), po_page = g i\<rparr>) [0..<length (w_objs w)]\<rparr>"

definition pages_of :: "world \<Rightarrow> nat \<Rightarrow> page" where
  "pages_of w = (\<lambda>i. po_page (w_objs w ! i))"

lemma with_pages_self: "with_pages w (pages_of w) m = w\<lparr>w_dirtypages := m\<rparr>"
proof -
  have "map (\<lambda>i. \<lparr>po_dirty = po_dirty (w_objs w ! i), po_page = po_page (w_objs w ! i)\<rparr>) [0..<length (w_objs w)] = w_objs w"
    by (rule nth_equalityI) simp_all
  then show ?thesis by (simp add: with_pages_def pages_of_def)
qed

lemma with_pages_simps [simp]:
  "w_pool (with_pages w g m) = w_pool w" "w_files (with_pages w g m) = w_files w"
  "w_dirtypages (with_pages w g m) = m" "length (w_objs (with_pages w g m)) = length (w_objs w)"
  "w_pageSize (with_pages w g m) = w_pageSize w" "w_numPages (with_pages w g m) = w_numPages w"
  "w_catalog (with_pages w g m) = w_catalog w" "w_append (with_pages w g m) = w_append w"
  "w_junk (with_pages w g m) = w_junk w" "w_order (with_pages w g m) = w_order w"
  "pool_full (with_pages w g m) = pool_full w" "(with_pages w g m)\<lparr>w_dirtypages := m'\<rparr> = with_pages w g m'"
  "a < length (w_objs w) \<Longrightarrow> po_page (w_objs (with_pages w g m) ! a) = g a"
  by (simp_all add: with_pages_def pool_full_def)

lemma with_pages_cong:
  "(\<And>i. i < length (w_objs w) \<Longrightarrow> g i = g' i) \<Longrightarrow> with_pages w g m = with_pages w g' m"
  by (simp add: with_pages_def)

lemma with_pages_put [simp, run_simps]:
  assumes "a < length (w_objs w)"
  shows "put_page a p (with_pages w g m) = Inr ((), with_pages w (g(a := p)) m)"
    and "bindM (put_page a p) k (with_pages w g m) = k () (with_pages w (g(a := p)) m)"
proof -
  have "(w_objs (with_pages w g m))[a := (w_objs (with_pages w g m) ! a)\<lparr>po_page := p\<rparr>] =
      w_objs (with_pages w (g(a := p)) m)"
    using assms by (intro nth_equalityI) (auto simp: with_pages_def nth_list_update)
  with assms show r: "put_page a p (with_pages w g m) = Inr ((), with_pages w (g(a := p)) m)"
    by (simp add: with_pages_def)
  show "bindM (put_page a p) k (with_pages w g m) = k () (with_pages w (g(a := p)) m)"
    by (simp add: bindM_def r)
qed

lemma with_pages_getPage [run_simps]:
  assumes "pm_find i m = Some a \<or> pm_find i m = None \<and> pm_find i (w_pool w) = Some a"
  shows "bindM (bt_getPage i False) k (with_pages w g m) = k a (with_pages w g m)"
    and "bindM (bt_getPage i True) l (with_pages w g m) = l a (with_pages w g (if pm_find i m = None then pm_put i a m else m))"
  using assms by (auto simp: bt_getPage_def bindM_assoc getPage_hit)

text \<open>A page is found by its id, among the dirty pages or in the pool.\<close>

definition found :: "world \<Rightarrow> pages_map \<Rightarrow> page_id \<Rightarrow> nat \<Rightarrow> bool" where
  "found w m i a \<longleftrightarrow> a < length (w_objs w) \<and>
     (pm_find i m = Some a \<or> pm_find i m = None \<and> pm_find i (w_pool w) = Some a)"

lemma found_getPage:
  assumes "found w m i a"
  shows "bindM (bt_getPage i False) k (with_pages w g m) = k a (with_pages w g m)"
    and "bindM (bt_getPage i True) l (with_pages w g m) = l a (with_pages w g (if pm_find i m = None then pm_put i a m else m))"
  using assms with_pages_getPage [of i m a w] unfolding found_def by blast+

lemma with_pages_update [simp]:
  "(with_pages w g m)\<lparr>w_files := fs\<rparr> = with_pages (w\<lparr>w_files := fs\<rparr>) g m"
  "(with_pages w g m)\<lparr>w_pool := p\<rparr> = with_pages (w\<lparr>w_pool := p\<rparr>) g m"
  by (cases w, simp add: with_pages_def)+

text \<open>From here on a page is stored by \<open>with_pages_put\<close>.\<close>

declare run_object(4,8) [simp del]

section \<open>A fresh page\<close>

text \<open>
  What a file of a tree without header pages looks like behind its last page: nothing but zeros,
  and none of the page numbers is in the pool.
\<close>

definition disk_pages :: "nat \<Rightarrow> byte list \<Rightarrow> nat" where
  "disk_pages ps disk = (length disk - ROOT_PAGE_SIZE) div ps"

definition disk_fresh :: "world \<Rightarrow> btree_file \<Rightarrow> bool" where
  "disk_fresh w b \<longleftrightarrow>
     ROOT_PAGE_SIZE \<le> length (bf_disk b) \<and>
     (\<forall>x \<in> set (drop (ROOT_PAGE_SIZE + w_pageSize w * disk_pages (w_pageSize w) (bf_disk b)) (bf_disk b)). x = 0) \<and>
     (\<forall>n ty. int (disk_pages (w_pageSize w) (bf_disk b)) < n \<longrightarrow>
        pm_find (BTreePageId (bf_tableid b) n ty) (w_pool w) = None)"

text \<open>The file after \<open>getEmptyPage\<close>.\<close>

definition disk_grow :: "bool \<Rightarrow> nat \<Rightarrow> byte list \<Rightarrow> byte list" where
  "disk_grow oapp ps disk = disk @ replicate ps 0 @ (if oapp then replicate ROOT_PAGE_SIZE 0 else [])"

lemma drop_zeros: "(\<forall>x \<in> set (drop n xs). x = 0) \<longleftrightarrow> drop n xs = replicate (length xs - n) 0"
  by (metis length_drop replicate_length_same set_replicate_conv_if singletonD empty_iff)

lemma disk_pages_grow:
  assumes "ROOT_PAGE_SIZE \<le> length disk" "0 < ps"
  shows "disk_pages ps (disk @ replicate ps 0) = Suc (disk_pages ps disk)"
proof -
  have "length disk + ps - ROOT_PAGE_SIZE = (length disk - ROOT_PAGE_SIZE) + ps" using assms by simp
  moreover have "(x + ps) div ps = Suc (x div ps)" for x using assms(2) by (simp add: div_add_self2)
  ultimately show ?thesis by (simp only: disk_pages_def length_append length_replicate)
qed

lemma disk_pages_mono: "length d \<le> length d' \<Longrightarrow> disk_pages ps d \<le> disk_pages ps d'"
  by (simp add: disk_pages_def div_le_mono)

lemma disk_pages_le: "ROOT_PAGE_SIZE \<le> length d \<Longrightarrow> ROOT_PAGE_SIZE + ps * disk_pages ps d \<le> length d"
  unfolding disk_pages_def by (metis le_diff_conv2 add.commute times_div_less_eq_dividend)

lemma zeros_tail:
  assumes "drop k d = replicate (length d - k) 0" "k \<le> k'" "k' \<le> length d + n"
  shows "drop k' (d @ replicate n 0) = replicate (length d + n - k') (0 :: byte)"
proof -
  have "drop k' d = drop (k' - k) (drop k d)" using assms(2) by simp
  also have "\<dots> = replicate (length d - k - (k' - k)) 0" unfolding assms(1) by simp
  also have "length d - k - (k' - k) = length d - k'" using assms(2) by simp
  finally have "drop k' (d @ replicate n 0) = replicate (length d - k' + (n - (k' - length d))) 0"
    by (simp add: replicate_add)
  moreover have "length d - k' + (n - (k' - length d)) = length d + n - k'" using assms(3) by linarith
  ultimately show ?thesis by simp
qed

lemma fresh_page_bytes:
  assumes "disk_fresh w b" "12 \<le> w_pageSize w"
  defines "no \<equiv> int (Suc (disk_pages (w_pageSize w) (bf_disk b)))" and "ps \<equiv> w_pageSize w"
  shows "disk_pwrite oapp (btree_offset ps no) (replicate ROOT_PAGE_SIZE 0) (bf_disk b @ replicate ps 0) =
      disk_grow oapp ps (bf_disk b)"
    and "disk_pread (btree_offset ps no) ps (disk_grow oapp ps (bf_disk b)) = Inr (replicate ps 0)"
proof -
  let ?d = "bf_disk b"
  let ?k = "ROOT_PAGE_SIZE + ps * disk_pages ps ?d"
  have off: "btree_offset ps no = int ?k" by (simp add: btree_offset_def no_def ps_def)
  have len: "?k \<le> length ?d" using assms(1) by (intro disk_pages_le) (simp add: disk_fresh_def)
  have z: "drop ?k ?d = replicate (length ?d - ?k) 0" using assms(1) by (simp add: disk_fresh_def drop_zeros ps_def)
  note tail = zeros_tail [OF z]
  have t: "drop ?k (?d @ replicate ps 0) = replicate (length ?d + ps - ?k) 0"
    using len by (intro tail) simp_all
  have "?d @ replicate ps 0 = take ?k (?d @ replicate ps 0) @ replicate (length ?d + ps - ?k) 0"
    by (metis append_take_drop_id t)
  also have "length ?d + ps - ?k = ROOT_PAGE_SIZE + (length ?d + ps - (?k + ROOT_PAGE_SIZE))"
    using len assms(2) by (simp add: ps_def ROOT_PAGE_SIZE_def)
  also have "replicate \<dots> 0 = replicate ROOT_PAGE_SIZE 0 @ drop (?k + ROOT_PAGE_SIZE) (?d @ replicate ps 0)"
    using len assms(2) by (subst replicate_add, subst tail) (simp_all add: ps_def ROOT_PAGE_SIZE_def)
  finally have "disk_write ?k (replicate ROOT_PAGE_SIZE 0) (?d @ replicate ps 0) = ?d @ replicate ps 0"
    using len by (simp add: disk_write_def)
  then show "disk_pwrite oapp (btree_offset ps no) (replicate ROOT_PAGE_SIZE 0) (?d @ replicate ps 0) = disk_grow oapp ps ?d"
    unfolding off disk_pwrite_def disk_grow_def nat_int by (simp del: of_nat_add of_nat_mult)
  have "take ps (drop ?k (?d @ replicate ps 0 @ e)) = replicate ps 0" for e
  proof -
    have "drop ?k (?d @ replicate ps 0 @ e) = drop ?k (?d @ replicate ps 0) @ e" using len by simp
    also have "\<dots> = replicate (length ?d + ps - ?k) 0 @ e" unfolding t ..
    finally have "take ps (drop ?k (?d @ replicate ps 0 @ e)) = take ps (replicate (length ?d + ps - ?k) 0 @ e)" by simp
    then show ?thesis using len by (simp del: drop_append)
  qed
  from this [of "if oapp then replicate ROOT_PAGE_SIZE 0 else []"]
  show "disk_pread (btree_offset ps no) ps (disk_grow oapp ps ?d) = Inr (replicate ps 0)"
    unfolding off disk_pread_def disk_grow_def nat_int by (simp del: of_nat_add of_nat_mult)
qed

lemma disk_fresh_grow:
  assumes f: "disk_fresh w b" and ps: "12 \<le> w_pageSize w" and w': "w_pageSize w' = w_pageSize w"
    and b': "b' = b\<lparr>bf_disk := disk_grow oapp (w_pageSize w) (bf_disk b)\<rparr>"
    and pool: "w_pool w' = pm_put (BTreePageId (bf_tableid b) (int (Suc (disk_pages (w_pageSize w) (bf_disk b)))) ty) a (w_pool w)"
  shows "disk_fresh w' b'"
proof -
  let ?ps = "w_pageSize w" and ?d = "bf_disk b" and ?d' = "bf_disk b'"
  let ?k = "ROOT_PAGE_SIZE + ?ps * disk_pages ?ps ?d" and ?k' = "ROOT_PAGE_SIZE + ?ps * disk_pages ?ps ?d'"
  define n where "n = ?ps + (if oapp then ROOT_PAGE_SIZE else 0)"
  have d': "?d' = ?d @ replicate n 0" "?ps \<le> n" by (simp_all add: b' disk_grow_def n_def replicate_add)
  have len: "ROOT_PAGE_SIZE \<le> length ?d" using f by (simp add: disk_fresh_def)
  have "Suc (disk_pages ?ps ?d) = disk_pages ?ps (?d @ replicate ?ps 0)"
    using disk_pages_grow [OF len] ps by simp
  also have "\<dots> \<le> disk_pages ?ps ?d'" using d' by (intro disk_pages_mono) simp
  finally have more: "Suc (disk_pages ?ps ?d) \<le> disk_pages ?ps ?d'" .
  have z: "drop ?k ?d = replicate (length ?d - ?k) 0" using f by (simp add: disk_fresh_def drop_zeros)
  have "?k' \<le> length ?d'" using len d' by (intro disk_pages_le) simp
  then have "drop ?k' ?d' = replicate (length ?d + n - ?k') 0"
    using zeros_tail [OF z, of ?k' n] more d' by simp
  then have "\<forall>x \<in> set (drop ?k' ?d'). x = 0" by simp
  moreover have "pm_find (BTreePageId (bf_tableid b) m ty') (w_pool w') = None" if "int (disk_pages ?ps ?d') < m" for m ty'
  proof -
    have "int (disk_pages ?ps ?d) < m" "m \<noteq> int (Suc (disk_pages ?ps ?d))" using that more by auto
    then show ?thesis using f by (simp add: pool pages.find_put disk_fresh_def)
  qed
  ultimately show ?thesis using len d' w' by (simp add: disk_fresh_def b')
qed

lemma pm_erase_none [simp]: "pm_find k m = None \<Longrightarrow> pm_erase k m = m"
  by (induction k m rule: pm_erase.induct) (auto split: if_splits)

lemma with_pages_new:
  "(with_pages w g m)\<lparr>w_objs := w_objs (with_pages w g m) @ [\<lparr>po_dirty = None, po_page = p\<rparr>], w_pool := pl\<rparr> =
   with_pages (w\<lparr>w_objs := w_objs w @ [\<lparr>po_dirty = None, po_page = p\<rparr>], w_pool := pl\<rparr>) (g(length (w_objs w) := p)) m"
  by (cases w) (simp add: with_pages_def nth_append)

text \<open>The state after \<open>getEmptyPage\<close> has made a page \<open>p\<close> of the file \<open>i\<close>.\<close>

definition add_page :: "world \<Rightarrow> nat \<Rightarrow> btree_file \<Rightarrow> page \<Rightarrow> world" where
  "add_page w i b p = w\<lparr>w_files := (w_files w)[i := BTreeF (b\<lparr>bf_disk := disk_grow (w_append w) (w_pageSize w) (bf_disk b)\<rparr>)],
     w_objs := w_objs w @ [\<lparr>po_dirty = None, po_page = p\<rparr>],
     w_pool := pm_put (page_getId p) (length (w_objs w)) (w_pool w)\<rparr>"

lemma add_page_simps [simp]:
  "length (w_objs (add_page w i b p)) = Suc (length (w_objs w))" "w_pageSize (add_page w i b p) = w_pageSize w"
  "w_numPages (add_page w i b p) = w_numPages w" "w_catalog (add_page w i b p) = w_catalog w"
  "w_append (add_page w i b p) = w_append w" "w_order (add_page w i b p) = w_order w" "w_junk (add_page w i b p) = w_junk w"
  "w_pool (add_page w i b p) = pm_put (page_getId p) (length (w_objs w)) (w_pool w)"
  "w_files (add_page w i b p) = (w_files w)[i := BTreeF (b\<lparr>bf_disk := disk_grow (w_append w) (w_pageSize w) (bf_disk b)\<rparr>)]"
  by (simp_all add: add_page_def)

text \<open>Where the file and its root pointer page are, as every operation looks them up.\<close>

definition file_open :: "world \<Rightarrow> nat \<Rightarrow> btree_file \<Rightarrow> bool" where
  "file_open w i b \<longleftrightarrow> i < length (w_files w) \<and> w_files w ! i = BTreeF b \<and>
     getDatabaseFile (w_catalog w) (bf_tableid b) = Inr i \<and> disk_fresh w b \<and> 12 \<le> w_pageSize w"

definition new_page_no :: "world \<Rightarrow> btree_file \<Rightarrow> int" where
  "new_page_no w b = int (Suc (disk_pages (w_pageSize w) (bf_disk b)))"

lemma file_open_add_page:
  assumes "file_open w i b" "page_getId p = BTreePageId (bf_tableid b) (new_page_no w b) ty"
  shows "file_open (add_page w i b p) i (b\<lparr>bf_disk := disk_grow (w_append w) (w_pageSize w) (bf_disk b)\<rparr>)"
  using assms disk_fresh_grow [of w b "add_page w i b p" _ "w_append w" ty "length (w_objs w)"]
  by (simp add: file_open_def new_page_no_def)

lemma getEmptyPage_run:
  assumes f: "file_open w i b" and r: "r < length (w_objs w)" "g r = RootPg rp" "getHeaderId rp = None"
      "pm_find (rootptr_getId (bf_tableid b)) (w_pool w) = Some r"
    and m: "pm_find (rootptr_getId (bf_tableid b)) m = None \<or> pm_find (rootptr_getId (bf_tableid b)) m = Some r"
      "pm_find (BTreePageId (bf_tableid b) (new_page_no w b) ty) m = None"
    and full: "\<not> pool_full w"
    and pid: "page_getId p = BTreePageId (bf_tableid b) (new_page_no w b) ty"
    and rd: "\<And>v. i < length (w_files v) \<Longrightarrow>
      w_files v ! i = BTreeF (b\<lparr>bf_disk := disk_grow (w_append w) (w_pageSize w) (bf_disk b)\<rparr>) \<Longrightarrow>
      w_catalog v = w_catalog w \<Longrightarrow> w_pageSize v = w_pageSize w \<Longrightarrow>
      file_readPage i (page_getId p) v = Inr (p, v)"
  shows "getEmptyPage n i ty (with_pages w g m) = Inr (length (w_objs w),
    with_pages (add_page w i b p) (g(length (w_objs w) := p)) (pm_put (page_getId p) (length (w_objs w)) m))"
proof -
  let ?ps = "w_pageSize w" and ?d = "bf_disk b" and ?no = "new_page_no w b"
  let ?w1 = "w\<lparr>w_files := (w_files w)[i := BTreeF (b\<lparr>bf_disk := ?d @ replicate ?ps 0\<rparr>)]\<rparr>"
  let ?w2 = "w\<lparr>w_files := (w_files w)[i := BTreeF (b\<lparr>bf_disk := disk_grow (w_append w) ?ps ?d\<rparr>)]\<rparr>"
  have o': "i < length (w_files w)" "w_files w ! i = BTreeF b" "disk_fresh w b" "12 \<le> ?ps"
      "getDatabaseFile (w_catalog w) (bf_tableid b) = Inr i"
    using f by (auto simp: file_open_def)
  have len: "ROOT_PAGE_SIZE \<le> length ?d" using o'(3) by (simp add: disk_fresh_def)
  then have ne: "?d \<noteq> []" by (auto simp: ROOT_PAGE_SIZE_def)
  have root: "bindM (getRootPtrPage i) k (with_pages w g m) = k r (with_pages w g m)" for k :: "nat \<Rightarrow> int M"
  proof -
    have hit: "pm_find (rootptr_getId (bf_tableid b)) m = Some r \<or>
        pm_find (rootptr_getId (bf_tableid b)) m = None \<and> pm_find (rootptr_getId (bf_tableid b)) (w_pool w) = Some r"
      using r(4) m(1) by auto
    show ?thesis using o' ne r by (simp add: getRootPtrPage_def bindM_assoc with_pages_getPage(1) [OF hit])
  qed
  have "?no = int (disk_pages ?ps (?d @ replicate ?ps 0))"
    using disk_pages_grow [OF len] o'(4) by (simp add: new_page_no_def)
  then have no: "c_div (int (length (?d @ replicate ?ps 0)) - int ROOT_PAGE_SIZE) (int ?ps) = ?no"
    using len o'(4) by (simp add: disk_pages_def c_div_def of_nat_diff zdiv_int sgn_if)
  have np: "BTreeFile_getNumPages i (with_pages ?w1 g m) = Inr (?no, with_pages ?w1 g m)"
    using o' no by (simp add: BTreeFile_getNumPages_def)
  have "getEmptyPageNo n i (with_pages w g m) = Inr (?no, with_pages ?w1 g m)"
    using o' r np by (simp add: getEmptyPageNo_def root btree_createEmptyPageData_def)
  then have e: "bindM (getEmptyPageNo n i) k (with_pages w g m) = k ?no (with_pages ?w1 g m)" for k :: "int \<Rightarrow> nat M"
    by (rule bindM_apply(1))
  have bytes: "disk_pwrite (w_append w) (btree_offset ?ps ?no) (replicate ROOT_PAGE_SIZE 0) (?d @ replicate ?ps 0) =
      disk_grow (w_append w) ?ps ?d"
    using fresh_page_bytes(1) [OF o'(3,4)] by (simp add: new_page_no_def)
  have miss: "pm_find (page_getId p) (w_pool w) = None"
    using o'(3) pid by (simp add: disk_fresh_def new_page_no_def)
  have "bp_getPage (page_getId p) (with_pages ?w2 g m) = Inr (length (w_objs w),
      with_pages (add_page w i b p) (g(length (w_objs w) := p)) m)"
  proof -
    have "file_readPage i (page_getId p) (with_pages ?w2 g m) = Inr (p, with_pages ?w2 g m)"
      using o' by (intro rd) simp_all
    then have "bp_getPage (page_getId p) (with_pages ?w2 g m) = Inr (length (w_objs (with_pages ?w2 g m)),
        (with_pages ?w2 g m)\<lparr>w_objs := w_objs (with_pages ?w2 g m) @ [\<lparr>po_dirty = None, po_page = p\<rparr>],
          w_pool := pm_put (page_getId p) (length (w_objs w)) (w_pool w)\<rparr>)"
      using bp_getPage_run [of "page_getId p" "with_pages ?w2 g m" "with_pages ?w2 g m" i p] miss full o'(5) pid
      by (simp add: pool_full_def)
    then show ?thesis unfolding with_pages_new by (simp add: add_page_def)
  qed
  then have "bt_getPage (page_getId p) True (with_pages ?w2 g m) = Inr (length (w_objs w),
      with_pages (add_page w i b p) (g(length (w_objs w) := p)) (pm_put (page_getId p) (length (w_objs w)) m))"
    using m(2) pid by (simp add: bt_getPage_def bindM_def)
  then show ?thesis
    using o' pid m(2) miss
    by (simp add: getEmptyPage_def e bytes discardPage_def Let_def)
qed

lemma read_new_leaf:
  fixes w v :: world
  assumes "file_open w i b" "w_pageSize w < 2 ^ 60" "12 \<le> getSize (bf_td b) * leaf_getMaxTuples (w_pageSize w) (bf_td b)"
    "i < length (w_files v)"
    "w_files v ! i = BTreeF (b\<lparr>bf_disk := disk_grow (w_append w) (w_pageSize w) (bf_disk b)\<rparr>)"
    "w_catalog v = w_catalog w" "w_pageSize v = w_pageSize w"
  defines "pid \<equiv> BTreePageId (bf_tableid b) (new_page_no w b) LEAF"
  shows "file_readPage i pid v = Inr (LeafPg (empty_leaf (w_pageSize w) (bf_td b) pid (bf_keyField b)), v)"
proof -
  note o' = assms(1) [unfolded file_open_def]
  have "db_getTupleDesc (bf_tableid b) v = Inr (bf_td b, v)"
    using o' assms(5,6)
    by (auto simp: db_getTupleDesc_def catalog_getTupleDesc_def getDatabaseFile_def w_file_td_def split: option.splits)
  then have td: "bindM (db_getTupleDesc (bf_tableid b)) k v = k (bf_td b) v" for k :: "tuple_desc \<Rightarrow> page M"
    by (simp add: bindM_def)
  have "disk_pread (btree_offset (w_pageSize w) (new_page_no w b)) (w_pageSize w)
      (disk_grow (w_append w) (w_pageSize w) (bf_disk b)) = Inr (replicate (w_pageSize w) 0)"
    using fresh_page_bytes(2) [of w b] o' by (simp add: new_page_no_def)
  moreover have "12 \<le> w_pageSize w" using o' by simp
  note BTreeLeafPage_new_zeros [OF this assms(2,3), of "w_junk v" pid "bf_keyField b"]
  ultimately show ?thesis
    using assms(4,5,7) by (simp add: file_readPage_def BTreeFile_readPage_def td pid_def)
qed

section \<open>Moving tuples between leaves\<close>

text \<open>A leaf from which the tuple of slot \<open>s\<close> is taken; the slot keeps the tuple object \<open>t\<close>.\<close>

definition leaf_drop :: "leaf_page \<Rightarrow> nat \<Rightarrow> tuple \<Rightarrow> leaf_page" where
  "leaf_drop p s t = (leaf_markSlotUsed p s False)\<lparr>lp_tuples := (lp_tuples p)[s := t]\<rparr>"

lemma leaf_drop_spec:
  assumes "leaf_ok p" "s < lp_numSlots p"
  shows "leaf_view (leaf_drop p s t) = (leaf_view p)[s := None]" "leaf_ok (leaf_drop p s t)"
    "leaf_frame p (leaf_drop p s t)" "\<And>i. i < lp_numSlots p \<Longrightarrow> leaf_isSlotUsed (leaf_drop p s t) i \<longleftrightarrow> i \<noteq> s \<and> leaf_isSlotUsed p i"
proof -
  show u: "leaf_isSlotUsed (leaf_drop p s t) i \<longleftrightarrow> i \<noteq> s \<and> leaf_isSlotUsed p i" if "i < lp_numSlots p" for i
    using assms that by (auto simp: leaf_drop_def leaf_mark_used leaf_ok_def)
  have n: "lp_numSlots (leaf_drop p s t) = lp_numSlots p" by (simp add: leaf_drop_def)
  show "leaf_frame p (leaf_drop p s t)" by (simp add: leaf_drop_def)
  show "leaf_view (leaf_drop p s t) = (leaf_view p)[s := None]"
    using assms n u by (intro nth_equalityI) (auto simp: leaf_view_nth nth_list_update leaf_drop_def)
  show "leaf_ok (leaf_drop p s t)"
    using assms n u by (auto simp: leaf_ok_def) (auto simp: leaf_drop_def)
qed

lemma leaf_give_run:
  assumes "a \<noteq> c" "a < length (w_objs w)" "c < length (w_objs w)" "g a = LeafPg p" "g c = LeafPg q"
    and p: "leaf_ok p" "s < lp_numSlots p" "leaf_isSlotUsed p s"
    and q: "leaf_ok q" "bp_td q = bp_td p" "0 < leaf_getNumEmptySlots q"
  shows "\<exists>t q'. leaf_give a c s (with_pages w g m) = Inr ((), with_pages w (g(a := LeafPg (leaf_drop p s t), c := LeafPg q')) m) \<and>
    leaf_ok q' \<and> leaf_frame q q' \<and>
    leaf_tuples q' = ins_tuple (bp_keyField q) (strip (lp_tuples p ! s)) (leaf_tuples q)"
proof -
  let ?t = "lp_tuples p ! s"
  have "fits (bp_td p) ?t" using p by (simp add: leaf_ok_def)
  then have fit: "fits (bp_td q) (setRecordId ?t None)" using q(2) by simp
  obtain h q' where q': "leaf_insertTuple q (setRecordId ?t None) =
      Inr (setRecordId (setRecordId ?t None) (Some \<lparr>rid_pid = bp_pid q, rid_tupleno = int h\<rparr>), q')"
      "leaf_ok q'" "leaf_frame q q'" "leaf_tuples q' = ins_tuple (bp_keyField q) (strip ?t) (leaf_tuples q)"
    using leaf_insert_spec [OF q(1) fit q(3)] by auto
  have n: "s < length (lp_tuples p)" using p by (simp add: leaf_ok_def)
  let ?t2 = "setRecordId (setRecordId ?t None) (Some \<lparr>rid_pid = bp_pid q, rid_tupleno = int h\<rparr>)"
  have "leaf_give a c s (with_pages w g m) =
      Inr ((), with_pages w (g(a := LeafPg (leaf_drop p s ?t2), c := LeafPg q')) m)"
    using assms(1-5) n leaf_delete_spec [OF p] q'(1)
    by (simp add: leaf_give_def set_slot_def bindM_assoc leaf_drop_def fun_upd_twist)
  with q'(2-4) show ?thesis by blast
qed

text \<open>The reverse iterator stands on the last used slot.\<close>

lemma leaf_prev_used_skip:
  "s \<le> n \<Longrightarrow> (\<And>i. s \<le> i \<Longrightarrow> i < n \<Longrightarrow> \<not> leaf_isSlotUsed p i) \<Longrightarrow> leaf_prev_used p n = leaf_prev_used p s"
proof (induction n)
  case (Suc n)
  then show ?case by (cases "s = Suc n") auto
qed simp

lemma leaf_prev_used_spec:
  "n \<le> lp_numSlots p \<Longrightarrow> somes (take n (leaf_view p)) \<noteq> [] \<Longrightarrow>
   \<exists>s < n. leaf_prev_used p n = int s \<and> leaf_isSlotUsed p s \<and> (\<forall>i. s < i \<longrightarrow> i < n \<longrightarrow> \<not> leaf_isSlotUsed p i)"
proof (induction n)
  case (Suc n)
  show ?case
  proof (cases "leaf_isSlotUsed p n")
    case True
    then show ?thesis by (intro exI [of _ n]) auto
  next
    case False
    then have "leaf_view p ! n = None" using Suc.prems(1) by (simp add: leaf_view_nth)
    then have "somes (take n (leaf_view p)) \<noteq> []" using Suc.prems by (simp add: somes_take_Suc)
    with Suc.IH Suc.prems(1) obtain s where "s < n" "leaf_prev_used p n = int s" "leaf_isSlotUsed p s"
        "\<forall>i. s < i \<longrightarrow> i < n \<longrightarrow> \<not> leaf_isSlotUsed p i" by auto
    with False show ?thesis by (intro exI [of _ s]) (auto simp: less_Suc_eq)
  qed
qed simp

lemma leaf_rbegin_step:
  assumes ok: "leaf_ok p" and ne: "leaf_tuples p \<noteq> []"
  obtains s where "leaf_iter_deref p (leaf_rbegin p) = Inr s" "s < lp_numSlots p" "leaf_isSlotUsed p s"
    "strip (lp_tuples p ! s) = last (leaf_tuples p)" "\<forall>t. leaf_tuples (leaf_drop p s t) = butlast (leaf_tuples p)"
    "\<forall>t. leaf_iter_next (leaf_drop p s t) (leaf_rbegin p) = leaf_rbegin (leaf_drop p s t)"
proof -
  let ?n = "lp_numSlots p" and ?v = "leaf_view p"
  obtain s where s: "s < ?n" "leaf_prev_used p ?n = int s" "leaf_isSlotUsed p s"
      "\<forall>i. s < i \<longrightarrow> i < ?n \<longrightarrow> \<not> leaf_isSlotUsed p i"
    using leaf_prev_used_spec [of ?n p] ne by (auto simp: leaf_tuples_def)
  note d = leaf_drop_spec [OF ok s(1)]
  have deref: "leaf_iter_deref p (leaf_rbegin p) = Inr s"
    using s ok by (simp add: leaf_rbegin_def leaf_iter_deref_def leaf_getTuple_def leaf_isSlotUsedE_def leaf_ok_def)
  have "somes (drop (Suc s) ?v) = []"
    using s(1,4) by (auto simp: somes_Nil_iff in_set_conv_nth leaf_view_nth)
  then have ts: "leaf_tuples p = somes (take s ?v) @ [strip (lp_tuples p ! s)]"
    and ts': "leaf_tuples (leaf_drop p s t) = somes (take s ?v)" for t
    using somes_split [of s ?v] somes_update [of s ?v None] s d(1) [of t]
    by (simp_all add: leaf_tuples_def leaf_view_nth)
  have nx: "leaf_iter_next (leaf_drop p s t) (leaf_rbegin p) = leaf_rbegin (leaf_drop p s t)" for t
  proof -
    have n: "lp_numSlots (leaf_drop p s t) = ?n" by (simp add: leaf_drop_def)
    have "leaf_prev_used (leaf_drop p s t) ?n = leaf_prev_used (leaf_drop p s t) s"
      using s(1,4) d(4) by (intro leaf_prev_used_skip) (auto simp: le_less)
    then show ?thesis using s(2) n by (auto simp: leaf_rbegin_def leaf_iter_next_def)
  qed
  show ?thesis
    using that [OF deref s(1,3)] ts ts' nx by simp
qed

lemma mset_take_drop: "mset (take k xs) + mset (drop k xs) = mset xs"
  by (metis append_take_drop_id mset_append)

lemma split_leaf_loop_run:
  assumes "a \<noteq> c" "a < length (w_objs w)" "c < length (w_objs w)"
  shows "leaf_ok p \<Longrightarrow> leaf_ok q \<Longrightarrow> bp_td q = bp_td p \<Longrightarrow> g a = LeafPg p \<Longrightarrow> g c = LeafPg q \<Longrightarrow>
    k \<le> length (leaf_tuples p) \<Longrightarrow> k \<le> leaf_getNumEmptySlots q \<Longrightarrow>
    \<exists>p' q'. split_leaf_loop a c k (leaf_rbegin p) (with_pages w g m) =
        Inr (leaf_rbegin p', with_pages w (g(a := LeafPg p', c := LeafPg q')) m) \<and>
      leaf_ok p' \<and> leaf_frame p p' \<and> leaf_tuples p' = take (length (leaf_tuples p) - k) (leaf_tuples p) \<and>
      leaf_ok q' \<and> leaf_frame q q' \<and>
      mset (leaf_tuples q') = mset (drop (length (leaf_tuples p) - k) (leaf_tuples p)) + mset (leaf_tuples q) \<and>
      (leaf_sorted q \<longrightarrow> leaf_sorted q')"
proof (induction k arbitrary: p q g)
  case 0
  then have "g(a := LeafPg p, c := LeafPg q) = g" by auto
  then have "with_pages w g m = with_pages w (g(a := LeafPg p, c := LeafPg q)) m" by (simp only:)
  with 0 show ?case by - (rule exI [of _ p], rule exI [of _ q], simp del: fun_upd_apply)
next
  case (Suc k)
  let ?ts = "leaf_tuples p"
  have ne: "?ts \<noteq> []" using Suc.prems(6) by auto
  obtain s where s: "leaf_iter_deref p (leaf_rbegin p) = Inr s" "s < lp_numSlots p" "leaf_isSlotUsed p s"
      "strip (lp_tuples p ! s) = last ?ts" "\<forall>t. leaf_tuples (leaf_drop p s t) = butlast ?ts"
      "\<forall>t. leaf_iter_next (leaf_drop p s t) (leaf_rbegin p) = leaf_rbegin (leaf_drop p s t)"
    using leaf_rbegin_step [OF Suc.prems(1) ne] .
  have room: "0 < leaf_getNumEmptySlots q" using Suc.prems(7) by simp
  obtain t q1 where q1: "leaf_give a c s (with_pages w g m) =
        Inr ((), with_pages w (g(a := LeafPg (leaf_drop p s t), c := LeafPg q1)) m)"
      "leaf_ok q1" "leaf_frame q q1" "leaf_tuples q1 = ins_tuple (bp_keyField q) (last ?ts) (leaf_tuples q)"
    using leaf_give_run [OF assms Suc.prems(4,5,1) s(2,3) Suc.prems(2,3) room, of m] s(4) by auto
  let ?p1 = "leaf_drop p s t" and ?g1 = "g(a := LeafPg (leaf_drop p s t), c := LeafPg q1)"
  note d = leaf_drop_spec [OF Suc.prems(1) s(2)] and f1 = leaf_frame_simps [OF q1(3)]
  have run: "split_leaf_loop a c (Suc k) (leaf_rbegin p) (with_pages w g m) =
      split_leaf_loop a c k (leaf_rbegin ?p1) (with_pages w ?g1 m)"
    using assms Suc.prems(4) s(1,6) q1(1) by (simp add: bindM_apply)
  have "leaf_getNumEmptySlots q = Suc (leaf_getNumEmptySlots q1)"
    using leaf_occupancy [of q] leaf_occupancy [of q1] q1(4) f1 by simp
  then have rm: "k \<le> leaf_getNumEmptySlots q1" using Suc.prems(7) by simp
  have l1: "k \<le> length (leaf_tuples ?p1)" using Suc.prems(6) by (simp add: s(5))
  have td: "bp_td q1 = bp_td ?p1" using f1 leaf_frame_simps [OF d(3) [of t]] Suc.prems(3) by simp
  have at: "?g1 a = LeafPg ?p1" "?g1 c = LeafPg q1" using assms(1) by simp_all
  obtain p' q' where p': "split_leaf_loop a c k (leaf_rbegin ?p1) (with_pages w ?g1 m) =
        Inr (leaf_rbegin p', with_pages w (?g1(a := LeafPg p', c := LeafPg q')) m)"
      "leaf_ok p'" "leaf_frame ?p1 p'" "leaf_tuples p' = take (length ?ts - 1 - k) (butlast ?ts)"
      "leaf_ok q'" "leaf_frame q1 q'"
      "mset (leaf_tuples q') = mset (drop (length ?ts - 1 - k) (butlast ?ts)) + mset (leaf_tuples q1)"
      "leaf_sorted q1 \<longrightarrow> leaf_sorted q'"
    using Suc.IH [OF d(2) [of t] q1(2) td at l1 rm] s(5) by (auto simp del: fun_upd_apply)
  have "?g1(a := LeafPg p', c := LeafPg q') = g(a := LeafPg p', c := LeafPg q')" using assms(1) by auto
  moreover have "leaf_tuples p' = take (length ?ts - Suc k) ?ts"
    using p'(4) Suc.prems(6) by (simp add: butlast_conv_take)
  moreover have "drop (length ?ts - Suc k) ?ts = drop (length ?ts - 1 - k) (butlast ?ts) @ [last ?ts]"
  proof -
    have "?ts = butlast ?ts @ [last ?ts]" using ne by simp
    then have "drop (length ?ts - Suc k) ?ts = drop (length ?ts - Suc k) (butlast ?ts @ [last ?ts])" by simp
    then show ?thesis using Suc.prems(6) by simp
  qed
  then have "mset (leaf_tuples q') = mset (drop (length ?ts - Suc k) ?ts) + mset (leaf_tuples q)"
    using p'(7) q1(4) by simp
  moreover have "leaf_sorted q \<longrightarrow> leaf_sorted q'"
    using p'(8) leaf_sorted_insert [OF _ q1(3), of "last ?ts"] q1(4) by simp
  ultimately show ?case
    using run p' leaf_frame_trans [OF d(3) [of t] p'(3)] leaf_frame_trans [OF q1(3) p'(6)]
    by - (rule exI [of _ p'], rule exI [of _ q'], simp del: fun_upd_apply)
qed

section \<open>Parent pointers\<close>

text \<open>\<open>updateParentPointer\<close> of a leaf whose parent is right does nothing; otherwise it sets it.\<close>

lemma updateParentPointer_same:
  assumes "found w m i a" "g a = LeafPg l" "getParentId l = pid"
  shows "updateParentPointer pid (Some i) (with_pages w g m) = Inr ((), with_pages w g m)"
  using assms
  by (simp add: updateParentPointer_def bt_getPage_ptr_def found_getPage found_def page_getParentId_def bindM_assoc)

lemma updateParentPointer_set:
  assumes "a < length (w_objs w)" "pm_find i m = Some a" "g a = LeafPg l" "getParentId l \<noteq> pid"
    "pid = BTreePageId (getTableId (bp_pid l)) n INTERNAL"
  shows "updateParentPointer pid (Some i) (with_pages w g m) = Inr ((), with_pages w (g(a := LeafPg (l\<lparr>bp_parent := n\<rparr>))) m)"
proof -
  have "\<not> pid_eq (getParentId l) pid"
    using assms(4) by (cases "bp_parent l = 0") (auto simp: getParentId_def simp del: pid_eq.simps)
  then show ?thesis
    using assms(1-3,5)
    by (simp add: updateParentPointer_def bt_getPage_ptr_def with_pages_getPage page_getParentId_def setParentId_at_def
        page_setParentId_def bindM_assoc)
qed

text \<open>
  The orphan: of the leaves in question only the one of id \<open>i\<close>, at \<open>c\<close>, has another parent than
  the internal page \<open>pid\<close>; \<open>adopt\<close> sets it.
\<close>

definition orphan :: "world \<Rightarrow> (nat \<Rightarrow> page) \<Rightarrow> pages_map \<Rightarrow> page_id \<Rightarrow> page_id \<Rightarrow> nat \<Rightarrow> leaf_page \<Rightarrow> bool" where
  "orphan w g m pid i c r \<longleftrightarrow> c < length (w_objs w) \<and> pm_find i m = Some c \<and> g c = LeafPg r \<and> getParentId r \<noteq> pid \<and>
     pid = BTreePageId (getTableId (bp_pid r)) (pageNumber pid) INTERNAL \<and> pageNumber pid \<noteq> 0"

definition adopt :: "page_id \<Rightarrow> nat \<Rightarrow> leaf_page \<Rightarrow> (nat \<Rightarrow> page) \<Rightarrow> nat \<Rightarrow> page" where
  "adopt pid c r g = g(c := LeafPg (r\<lparr>bp_parent := pageNumber pid\<rparr>))"

definition own_child :: "world \<Rightarrow> (nat \<Rightarrow> page) \<Rightarrow> pages_map \<Rightarrow> page_id \<Rightarrow> page_id \<Rightarrow> nat \<Rightarrow> page_id \<Rightarrow> bool" where
  "own_child w g m pid i c j \<longleftrightarrow>
     j = i \<or> (\<exists>a l. found w m j a \<and> a \<noteq> c \<and> g a = LeafPg l \<and> getParentId l = pid)"

lemma adopt_step:
  assumes o': "orphan w g m pid i c r" and j: "own_child w g m pid i c j"
  shows "updateParentPointer pid (Some j) (with_pages w g m) =
      Inr ((), with_pages w (if j = i then adopt pid c r g else g) m)"
    and "updateParentPointer pid (Some j) (with_pages w (adopt pid c r g) m) = Inr ((), with_pages w (adopt pid c r g) m)"
proof -
  note c = o' [unfolded orphan_def]
  show "updateParentPointer pid (Some j) (with_pages w g m) =
      Inr ((), with_pages w (if j = i then adopt pid c r g else g) m)"
  proof (cases "j = i")
    case True
    then show ?thesis
      using c updateParentPointer_set [of c w i m g r pid "pageNumber pid"] by (simp add: adopt_def)
  next
    case False
    with j show ?thesis by (auto simp: own_child_def updateParentPointer_same)
  qed
  show "updateParentPointer pid (Some j) (with_pages w (adopt pid c r g) m) = Inr ((), with_pages w (adopt pid c r g) m)"
  proof (cases "j = i")
    case True
    have "getParentId (r\<lparr>bp_parent := pageNumber pid\<rparr>) = pid" using c by (simp add: getParentId_def)
    with True c show ?thesis
      by (intro updateParentPointer_same [of _ _ _ c _ "r\<lparr>bp_parent := pageNumber pid\<rparr>"]) (auto simp: found_def adopt_def)
  next
    case False
    with j obtain a l where "found w m j a" "a \<noteq> c" "g a = LeafPg l" "getParentId l = pid"
      by (auto simp: own_child_def)
    then show ?thesis by (intro updateParentPointer_same [of _ _ _ a _ l]) (auto simp: adopt_def)
  qed
qed

lemma adopt_steps:
  assumes o': "orphan w g m pid i c r" and "\<forall>e \<in> set es. \<exists>j. e_left e = Some j \<and> own_child w g m pid i c j"
  shows "forM es (\<lambda>e. updateParentPointer pid (e_left e)) (with_pages w g m) =
      Inr ((), with_pages w (if Some i \<in> e_left ` set es then adopt pid c r g else g) m)"
    and "forM es (\<lambda>e. updateParentPointer pid (e_left e)) (with_pages w (adopt pid c r g) m) =
      Inr ((), with_pages w (adopt pid c r g) m)"
proof -
  note step = adopt_step [OF o']
  have a: "forM es (\<lambda>e. updateParentPointer pid (e_left e)) (with_pages w (adopt pid c r g) m) =
      Inr ((), with_pages w (adopt pid c r g) m)"
    if "\<forall>e \<in> set es. \<exists>j. e_left e = Some j \<and> own_child w g m pid i c j" for es
    using that by (induction es) (auto simp: step bindM_apply)
  show "forM es (\<lambda>e. updateParentPointer pid (e_left e)) (with_pages w g m) =
      Inr ((), with_pages w (if Some i \<in> e_left ` set es then adopt pid c r g else g) m)"
    using assms(2)
  proof (induction es)
    case (Cons e es)
    then obtain j where j: "e_left e = Some j" "own_child w g m pid i c j" by auto
    show ?case
    proof (cases "j = i")
      case True
      then show ?thesis using j step(1) [OF j(2)] a [of es] Cons.prems by (simp add: bindM_apply)
    next
      case False
      then show ?thesis using j step(1) [OF j(2)] Cons by (simp add: bindM_apply)
    qed
  qed simp
  show "forM es (\<lambda>e. updateParentPointer pid (e_left e)) (with_pages w (adopt pid c r g) m) =
      Inr ((), with_pages w (adopt pid c r g) m)" by (rule a [OF assms(2)])
qed

text \<open>The entries of an internal page lead to all of its children.\<close>

lemma between_children:
  "map entry_core es = between p c0 xs \<Longrightarrow>
   map e_left es = map (\<lambda>c. Some (int_child p c)) (butlast (c0 # map snd xs)) \<and>
   (es \<noteq> [] \<longrightarrow> e_right (last es) = Some (int_child p (last (c0 # map snd xs))))"
proof (induction xs arbitrary: c0 es)
  case (Cons x xs)
  obtain k d where x: "x = (k, d)" by (cases x)
  then obtain e es' where es: "es = e # es'" "entry_core e = (k, Some (int_child p c0), Some (int_child p d))"
      "map entry_core es' = between p d xs" using Cons.prems by (cases es) auto
  have "es' = [] \<longleftrightarrow> xs = []" using es(3) by (cases xs; cases es') auto
  with Cons.IH [OF es(3)] es x show ?case by (auto simp: entry_core_def)
qed simp

lemma updateParentPointers_run:
  assumes p: "a < length (w_objs w)" "g a = IntPg p" "int_ok p" "int_isSlotUsed p 0" "int_isSlotUsed p 1"
    and o': "orphan w g m (bp_pid p) i c r"
    and own: "\<And>x. x \<in> set (int_pairs p) \<Longrightarrow> own_child w g m (bp_pid p) i c (int_child p (snd x))"
    and i: "i \<in> (\<lambda>x. int_child p (snd x)) ` set (int_pairs p)"
  shows "updateParentPointers a (with_pages w g m) = Inr ((), with_pages w (adopt (bp_pid p) c r g) m)"
proof -
  let ?c0 = "np_children p ! 0" and ?xs = "somes (drop 1 (int_view p))"
  obtain it where it: "int_begin p = Inr it" "iter_on p 1 ?c0 it" "int_pairs p = (None, ?c0) # ?xs"
    using int_begin_spec [OF p(3-5)] .
  obtain es where es: "int_entries p = Inr es" "map entry_core es = between p ?c0 ?xs"
    using int_entries_from_spec [OF p(3) it(2)] it(1) by (auto simp: int_entries_def)
  have "?xs \<noteq> []" using int_view_drop_used [of 1 p] it(2) by (auto simp: iter_on_def)
  moreover have "length es = length ?xs"
  proof -
    have "length (between p c xs) = length xs" for c xs by (induction p c xs rule: between.induct) auto
    then show ?thesis using es(2) by (metis length_map)
  qed
  ultimately have ne: "es \<noteq> []" by auto
  let ?cs = "?c0 # map snd ?xs"
  have cs: "map e_left es = map (\<lambda>c. Some (int_child p c)) (butlast ?cs)" "e_right (last es) = Some (int_child p (last ?cs))"
    using between_children [OF es(2)] ne by auto
  have all: "map snd (int_pairs p) = butlast ?cs @ [last ?cs]"
    using it(3) by (simp del: butlast.simps last.simps)
  have own': "own_child w g m (bp_pid p) i c (int_child p d)" if "d \<in> set (map snd (int_pairs p))" for d
    using that own by auto
  have "\<forall>e \<in> set es. \<exists>j. e_left e = Some j \<and> own_child w g m (bp_pid p) i c j"
  proof
    fix e assume "e \<in> set es"
    then have "e_left e \<in> set (map e_left es)" by simp
    then obtain d where "d \<in> set (butlast ?cs)" "e_left e = Some (int_child p d)" unfolding cs(1) by auto
    with own' all show "\<exists>j. e_left e = Some j \<and> own_child w g m (bp_pid p) i c j" by auto
  qed
  note run = adopt_steps [OF o' this]
  let ?L = "int_child p (last ?cs)"
  have "own_child w g m (bp_pid p) i c ?L" using own' all by simp
  note last = adopt_step [OF o' this]
  have "Some i \<notin> e_left ` set es \<Longrightarrow> ?L = i"
  proof -
    assume n: "Some i \<notin> e_left ` set es"
    obtain d where d: "d \<in> set (map snd (int_pairs p))" "i = int_child p d" using i by auto
    have "d \<notin> set (butlast ?cs)"
    proof
      assume "d \<in> set (butlast ?cs)"
      then have "Some i \<in> set (map e_left es)" unfolding cs(1) d(2) by auto
      with n show False by simp
    qed
    with d all show "?L = i" by auto
  qed
  with run(1) last p(1,2) es(1) ne cs(2) show ?thesis
    by (auto simp: updateParentPointers_def bindM_apply)
qed

section \<open>Marking the dirty pages\<close>

text \<open>
  When the dirty pages are all in the pool, in whatever order they come, \<open>insertTuple\<close> of the
  pool marks them and does nothing else.
\<close>

definition mark_all :: "int \<Rightarrow> nat list \<Rightarrow> page_obj list \<Rightarrow> page_obj list" where
  "mark_all tid as obs = map (\<lambda>i. if i \<in> set as then (obs ! i)\<lparr>po_dirty := Some tid\<rparr> else obs ! i) [0..<length obs]"

lemma mark_all_simps [simp]:
  "length (mark_all tid as obs) = length obs" "mark_all tid [] obs = obs"
  "i < length obs \<Longrightarrow> po_page (mark_all tid as obs ! i) = po_page (obs ! i)"
  by (simp_all add: mark_all_def map_nth)

lemma mark_all_Cons:
  "a < length obs \<Longrightarrow> mark_all tid as (obs[a := (obs ! a)\<lparr>po_dirty := Some tid\<rparr>]) = mark_all tid (a # as) obs"
  by (intro nth_equalityI) (auto simp: mark_all_def nth_list_update)

lemma pool_add_dirty_all:
  "(\<And>a. a \<in> set as \<Longrightarrow> a < length (w_objs w) \<and> pm_find (page_getId (po_page (w_objs w ! a))) (w_pool w) = Some a) \<Longrightarrow>
   pool_add_dirty tid as w = Inr ((), w\<lparr>w_objs := mark_all tid as (w_objs w)\<rparr>)"
proof (induction as arbitrary: w)
  case (Cons a as)
  let ?w = "w\<lparr>w_objs := (w_objs w)[a := (w_objs w ! a)\<lparr>po_dirty := Some tid\<rparr>]\<rparr>"
  have a: "a < length (w_objs w)" "pm_find (page_getId (po_page (w_objs w ! a))) (w_pool w) = Some a"
    using Cons.prems by auto
  have "pool_add_dirty tid (a # as) w = pool_add_dirty tid as ?w" by (rule pool_add_dirty_hit_Cons [OF a])
  moreover have "pool_add_dirty tid as ?w = Inr ((), ?w\<lparr>w_objs := mark_all tid as (w_objs ?w)\<rparr>)"
    using Cons.prems by (intro Cons.IH) (auto simp: nth_list_update)
  ultimately show ?case using mark_all_Cons [OF a(1)] by simp
qed simp

end
