(* ===== verification/BTreeSplitSpec.thy ===== *)
theory BTreeSplitSpec
  imports BTreeRun
begin

text \<open>
  Insertion into a B+ tree with a full leaf: \<open>splitLeafPage\<close> moves the upper half of the tuples
  to a fresh page, links it, and enters it into the root. With the case of a leaf with room, this
  gives every insertion into a tree of two levels whose root is not full, and every sequence of
  them.
\<close>

section \<open>The upper half\<close>

lemma sorted_mid_le:
  fixes xs :: "int list"
  assumes "sorted xs" "h < length xs"
  shows "\<forall>x \<in> set (take h xs). x \<le> xs ! h" "\<forall>x \<in> set (drop h xs). xs ! h \<le> x"
  using assms by (auto simp: in_set_conv_nth sorted_iff_nth_mono)

text \<open>
  The loop and the last move of \<open>splitLeafPage\<close>: of \<open>n\<close> tuples, the upper \<open>(n + 1) div 2\<close> go to
  the other leaf, and the key of the first of them is the one that goes up.
\<close>

lemma split_move:
  assumes w: "a \<noteq> c" "a < length (w_objs w)" "c < length (w_objs w)" "g a = LeafPg p" "g c = LeafPg q"
    and p: "leaf_ok p" "leaf_tuples p \<noteq> []" and q: "leaf_ok q" "leaf_tuples q = []" "bp_td q = bp_td p"
      "bp_keyField q = bp_keyField p" "length (leaf_tuples p) \<le> leaf_getNumEmptySlots q"
  defines "h \<equiv> length (leaf_tuples p) div 2"
  shows "\<exists>it p3 q3 s sv p' q'.
    split_leaf_loop a c ((length (leaf_tuples p) + 1) div 2 - 1) (leaf_rbegin p) (with_pages w g m) =
      Inr (it, with_pages w (g(a := LeafPg p3, c := LeafPg q3)) m) \<and>
    leaf_iter_deref p3 it = Inr s \<and> s < length (lp_tuples p3) \<and> getField (lp_tuples p3 ! s) (bp_keyField p) = Inr (IntField sv) \<and>
    leaf_give a c s (with_pages w (g(a := LeafPg p3, c := LeafPg q3)) m) =
      Inr ((), with_pages w (g(a := LeafPg p', c := LeafPg q')) m) \<and>
    leaf_ok p' \<and> leaf_frame p p' \<and> leaf_tuples p' = take h (leaf_tuples p) \<and>
    leaf_ok q' \<and> leaf_frame q q' \<and> leaf_sorted q' \<and> mset (leaf_tuples q') = mset (drop h (leaf_tuples p)) \<and>
    key_of (bp_keyField p) (leaf_tuples p ! h) = sint sv"
proof -
  let ?ts = "leaf_tuples p" and ?k = "(length (leaf_tuples p) + 1) div 2 - 1"
  have n: "0 < length ?ts" using p(2) by simp
  then have hk: "length ?ts - ?k = Suc h" "h < length ?ts" "?k \<le> length ?ts" unfolding h_def by linarith+
  have sq: "leaf_sorted q" using q(2) by (simp add: leaf_sorted_def)
  have kq: "?k \<le> leaf_getNumEmptySlots q" using q(5) hk(3) by simp
  obtain p3 q3 where l: "split_leaf_loop a c ?k (leaf_rbegin p) (with_pages w g m) =
        Inr (leaf_rbegin p3, with_pages w (g(a := LeafPg p3, c := LeafPg q3)) m)"
      "leaf_ok p3" "leaf_frame p p3" "leaf_tuples p3 = take (Suc h) ?ts" "leaf_ok q3" "leaf_frame q q3"
      "mset (leaf_tuples q3) = mset (drop (Suc h) ?ts)" "leaf_sorted q3"
    using split_leaf_loop_run [OF w(1-3) p(1) q(1,3) w(4,5) hk(3) kq, of m, unfolded hk(1) q(2)] sq
    by (metis add.right_neutral mset.simps(1))
  have ne: "leaf_tuples p3 \<noteq> []" using l(4) p(2) by simp
  have lst: "last (leaf_tuples p3) = ?ts ! h" "butlast (leaf_tuples p3) = take h ?ts"
    using hk(2) unfolding l(4) by (simp_all add: take_Suc_conv_app_nth)
  obtain s where s: "leaf_iter_deref p3 (leaf_rbegin p3) = Inr s" "s < lp_numSlots p3" "leaf_isSlotUsed p3 s"
      "strip (lp_tuples p3 ! s) = last (leaf_tuples p3)" "\<forall>t. leaf_tuples (leaf_drop p3 s t) = butlast (leaf_tuples p3)"
      "\<forall>t. leaf_iter_next (leaf_drop p3 s t) (leaf_rbegin p3) = leaf_rbegin (leaf_drop p3 s t)"
    using leaf_rbegin_step [OF l(2) ne] .
  note f3 = leaf_frame_simps [OF l(3)] and g3 = leaf_frame_simps [OF l(6)]
  have "length (leaf_tuples q3) = length ?ts - Suc h" using mset_eq_length [OF l(7)] by simp
  then have room: "0 < leaf_getNumEmptySlots q3"
    using leaf_occupancy [of q] leaf_occupancy [of q3] g3 q(2,5) hk by simp
  have td: "bp_td q3 = bp_td p3" using f3 g3 q(3) by simp
  have at: "(g(a := LeafPg p3, c := LeafPg q3)) a = LeafPg p3" "(g(a := LeafPg p3, c := LeafPg q3)) c = LeafPg q3"
    using w(1) by simp_all
  obtain t q' where q': "leaf_give a c s (with_pages w (g(a := LeafPg p3, c := LeafPg q3)) m) =
        Inr ((), with_pages w (g(a := LeafPg p3, c := LeafPg q3, a := LeafPg (leaf_drop p3 s t), c := LeafPg q')) m)"
      "leaf_ok q'" "leaf_frame q3 q'" "leaf_tuples q' = ins_tuple (bp_keyField q3) (?ts ! h) (leaf_tuples q3)"
    using leaf_give_run [OF w(1-3) at l(2) s(2,3) l(5) td room, of m] s(4) lst(1) by (auto simp del: fun_upd_apply)
  have upd: "g(a := LeafPg p3, c := LeafPg q3, a := LeafPg (leaf_drop p3 s t), c := LeafPg q') =
      g(a := LeafPg (leaf_drop p3 s t), c := LeafPg q')" using w(1) by auto
  note d = leaf_drop_spec [OF l(2) s(2)]
  have "fits (bp_td p3) (lp_tuples p3 ! s)" "0 \<le> bp_keyField p3" "nat (bp_keyField p3) < numFields (bp_td p3)"
    using l(2) s(2,3) by (auto simp: leaf_ok_def)
  then obtain sv where sv: "getField (lp_tuples p3 ! s) (bp_keyField p) = Inr (IntField sv)"
      "key_of (bp_keyField p) (lp_tuples p3 ! s) = sint sv"
    using key_of_fits f3 by metis
  have "key_of (bp_keyField p) (?ts ! h) = sint sv" using sv(2) s(4) lst(1) by (metis key_of_strip)
  moreover have "s < length (lp_tuples p3)" using l(2) s(2) by (simp add: leaf_ok_def)
  moreover have "leaf_sorted q'" using leaf_sorted_insert [OF l(8) q'(3,4)] .
  moreover have "mset (leaf_tuples q') = mset (drop h ?ts)"
    using q'(4) l(7) hk(2) by (simp flip: Cons_nth_drop_Suc)
  moreover have "leaf_tuples (leaf_drop p3 s t) = take h ?ts" using s(5) lst(2) by simp
  ultimately show ?thesis
    using l(1) s(1) sv(1) q'(1,2) d(2) [of t] leaf_frame_trans [OF l(3) d(3) [of t]] leaf_frame_trans [OF l(6) q'(3)]
    unfolding upd by blast
qed

section \<open>Splitting a leaf\<close>

text \<open>The leaf behind the one that is split, if any, with its address.\<close>

definition link_left :: "(nat \<times> leaf_page) option \<Rightarrow> int \<Rightarrow> (nat \<Rightarrow> page) \<Rightarrow> nat \<Rightarrow> page" where
  "link_left nb no g = (case nb of None \<Rightarrow> g | Some (c, l) \<Rightarrow> g(c := LeafPg (l\<lparr>lp_leftSibling := no\<rparr>)))"

definition link_dirty :: "(nat \<times> leaf_page) option \<Rightarrow> pages_map" where
  "link_dirty nb = (case nb of None \<Rightarrow> [] | Some (c, l) \<Rightarrow> [(bp_pid l, c)])"

definition right_neighbour :: "world \<Rightarrow> (nat \<Rightarrow> page) \<Rightarrow> nat \<Rightarrow> leaf_page \<Rightarrow> (nat \<times> leaf_page) option \<Rightarrow> bool" where
  "right_neighbour w g a p nb \<longleftrightarrow> getRightSiblingId p = map_option (\<lambda>(c, l). bp_pid l) nb \<and>
     (\<forall>c l. nb = Some (c, l) \<longrightarrow> c < length (w_objs w) \<and> c \<noteq> a \<and> g c = LeafPg l \<and>
        pm_find (bp_pid l) (w_pool w) = Some c \<and> bp_pid l \<noteq> bp_pid p)"

text \<open>A leaf that fills its page, as the constructor of the file makes leaves.\<close>

definition leaf_of :: "world \<Rightarrow> btree_file \<Rightarrow> leaf_page \<Rightarrow> bool" where
  "leaf_of w b p \<longleftrightarrow> leaf_ok p \<and> lp_numSlots p = leaf_getMaxTuples (w_pageSize w) (bf_td b) \<and>
     bp_td p = bf_td b \<and> bp_keyField p = bf_keyField b \<and> getTableId (bp_pid p) = bf_tableid b \<and>
     (\<exists>n. bp_pid p = BTreePageId (bf_tableid b) n LEAF)"

definition leaves_fit :: "world \<Rightarrow> btree_file \<Rightarrow> bool" where
  "leaves_fit w b \<longleftrightarrow> w_pageSize w < 2 ^ 60 \<and> 12 \<le> getSize (bf_td b) * leaf_getMaxTuples (w_pageSize w) (bf_td b) \<and>
     0 \<le> bf_keyField b \<and> nat (bf_keyField b) < numFields (bf_td b)"

definition root_open :: "world \<Rightarrow> (nat \<Rightarrow> page) \<Rightarrow> btree_file \<Rightarrow> nat \<Rightarrow> root_ptr_page \<Rightarrow> bool" where
  "root_open w g b r rp \<longleftrightarrow> r < length (w_objs w) \<and> g r = RootPg rp \<and> getHeaderId rp = None \<and>
     rt_pid rp = rootptr_getId (bf_tableid b) \<and> pm_find (rootptr_getId (bf_tableid b)) (w_pool w) = Some r"

text \<open>The part of \<open>splitLeafPage\<close> after the tuples have moved.\<close>

definition split_tail :: "nat \<Rightarrow> nat \<Rightarrow> nat \<Rightarrow> nat \<Rightarrow> page_id \<Rightarrow> page_id \<Rightarrow> page_id \<Rightarrow> field \<Rightarrow> i32 \<Rightarrow> nat M" where
  "split_tail n i a c parent pid rid fld sv =
     bindM (getParentWithEmptySlots n i parent (Some (IntField sv))) (\<lambda>parentPage.
     bindM (insertEntry_at parentPage (BTreeEntry_new (Some (IntField sv)) (Some pid) (Some rid))) (\<lambda>_.
     bindM (updateParentPointers parentPage) (\<lambda>_.
     bindM (liftM (field_compare fld LESS_THAN (Some (IntField sv)))) (\<lambda>b. returnM (if b then a else c)))))"

lemma link_left_other: "(\<And>c l. nb = Some (c, l) \<Longrightarrow> c \<noteq> x) \<Longrightarrow> link_left nb no g x = g x"
  by (auto simp: link_left_def split: option.split)

lemma split_link:
  assumes nb: "right_neighbour w g a p nb" and w': "length (w_objs w) \<le> length (w_objs w')" "g' = g(c' := q)" "c' = length (w_objs w)"
    and pool: "\<And>j. no_skeleton j \<Longrightarrow> j \<noteq> rid \<Longrightarrow> pm_find j (w_pool w') = pm_find j (w_pool w)" and rid: "pm_find rid (w_pool w) = None"
      "rid = BTreePageId (getTableId (bp_pid p)) no LEAF"
    and m: "m = [(bp_pid p, a), (rid, c')]"
  shows "bindM (case getRightSiblingId p of None \<Rightarrow> returnM ()
            | Some i \<Rightarrow>
                bindM (bt_getPage i True) (\<lambda>nx.
                bindM (leaf_at nx) (\<lambda>next.
                bindM (liftM (setLeftSiblingId next (Some rid))) (\<lambda>next'.
                  put_page nx (LeafPg next'))))) k (with_pages w' g' m) =
    k () (with_pages w' (link_left nb no g') (m @ link_dirty nb))"
proof (cases nb)
  case None
  with nb show ?thesis by (simp add: right_neighbour_def link_left_def link_dirty_def)
next
  case (Some cl)
  then obtain c l where cl: "nb = Some (c, l)" by (cases cl) auto
  with nb have c: "getRightSiblingId p = Some (bp_pid l)" "c < length (w_objs w)" "c \<noteq> a" "g c = LeafPg l"
      "pm_find (bp_pid l) (w_pool w) = Some c" "bp_pid l \<noteq> bp_pid p"
    by (auto simp: right_neighbour_def)
  then have "bp_pid l = BTreePageId (getTableId (bp_pid p)) (lp_rightSibling p) LEAF"
    by (simp add: getRightSiblingId_def split: if_splits)
  then have tab: "getTableId (bp_pid l) = getTableId (bp_pid p)" "no_skeleton (bp_pid l)" by simp_all
  have ne: "bp_pid l \<noteq> rid" using c(5) rid(1) by auto
  have mi: "pm_find (bp_pid l) m = None" using ne c(6) tab(2) m by (auto simp: pid_eq_iff)
  have "pm_find (bp_pid l) (w_pool w') = Some c" using pool [OF tab(2) ne] c(5) by simp
  with mi have "pm_find (bp_pid l) m = Some c \<or> pm_find (bp_pid l) m = None \<and> pm_find (bp_pid l) (w_pool w') = Some c" by simp
  note hit = with_pages_getPage(2) [OF this]
  have "c < length (w_objs w')" "g' c = LeafPg l" using c w' by auto
  then show ?thesis
    using cl c(1) tab rid(2) mi
    by (simp add: hit bindM_assoc setLeftSiblingId_def link_left_def link_dirty_def pm_put_new)
qed

definition new_leaf :: "world \<Rightarrow> btree_file \<Rightarrow> leaf_page" where
  "new_leaf w b = empty_leaf (w_pageSize w) (bf_td b) (BTreePageId (bf_tableid b) (new_page_no w b) LEAF) (bf_keyField b)"

lemma new_leaf_of:
  assumes "file_open w i b" "leaves_fit w b"
  shows "leaf_of w b (new_leaf w b)" "leaf_tuples (new_leaf w b) = []"
    "leaf_getNumEmptySlots (new_leaf w b) = leaf_getMaxTuples (w_pageSize w) (bf_td b)"
  using assms empty_leaf_spec [of "w_pageSize w" "bf_keyField b" "bf_td b"]
  by (simp_all add: leaf_of_def new_leaf_def leaves_fit_def file_open_def)

lemma leaf_links [simp]:
  "leaf_ok (p\<lparr>lp_rightSibling := x\<rparr>) = leaf_ok p" "leaf_ok (p\<lparr>lp_leftSibling := x\<rparr>) = leaf_ok p"
  "leaf_ok (p\<lparr>bp_parent := x\<rparr>) = leaf_ok p"
  "leaf_tuples (p\<lparr>lp_rightSibling := x\<rparr>) = leaf_tuples p" "leaf_tuples (p\<lparr>lp_leftSibling := x\<rparr>) = leaf_tuples p"
  "leaf_tuples (p\<lparr>bp_parent := x\<rparr>) = leaf_tuples p"
  "leaf_getNumEmptySlots (p\<lparr>lp_rightSibling := x\<rparr>) = leaf_getNumEmptySlots p"
  "leaf_getNumEmptySlots (p\<lparr>lp_leftSibling := x\<rparr>) = leaf_getNumEmptySlots p"
  "leaf_getNumEmptySlots (p\<lparr>bp_parent := x\<rparr>) = leaf_getNumEmptySlots p"
  "leaf_getNumTuples (p\<lparr>lp_rightSibling := x\<rparr>) = leaf_getNumTuples p"
  "getParentId (p\<lparr>lp_rightSibling := x\<rparr>) = getParentId p"
  by (simp_all add: leaf_ok_def leaf_tuples_def leaf_view_def leaf_isSlotUsed_def leaf_getNumEmptySlots_def
      leaf_getNumTuples_def getParentId_def cong: if_cong)

text \<open>
  The two halves of the full leaf \<open>l\<close>: \<open>p\<close> in its place, \<open>q\<close> in the new page of the file, and the key
  \<open>sv\<close> between them.
\<close>

definition leaf_halves :: "world \<Rightarrow> btree_file \<Rightarrow> leaf_page \<Rightarrow> leaf_page \<Rightarrow> leaf_page \<Rightarrow> 32 word \<Rightarrow> bool" where
  "leaf_halves w b l p q sv \<longleftrightarrow>
     (let h = length (leaf_tuples l) div 2 in
       leaf_ok p \<and> leaf_frame (l\<lparr>lp_rightSibling := new_page_no w b\<rparr>) p \<and> leaf_tuples p = take h (leaf_tuples l) \<and>
       leaf_ok q \<and> leaf_frame ((new_leaf w b)\<lparr>lp_rightSibling := lp_rightSibling l, lp_leftSibling := pageNumber (bp_pid l)\<rparr>) q \<and>
       leaf_sorted q \<and> mset (leaf_tuples q) = mset (drop h (leaf_tuples l)) \<and>
       key_of (bf_keyField b) (leaf_tuples l ! h) = sint sv)"

lemma split_new_page:
  assumes f: "file_open w i b" "leaves_fit w b" "root_open w g b r rp" "\<not> pool_full w"
    and p: "pm_find k (w_pool w) = Some a" "k = BTreePageId (bf_tableid b) pn LEAF"
  shows "getEmptyPage n i LEAF (with_pages w g [(k, a)]) =
    Inr (length (w_objs w), with_pages (add_page w i b (LeafPg (new_leaf w b))) (g(length (w_objs w) := LeafPg (new_leaf w b)))
      [(k, a), (bp_pid (new_leaf w b), length (w_objs w))])"
proof -
  let ?lf = "new_leaf w b" and ?rid = "bp_pid (new_leaf w b)" and ?m = "[(k, a)]"
  have rid: "?rid = BTreePageId (bf_tableid b) (new_page_no w b) LEAF" by (simp add: new_leaf_def)
  have new: "pm_find ?rid (w_pool w) = None"
    using f(1) by (simp add: rid file_open_def disk_fresh_def new_page_no_def)
  have "?rid \<noteq> k" using new p(1) by auto
  then have mi: "pm_find (rootptr_getId (bf_tableid b)) ?m = None" "pm_find ?rid ?m = None"
    by (auto simp: p(2) rootptr_getId_def rid)
  have rd: "file_readPage i (page_getId (LeafPg ?lf)) v = Inr (LeafPg ?lf, v)"
    if "i < length (w_files v)" "w_files v ! i = BTreeF (b\<lparr>bf_disk := disk_grow (w_append w) (w_pageSize w) (bf_disk b)\<rparr>)"
      "w_catalog v = w_catalog w" "w_pageSize v = w_pageSize w" for v
    using read_new_leaf [OF f(1) _ _ that] f(2) by (simp add: leaves_fit_def new_leaf_def)
  have ro: "r < length (w_objs w)" "g r = RootPg rp" "getHeaderId rp = None"
      "pm_find (rootptr_getId (bf_tableid b)) (w_pool w) = Some r"
    using f(3) by (auto simp: root_open_def)
  have lid: "page_getId (LeafPg ?lf) = BTreePageId (bf_tableid b) (new_page_no w b) LEAF" by (simp add: new_leaf_def)
  have "pm_find (BTreePageId (bf_tableid b) (new_page_no w b) LEAF) ?m = None" using mi(2) by (simp only: lid [symmetric] page_getId.simps)
  note gp = getEmptyPage_run [where p = "LeafPg ?lf" and ty = LEAF and n = n and g = g and m = ?m, OF f(1) ro disjI1 [OF mi(1)] this f(4) lid rd]
  show ?thesis by (rule gp [unfolded page_getId.simps pm_put_new [OF mi(2)] append_Cons append_Nil])
qed

lemma split_front:
  assumes f: "file_open w i b" "leaves_fit w b" "root_open w g b r rp" "\<not> pool_full w"
    and p: "a < length (w_objs w)" "g a = LeafPg p" "leaf_of w b p" "leaf_getNumEmptySlots p = 0"
      "pm_find (bp_pid p) (w_pool w) = Some a"
    and nb: "right_neighbour w g a p nb"
  defines "no \<equiv> new_page_no w b" and "c \<equiv> length (w_objs w)" and "w1 \<equiv> add_page w i b (LeafPg (new_leaf w b))"
  shows "\<exists>p' q' sv. leaf_halves w b p p' q' sv \<and>
    splitLeafPage n i a fld (with_pages w g [(bp_pid p, a)]) =
      split_tail n i a c (getParentId p) (bp_pid p) (bp_pid (new_leaf w b)) fld sv
        (with_pages w1 (link_left nb no (g(a := LeafPg p', c := LeafPg q')))
          ([(bp_pid p, a), (bp_pid (new_leaf w b), c)] @ link_dirty nb))"
proof -
  let ?lf = "new_leaf w b" and ?rid = "bp_pid (new_leaf w b)" and ?m = "[(bp_pid p, a)]"
  define m1 where "m1 = [(bp_pid p, a), (?rid, c)] @ link_dirty nb"
  have rid: "?rid = BTreePageId (bf_tableid b) no LEAF" by (simp add: new_leaf_def no_def)
  have new: "pm_find ?rid (w_pool w) = None"
    using f(1) by (simp add: rid no_def file_open_def disk_fresh_def new_page_no_def)
  have ac: "a \<noteq> c" using p(1) by (simp add: c_def)
  obtain pn where pn: "bp_pid p = BTreePageId (bf_tableid b) pn LEAF" using p(3) by (auto simp: leaf_of_def)
  have ridp: "?rid \<noteq> bp_pid p" using new p(5) by auto
  have "getEmptyPage n i LEAF (with_pages w g ?m) = Inr (c, with_pages w1 (g(c := LeafPg ?lf)) [(bp_pid p, a), (?rid, c)])"
    unfolding c_def w1_def by (rule split_new_page [OF f p(5) pn])
  then have e: "bindM (getEmptyPage n i LEAF) k (with_pages w g ?m) = k c (with_pages w1 (g(c := LeafPg ?lf)) [(bp_pid p, a), (?rid, c)])"
    for k :: "nat \<Rightarrow> nat M" by (rule bindM_apply(1))
  let ?g1 = "link_left nb no (g(c := LeafPg ?lf))"
  let ?r3 = "?lf\<lparr>lp_rightSibling := lp_rightSibling p, lp_leftSibling := pn\<rparr>" and ?p2 = "p\<lparr>lp_rightSibling := no\<rparr>"
  let ?g2 = "?g1(c := LeafPg ?r3, a := LeafPg ?p2)"
  have len: "length (w_objs w1) = Suc c" by (simp add: w1_def c_def)
  have pool1: "pm_find j (w_pool w1) = pm_find j (w_pool w)" if "no_skeleton j" "j \<noteq> ?rid" for j
    using that by (simp add: w1_def pages.find_put rid)
  have rid': "?rid = BTreePageId (getTableId (bp_pid p)) no LEAF" by (simp add: rid pn)
  have lw1: "length (w_objs w) \<le> length (w_objs w1)" using len by (simp add: c_def)
  note lk = split_link [OF nb lw1 refl refl, where q = "LeafPg ?lf" and rid = ?rid and no = no,
      folded c_def, OF pool1 new rid' refl, folded m1_def]
  have g1: "?g1 a = LeafPg p" "?g1 c = LeafPg ?lf"
    using p(2) ac nb by (auto simp: link_left_def right_neighbour_def c_def split: option.split)
  have g2: "?g2 a = LeafPg ?p2" "?g2 c = LeafPg ?r3" using ac by simp_all
  note lf = new_leaf_of [OF f(1,2)] and pl = p(3) [unfolded leaf_of_def]
  have "length (leaf_tuples p) = leaf_getMaxTuples (w_pageSize w) (bf_td b)"
    using leaf_occupancy [of p] p(4) pl by simp
  moreover have "0 < leaf_getMaxTuples (w_pageSize w) (bf_td b)"
    using f(2) by (cases "leaf_getMaxTuples (w_pageSize w) (bf_td b)") (auto simp: leaves_fit_def)
  ultimately have n: "leaf_tuples ?p2 \<noteq> []" "length (leaf_tuples ?p2) \<le> leaf_getNumEmptySlots ?r3" using lf(3) by auto
  have aw: "a < length (w_objs w1)" "c < length (w_objs w1)" using len p(1) by (simp_all add: c_def)
  have ok: "leaf_ok ?p2" "leaf_ok ?r3" "leaf_tuples ?r3 = []" "bp_td ?r3 = bp_td ?p2" "bp_keyField ?r3 = bp_keyField ?p2"
    using pl lf by (simp_all add: leaf_of_def)
  note mv = split_move [OF ac aw g2 ok(1) n(1) ok(2-5) n(2), where m = "[(bp_pid p, a), (?rid, c)] @ link_dirty nb"]
  define k where "k = (length (leaf_tuples ?p2) + 1) div 2 - 1"
  obtain it p3 q3 s sv p' q' where mv:
      "split_leaf_loop a c k (leaf_rbegin ?p2) (with_pages w1 ?g2 m1) =
        Inr (it, with_pages w1 (?g2(a := LeafPg p3, c := LeafPg q3)) m1)"
      "leaf_iter_deref p3 it = Inr s" "s < length (lp_tuples p3)" "getField (lp_tuples p3 ! s) (bp_keyField ?p2) = Inr (IntField sv)"
      "leaf_give a c s (with_pages w1 (?g2(a := LeafPg p3, c := LeafPg q3)) m1) =
        Inr ((), with_pages w1 (?g2(a := LeafPg p', c := LeafPg q')) m1)"
      "leaf_ok p'" "leaf_frame ?p2 p'" "leaf_tuples p' = take (length (leaf_tuples ?p2) div 2) (leaf_tuples ?p2)"
      "leaf_ok q'" "leaf_frame ?r3 q'" "leaf_sorted q'" "mset (leaf_tuples q') = mset (drop (length (leaf_tuples ?p2) div 2) (leaf_tuples ?p2))"
      "key_of (bp_keyField ?p2) (leaf_tuples ?p2 ! (length (leaf_tuples ?p2) div 2)) = sint sv"
    using split_move [OF ac aw g2 ok(1) n(1) ok(2-5) n(2), where m = m1, folded k_def] by blast
  have upd: "?g2(a := x, c := y) = ?g1(a := x, c := y)" for x y using ac by auto
  have mid: "nat (c_div (int (leaf_getNumTuples ?p2) + 1) 2 - 1) = k"
    by (simp add: k_def leaf_getNumTuples_eq c_div_def nat_diff_distrib nat_div_distrib zdiv_int)
  have l: "bindM (split_leaf_loop a c k (leaf_rbegin ?p2)) x (with_pages w1 ?g2 m1) =
      x it (with_pages w1 (?g1(a := LeafPg p3, c := LeafPg q3)) m1)" for x :: "leaf_iter \<Rightarrow> nat M"
    by (rule bindM_apply(1)) (rule mv(1) [unfolded upd])
  have gv: "bindM (leaf_give a c s) k (with_pages w1 (?g1(a := LeafPg p3, c := LeafPg q3)) m1) =
      k () (with_pages w1 (?g1(a := LeafPg p', c := LeafPg q')) m1)" for k :: "unit \<Rightarrow> nat M"
    by (rule bindM_apply(1)) (rule mv(5) [unfolded upd])
  have sib: "setRightSiblingId ?lf (getRightSiblingId p) = Inr (?lf\<lparr>lp_rightSibling := lp_rightSibling p\<rparr>)"
      "setLeftSiblingId (?lf\<lparr>lp_rightSibling := lp_rightSibling p\<rparr>) (Some (bp_pid p)) = Inr ?r3"
      "setRightSiblingId p (Some ?rid) = Inr ?p2"
    using pn rid by (auto simp: setRightSiblingId_def setLeftSiblingId_def getRightSiblingId_def)
  have fi: "i < length (w_files w1)" "w_files w1 ! i = BTreeF (b\<lparr>bf_disk := disk_grow (w_append w) (w_pageSize w) (bf_disk b)\<rparr>)"
    using f(1) by (simp_all add: w1_def file_open_def)
  have par: "getParentId p' = getParentId p" using leaf_frame_simps [OF mv(7)] by (simp add: getParentId_def)
  have run: "splitLeafPage n i a fld (with_pages w g ?m) =
      split_tail n i a c (getParentId p) (bp_pid p) ?rid fld sv (with_pages w1 (?g1(a := LeafPg p', c := LeafPg q')) m1)"
    using aw g1 ac ac [symmetric] sib mid mv(2,3,4) fi par pl p(2)
    by (simp add: splitLeafPage_def split_tail_def Let_def e lk l gv fun_upd_same fun_upd_other del: fun_upd_apply)
  have "?g1(a := LeafPg p', c := LeafPg q') = link_left nb no (g(a := LeafPg p', c := LeafPg q'))"
    using nb ac by (auto simp: link_left_def right_neighbour_def c_def split: option.split)
  moreover have "bp_keyField ?p2 = bf_keyField b" using pl by simp
  ultimately show ?thesis
    using run mv(6-13) pn unfolding m1_def leaf_halves_def by (intro exI [of _ p'] exI [of _ q'] exI [of _ sv]) (simp add: no_def Let_def)
qed

section \<open>A tree with one more leaf\<close>

text \<open>Inserting an element into a list at a position.\<close>

definition ins_at :: "nat \<Rightarrow> 'a \<Rightarrow> 'a list \<Rightarrow> 'a list" where
  "ins_at i x xs = take i xs @ x # drop i xs"

lemma length_ins_at [simp]: "length (ins_at i x xs) = Suc (length xs)"
  by (simp add: ins_at_def)

lemma set_ins_at: "set (ins_at i x xs) = insert x (set xs)"
  by (metis (no_types, lifting) Un_insert_right append_take_drop_id ins_at_def list.simps(15) set_append)

lemma map_ins_at: "map f (ins_at i x xs) = ins_at i (f x) (map f xs)"
  by (simp add: ins_at_def take_map drop_map)

lemma distinct_ins_at: "distinct (ins_at i x xs) \<longleftrightarrow> x \<notin> set xs \<and> distinct xs"
proof -
  have "distinct (ins_at i x xs) \<longleftrightarrow> x \<notin> set (take i xs @ drop i xs) \<and> distinct (take i xs @ drop i xs)"
    unfolding ins_at_def distinct_append set_append by auto
  then show ?thesis unfolding append_take_drop_id .
qed

lemma list_all2_ins_at: "list_all2 P xs ys \<Longrightarrow> P x y \<Longrightarrow> list_all2 P (ins_at i x xs) (ins_at i y ys)"
  unfolding ins_at_def by (intro list_all2_appendI list_all2_takeI list.rel_intros list_all2_dropI)

lemma ins_at_Suc: "j < length xs \<Longrightarrow> ins_at (Suc j) x xs = take j xs @ xs ! j # x # drop (Suc j) xs"
  by (simp add: ins_at_def take_Suc_conv_app_nth)

lemma ins_at_nth: "j < length xs \<Longrightarrow> ins_at (Suc j) x xs ! j = xs ! j" "j < length xs \<Longrightarrow> ins_at (Suc j) x xs ! Suc j = x"
  by (simp_all add: ins_at_Suc nth_append)

lemma ins_at_nth_Suc: "Suc j < length xs \<Longrightarrow> ins_at (Suc j) x xs ! Suc (Suc j) = xs ! Suc j"
  by (simp add: ins_at_Suc nth_append)

lemma chained_nth:
  "chained ls \<Longrightarrow> j < length ls \<Longrightarrow>
   getRightSiblingId (ls ! j) = (if Suc j < length ls then Some (bp_pid (ls ! Suc j)) else None)"
proof (induction ls arbitrary: j rule: chained.induct)
  case (3 l m ls)
  then show ?case by (cases j) auto
qed auto

lemma chained_Cons: "chained (l # ls) \<longleftrightarrow> getRightSiblingId l = (case ls of [] \<Rightarrow> None | m # _ \<Rightarrow> Some (bp_pid m)) \<and> chained ls"
  by (cases ls) auto

lemma chained_insert:
  assumes "chained ls" "j < length ls" "bp_pid p = bp_pid (ls ! j)" "getRightSiblingId p = Some (bp_pid q)"
    "getRightSiblingId q = getRightSiblingId (ls ! j)"
  shows "chained (ins_at (Suc j) q (ls[j := p]))"
  using assms
proof (induction ls arbitrary: j)
  case (Cons l ls)
  show ?case
  proof (cases j)
    case 0
    with Cons.prems show ?thesis by (simp add: ins_at_def chained_Cons)
  next
    case (Suc i)
    then have c: "chained (ins_at (Suc i) q (ls[i := p]))" using Cons by (auto simp: chained_Cons)
    have "i < length ls" using Cons.prems(2) Suc by simp
    then have "(case ins_at (Suc i) q (ls[i := p]) of [] \<Rightarrow> None | m # _ \<Rightarrow> Some (bp_pid m)) =
        (case ls of [] \<Rightarrow> None | m # _ \<Rightarrow> Some (bp_pid m))"
      using Cons.prems(3) Suc by (cases ls; cases i) (auto simp: ins_at_def)
    then show ?thesis using Cons.prems(1) c Suc by (simp add: chained_Cons ins_at_def)
  qed
qed simp

lemma sorted_mid_subset:
  fixes A :: "int list"
  assumes "sorted (A @ M @ B)" "sorted M'" "set M' \<subseteq> set M"
  shows "sorted (A @ M' @ B)"
  using assms by (auto simp: sorted_append)

text \<open>
  The keys of a tree whose leaf at \<open>j\<close> has been split into \<open>p\<close> and \<open>q\<close> around \<open>v\<close>, one of the keys
  of the leaf.
\<close>

lemma keys_insert:
  assumes len: "length xs = length ls" "j < length ls"
    and srt: "sorted (concat (map2 (\<lambda>x l. sep_keys (fst x) @ leaf_keys l) xs ls))"
    and v: "sep_keys k = [v]" and m: "sorted (leaf_keys p @ v # leaf_keys q)"
      "set (leaf_keys p @ v # leaf_keys q) \<subseteq> set (leaf_keys (ls ! j))"
  shows "sorted (concat (map2 (\<lambda>x l. sep_keys (fst x) @ leaf_keys l)
    (ins_at (Suc j) (k, no) xs) (ins_at (Suc j) q (ls[j := p]))))"
proof -
  let ?f = "\<lambda>x l. sep_keys (fst x) @ leaf_keys l"
  let ?A = "concat (map2 ?f (take j xs) (take j ls)) @ sep_keys (fst (xs ! j))"
  let ?B = "concat (map2 ?f (drop (Suc j) xs) (drop (Suc j) ls))"
  have "ins_at (Suc j) (k, no) xs = take j xs @ [xs ! j, (k, no)] @ drop (Suc j) xs"
      "ins_at (Suc j) q (ls[j := p]) = take j ls @ [p, q] @ drop (Suc j) ls"
    using len by (simp_all add: ins_at_Suc)
  then have "concat (map2 ?f (ins_at (Suc j) (k, no) xs) (ins_at (Suc j) q (ls[j := p]))) =
      ?A @ (leaf_keys p @ v # leaf_keys q) @ ?B"
    using len v by (simp only:) simp
  moreover have "sorted (?A @ leaf_keys (ls ! j) @ ?B)"
    using srt keys_split [OF len(2,1), of "ls ! j"] by simp
  note sorted_mid_subset [OF this m]
  ultimately show ?thesis by (simp only:)
qed

section \<open>The invariant of a tree of two levels\<close>

text \<open>
  A tree that is ready for the next insertion: all of its pages are in the pool, its keys are
  sorted, its leaves are not empty, know their parent and have the number of slots the page size
  gives; the rest of the file is unused.
\<close>

definition tree_ready :: "world \<Rightarrow> btree_pages \<Rightarrow> bool" where
  "tree_ready w T \<longleftrightarrow>
     tree_in_pool w T \<and> sorted (tree_keys T) \<and> file_open w (tr_file T) (tr_btree T) \<and> leaves_fit w (tr_btree T) \<and>
     root_open w (pages_of w) (tr_btree T) (tr_ptr T) (tr_rootptr T) \<and>
     int_getMaxEntries (w_pageSize w) (bp_td (tr_root T)) (bp_keyField (tr_root T)) = Inr (np_numSlots (tr_root T) - 1) \<and>
     pageNumber (bp_pid (tr_root T)) \<noteq> 0 \<and> 2 \<le> leaf_getMaxTuples (w_pageSize w) (bf_td (tr_btree T)) \<and>
     (\<forall>l \<in> set (tr_leaves T). leaf_of w (tr_btree T) l \<and> getParentId l = bp_pid (tr_root T) \<and> leaf_tuples l \<noteq> [])"

text \<open>The root has a used slot per leaf.\<close>

lemma int_occupancy:
  assumes "int_ok p" "int_isSlotUsed p 0"
  shows "length (int_pairs p) + int_getNumEmptySlots p = np_numSlots p"
proof -
  have n: "0 < np_numSlots p" using assms(1) by (simp add: int_ok_def)
  have "int_getNumEmptySlots p = length (filter (\<lambda>i. \<not> int_isSlotUsed p i) [0..<np_numSlots p])"
    unfolding int_getNumEmptySlots_def using assms(2) n by (simp add: upt_conv_Cons)
  also have "\<dots> = length (filter (\<lambda>o'. o' = None) (int_view p))" by (simp add: int_view_def filter_map comp_def)
  finally show ?thesis using length_somes_None [of "int_view p"] by (simp add: int_pairs_def)
qed

lemma root_room:
  assumes "tree_in_pool w T"
  shows "0 < int_getNumEmptySlots (tr_root T) \<longleftrightarrow> length (tr_leaves T) < np_numSlots (tr_root T)"
proof -
  have "length (int_pairs (tr_root T)) + int_getNumEmptySlots (tr_root T) = np_numSlots (tr_root T)"
    using assms by (intro int_occupancy) (auto simp: tree_in_pool_def)
  with tree_lengths(1) [OF assms] show ?thesis by presburger
qed

definition relink :: "int \<Rightarrow> nat \<Rightarrow> leaf_page list \<Rightarrow> leaf_page list" where
  "relink no j ls = (if Suc j < length ls then ls[Suc j := (ls ! Suc j)\<lparr>lp_leftSibling := no\<rparr>] else ls)"

definition tree_split :: "btree_pages \<Rightarrow> btree_file \<Rightarrow> internal_page \<Rightarrow> nat \<Rightarrow> leaf_page \<Rightarrow> leaf_page \<Rightarrow> nat \<Rightarrow> btree_pages" where
  "tree_split T b p j l r c = T\<lparr>tr_btree := b, tr_root := p, tr_addrs := ins_at (Suc j) c (tr_addrs T),
     tr_leaves := ins_at (Suc j) r ((relink (pageNumber (bp_pid r)) j (tr_leaves T))[j := l])\<rparr>"

lemma relink_simps [simp]:
  "length (relink no j ls) = length ls" "map bp_pid (relink no j ls) = map bp_pid ls"
  "map leaf_tuples (relink no j ls) = map leaf_tuples ls" "relink no j ls ! j = ls ! j"
proof -
  show "length (relink no j ls) = length ls" "relink no j ls ! j = ls ! j" by (simp_all add: relink_def)
  show "map bp_pid (relink no j ls) = map bp_pid ls" "map leaf_tuples (relink no j ls) = map leaf_tuples ls"
    by (auto simp: relink_def map_update list_update_same_conv)
qed

lemma chained_relink: "chained ls \<Longrightarrow> chained (relink no j ls)"
  by (auto simp: relink_def getRightSiblingId_def intro!: chained_update)

lemma relink_nth:
  "i < length ls \<Longrightarrow> relink no j ls ! i = (if i = Suc j then (ls ! i)\<lparr>lp_leftSibling := no\<rparr> else ls ! i)"
  by (simp add: relink_def)

text \<open>The addresses of the pages of a tree in the pool are different.\<close>

lemma tree_addresses:
  assumes T: "tree_in_pool w T" and j: "j < length (tr_leaves T)"
  shows "leaf_resident w (tr_addrs T ! j) (tr_leaves T ! j)" "tr_addrs T ! j \<noteq> tr_raddr T" "tr_addrs T ! j \<noteq> tr_ptr T"
    "tr_raddr T \<noteq> tr_ptr T" "\<And>i. i < length (tr_leaves T) \<Longrightarrow> tr_addrs T ! i = tr_addrs T ! j \<longleftrightarrow> i = j"
    "\<And>i. i < length (tr_leaves T) \<Longrightarrow> bp_pid (tr_leaves T ! i) = bp_pid (tr_leaves T ! j) \<longleftrightarrow> i = j"
    "bp_pid (tr_leaves T ! j) = int_child (tr_root T) (snd (int_pairs (tr_root T) ! j))"
proof -
  note t = T [unfolded tree_in_pool_def]
  have r: "leaf_resident w (tr_addrs T ! j) (tr_leaves T ! j)" if "j < length (tr_leaves T)" for j
    using t that by (auto simp: list_all2_conv_all_nth)
  show "tr_addrs T ! j \<noteq> tr_raddr T" "tr_addrs T ! j \<noteq> tr_ptr T" "tr_raddr T \<noteq> tr_ptr T"
    using t r [OF j] by (auto simp: leaf_resident_def)
  show "leaf_resident w (tr_addrs T ! j) (tr_leaves T ! j)" using r [OF j] .
  have d: "tr_addrs T ! i = tr_addrs T ! j \<longleftrightarrow> i = j" if "i < length (tr_leaves T)" for i
    using t that j tree_lengths(2) [OF T] by (simp add: nth_eq_iff_index_eq)
  then show "tr_addrs T ! i = tr_addrs T ! j \<longleftrightarrow> i = j" if "i < length (tr_leaves T)" for i using that .
  show "bp_pid (tr_leaves T ! i) = bp_pid (tr_leaves T ! j) \<longleftrightarrow> i = j" if "i < length (tr_leaves T)" for i
    using r [OF that] r [OF j] d [OF that] by (auto simp: leaf_resident_def)
  have "map bp_pid (tr_leaves T) ! j = map (\<lambda>x. int_child (tr_root T) (snd x)) (int_pairs (tr_root T)) ! j" using t by simp
  with j tree_lengths(1) [OF T] show "bp_pid (tr_leaves T ! j) = int_child (tr_root T) (snd (int_pairs (tr_root T) ! j))"
    by simp
qed

text \<open>A tree in the pool depends on what the page objects hold, the pool and the files.\<close>

lemma tree_in_pool_pages:
  assumes "w_files w' = w_files w" "w_pool w' = w_pool w" "length (w_objs w') = length (w_objs w)"
    "\<And>i. i < length (w_objs w) \<Longrightarrow> po_page (w_objs w' ! i) = po_page (w_objs w ! i)"
  shows "tree_in_pool w' T \<longleftrightarrow> tree_in_pool w T"
proof -
  have "leaf_resident w' = leaf_resident w" using assms by (auto simp: leaf_resident_def fun_eq_iff)
  with assms show ?thesis by (auto simp: tree_in_pool_def)
qed

lemma same_leaf_resident:
  "leaf_resident w a l \<Longrightarrow> length (w_objs w) \<le> length (w_objs w') \<Longrightarrow> pages_of w' a = LeafPg l' \<Longrightarrow> leaf_ok l' \<Longrightarrow>
   bp_pid l' = bp_pid l \<Longrightarrow> (\<And>i x. pm_find i (w_pool w) = Some x \<Longrightarrow> pm_find i (w_pool w') = Some x) \<Longrightarrow> leaf_resident w' a l'"
  by (simp add: leaf_resident_def pages_of_def)

lemma tree_split_in_pool:
  assumes T: "tree_in_pool w T" and j: "j < length (tr_leaves T)"
    and W: "length (w_objs w) < length (w_objs W)" "tr_file T < length (w_files W)" "w_files W ! tr_file T = BTreeF b"
      "bf_disk b \<noteq> []" "bf_tableid b = bf_tableid (tr_btree T)" "bf_td b = bf_td (tr_btree T)"
      "bf_keyField b = bf_keyField (tr_btree T)"
    and pool: "\<And>i x. pm_find i (w_pool w) = Some x \<Longrightarrow> pm_find i (w_pool W) = Some x"
    and ptr: "pages_of W (tr_ptr T) = RootPg (tr_rootptr T)"
    and root: "pages_of W (tr_raddr T) = IntPg p" "int_ok p" "int_frame (tr_root T) p" "int_isSlotUsed p 0" "int_isSlotUsed p 1"
      "int_pairs p = ins_at (Suc j) (k, pageNumber (bp_pid r)) (int_pairs (tr_root T))"
    and old: "\<And>i. i < length (tr_leaves T) \<Longrightarrow> i \<noteq> j \<Longrightarrow>
        pages_of W (tr_addrs T ! i) = LeafPg (relink (pageNumber (bp_pid r)) j (tr_leaves T) ! i)"
    and l: "pages_of W (tr_addrs T ! j) = LeafPg l" "leaf_ok l" "bp_pid l = bp_pid (tr_leaves T ! j)"
      "getRightSiblingId l = Some (bp_pid r)" "bp_td l = bf_td b" "bp_keyField l = bf_keyField b"
    and r: "c = length (w_objs w)" "pages_of W c = LeafPg r" "leaf_ok r" "bp_pid r = int_child (tr_root T) (pageNumber (bp_pid r))"
      "pm_find (bp_pid r) (w_pool W) = Some c" "getRightSiblingId r = getRightSiblingId (tr_leaves T ! j)"
      "bp_td r = bf_td b" "bp_keyField r = bf_keyField b"
  shows "tree_in_pool W (tree_split T b p j l r c)"
proof -
  note t = T [unfolded tree_in_pool_def]
  let ?ls = "tr_leaves T" and ?no = "pageNumber (bp_pid r)"
  let ?rl = "(relink ?no j ?ls)[j := l]"
  note len = tree_lengths [OF T] and fr = int_frame_simps [OF root(3)]
  have "leaf_resident W (tr_addrs T ! i) (?rl ! i)" if i: "i < length ?ls" for i
  proof (cases "i = j")
    case True
    with l j W(1) tree_addresses(1) [OF T j] pool show ?thesis
      by (intro same_leaf_resident [of w _ "?ls ! j" W]) auto
  next
    case False
    have "bp_pid (relink ?no j ?ls ! i) = bp_pid (?ls ! i)" "leaf_ok (relink ?no j ?ls ! i)"
      using i tree_addresses(1) [OF T i] by (auto simp: relink_nth leaf_resident_def)
    with False i old [OF i False] W(1) tree_addresses(1) [OF T i] pool show ?thesis
      by (intro same_leaf_resident [of w _ "?ls ! i" W]) auto
  qed
  then have "list_all2 (leaf_resident W) (tr_addrs T) ?rl" using len(2) by (simp add: list_all2_conv_all_nth)
  moreover have "leaf_resident W c r" using W(1) r by (simp add: leaf_resident_def pages_of_def)
  ultimately have res: "list_all2 (leaf_resident W) (ins_at (Suc j) c (tr_addrs T)) (ins_at (Suc j) r ?rl)"
    by (rule list_all2_ins_at)
  have "\<forall>a \<in> set (tr_addrs T). a < length (w_objs w)"
    using t by (auto simp: list_all2_conv_all_nth in_set_conv_nth leaf_resident_def)
  then have dist: "distinct (ins_at (Suc j) c (tr_addrs T))" using t r(1) by (auto simp: distinct_ins_at)
  have "map bp_pid ?rl = map bp_pid ?ls"
    using l(3) by (simp add: map_update list_update_same_conv j)
  then have "map bp_pid (ins_at (Suc j) r ?rl) = ins_at (Suc j) (bp_pid r) (map bp_pid ?ls)" by (simp add: map_ins_at)
  also have "\<dots> = map (\<lambda>x. int_child p (snd x)) (int_pairs p)"
    using t r(4) fr by (simp add: root(6) map_ins_at int_child_def)
  finally have pids: "map bp_pid (ins_at (Suc j) r ?rl) = map (\<lambda>x. int_child p (snd x)) (int_pairs p)" .
  have "chained (relink ?no j ?ls)" using t by (simp add: chained_relink)
  then have ch: "chained (ins_at (Suc j) r ?rl)"
    using j l(3,4) r(6) by (intro chained_insert) simp_all
  have "bp_keyField (?ls ! i) = bf_keyField b \<and> bp_td (?ls ! i) = bf_td b" if "i < length ?ls" for i
    using that t W(6,7) by simp
  then have "bp_keyField x = bf_keyField b \<and> bp_td x = bf_td b" if "x \<in> set (relink ?no j ?ls)" for x
    using that by (auto simp: in_set_conv_nth relink_nth)
  then have kt: "\<forall>x \<in> set (ins_at (Suc j) r ?rl). bp_keyField x = bf_keyField b \<and> bp_td x = bf_td b"
    using l(5,6) r(7,8) by (auto simp: set_ins_at dest!: set_update_subset_insert [THEN subsetD])
  show ?thesis
    using t W ptr root fr res dist pids ch kt pool
    by (auto simp: tree_in_pool_def tree_split_def pages_of_def)
qed

section \<open>The new entry of the root\<close>

lemma sep_in_keys:
  "i < length xs \<Longrightarrow> length xs = length ls \<Longrightarrow>
   set (sep_keys (fst (xs ! i))) \<subseteq> set (concat (map2 (\<lambda>x l. sep_keys (fst x) @ leaf_keys l) xs ls))"
proof (induction xs ls arbitrary: i rule: list_induct2')
  case (4 x xs l ls)
  then show ?case by (cases i) fastforce+
qed auto

text \<open>A key of the leaf at \<open>j\<close> lies between the keys of the root around the leaf.\<close>

lemma root_keys_around:
  assumes T: "tree_in_pool w T" "sorted (tree_keys T)" and j: "j < length (tr_leaves T)" and v: "v \<in> set (leaf_keys (tr_leaves T ! j))"
  shows "key_le (fst (int_pairs (tr_root T) ! j)) v"
    and "b \<in> set (drop (Suc j) (int_pairs (tr_root T))) \<Longrightarrow> key_ge (fst b) v"
proof -
  let ?xs = "int_pairs (tr_root T)" and ?ls = "tr_leaves T"
  let ?f = "\<lambda>x l. sep_keys (fst x) @ leaf_keys l"
  note len = tree_lengths(1) [OF T(1)]
  have srt: "sorted ((concat (map2 ?f (take j ?xs) (take j ?ls)) @ sep_keys (fst (?xs ! j))) @ leaf_keys (?ls ! j) @
      concat (map2 ?f (drop (Suc j) ?xs) (drop (Suc j) ?ls)))"
    using T(2) keys_split [OF j len, of "?ls ! j"] by (simp add: tree_keys_def)
  then show "key_le (fst (?xs ! j)) v" using v by (auto simp: key_le_iff sorted_append)
  show "key_ge (fst b) v" if b: "b \<in> set (drop (Suc j) ?xs)"
  proof -
    obtain c0 where xs: "?xs = (None, c0) # somes (drop 1 (int_view (tr_root T)))" using root_pairs [OF T(1)] .
    have "b \<in> set (somes (drop 1 (int_view (tr_root T))))" using b in_set_dropD by (fastforce simp: xs)
    then obtain f where f: "fst b = Some (IntField f)"
      using int_keys_present [of "tr_root T" b] T(1) by (auto simp: tree_in_pool_def)
    obtain i where i: "i < length (drop (Suc j) ?xs)" "b = drop (Suc j) ?xs ! i" using b by (metis in_set_conv_nth)
    have "set (sep_keys (fst b)) \<subseteq> set (concat (map2 ?f (drop (Suc j) ?xs) (drop (Suc j) ?ls)))"
      unfolding i(2) using i(1) len by (intro sep_in_keys) simp_all
    with f srt v show ?thesis by (auto simp: key_ge_def sep_keys_def sorted_append)
  qed
qed

lemma root_children_distinct:
  assumes T: "tree_in_pool w T"
  shows "distinct (map snd (int_pairs (tr_root T)))"
proof -
  have "distinct (map bp_pid (tr_leaves T))" using tree_addresses(6) [OF T] by (auto simp: distinct_conv_nth)
  then have "distinct (map (int_child (tr_root T)) (map snd (int_pairs (tr_root T))))"
    using T by (simp add: tree_in_pool_def comp_def)
  then show ?thesis by (simp only: distinct_map)
qed

lemma root_entry:
  assumes T: "tree_in_pool w T" "sorted (tree_keys T)" and j: "j < length (tr_leaves T)"
    and v: "sint sv \<in> set (leaf_keys (tr_leaves T ! j))" and no: "pm_find (int_child (tr_root T) no) (w_pool w) = None"
    and room: "length (tr_leaves T) < np_numSlots (tr_root T)"
  shows "\<exists>p. insertEntry (tr_root T) (np_numSlots (tr_root T) - 1)
      (BTreeEntry_new (Some (IntField sv)) (Some (bp_pid (tr_leaves T ! j))) (Some (int_child (tr_root T) no))) = Inr p \<and>
    int_ok p \<and> int_frame (tr_root T) p \<and> int_isSlotUsed p 0 \<and> int_isSlotUsed p 1 \<and>
    int_pairs p = ins_at (Suc j) (Some (IntField sv), no) (int_pairs (tr_root T))"
proof -
  let ?p = "tr_root T" and ?xs = "int_pairs (tr_root T)"
  note t = T(1) [unfolded tree_in_pool_def] and len = tree_lengths(1) [OF T(1)]
  have jx: "j < length ?xs" using j len by simp
  have split: "?xs = take j ?xs @ (fst (?xs ! j), snd (?xs ! j)) # drop (Suc j) ?xs"
    using id_take_nth_drop [OF jx] by simp
  have "distinct (map snd (take j ?xs @ (fst (?xs ! j), snd (?xs ! j)) # drop (Suc j) ?xs))"
    using root_children_distinct [OF T(1)] split by simp
  then have l: "snd (?xs ! j) \<notin> snd ` set (take j ?xs @ drop (Suc j) ?xs)" by auto
  have r: "no \<notin> snd ` set ?xs"
  proof
    assume "no \<in> snd ` set ?xs"
    then obtain i where i: "i < length ?xs" "no = snd (?xs ! i)" by (auto simp: in_set_conv_nth)
    have "bp_pid (tr_leaves T ! i) = int_child ?p no" "leaf_resident w (tr_addrs T ! i) (tr_leaves T ! i)"
      using tree_addresses(1,7) [OF T(1), of i] i len by auto
    with no show False by (simp add: leaf_resident_def)
  qed
  obtain c0 where xs: "?xs = (None, c0) # somes (drop 1 (int_view ?p))" using root_pairs [OF T(1)] .
  have "somes (drop 1 (int_view ?p)) \<noteq> []"
    using int_view_drop_used [of 1 ?p] t by (auto simp: int_ok_def)
  then have "2 \<le> length ?xs" using xs by (cases "somes (drop 1 (int_view ?p))") auto
  then have mx: "int_getNumEmptySlots ?p \<noteq> np_numSlots ?p - 1"
    using int_occupancy [of ?p] t by auto
  have em: "0 < int_getNumEmptySlots ?p" using root_room [OF T(1)] room by simp
  let ?e = "BTreeEntry_new (Some (IntField sv)) (Some (bp_pid (tr_leaves T ! j))) (Some (int_child ?p no))"
  have e: "e_key ?e = Some (IntField sv)" "e_left ?e = Some (BTreePageId (getTableId (bp_pid ?p)) (snd (?xs ! j)) LEAF)"
      "e_right ?e = Some (BTreePageId (getTableId (bp_pid ?p)) no LEAF)"
    using tree_addresses(7) [OF T(1) j] t by (simp_all add: BTreeEntry_new_def int_child_def)
  have ok: "int_ok ?p" "LEAF = np_childCategory ?p" "LEAF \<noteq> ROOT_PTR" using t by simp_all
  from int_insert_spec [OF ok(1) e refl ok(2,3) em mx split l r root_keys_around [OF T j v]]
  show ?thesis using t jx by (auto simp: ins_at_Suc)
qed

section \<open>Running the split\<close>

text \<open>The pages an operation has made dirty are in the pool, at the addresses it has for them.\<close>

definition dirty_ok :: "world \<Rightarrow> bool" where
  "dirty_ok w \<longleftrightarrow> (\<forall>(i, a) \<in> set (w_dirtypages w). a < length (w_objs w) \<and> page_getId (po_page (w_objs w ! a)) = i \<and>
     pm_find i (w_pool w) = Some a)"

text \<open>The end of \<open>splitLeafPage\<close>, for a parent that is in the pool and has an empty slot.\<close>

lemma split_tail_run:
  assumes par: "parent = BTreePageId tab rn INTERNAL" "rn \<noteq> 0" "found w m parent x" "g x = IntPg p" "bp_pid p = parent"
      "0 < int_getNumEmptySlots p" "int_getMaxEntries (w_pageSize w) (bp_td p) (bp_keyField p) = Inr mx"
    and ins: "insertEntry p mx (BTreeEntry_new (Some (IntField sv)) (Some pid) (Some rid)) = Inr p'"
      "int_ok p'" "int_frame p p'" "int_isSlotUsed p' 0" "int_isSlotUsed p' 1"
    and r: "c < length (w_objs w)" "c \<noteq> x" "pm_find rid m = Some c" "g c = LeafPg r" "bp_pid r = rid" "bp_parent r = 0"
      "getTableId rid = tab"
    and own: "\<And>y. y \<in> set (int_pairs p') \<Longrightarrow> int_child p (snd y) = rid \<or>
        (\<exists>b l. found w m (int_child p (snd y)) b \<and> b \<noteq> c \<and> b \<noteq> x \<and> g b = LeafPg l \<and> getParentId l = parent)"
    and rid: "rid \<in> (\<lambda>y. int_child p (snd y)) ` set (int_pairs p')" and m: "pm_find parent m = None"
  shows "split_tail (Suc n) i a c parent pid rid (IntField kv) sv (with_pages w g m) =
    Inr (if sint kv < sint sv then a else c,
      with_pages w (g(x := IntPg p', c := LeafPg (r\<lparr>bp_parent := rn\<rparr>))) (m @ [(parent, x)]))"
proof -
  let ?m = "m @ [(parent, x)]" and ?g = "g(x := IntPg p')"
  note fr = int_frame_simps [OF ins(3)]
  have x: "x < length (w_objs w)" using par(3) by (simp add: found_def)
  have np: "pm_find j ?m = (case pm_find j m of Some b \<Rightarrow> Some b | None \<Rightarrow> if j = parent then Some x else None)"
    if "no_skeleton j" for j
    using that m par(1) by (induction m) (auto simp: pid_eq_iff split: if_splits)
  have gp: "getParentWithEmptySlots (Suc n) i parent f (with_pages w g m) = Inr (x, with_pages w g ?m)" for f
    using par(1,4,6) x m found_getPage(2) [OF par(3), of "\<lambda>parent. bindM (internal_at parent) (\<lambda>_. returnM parent)" g]
    by (simp add: pm_put_new bindM_apply)
  have ie: "insertEntry_at x (BTreeEntry_new (Some (IntField sv)) (Some pid) (Some rid)) (with_pages w g ?m) =
      Inr ((), with_pages w ?g ?m)"
    using x par(4,7) ins(1) by (simp add: insertEntry_at_def)
  have child: "int_child p' = int_child p" by (simp add: int_child_def fun_eq_iff fr)
  have sk: "no_skeleton rid" using rid by (auto simp: int_child_def)
  have o': "orphan w ?g ?m (bp_pid p') rid c r"
    using r par(1,2,5) fr np [OF sk] by (simp add: orphan_def getParentId_def)
  have up: "updateParentPointers x (with_pages w ?g ?m) = Inr ((), with_pages w (adopt (bp_pid p') c r ?g) ?m)"
  proof (rule updateParentPointers_run [OF x _ ins(2,4,5) o'])
    show "own_child w ?g ?m (bp_pid p') rid c (int_child p' (snd y))" if "y \<in> set (int_pairs p')" for y
    proof -
      have f: "found w ?m j b" if "found w m j b" "j \<noteq> parent" "no_skeleton j" for j b
        using that np [OF that(3)] by (auto simp: found_def)
      from own [OF that] show ?thesis
      proof (elim disjE exE conjE)
        fix b l assume b: "found w m (int_child p (snd y)) b" "b \<noteq> c" "b \<noteq> x" "g b = LeafPg l" "getParentId l = parent"
        have "int_child p (snd y) \<noteq> parent" using b(1,3) par(3) m by (auto simp: found_def)
        with f [OF b(1)] b fr par(5) show ?thesis
          by (auto simp: own_child_def child int_child_def intro!: exI [of _ b] exI [of _ l])
      qed (simp add: own_child_def child)
    qed
    show "rid \<in> (\<lambda>y. int_child p' (snd y)) ` set (int_pairs p')" using rid by (simp add: child)
  qed simp
  have "adopt (bp_pid p') c r ?g = g(x := IntPg p', c := LeafPg (r\<lparr>bp_parent := rn\<rparr>))"
    using fr par(1,5) by (simp add: adopt_def)
  with up show ?thesis
    using gp [of "Some (IntField sv)"] ie by (simp add: split_tail_def bindM_apply)
qed

text \<open>Every leaf is at least half full.\<close>

definition half_full :: "btree_pages \<Rightarrow> bool" where
  "half_full T \<longleftrightarrow> (\<forall>l \<in> set (tr_leaves T). lp_numSlots l div 2 \<le> length (leaf_tuples l))"

text \<open>
  What the split of the leaf at \<open>j\<close> does to a tree: the same tuples in one more leaf, the two
  halves with room between the old keys of the root and the new key \<open>sv\<close>.
\<close>

definition has_split :: "btree_pages \<Rightarrow> btree_pages \<Rightarrow> nat \<Rightarrow> i32 \<Rightarrow> bool" where
  "has_split T T' j sv \<longleftrightarrow>
     tr_file T' = tr_file T \<and> (\<exists>d. tr_btree T' = (tr_btree T)\<lparr>bf_disk := d\<rparr>) \<and>
     length (tr_leaves T') = Suc (length (tr_leaves T)) \<and> np_numSlots (tr_root T') = np_numSlots (tr_root T) \<and>
     (\<exists>no. int_pairs (tr_root T') = ins_at (Suc j) (Some (IntField sv), no) (int_pairs (tr_root T))) \<and>
     0 < leaf_getNumEmptySlots (tr_leaves T' ! j) \<and> 0 < leaf_getNumEmptySlots (tr_leaves T' ! Suc j) \<and>
     mset (tree_tuples T') = mset (tree_tuples T) \<and> (half_full T \<longrightarrow> half_full T')"

text \<open>The rest of the state that the next operations depend on.\<close>

definition same_setting :: "world \<Rightarrow> world \<Rightarrow> bool" where
  "same_setting w w' \<longleftrightarrow> w_pageSize w' = w_pageSize w \<and> w_numPages w' = w_numPages w \<and> w_catalog w' = w_catalog w \<and>
     w_order w' = w_order w \<and> w_append w' = w_append w \<and> w_junk w' = w_junk w"

lemma same_setting_refl [simp]: "same_setting w w"
  by (simp add: same_setting_def)

lemma same_setting_trans: "same_setting u v \<Longrightarrow> same_setting v w \<Longrightarrow> same_setting u w"
  by (simp add: same_setting_def)

lemma tree_right_neighbour:
  assumes T: "tree_in_pool w T" and j: "j < length (tr_leaves T)"
  defines "nb \<equiv> (if Suc j < length (tr_leaves T) then Some (tr_addrs T ! Suc j, tr_leaves T ! Suc j) else None)"
  shows "right_neighbour w (pages_of w) (tr_addrs T ! j) (tr_leaves T ! j) nb"
proof -
  have "chained (tr_leaves T)" using T by (simp add: tree_in_pool_def)
  note ch = chained_nth [OF this j]
  show ?thesis
  proof (cases "Suc j < length (tr_leaves T)")
    case True
    from tree_addresses(1) [OF T True] tree_addresses(5,6) [OF T j True] ch True show ?thesis
      by (simp add: right_neighbour_def nb_def leaf_resident_def pages_of_def)
  qed (simp add: right_neighbour_def nb_def ch)
qed

lemma with_pages_facts [simp]:
  "file_open (with_pages w g m) i b = file_open w i b" "leaves_fit (with_pages w g m) b = leaves_fit w b"
  "leaf_of (with_pages w g m) b l = leaf_of w b l" "same_setting w' (with_pages w g m) = same_setting w' w"
  by (simp_all add: file_open_def disk_fresh_def leaves_fit_def leaf_of_def same_setting_def)

lemma pages_of_with_pages [simp]: "a < length (w_objs w) \<Longrightarrow> pages_of (with_pages w g m) a = g a"
  by (simp add: pages_of_def)

lemma leaf_of_frame:
  "leaf_of w b p \<Longrightarrow> leaf_frame p q \<Longrightarrow> leaf_ok q \<Longrightarrow> leaf_of w b q"
  using leaf_frame_simps [of p q] by (simp add: leaf_of_def)

lemma leaf_of_links [simp]:
  "leaf_of w b (p\<lparr>lp_rightSibling := x\<rparr>) = leaf_of w b p" "leaf_of w b (p\<lparr>lp_leftSibling := x\<rparr>) = leaf_of w b p"
  "leaf_of w b (p\<lparr>bp_parent := x\<rparr>) = leaf_of w b p" "getParentId (p\<lparr>lp_leftSibling := x\<rparr>) = getParentId p"
  "getRightSiblingId (p\<lparr>bp_parent := x\<rparr>) = getRightSiblingId p" "leaf_sorted (p\<lparr>bp_parent := x\<rparr>) = leaf_sorted p"
  by (simp_all add: leaf_of_def getParentId_def getRightSiblingId_def leaf_sorted_def cong: if_cong)

text \<open>What is in the pool is found there, or at the same address among the dirty pages.\<close>

lemma found_pool:
  assumes "\<forall>(j, b) \<in> set m. pm_find j (w_pool w) = Some b" "pm_find i (w_pool w) = Some a" "a < length (w_objs w)" "no_skeleton i"
  shows "found w m i a"
  using assms pm_find_Some_set [OF assms(4), of m] by (cases "pm_find i m") (auto simp: found_def)

lemma relink_keys [simp]: "map leaf_keys (relink no j ls) = map leaf_keys ls"
  by (auto simp: relink_def leaf_keys_def map_update list_update_same_conv)

lemma keys_of_leaves:
  "concat (map2 (\<lambda>x l. sep_keys (fst x) @ leaf_keys l) xs ls) =
   concat (map2 (\<lambda>x k. sep_keys (fst x) @ k) xs (map leaf_keys ls))"
  by (simp add: zip_map2 comp_def case_prod_unfold)

lemma tree_leaf_sorted:
  assumes "tree_in_pool w T" "sorted (tree_keys T)" "j < length (tr_leaves T)"
  shows "sorted (leaf_keys (tr_leaves T ! j))"
  using assms(2) keys_split [OF assms(3) tree_lengths(1) [OF assms(1)], of "tr_leaves T ! j"]
  by (simp add: tree_keys_def sorted_append)

text \<open>The two halves of a leaf around the key of the first tuple of the upper one.\<close>

lemma halves_keys:
  assumes l: "sorted (leaf_keys l0)" "h < length (leaf_tuples l0)" "bp_keyField l = bp_keyField l0" "bp_keyField r = bp_keyField l0"
    and h: "leaf_tuples l = take h (leaf_tuples l0)" "mset (leaf_tuples r) = mset (drop h (leaf_tuples l0))" "leaf_sorted r"
      "key_of (bp_keyField l0) (leaf_tuples l0 ! h) = v"
  shows "sorted (leaf_keys l @ v # leaf_keys r)" "set (leaf_keys l @ v # leaf_keys r) \<subseteq> set (leaf_keys l0)"
proof -
  have kl: "leaf_keys l = take h (leaf_keys l0)" using l(3) h(1) by (simp add: leaf_keys_def take_map)
  have "mset (leaf_keys r) = image_mset (key_of (bp_keyField l0)) (mset (leaf_tuples r))" using l(4) by (simp add: leaf_keys_def)
  also have "\<dots> = mset (drop h (leaf_keys l0))" unfolding h(2) leaf_keys_def by (simp add: drop_map)
  finally have kr: "set (leaf_keys r) = set (drop h (leaf_keys l0))" by (rule mset_eq_setD)
  have v: "leaf_keys l0 ! h = v" "h < length (leaf_keys l0)" using l(2) h(4) by (simp_all add: leaf_keys_def)
  have sr: "sorted (leaf_keys r)" using h(3) by (simp add: leaf_sorted_def leaf_keys_def)
  note m = sorted_mid_le [OF l(1) v(2), unfolded v(1)]
  have "sorted (take h (leaf_keys l0))" using l(1) by (rule sorted_wrt_take)
  with m sr kl kr show "sorted (leaf_keys l @ v # leaf_keys r)" by (fastforce simp: sorted_append)
  show "set (leaf_keys l @ v # leaf_keys r) \<subseteq> set (leaf_keys l0)"
    using v nth_mem [OF v(2)] by (auto simp: kl kr dest: in_set_takeD in_set_dropD)
qed

text \<open>
  The state after the split of the leaf at \<open>j\<close>: the two halves \<open>l\<close> and \<open>r\<close>, the root \<open>p\<close> with the
  new entry, and the rest of the pages as before.
\<close>

lemma tree_split_ready:
  assumes R: "tree_ready w T" and j: "j < length (tr_leaves T)" and fl: "leaf_getNumEmptySlots (tr_leaves T ! j) = 0"
    and W: "same_setting w W" "length (w_objs w) < length (w_objs W)" "file_open W (tr_file T) b"
      "b = (tr_btree T)\<lparr>bf_disk := d\<rparr>" "d \<noteq> []"
    and pool: "\<And>i x. pm_find i (w_pool w) = Some x \<Longrightarrow> pm_find i (w_pool W) = Some x"
    and ptr: "pages_of W (tr_ptr T) = RootPg (tr_rootptr T)"
    and root: "pages_of W (tr_raddr T) = IntPg p" "int_ok p" "int_frame (tr_root T) p" "int_isSlotUsed p 0" "int_isSlotUsed p 1"
      "int_pairs p = ins_at (Suc j) (Some (IntField sv), pageNumber (bp_pid r)) (int_pairs (tr_root T))"
    and old: "\<And>i. i < length (tr_leaves T) \<Longrightarrow> i \<noteq> j \<Longrightarrow>
        pages_of W (tr_addrs T ! i) = LeafPg (relink (pageNumber (bp_pid r)) j (tr_leaves T) ! i)"
    and l: "pages_of W (tr_addrs T ! j) = LeafPg l" "leaf_of w (tr_btree T) l" "getParentId l = bp_pid (tr_root T)"
      "bp_pid l = bp_pid (tr_leaves T ! j)" "getRightSiblingId l = Some (bp_pid r)"
    and r: "c = length (w_objs w)" "pages_of W c = LeafPg r" "leaf_of w (tr_btree T) r" "getParentId r = bp_pid (tr_root T)"
      "bp_pid r = int_child (tr_root T) (pageNumber (bp_pid r))" "pm_find (bp_pid r) (w_pool W) = Some c"
      "getRightSiblingId r = getRightSiblingId (tr_leaves T ! j)"
    and h: "h = length (leaf_tuples (tr_leaves T ! j)) div 2" "leaf_tuples l = take h (leaf_tuples (tr_leaves T ! j))"
      "mset (leaf_tuples r) = mset (drop h (leaf_tuples (tr_leaves T ! j)))" "leaf_sorted r"
      "key_of (bf_keyField (tr_btree T)) (leaf_tuples (tr_leaves T ! j) ! h) = sint sv"
  shows "tree_ready W (tree_split T b p j l r c)" "has_split T (tree_split T b p j l r c) j sv"
proof -
  let ?b = "tr_btree T" and ?ls = "tr_leaves T" and ?l = "tr_leaves T ! j" and ?p = "tr_root T"
  let ?T = "tree_split T b p j l r c" and ?rl = "relink (pageNumber (bp_pid r)) j (tr_leaves T)"
  have T: "tree_in_pool w T" and srt: "sorted (tree_keys T)" and rd: "leaves_fit w ?b" "root_open w (pages_of w) ?b (tr_ptr T) (tr_rootptr T)"
      "int_getMaxEntries (w_pageSize w) (bp_td ?p) (bp_keyField ?p) = Inr (np_numSlots ?p - 1)" "pageNumber (bp_pid ?p) \<noteq> 0"
    and two: "2 \<le> leaf_getMaxTuples (w_pageSize w) (bf_td ?b)"
    and lv: "\<And>i. i < length ?ls \<Longrightarrow> leaf_of w ?b (?ls ! i) \<and> getParentId (?ls ! i) = bp_pid ?p \<and> leaf_tuples (?ls ! i) \<noteq> []"
    using R by (auto simp: tree_ready_def)
  have b: "bf_tableid b = bf_tableid ?b" "bf_td b = bf_td ?b" "bf_keyField b = bf_keyField ?b" "bf_disk b = d" by (simp_all add: W(4))
  note len = tree_lengths [OF T] and fr = int_frame_simps [OF root(3)]
  have lo: "leaf_ok l" "bp_td l = bf_td ?b" "bp_keyField l = bf_keyField ?b" "leaf_ok r" "bp_td r = bf_td ?b"
      "bp_keyField r = bf_keyField ?b" "bp_keyField ?l = bf_keyField ?b"
    using l(2) r(3) lv [OF j] by (simp_all add: leaf_of_def)
  have F: "w_files W ! tr_file T = BTreeF b" "tr_file T < length (w_files W)" using W(3) by (simp_all add: file_open_def)
  have in_pool: "tree_in_pool W ?T"
    by (rule tree_split_in_pool [OF T j W(2) F(2,1) _ b(1-3) pool ptr root old l(1) lo(1) l(4,5) _ _ r(1,2) lo(4) r(5,6,7)])
      (simp_all only: W(5) b lo not_False_eq_True)
  have n: "length (leaf_tuples ?l) = leaf_getMaxTuples (w_pageSize w) (bf_td ?b)"
    using leaf_occupancy [of ?l] fl lv [OF j] by (simp add: leaf_of_def)
  then have hn: "0 < h" "h < length (leaf_tuples ?l)" using two h(1) by auto
  note hk = halves_keys [OF tree_leaf_sorted [OF T srt j] hn(2) _ _ h(2-4), of "sint sv"]
  have srt': "sorted (tree_keys ?T)"
  proof -
    have "sorted (concat (map2 (\<lambda>x l. sep_keys (fst x) @ leaf_keys l) (int_pairs ?p) ?rl))"
      using srt by (simp only: tree_keys_def keys_of_leaves [of _ ?ls] keys_of_leaves [of _ ?rl] relink_keys)
    from keys_insert [OF _ _ this, of j "Some (IntField sv)" "sint sv" l r] show ?thesis
      using hk lo h(5) len j root(6) by (simp add: tree_keys_def tree_split_def sep_keys_def)
  qed
  have lr: "leaf_tuples l \<noteq> []" "leaf_tuples r \<noteq> []" "length (leaf_tuples r) = length (leaf_tuples ?l) - h"
    using hn h(2) mset_eq_length [OF h(3)] by auto
  have st: "leaves_fit W b = leaves_fit w ?b" "leaf_of W b = leaf_of w ?b" "w_pageSize W = w_pageSize w"
    using W(1) b by (simp_all add: leaves_fit_def leaf_of_def same_setting_def fun_eq_iff)
  have "root_open W (pages_of W) b (tr_ptr T) (tr_rootptr T)"
    using rd(2) W(2) ptr pool b by (simp add: root_open_def)
  moreover have "leaf_of w ?b x \<and> getParentId x = bp_pid ?p \<and> leaf_tuples x \<noteq> []" if "x \<in> set ?rl" for x
    using that lv by (auto simp: in_set_conv_nth relink_nth split: if_splits)
  then have "\<forall>x \<in> set (ins_at (Suc j) r (?rl[j := l])). leaf_of w ?b x \<and> getParentId x = bp_pid ?p \<and> leaf_tuples x \<noteq> []"
    using l(2,3) r(3,4) lr by (auto simp: set_ins_at dest!: set_update_subset_insert [THEN subsetD])
  ultimately show "tree_ready W ?T"
    using in_pool srt' W(3) rd fr two st b(2) by (simp add: tree_ready_def) (simp add: tree_split_def fr)
  have "map leaf_tuples ?rl = map leaf_tuples ?ls" by simp
  then have "map leaf_tuples (?rl[j := l]) = (map leaf_tuples ?ls)[j := leaf_tuples l]" by (simp only: map_update)
  then have "map leaf_tuples (tr_leaves ?T) = ins_at (Suc j) (leaf_tuples r) ((map leaf_tuples ?ls)[j := leaf_tuples l])"
    by (simp add: tree_split_def map_ins_at)
  also have "\<dots> = take j (map leaf_tuples ?ls) @ leaf_tuples l # leaf_tuples r # drop (Suc j) (map leaf_tuples ?ls)"
    using j by (simp add: ins_at_Suc)
  finally have "mset (tree_tuples ?T) = mset (concat (take j (map leaf_tuples ?ls) @
      (take h (leaf_tuples ?l) @ drop h (leaf_tuples ?l)) # drop (Suc j) (map leaf_tuples ?ls)))"
    using h(2,3) by (simp add: tree_tuples_def del: append_take_drop_id)
  also have "\<dots> = mset (tree_tuples T)"
    unfolding append_take_drop_id using id_take_nth_drop [of j "map leaf_tuples ?ls"] j by (simp add: tree_tuples_def)
  finally have ms: "mset (tree_tuples ?T) = mset (tree_tuples T)" .
  have "length (leaf_tuples l) < lp_numSlots l" "length (leaf_tuples r) < lp_numSlots r"
    using lr h(2) hn n l(2) r(3) by (simp_all add: leaf_of_def)
  then have "0 < leaf_getNumEmptySlots l" "0 < leaf_getNumEmptySlots r"
    using leaf_occupancy [of l] leaf_occupancy [of r] by linarith+
  moreover have "half_full ?T" if hf: "half_full T"
  proof -
    have "lp_numSlots (?ls ! i) div 2 \<le> length (leaf_tuples (?ls ! i))" if "i < length ?ls" for i
      using hf nth_mem [OF that] unfolding half_full_def by blast
    then have "lp_numSlots x div 2 \<le> length (leaf_tuples x)" if "x \<in> set ?rl" for x
      using that by (auto simp: in_set_conv_nth relink_nth split: if_splits)
    moreover have "lp_numSlots l div 2 \<le> length (leaf_tuples l)" "lp_numSlots r div 2 \<le> length (leaf_tuples r)"
      using lr h(1,2) hn n l(2) r(3) by (simp_all add: leaf_of_def)
    ultimately show ?thesis
      by (auto simp: half_full_def tree_split_def set_ins_at dest!: set_update_subset_insert [THEN subsetD])
  qed
  ultimately show "has_split T ?T j sv" using ms W(4) fr root(6) j
    by (auto simp: has_split_def tree_split_def ins_at_nth)
qed

text \<open>The pages after the tuples have moved and the right neighbour has been linked.\<close>

definition neighbour_of :: "btree_pages \<Rightarrow> nat \<Rightarrow> (nat \<times> leaf_page) option" where
  "neighbour_of T j = (if Suc j < length (tr_leaves T) then Some (tr_addrs T ! Suc j, tr_leaves T ! Suc j) else None)"

lemma tree_pages_at:
  assumes T: "tree_in_pool w T"
  shows "k < length (tr_leaves T) \<Longrightarrow> tr_addrs T ! k < length (w_objs w) \<and> pages_of w (tr_addrs T ! k) = LeafPg (tr_leaves T ! k) \<and>
      pm_find (bp_pid (tr_leaves T ! k)) (w_pool w) = Some (tr_addrs T ! k)"
    and "tr_raddr T < length (w_objs w)" "pages_of w (tr_raddr T) = IntPg (tr_root T)"
    and "tr_ptr T < length (w_objs w)" "pages_of w (tr_ptr T) = RootPg (tr_rootptr T)"
  using T tree_addresses(1) [OF T, of k] by (auto simp: tree_in_pool_def leaf_resident_def pages_of_def)

lemma link_pages:
  assumes T: "tree_in_pool w T" and j: "j < length (tr_leaves T)" and c: "c = length (w_objs w)"
    and g1_def: "g1 = link_left (neighbour_of T j) no ((pages_of w)(tr_addrs T ! j := LeafPg p', c := LeafPg q'))"
  shows "g1 (tr_addrs T ! j) = LeafPg p'" "g1 c = LeafPg q'" "g1 (tr_raddr T) = IntPg (tr_root T)"
    "g1 (tr_ptr T) = RootPg (tr_rootptr T)"
    "\<And>i. i < length (tr_leaves T) \<Longrightarrow> i \<noteq> j \<Longrightarrow> g1 (tr_addrs T ! i) = LeafPg (relink no j (tr_leaves T) ! i)"
proof -
  note at = tree_pages_at [OF T] and ad = tree_addresses(2,3,5) [OF T]
  have lt: "tr_addrs T ! k \<noteq> c" if "k < length (tr_leaves T)" for k using at(1) [OF that] c by simp
  have o1: "g1 x = ((pages_of w)(tr_addrs T ! j := LeafPg p', c := LeafPg q')) x"
    if "Suc j < length (tr_leaves T) \<Longrightarrow> tr_addrs T ! Suc j \<noteq> x" for x
    unfolding g1_def using that by (intro link_left_other) (auto simp: neighbour_of_def split: if_splits)
  show "g1 (tr_addrs T ! j) = LeafPg p'" using o1 [of "tr_addrs T ! j"] ad(3) [OF j] lt [OF j] by simp
  show "g1 c = LeafPg q'" using o1 [of c] lt by simp
  show "g1 (tr_raddr T) = IntPg (tr_root T)" using o1 [of "tr_raddr T"] ad(1) ad(1) [OF j] at(2,3) c by simp
  show "g1 (tr_ptr T) = RootPg (tr_rootptr T)" using o1 [of "tr_ptr T"] ad(2) ad(2) [OF j] at(4,5) c by simp
  show "g1 (tr_addrs T ! i) = LeafPg (relink no j (tr_leaves T) ! i)" if i: "i < length (tr_leaves T)" "i \<noteq> j" for i
  proof (cases "i = Suc j")
    case True
    with i show ?thesis by (simp add: g1_def link_left_def neighbour_of_def relink_nth)
  next
    case False
    have "g1 (tr_addrs T ! i) = ((pages_of w)(tr_addrs T ! j := LeafPg p', c := LeafPg q')) (tr_addrs T ! i)"
      using False ad(3) [OF i(1), of "Suc j"] by (intro o1) auto
    with i False at(1) [OF i(1)] lt [OF i(1)] ad(3) [OF j i(1)] show ?thesis by (simp add: relink_nth)
  qed
qed

text \<open>The ids of the pages of a tree that is ready.\<close>

lemma tree_ids:
  assumes "tree_ready w T"
  defines "tab \<equiv> bf_tableid (tr_btree T)"
  shows "bp_pid (tr_root T) = BTreePageId tab (pageNumber (bp_pid (tr_root T))) INTERNAL"
    "k < length (tr_leaves T) \<Longrightarrow> bp_pid (tr_leaves T ! k) = BTreePageId tab (snd (int_pairs (tr_root T) ! k)) LEAF"
    "int_child (tr_root T) no = BTreePageId tab no LEAF"
proof -
  have t: "tree_in_pool w T" "getTableId (rt_pid (tr_rootptr T)) = tab" "btree_type (bp_pid (tr_root T)) = INTERNAL"
      "getRootId (tr_rootptr T) = Some (bp_pid (tr_root T))" "np_childCategory (tr_root T) = LEAF"
    using assms(1) by (auto simp: tree_ready_def root_open_def tree_in_pool_def rootptr_getId_def tab_def)
  then have "bp_pid (tr_root T) = BTreePageId tab (rt_root (tr_rootptr T)) (rt_category (tr_rootptr T))"
    by (simp add: getRootId_def split: if_splits)
  with t(3) show r: "bp_pid (tr_root T) = BTreePageId tab (pageNumber (bp_pid (tr_root T))) INTERNAL" by simp
  have "getTableId (bp_pid (tr_root T)) = tab" by (subst r) simp
  then show c: "int_child (tr_root T) no = BTreePageId tab no LEAF" for no by (simp add: int_child_def t(5))
  show "bp_pid (tr_leaves T ! k) = BTreePageId tab (snd (int_pairs (tr_root T) ! k)) LEAF" if "k < length (tr_leaves T)"
    using tree_addresses(7) [OF t(1) that] by (simp only: c)
qed

lemma split_halves:
  assumes R: "tree_ready w T" and j: "j < length (tr_leaves T)"
    and h: "leaf_halves w (tr_btree T) (tr_leaves T ! j) p' q' sv"
  shows "bp_pid p' = bp_pid (tr_leaves T ! j)" "getParentId p' = bp_pid (tr_root T)"
    "getRightSiblingId p' = Some (bp_pid (new_leaf w (tr_btree T)))" "leaf_of w (tr_btree T) p'"
    "bp_pid q' = bp_pid (new_leaf w (tr_btree T))" "bp_parent q' = 0" "getRightSiblingId q' = getRightSiblingId (tr_leaves T ! j)"
    "leaf_of w (tr_btree T) q'" "getParentId (q'\<lparr>bp_parent := pageNumber (bp_pid (tr_root T))\<rparr>) = bp_pid (tr_root T)"
proof -
  let ?b = "tr_btree T" and ?l = "tr_leaves T ! j" and ?p = "tr_root T"
  have p: "leaf_ok p'" "leaf_frame (?l\<lparr>lp_rightSibling := new_page_no w ?b\<rparr>) p'"
    and q: "leaf_ok q'" "leaf_frame ((new_leaf w ?b)\<lparr>lp_rightSibling := lp_rightSibling ?l, lp_leftSibling := pageNumber (bp_pid ?l)\<rparr>) q'"
    using h by (simp_all add: leaf_halves_def Let_def)
  note fp = leaf_frame_simps [OF p(2)] and fq = leaf_frame_simps [OF q(2)]
  have l: "leaf_of w ?b ?l" "getParentId ?l = bp_pid ?p" and f: "file_open w (tr_file T) ?b" "leaves_fit w ?b"
      and rn: "pageNumber (bp_pid ?p) \<noteq> 0"
    using R j by (auto simp: tree_ready_def)
  have tab: "getTableId (bp_pid ?l) = bf_tableid ?b" using l(1) by (simp add: leaf_of_def)
  have no: "new_page_no w ?b \<noteq> 0" by (simp add: new_page_no_def)
  show "bp_pid p' = bp_pid ?l" "getRightSiblingId p' = Some (bp_pid (new_leaf w ?b))"
    using fp tab no by (simp_all add: getRightSiblingId_def new_leaf_def)
  have "getParentId p' = getParentId ?l" using fp by (simp add: getParentId_def)
  then show "getParentId p' = bp_pid ?p" using l(2) by simp
  show "leaf_of w ?b p'" using leaf_of_frame [OF _ p(2,1)] l(1) by simp
  show q0: "bp_pid q' = bp_pid (new_leaf w ?b)" "bp_parent q' = 0" using fq by (simp_all add: new_leaf_def empty_leaf_def Let_def)
  have tq: "getTableId (bp_pid q') = bf_tableid ?b" by (simp add: q0 new_leaf_def)
  then show "getRightSiblingId q' = getRightSiblingId ?l" using fq tab by (simp add: getRightSiblingId_def)
  show "leaf_of w ?b q'" using leaf_of_frame [OF _ q(2,1)] new_leaf_of(1) [OF f] by simp
  show "getParentId (q'\<lparr>bp_parent := pageNumber (bp_pid ?p)\<rparr>) = bp_pid ?p"
    using rn tq by (subst (2) tree_ids(1) [OF R]) (simp add: getParentId_def)
qed

lemma pm_find_append: "pm_find i m = Some x \<Longrightarrow> pm_find i (m @ m') = Some x"
  by (induction i m rule: pm_find.induct) (auto split: if_splits)

text \<open>The dirty pages of a split up to the new entry of the root, and where the pool has them.\<close>

lemma split_dirty:
  assumes R: "tree_ready w T" and j: "j < length (tr_leaves T)" and h: "leaf_halves w (tr_btree T) (tr_leaves T ! j) p' q' sv"
  defines "c \<equiv> length (w_objs w)" and "w1 \<equiv> add_page w (tr_file T) (tr_btree T) (LeafPg (new_leaf w (tr_btree T)))"
    and "g1 \<equiv> link_left (neighbour_of T j) (new_page_no w (tr_btree T))
      ((pages_of w)(tr_addrs T ! j := LeafPg p', length (w_objs w) := LeafPg q'))"
    and "m1 \<equiv> [(bp_pid (tr_leaves T ! j), tr_addrs T ! j), (bp_pid (new_leaf w (tr_btree T)), length (w_objs w))] @
      link_dirty (neighbour_of T j)"
  shows "\<forall>(k, b) \<in> set m1. b < Suc c \<and> pm_find k (w_pool w1) = Some b \<and> page_getId (g1 b) = k \<and> k \<noteq> bp_pid (tr_root T)"
    and "pm_find (bp_pid (new_leaf w (tr_btree T))) m1 = Some c" "pm_find (bp_pid (tr_root T)) m1 = None"
    and "\<And>i. i < length (tr_leaves T) \<Longrightarrow> found w1 m1 (bp_pid (tr_leaves T ! i)) (tr_addrs T ! i)"
    and "found w1 m1 (bp_pid (tr_root T)) (tr_raddr T)"
    and "\<And>k. no_skeleton k \<Longrightarrow> pm_find k (w_pool w1) = (if k = bp_pid (new_leaf w (tr_btree T)) then Some c else pm_find k (w_pool w))"
    and "length (w_objs w1) = Suc c" "no_skeleton (bp_pid (new_leaf w (tr_btree T)))"
proof -
  let ?b = "tr_btree T" and ?ls = "tr_leaves T" and ?l = "tr_leaves T ! j" and ?a = "tr_addrs T ! j" and ?p = "tr_root T"
  let ?rid = "bp_pid (new_leaf w (tr_btree T))"
  have T: "tree_in_pool w T" and f: "file_open w (tr_file T) ?b" using R by (auto simp: tree_ready_def)
  note t = T [unfolded tree_in_pool_def] and at = tree_pages_at [OF T] and id = tree_ids [OF R] and hv = split_halves [OF R j h]
  have rid: "?rid = BTreePageId (bf_tableid ?b) (new_page_no w ?b) LEAF" by (simp add: new_leaf_def)
  have new: "pm_find ?rid (w_pool w) = None"
    using f by (simp add: rid file_open_def disk_fresh_def new_page_no_def)
  note g1 = link_pages [OF T j refl g1_def [THEN meta_eq_to_obj_eq]]
  have len1: "length (w_objs w1) = Suc c" by (simp add: w1_def c_def)
  have pool1: "pm_find k (w_pool w1) = (if k = ?rid then Some c else pm_find k (w_pool w))" if "no_skeleton k" for k
    using that by (simp add: w1_def pages.find_put rid c_def)
  have lsk: "no_skeleton (bp_pid (?ls ! k))" "bp_pid (?ls ! k) \<noteq> bp_pid ?p" "bp_pid (?ls ! k) \<noteq> ?rid" if "k < length ?ls" for k
  proof -
    show "no_skeleton (bp_pid (?ls ! k))" using id(2) [OF that] by simp
    show "bp_pid (?ls ! k) \<noteq> bp_pid ?p" by (subst id(1), subst id(2) [OF that]) simp
    show "bp_pid (?ls ! k) \<noteq> ?rid" using at(1) [OF that] new by auto
  qed
  have rsk: "no_skeleton ?rid" "?rid \<noteq> bp_pid ?p" by (simp add: rid, subst id(1), simp add: rid)
  have psk: "no_skeleton (bp_pid ?p)" by (subst id(1)) simp
  show m1: "\<forall>(k, b) \<in> set m1. b < Suc c \<and> pm_find k (w_pool w1) = Some b \<and> page_getId (g1 b) = k \<and> k \<noteq> bp_pid ?p"
    using at(1) [OF j] at(1) [of "Suc j"] g1(1,2) g1(5) [of "Suc j"] hv(1,5) lsk [OF j] lsk [of "Suc j"] rsk pool1
    by (auto simp: m1_def link_dirty_def neighbour_of_def c_def relink_nth)
  then have "\<forall>(k, b) \<in> set m1. pm_find k (w_pool w1) = Some b" by blast
  note fnd = found_pool [OF this]
  show "found w1 m1 (bp_pid ?p) (tr_raddr T)"
    using t rsk psk at(2) by (intro fnd) (auto simp: pool1 len1 c_def)
  show "found w1 m1 (bp_pid (?ls ! i)) (tr_addrs T ! i)" if "i < length ?ls" for i
    using at(1) [OF that] lsk [OF that] by (intro fnd) (auto simp: pool1 len1 c_def)
  show "pm_find (bp_pid ?p) m1 = None"
    using m1 pm_find_Some_set [OF psk, of m1] by (cases "pm_find (bp_pid ?p) m1") auto
  show "pm_find ?rid m1 = Some c" using lsk [OF j] rsk by (auto simp: m1_def c_def pid_eq_iff)
qed (simp_all add: w1_def c_def new_leaf_def pages.find_put)

text \<open>The second half of a split: the entry for the new leaf goes into the root.\<close>

lemma tree_split_tail:
  assumes R: "tree_ready w T" and j: "j < length (tr_leaves T)" and fl: "leaf_getNumEmptySlots (tr_leaves T ! j) = 0"
    and room: "length (tr_leaves T) < np_numSlots (tr_root T)" and h: "leaf_halves w (tr_btree T) (tr_leaves T ! j) p' q' sv"
  defines "c \<equiv> length (w_objs w)" and "w1 \<equiv> add_page w (tr_file T) (tr_btree T) (LeafPg (new_leaf w (tr_btree T)))"
    and "g1 \<equiv> link_left (neighbour_of T j) (new_page_no w (tr_btree T))
      ((pages_of w)(tr_addrs T ! j := LeafPg p', length (w_objs w) := LeafPg q'))"
    and "m1 \<equiv> [(bp_pid (tr_leaves T ! j), tr_addrs T ! j), (bp_pid (new_leaf w (tr_btree T)), length (w_objs w))] @
      link_dirty (neighbour_of T j)"
  obtains p'' where "int_ok p''" "int_frame (tr_root T) p''" "int_isSlotUsed p'' 0" "int_isSlotUsed p'' 1"
    "int_pairs p'' = ins_at (Suc j) (Some (IntField sv), new_page_no w (tr_btree T)) (int_pairs (tr_root T))"
    "split_tail (Suc n) (tr_file T) (tr_addrs T ! j) c (bp_pid (tr_root T)) (bp_pid (tr_leaves T ! j))
       (bp_pid (new_leaf w (tr_btree T))) (IntField kv) sv (with_pages w1 g1 m1) =
     Inr (if sint kv < sint sv then tr_addrs T ! j else c,
       with_pages w1 (g1(tr_raddr T := IntPg p'', c := LeafPg (q'\<lparr>bp_parent := pageNumber (bp_pid (tr_root T))\<rparr>)))
         (m1 @ [(bp_pid (tr_root T), tr_raddr T)]))"
proof -
  let ?b = "tr_btree T" and ?i = "tr_file T" and ?ls = "tr_leaves T" and ?l = "tr_leaves T ! j" and ?a = "tr_addrs T ! j"
  let ?p = "tr_root T" and ?x = "tr_raddr T" and ?tab = "bf_tableid (tr_btree T)" and ?h = "length (leaf_tuples (tr_leaves T ! j)) div 2"
  let ?rid = "bp_pid (new_leaf w (tr_btree T))" and ?no = "new_page_no w (tr_btree T)"
  have T: "tree_in_pool w T" and srt: "sorted (tree_keys T)" and f: "file_open w ?i ?b"
    and mx: "int_getMaxEntries (w_pageSize w) (bp_td ?p) (bp_keyField ?p) = Inr (np_numSlots ?p - 1)"
    and rn: "pageNumber (bp_pid ?p) \<noteq> 0" and two: "2 \<le> leaf_getMaxTuples (w_pageSize w) (bf_td ?b)"
    and lv: "\<And>i. i < length ?ls \<Longrightarrow> leaf_of w ?b (?ls ! i) \<and> getParentId (?ls ! i) = bp_pid ?p \<and> leaf_tuples (?ls ! i) \<noteq> []"
    using R by (auto simp: tree_ready_def)
  note at = tree_pages_at [OF T] and id = tree_ids [OF R] and ad = tree_addresses [OF T] and hv = split_halves [OF R j h]
  note d = split_dirty [OF R j h, folded c_def w1_def g1_def m1_def]
  note g1 = link_pages [OF T j c_def [THEN meta_eq_to_obj_eq] g1_def [folded c_def, THEN meta_eq_to_obj_eq]]
  have rid: "?rid = BTreePageId ?tab ?no LEAF" by (simp add: new_leaf_def)
  have new: "pm_find ?rid (w_pool w) = None"
    using f by (simp add: rid file_open_def disk_fresh_def new_page_no_def)
  have child: "int_child ?p ?no = ?rid" by (simp only: id(3) rid)
  have "length (leaf_tuples ?l) = leaf_getMaxTuples (w_pageSize w) (bf_td ?b)"
    using leaf_occupancy [of ?l] fl lv [OF j] by (simp add: leaf_of_def)
  then have "leaf_keys ?l ! ?h = sint sv" "?h < length (leaf_keys ?l)"
    using two h lv [OF j] by (simp_all add: leaf_keys_def leaf_of_def leaf_halves_def Let_def)
  then have "sint sv \<in> set (leaf_keys ?l)" by (metis nth_mem)
  from root_entry [OF T srt j this _ room, of ?no] obtain p'' where p'':
    "insertEntry ?p (np_numSlots ?p - 1) (BTreeEntry_new (Some (IntField sv)) (Some (bp_pid ?l)) (Some ?rid)) = Inr p''"
    "int_ok p''" "int_frame ?p p''" "int_isSlotUsed p'' 0" "int_isSlotUsed p'' 1"
    "int_pairs p'' = ins_at (Suc j) (Some (IntField sv), ?no) (int_pairs ?p)"
    using new child by auto
  have own: "int_child ?p (snd y) = ?rid \<or> (\<exists>b l. found w1 m1 (int_child ?p (snd y)) b \<and> b \<noteq> c \<and> b \<noteq> ?x \<and>
      g1 b = LeafPg l \<and> getParentId l = bp_pid ?p)" if y: "y \<in> set (int_pairs p'')" for y
  proof (cases "y \<in> set (int_pairs ?p)")
    case False
    with y show ?thesis by (simp add: p''(6) set_ins_at child)
  next
    case True
    then obtain k where k: "k < length ?ls" "y = int_pairs ?p ! k" using tree_lengths(1) [OF T] by (auto simp: in_set_conv_nth)
    have id': "int_child ?p (snd y) = bp_pid (?ls ! k)" by (simp only: ad(7) [OF k(1)] k(2))
    moreover have "\<exists>l. g1 (tr_addrs T ! k) = LeafPg l \<and> getParentId l = bp_pid ?p"
      using g1(1) g1(5) [OF k(1)] hv(2) lv [OF k(1)] k(1) by (cases "k = j") (auto simp: relink_nth)
    ultimately show ?thesis using d(4) [OF k(1)] id' ad(2) [OF k(1)] at(1) [OF k(1)] by (auto simp: c_def)
  qed
  have ridin: "?rid \<in> (\<lambda>y. int_child ?p (snd y)) ` set (int_pairs p'')" by (simp add: p''(6) set_ins_at child)
  have "?x \<noteq> c" using at(2) by (simp add: c_def)
  with d(2,3,7) own ridin g1(2) hv(5,6) mx root_room [OF T] room show ?thesis
    by (intro that [OF p''(2-6)] split_tail_run [where g = g1, OF id(1) rn d(5) g1(3) refl _ _ p''(1-5)]) (simp_all add: rid w1_def)
qed

lemma tree_split_run:
  assumes R: "tree_ready w T" and j: "j < length (tr_leaves T)" and fl: "leaf_getNumEmptySlots (tr_leaves T ! j) = 0"
    and room: "length (tr_leaves T) < np_numSlots (tr_root T)" "\<not> pool_full w"
  shows "\<exists>W T' sv. splitLeafPage (Suc n) (tr_file T) (tr_addrs T ! j) (IntField kv)
      (with_pages w (pages_of w) [(bp_pid (tr_leaves T ! j), tr_addrs T ! j)]) =
        Inr (tr_addrs T' ! (if sint kv < sint sv then j else Suc j), W) \<and>
    tree_ready W T' \<and> has_split T T' j sv \<and> dirty_ok W \<and> same_setting w W \<and> length (w_pool W) = Suc (length (w_pool w))"
proof -
  let ?b = "tr_btree T" and ?i = "tr_file T" and ?ls = "tr_leaves T" and ?l = "tr_leaves T ! j" and ?a = "tr_addrs T ! j"
  let ?p = "tr_root T" and ?x = "tr_raddr T" and ?g = "pages_of w" and ?tab = "bf_tableid (tr_btree T)"
  let ?rn = "pageNumber (bp_pid (tr_root T))" and ?nb = "neighbour_of T j" and ?rid = "bp_pid (new_leaf w (tr_btree T))"
  let ?no = "new_page_no w (tr_btree T)"
  have T: "tree_in_pool w T" and srt: "sorted (tree_keys T)" and f: "file_open w ?i ?b" "leaves_fit w ?b"
      "root_open w ?g ?b (tr_ptr T) (tr_rootptr T)" and mx: "int_getMaxEntries (w_pageSize w) (bp_td ?p) (bp_keyField ?p) =
      Inr (np_numSlots ?p - 1)" and rn: "?rn \<noteq> 0" and two: "2 \<le> leaf_getMaxTuples (w_pageSize w) (bf_td ?b)"
    and lv: "\<And>i. i < length ?ls \<Longrightarrow> leaf_of w ?b (?ls ! i) \<and> getParentId (?ls ! i) = bp_pid ?p \<and> leaf_tuples (?ls ! i) \<noteq> []"
    using R by (auto simp: tree_ready_def)
  note t = T [unfolded tree_in_pool_def] and at = tree_pages_at [OF T] and id = tree_ids [OF R] and ad = tree_addresses [OF T]
  define c where "c = length (w_objs w)"
  define w1 where "w1 = add_page w ?i ?b (LeafPg (new_leaf w ?b))"
  define h where "h = length (leaf_tuples ?l) div 2"
  obtain p' q' sv where hs: "leaf_halves w ?b ?l p' q' sv"
    and front: "splitLeafPage (Suc n) ?i ?a (IntField kv) (with_pages w ?g [(bp_pid ?l, ?a)]) =
        split_tail (Suc n) ?i ?a c (getParentId ?l) (bp_pid ?l) ?rid (IntField kv) sv
          (with_pages w1 (link_left ?nb ?no (?g(?a := LeafPg p', c := LeafPg q'))) ([(bp_pid ?l, ?a), (?rid, c)] @ link_dirty ?nb))"
    using split_front [OF f room(2) _ _ _ fl _ tree_right_neighbour [OF T j], of "Suc n" "IntField kv"] lv [OF j] at(1) [OF j]
    unfolding c_def w1_def neighbour_of_def by blast
  have s: "leaf_tuples p' = take h (leaf_tuples ?l)" "leaf_sorted q'" "mset (leaf_tuples q') = mset (drop h (leaf_tuples ?l))"
      "key_of (bf_keyField ?b) (leaf_tuples ?l ! h) = sint sv"
    using hs by (simp_all add: leaf_halves_def Let_def h_def)
  define g1 where "g1 = link_left ?nb ?no (?g(?a := LeafPg p', c := LeafPg q'))"
  define m1 where "m1 = [(bp_pid ?l, ?a), (?rid, c)] @ link_dirty ?nb"
  note g1 = link_pages [OF T j c_def g1_def] and hv = split_halves [OF R j hs]
  note d = split_dirty [OF R j hs, folded c_def w1_def, folded g1_def m1_def]
  obtain p'' where p'': "int_ok p''" "int_frame ?p p''" "int_isSlotUsed p'' 0" "int_isSlotUsed p'' 1"
      "int_pairs p'' = ins_at (Suc j) (Some (IntField sv), ?no) (int_pairs ?p)"
    and run: "split_tail (Suc n) ?i ?a c (bp_pid ?p) (bp_pid ?l) ?rid (IntField kv) sv (with_pages w1 g1 m1) =
      Inr (if sint kv < sint sv then ?a else c,
        with_pages w1 (g1(?x := IntPg p'', c := LeafPg (q'\<lparr>bp_parent := ?rn\<rparr>))) (m1 @ [(bp_pid ?p, ?x)]))"
    using tree_split_tail [OF R j fl room(1) hs, folded c_def w1_def, folded g1_def m1_def, of n kv] by blast
  have rid: "?rid = BTreePageId ?tab ?no LEAF" by (simp add: new_leaf_def)
  have new: "pm_find ?rid (w_pool w) = None"
    using f(1) by (simp add: rid file_open_def disk_fresh_def new_page_no_def)
  have child: "int_child ?p ?no = ?rid" by (simp only: id(3) rid)
  have ne: "?a \<noteq> c" "?x \<noteq> c" "tr_ptr T \<noteq> c" using at(1) [OF j] at(2,4) by (auto simp: c_def)
  let ?W = "with_pages w1 (g1(?x := IntPg p'', c := LeafPg (q'\<lparr>bp_parent := ?rn\<rparr>))) (m1 @ [(bp_pid ?p, ?x)])"
  let ?b' = "?b\<lparr>bf_disk := disk_grow (w_append w) (w_pageSize w) (bf_disk ?b)\<rparr>" and ?q = "q'\<lparr>bp_parent := ?rn\<rparr>"
  let ?T = "tree_split T ?b' p'' j p' ?q c"
  have no': "pageNumber (bp_pid ?q) = ?no" "bp_pid ?q = ?rid" by (simp_all add: hv(5) rid)
  have W: "same_setting w ?W" "length (w_objs w) < length (w_objs ?W)"
    by (simp_all add: w1_def same_setting_def)
  have fo: "file_open ?W ?i ?b'"
    unfolding with_pages_facts w1_def by (rule file_open_add_page [OF f(1)]) (simp add: rid)
  have pool: "pm_find i (w_pool ?W) = Some x" if "pm_find i (w_pool w) = Some x" for i x
    using pm_find_append [OF that] new by (simp add: w1_def pm_put_new)
  have lt: "tr_addrs T ! k < c" if "k < length ?ls" for k using at(1) [OF that] by (simp add: c_def)
  have pg: "pages_of ?W y = (g1(?x := IntPg p'', c := LeafPg ?q)) y" if "y < Suc c" for y using that d(7) by simp
  have "disk_grow (w_append w) (w_pageSize w) (bf_disk ?b) \<noteq> []" using t by (simp add: disk_grow_def)
  note ready = tree_split_ready [OF R j fl W fo refl this, where p = p'' and sv = sv and l = p' and r = ?q and c = c and h = h]
  have old: "pages_of ?W (tr_addrs T ! k) = LeafPg (relink (pageNumber (bp_pid ?q)) j ?ls ! k)" if "k < length ?ls" "k \<noteq> j" for k
    unfolding no'(1) using ad(2) [OF that(1)] lt [OF that(1)] g1(5) [OF that] by (simp add: pg)
  have pgs: "pages_of ?W (tr_ptr T) = RootPg (tr_rootptr T)" "pages_of ?W ?x = IntPg p''" "pages_of ?W ?a = LeafPg p'"
      "pages_of ?W c = LeafPg ?q"
    using g1(1,4) ne ad(2) [OF j] ad(4) [OF j] at(2,4) lt [OF j] by (auto simp: pg c_def [symmetric])
  have ridc: "bp_pid ?q = int_child ?p (pageNumber (bp_pid ?q))" "pm_find (bp_pid ?q) (w_pool ?W) = Some c"
    unfolding no'(1) unfolding no'(2) child by (simp_all only: with_pages_simps d(6) [OF d(8)] simp_thms if_True)
  have q: "getRightSiblingId ?q = getRightSiblingId ?l" "leaf_of w ?b ?q" "leaf_sorted ?q"
      "mset (leaf_tuples ?q) = mset (drop h (leaf_tuples ?l))" "getRightSiblingId p' = Some (bp_pid ?q)"
      "int_pairs p'' = ins_at (Suc j) (Some (IntField sv), pageNumber (bp_pid ?q)) (int_pairs ?p)"
    unfolding no'(1) using hv(3,5,7,8) s p''(5) by simp_all
  note T' = ready [OF pool pgs(1,2) p''(1-4) q(6) old pgs(3) hv(4,2,1) q(5) c_def pgs(4) q(2) hv(9) ridc q(1) h_def s(1) q(4,3) s(4)]
  have "tr_addrs ?T ! j = ?a" "tr_addrs ?T ! Suc j = c"
    using j tree_lengths(2) [OF T] by (simp_all add: tree_split_def ins_at_nth)
  moreover have "dirty_ok ?W"
  proof -
    have "page_getId (pages_of ?W b) = k" if "(k, b) \<in> set m1" for k b
    proof -
      have kb: "b < Suc c" "page_getId (g1 b) = k" "k \<noteq> bp_pid ?p" using d(1) that by auto
      then have "b \<noteq> ?x" using g1(3) by auto
      then show ?thesis using kb(2) hv(5) g1(2) unfolding pg [OF kb(1)] by auto
    qed
    moreover have "page_getId (pages_of ?W ?x) = bp_pid ?p" using int_frame_simps(1) [OF p''(2)] by (simp add: pgs(2))
    moreover have "?x < Suc c" "pm_find (bp_pid ?p) (w_pool w1) = Some ?x"
      using d(3,5,7) by (auto simp: found_def)
    ultimately show ?thesis using d(1,7) by (auto simp: dirty_ok_def pages_of_def)
  qed
  moreover have "length (w_pool ?W) = Suc (length (w_pool w))" using new by (simp add: w1_def pm_put_new)
  ultimately show ?thesis
    using T' W(1) front run lv [OF j] s by (intro exI [of _ ?W] exI [of _ ?T] exI [of _ sv]) (simp add: g1_def m1_def)
qed

end
