(* ===== verification/TableSpec.thy ===== *)
theory TableSpec
  imports Storage
begin

text \<open>
  What the layers above the storage may assume of a table, whatever its file is: an insertion
  through the buffer pool adds one tuple to the multiset of tuples and uses up one unit of room,
  and a scan returns the multiset. Record ids are left out (\<open>strip\<close>). Sequences of insertions are
  treated once, from these two laws; the heap file and the B+ tree file provide them.
\<close>

text \<open>The tuples of a list, one after the other, as a client that fills a table does.\<close>

primrec insertTuples :: "(tuple \<Rightarrow> tuple M) \<Rightarrow> tuple list \<Rightarrow> unit M" where
  "insertTuples ins [] = returnM ()"
| "insertTuples ins (t # ts) = bindM (ins t) (\<lambda>_. insertTuples ins ts)"

text \<open>
  \<open>rep w b M\<close>: in the state \<open>w\<close> the table holds the tuples \<open>M\<close> and has room for \<open>b\<close> more.
\<close>

locale bag_fill =
  fixes ins :: "tuple \<Rightarrow> tuple M" and rep :: "world \<Rightarrow> nat \<Rightarrow> tuple multiset \<Rightarrow> bool"
    and admissible :: "tuple \<Rightarrow> bool"
  assumes insert_law: "rep w (Suc b) M \<Longrightarrow> admissible t \<Longrightarrow>
      \<exists>t' w'. ins t w = Inr (t', w') \<and> strip t' = strip t \<and> rep w' b (add_mset (strip t) M)"
begin

lemma insert_all:
  "rep w (length ts + b) M \<Longrightarrow> (\<And>t. t \<in> set ts \<Longrightarrow> admissible t) \<Longrightarrow>
   \<exists>w'. insertTuples ins ts w = Inr ((), w') \<and> rep w' b (M + mset (map strip ts))"
proof (induction ts arbitrary: w M)
  case (Cons t ts)
  then obtain t' w1 where "ins t w = Inr (t', w1)" "rep w1 (length ts + b) (add_mset (strip t) M)"
    using insert_law [of w "length ts + b" M t] by auto
  moreover from Cons.IH [OF this(2)] Cons.prems(2) obtain w' where
    "insertTuples ins ts w1 = Inr ((), w')" "rep w' b (add_mset (strip t) M + mset (map strip ts))"
    by auto
  ultimately show ?case by (auto simp: bindM_apply)
qed simp

end

text \<open>The scans start at page 0 or at the root, so they are only claimed for a table with a tuple.\<close>

locale bag_table = bag_fill ins rep admissible
  for ins :: "tuple \<Rightarrow> tuple M" and rep :: "world \<Rightarrow> nat \<Rightarrow> tuple multiset \<Rightarrow> bool"
    and admissible :: "tuple \<Rightarrow> bool" +
  fixes scan :: "nat \<Rightarrow> tuple list M" and ordered :: "tuple list \<Rightarrow> bool"
  assumes scan_law: "rep w b M \<Longrightarrow> M \<noteq> {#} \<Longrightarrow> size M < k \<Longrightarrow>
      \<exists>us. scan k w = Inr (us, w) \<and> mset (map strip us) = M \<and> ordered us"
begin

lemma insert_all_scan:
  assumes "rep w (length ts + b) M" "\<And>t. t \<in> set ts \<Longrightarrow> admissible t" "M \<noteq> {#} \<or> ts \<noteq> []" "size M + length ts < k"
  shows "\<exists>w' us. insertTuples ins ts w = Inr ((), w') \<and>
    scan k w' = Inr (us, w') \<and> mset (map strip us) = M + mset (map strip ts) \<and> ordered us \<and> rep w' b (M + mset (map strip ts))"
proof -
  from insert_all [OF assms(1,2)] obtain w' where
    w': "insertTuples ins ts w = Inr ((), w')" "rep w' b (M + mset (map strip ts))" by blast
  with scan_law [OF w'(2), of k] assms(3,4) show ?thesis by auto
qed

end

section \<open>Insertions and deletions\<close>

text \<open>A client that adds tuples, and removes the \<open>i\<close>-th tuple that a scan gives, if there is one.\<close>

datatype table_op = Add tuple | Remove nat

primrec run_ops :: "(tuple \<Rightarrow> 'a M) \<Rightarrow> (tuple \<Rightarrow> 'b M) \<Rightarrow> tuple list M \<Rightarrow> table_op list \<Rightarrow> unit M" where
  "run_ops ins del scan [] = returnM ()"
| "run_ops ins del scan (x # ops) =
     (case x of
        Add t \<Rightarrow> bindM (ins t) (\<lambda>_. run_ops ins del scan ops)
      | Remove i \<Rightarrow>
          bindM scan (\<lambda>us.
          bindM (if i < length us then bindM (del (us ! i)) (\<lambda>_. returnM ()) else returnM ()) (\<lambda>_.
            run_ops ins del scan ops)))"

text \<open>What it does to the multiset: which tuple is removed is left open.\<close>

inductive bag_ops :: "table_op list \<Rightarrow> tuple multiset \<Rightarrow> tuple multiset \<Rightarrow> bool" where
  bag_done: "bag_ops [] M M"
| bag_add: "bag_ops ops (add_mset (strip t) M) M' \<Longrightarrow> bag_ops (Add t # ops) M M'"
| bag_remove: "i < size M \<Longrightarrow> x \<in># M \<Longrightarrow> bag_ops ops (M - {#x#}) M' \<Longrightarrow> bag_ops (Remove i # ops) M M'"
| bag_none: "size M \<le> i \<Longrightarrow> bag_ops ops M M' \<Longrightarrow> bag_ops (Remove i # ops) M M'"

inductive_cases bag_ops_Nil [elim!]: "bag_ops [] M M'"
inductive_cases bag_ops_Add [elim!]: "bag_ops (Add t # ops) M M'"
inductive_cases bag_ops_Remove: "bag_ops (Remove i # ops) M M'"

primrec adds :: "table_op list \<Rightarrow> nat" where
  "adds [] = 0"
| "adds (x # ops) = (case x of Add t \<Rightarrow> Suc (adds ops) | Remove i \<Rightarrow> adds ops)"

text \<open>Without removals it is determined, and the client is the one above.\<close>

lemma bag_ops_adds: "bag_ops (map Add ts) M M' \<longleftrightarrow> M' = M + mset (map strip ts)"
  by (induction ts arbitrary: M) (auto intro: bag_done bag_add)

lemma run_ops_adds: "run_ops ins del scan (map Add ts) = insertTuples ins ts"
  by (induction ts) auto

lemma bag_ops_size: "bag_ops ops M M' \<Longrightarrow> size M' \<le> size M + adds ops"
  by (induction rule: bag_ops.induct) (auto simp: size_Diff_singleton)

locale bag_table_del = bag_table ins rep admissible scan ordered
  for ins :: "tuple \<Rightarrow> tuple M" and rep :: "world \<Rightarrow> nat \<Rightarrow> tuple multiset \<Rightarrow> bool"
    and admissible :: "tuple \<Rightarrow> bool" and scan :: "nat \<Rightarrow> tuple list M"
    and ordered :: "tuple list \<Rightarrow> bool" +
  fixes del :: "tuple \<Rightarrow> (tuple \<times> nat list) M"
  assumes delete_law: "rep w b M \<Longrightarrow> scan k w = Inr (us, w) \<Longrightarrow> size M < k \<Longrightarrow> t \<in> set us \<Longrightarrow> del t w = Inr (x, w') \<Longrightarrow>
      rep w' (Suc b) (M - {#strip t#})"
    and empty_law: "rep w b {#} \<Longrightarrow> \<exists>e. scan k w = Inl e"
    and room_law: "rep w (Suc b) M \<Longrightarrow> rep w b M"
begin

lemma rep_le: "b \<le> c \<Longrightarrow> rep w c M \<Longrightarrow> rep w b M"
  by (induction c rule: dec_induct) (auto intro: room_law)

lemma run_ops_refines:
  "rep w b M \<Longrightarrow> adds ops \<le> b \<Longrightarrow> (\<And>t. Add t \<in> set ops \<Longrightarrow> admissible t) \<Longrightarrow> size M + adds ops < k \<Longrightarrow>
   run_ops ins del (scan k) ops w = Inr ((), w') \<Longrightarrow> \<exists>M' b'. bag_ops ops M M' \<and> rep w' b' M'"
proof (induction ops arbitrary: w b M)
  case Nil
  then show ?case by (auto intro: bag_done)
next
  case (Cons x ops)
  show ?case
  proof (cases x)
    case (Add t)
    then obtain c where b: "b = Suc c" "adds ops \<le> c" using Cons.prems(2) by (cases b) auto
    have "admissible t" using Cons.prems(3) Add by simp
    from insert_law [OF Cons.prems(1) [unfolded b(1)] this] obtain t' w1 where
      r: "ins t w = Inr (t', w1)" "rep w1 c (add_mset (strip t) M)" by blast
    from Cons.IH [OF r(2) b(2)] Cons.prems(3-5) Add r(1) show ?thesis by (auto simp: bindM_apply intro: bag_add)
  next
    case (Remove i)
    have "M \<noteq> {#}" using empty_law [of w b k] Cons.prems(1,5) Remove by (auto simp: bindM_apply)
    then obtain us where us: "scan k w = Inr (us, w)" "mset (map strip us) = M"
      using scan_law [OF Cons.prems(1), of k] Cons.prems(4) by auto
    then have n: "length us = size M" by auto
    show ?thesis
    proof (cases "i < length us")
      case True
      with Cons.prems(5) Remove us(1) obtain y w1 where d: "del (us ! i) w = Inr (y, w1)"
          "run_ops ins del (scan k) ops w1 = Inr ((), w')"
        by (auto simp: bindM_apply bindM_assoc bindM_eq_Inr)
      have r: "rep w1 (Suc b) (M - {#strip (us ! i)#})"
        using delete_law [OF Cons.prems(1) us(1) _ nth_mem [OF True] d(1)] Cons.prems(4) by simp
      have i: "strip (us ! i) \<in># M" using True us(2) by auto
      then have "size (M - {#strip (us ! i)#}) + adds ops < k" using Cons.prems(4) Remove by (simp add: size_Diff_singleton)
      from Cons.IH [OF r _ _ this d(2)] Cons.prems(2,3) Remove obtain M' b' where
        "bag_ops ops (M - {#strip (us ! i)#}) M'" "rep w' b' M'" by auto
      with i True n Remove show ?thesis by (auto intro: bag_remove)
    next
      case False
      with Cons.prems(5) Remove us(1) have "run_ops ins del (scan k) ops w = Inr ((), w')" by (simp add: bindM_apply)
      with Cons.IH [OF Cons.prems(1)] Cons.prems(2-4) Remove obtain M' b' where "bag_ops ops M M'" "rep w' b' M'" by auto
      moreover have "size M \<le> i" using False n by simp
      ultimately show ?thesis using Remove bag_none by blast
    qed
  qed
qed

lemma run_ops_scan:
  assumes "rep w b M" "adds ops \<le> b" "\<And>t. Add t \<in> set ops \<Longrightarrow> admissible t" "size M + adds ops < k"
    "run_ops ins del (scan k) ops w = Inr ((), w')"
  shows "(\<exists>us. scan k w' = Inr (us, w') \<and> bag_ops ops M (mset (map strip us)) \<and> ordered us) \<or>
    bag_ops ops M {#} \<and> (\<exists>e. scan k w' = Inl e)"
proof -
  obtain M' b' where r: "bag_ops ops M M'" "rep w' b' M'" using run_ops_refines [OF assms] by blast
  have "size M' < k" using bag_ops_size [OF r(1)] assms(4) by simp
  with scan_law [OF r(2), of k] r(1) empty_law [of w' b' k] r(2) show ?thesis by (cases "M' = {#}") auto
qed

end

end
