(* ===== verification/BTreeGrow.thy ===== *)
theory BTreeGrow
  imports BTreeSplitSpec TableSpec
begin

text \<open>
  Insertion into B+ trees of two levels, whether or not the leaf has to be split, and sequences of
  insertions: a tree whose leaves are at least half full takes tuples until its root has a child in
  every slot.
\<close>

section \<open>The tuple enters its leaf\<close>

lemma tree_ready_frame:
  assumes R: "tree_ready w T" and W: "same_setting w W" "w_files W = w_files w" "w_pool W = w_pool w"
      "length (w_objs W) = length (w_objs w)" "\<And>i. i < length (w_objs w) \<Longrightarrow> pages_of W i = pages_of w i"
  shows "tree_ready W T"
proof -
  have "tree_in_pool W T" using tree_in_pool_pages [of W w T] R W by (simp add: tree_ready_def pages_of_def)
  moreover have "file_open W (tr_file T) (tr_btree T) = file_open w (tr_file T) (tr_btree T)"
    "leaves_fit W = leaves_fit w" "leaf_of W = leaf_of w" "w_pageSize W = w_pageSize w"
    using W by (simp_all add: file_open_def disk_fresh_def leaves_fit_def leaf_of_def same_setting_def fun_eq_iff)
  moreover have "root_open W (pages_of W) (tr_btree T) (tr_ptr T) (tr_rootptr T) =
      root_open w (pages_of w) (tr_btree T) (tr_ptr T) (tr_rootptr T)"
    using W by (auto simp: root_open_def)
  ultimately show ?thesis using R by (simp add: tree_ready_def)
qed

text \<open>One leaf of a tree that is ready takes a tuple.\<close>

lemma tree_ready_update:
  assumes R: "tree_ready w T" and j: "j < length (tr_leaves T)"
    and q: "leaf_ok q" "leaf_frame (tr_leaves T ! j) q"
      "leaf_tuples q = ins_tuple (bf_keyField (tr_btree T)) (strip t) (leaf_tuples (tr_leaves T ! j))"
    and lo: "key_le (fst (int_pairs (tr_root T) ! j)) (key_of (bf_keyField (tr_btree T)) t)"
    and hi: "Suc j < length (tr_leaves T) \<longrightarrow>
      key_ge (fst (int_pairs (tr_root T) ! Suc j)) (key_of (bf_keyField (tr_btree T)) t)"
    and W: "same_setting w W" "w_files W = w_files w" "w_pool W = w_pool w"
      "w_objs W = (w_objs w)[tr_addrs T ! j := \<lparr>po_dirty = d, po_page = LeafPg q\<rparr>]"
  shows "tree_ready W (tree_update T j q)"
    "mset (tree_tuples (tree_update T j q)) = add_mset (strip t) (mset (tree_tuples T))"
    "half_full T \<Longrightarrow> half_full (tree_update T j q)"
proof -
  let ?T = "tree_update T j q" and ?l = "tr_leaves T ! j"
  have T: "tree_in_pool w T" and srt: "sorted (tree_keys T)"
    and lv: "\<And>l. l \<in> set (tr_leaves T) \<Longrightarrow> leaf_of w (tr_btree T) l \<and> getParentId l = bp_pid (tr_root T) \<and> leaf_tuples l \<noteq> []"
    using R by (auto simp: tree_ready_def)
  note fr = leaf_frame_simps [OF q(2)] and at = tree_pages_at [OF T]
  have in_pool: "tree_in_pool W ?T" by (rule tree_update_in_pool [OF T j q(1,2) W(2-4)])
  have srt': "sorted (tree_keys ?T)" by (rule tree_keys_update [OF T srt j lo hi q(2,3)])
  have len: "length (leaf_tuples q) = Suc (length (leaf_tuples ?l))" by (simp add: q(3))
  have "getParentId q = getParentId ?l" using fr by (simp add: getParentId_def)
  then have "leaf_of w (tr_btree T) q \<and> getParentId q = bp_pid (tr_root T) \<and> leaf_tuples q \<noteq> []"
    using lv [OF nth_mem [OF j]] leaf_of_frame [OF _ q(2,1)] len by auto
  then have lv': "\<forall>l \<in> set (tr_leaves ?T). leaf_of w (tr_btree T) l \<and> getParentId l = bp_pid (tr_root T) \<and> leaf_tuples l \<noteq> []"
    using lv by (auto simp: tree_update_def dest!: set_update_subset_insert [THEN subsetD])
  have st: "file_open W = file_open w" "leaves_fit W = leaves_fit w" "leaf_of W = leaf_of w" "w_pageSize W = w_pageSize w"
    using W by (simp_all add: file_open_def disk_fresh_def leaves_fit_def leaf_of_def same_setting_def fun_eq_iff)
  have "root_open W (pages_of W) (tr_btree T) (tr_ptr T) (tr_rootptr T)"
    using R W tree_addresses(3) [OF T j] at(4,5) by (auto simp: root_open_def tree_ready_def pages_of_def)
  then show "tree_ready W ?T"
    using R in_pool srt' lv' st by (simp add: tree_ready_def) (simp add: tree_update_def)
  show "mset (tree_tuples ?T) = add_mset (strip t) (mset (tree_tuples T))"
    using mset_concat_update [OF j, of leaf_tuples q "strip t"] q(3) by (simp add: tree_tuples_def tree_update_def)
  show "half_full ?T" if "half_full T"
  proof -
    have "lp_numSlots q div 2 \<le> length (leaf_tuples q)"
      using that nth_mem [OF j] fr len by (fastforce simp: half_full_def)
    then show ?thesis
      using that by (auto simp: half_full_def tree_update_def dest!: set_update_subset_insert [THEN subsetD])
  qed
qed

definition leaf_takes :: "nat \<Rightarrow> tuple \<Rightarrow> (tuple \<times> nat list) M" where
  "leaf_takes a t =
     bindM (leaf_at a) (\<lambda>q.
     bindM (liftM (leaf_insertTuple q t)) (\<lambda>(t', q').
     bindM (put_page a (LeafPg q')) (\<lambda>_.
     bindM dirty_pages (\<lambda>ds. returnM (t', ds)))))"

text \<open>What an insertion has done to a tree.\<close>

definition tree_grown :: "world \<Rightarrow> btree_pages \<Rightarrow> tuple \<Rightarrow> world \<Rightarrow> btree_pages \<Rightarrow> bool" where
  "tree_grown w T t W T' \<longleftrightarrow>
     tree_ready W T' \<and> same_setting w W \<and> mset (tree_tuples T') = add_mset (strip t) (mset (tree_tuples T)) \<and>
     tr_file T' = tr_file T \<and> (\<exists>d. tr_btree T' = (tr_btree T)\<lparr>bf_disk := d\<rparr>) \<and>
     np_numSlots (tr_root T') = np_numSlots (tr_root T) \<and> (half_full T \<longrightarrow> half_full T')"

lemma same_file [simp]: "\<exists>d. b = b\<lparr>bf_disk := d\<rparr>" "\<exists>d'. b\<lparr>bf_disk := d\<rparr> = b\<lparr>bf_disk := d'\<rparr>" for b :: btree_file
  by (rule exI [of _ "bf_disk b"], simp) (rule exI [of _ d], simp)

lemma leaf_takes_at:
  assumes l: "leaf_of w b l" "a < length (w_objs w)" "pages_of w a = LeafPg l"
    and d: "dirty_ok w" and ord: "\<And>m. mset (w_order w m) = mset m"
    and room: "0 < leaf_getNumEmptySlots l" and fit: "fits (bf_td b) t"
  shows "\<exists>t' ds W1 W q. leaf_takes a t w = Inr ((t', ds), W1) \<and> strip t' = strip t \<and>
    pool_add_dirty tid ds W1 = Inr ((), W) \<and> w_files W = w_files w \<and> w_pool W = w_pool w \<and> same_setting w W \<and>
    length (w_objs W) = length (w_objs w) \<and> (\<forall>i < length (w_objs w). pages_of W i = ((pages_of w)(a := LeafPg q)) i) \<and>
    leaf_ok q \<and> leaf_frame l q \<and> leaf_tuples q = ins_tuple (bf_keyField b) (strip t) (leaf_tuples l)"
proof -
  have lk: "leaf_ok l" "bp_td l = bf_td b" "bp_keyField l = bf_keyField b" using l(1) by (simp_all add: leaf_of_def)
  obtain g q where q: "leaf_insertTuple l t = Inr (setRecordId t (Some \<lparr>rid_pid = bp_pid l, rid_tupleno = int g\<rparr>), q)"
      "leaf_ok q" "leaf_frame l q" "leaf_tuples q = ins_tuple (bf_keyField b) (strip t) (leaf_tuples l)"
    using leaf_insert_spec [OF lk(1), of t] fit lk room by auto
  let ?t = "setRecordId t (Some \<lparr>rid_pid = bp_pid l, rid_tupleno = int g\<rparr>)"
  let ?W1 = "w\<lparr>w_objs := (w_objs w)[a := \<lparr>po_dirty = po_dirty (w_objs w ! a), po_page = LeafPg q\<rparr>]\<rparr>"
  have ob: "(w_objs w ! a)\<lparr>po_page := LeafPg q\<rparr> = \<lparr>po_dirty = po_dirty (w_objs w ! a), po_page = LeafPg q\<rparr>"
    by (cases "w_objs w ! a") simp
  define ds where "ds = map snd (w_order w (w_dirtypages w))"
  have run: "leaf_takes a t w = Inr ((?t, ds), ?W1)"
    using l(2,3) q(1) run_object(4) [OF l(2), of "LeafPg q" "\<lambda>_. bindM dirty_pages (\<lambda>ds. returnM (?t, ds))"]
    by (simp add: leaf_takes_def run_leaf_at pages_of_def dirty_pages_def ds_def ob)
  have dset: "set ds = snd ` set (w_dirtypages w)"
    unfolding ds_def by (simp add: mset_eq_setD [OF ord])
  have "c < length (w_objs ?W1) \<and> pm_find (page_getId (po_page (w_objs ?W1 ! c))) (w_pool ?W1) = Some c"
    if "c \<in> set ds" for c
  proof -
    have c: "c < length (w_objs w)" "pm_find (page_getId (po_page (w_objs w ! c))) (w_pool w) = Some c"
      using that d dset by (auto simp: dirty_ok_def)
    then show ?thesis using l(3) leaf_frame_simps(1) [OF q(3)] by (cases "c = a") (auto simp: pages_of_def)
  qed
  from pool_add_dirty_all [OF this, of ds tid]
  have mark: "pool_add_dirty tid ds ?W1 = Inr ((), ?W1\<lparr>w_objs := mark_all tid ds (w_objs ?W1)\<rparr>)" by blast
  let ?W = "?W1\<lparr>w_objs := mark_all tid ds (w_objs ?W1)\<rparr>"
  have "\<forall>i < length (w_objs w). pages_of ?W i = ((pages_of w)(a := LeafPg q)) i"
    by (auto simp: pages_of_def nth_list_update)
  with run mark q(2-4) show ?thesis
    by (intro exI [of _ ?t] exI [of _ ds] exI [of _ ?W1] exI [of _ ?W] exI [of _ q]) (simp add: same_setting_def)
qed

lemma leaf_takes_run:
  assumes R: "tree_ready w T" and d: "dirty_ok w" and ord: "\<And>m. mset (w_order w m) = mset m"
    and j: "j < length (tr_leaves T)" and room: "0 < leaf_getNumEmptySlots (tr_leaves T ! j)"
    and fit: "fits (bf_td (tr_btree T)) t"
    and lo: "key_le (fst (int_pairs (tr_root T) ! j)) (key_of (bf_keyField (tr_btree T)) t)"
    and hi: "Suc j < length (tr_leaves T) \<longrightarrow>
      key_ge (fst (int_pairs (tr_root T) ! Suc j)) (key_of (bf_keyField (tr_btree T)) t)"
  shows "\<exists>t' ds W1 W q. leaf_takes (tr_addrs T ! j) t w = Inr ((t', ds), W1) \<and> strip t' = strip t \<and>
    pool_add_dirty tid ds W1 = Inr ((), W) \<and> w_pool W = w_pool w \<and> tree_grown w T t W (tree_update T j q)"
proof -
  let ?l = "tr_leaves T ! j" and ?a = "tr_addrs T ! j"
  have T: "tree_in_pool w T" and l: "leaf_of w (tr_btree T) ?l" using R j by (auto simp: tree_ready_def)
  have a: "?a < length (w_objs w)" "pages_of w ?a = LeafPg ?l" using tree_pages_at(1) [OF T j] by auto
  obtain t' ds W1 W q where r: "leaf_takes ?a t w = Inr ((t', ds), W1)" "strip t' = strip t"
      "pool_add_dirty tid ds W1 = Inr ((), W)" and W: "w_files W = w_files w" "w_pool W = w_pool w" "same_setting w W"
      "length (w_objs W) = length (w_objs w)" "\<forall>i < length (w_objs w). pages_of W i = ((pages_of w)(?a := LeafPg q)) i"
    and q: "leaf_ok q" "leaf_frame ?l q" "leaf_tuples q = ins_tuple (bf_keyField (tr_btree T)) (strip t) (leaf_tuples ?l)"
    using leaf_takes_at [OF l a d ord room fit, of tid] by blast
  let ?W1 = "w\<lparr>w_objs := (w_objs w)[?a := \<lparr>po_dirty = po_dirty (w_objs w ! ?a), po_page = LeafPg q\<rparr>]\<rparr>"
  have u: "tree_ready ?W1 (tree_update T j q)" "mset (tree_tuples (tree_update T j q)) = add_mset (strip t) (mset (tree_tuples T))"
      "half_full T \<Longrightarrow> half_full (tree_update T j q)"
    using tree_ready_update [OF R j q lo hi, of ?W1 "po_dirty (w_objs w ! ?a)"] by (simp_all add: same_setting_def)
  have "tree_ready W (tree_update T j q)"
  proof (rule tree_ready_frame [OF u(1)])
    show "pages_of W i = pages_of ?W1 i" if "i < length (w_objs ?W1)" for i
      using that W(5) by (auto simp: pages_of_def nth_list_update)
  qed (use W in \<open>simp_all add: same_setting_def\<close>)
  then have "tree_grown w T t W (tree_update T j q)"
    using u(2,3) W by (simp add: tree_grown_def) (simp add: tree_update_def)
  with r(1-3) W(2) show ?thesis by blast
qed

section \<open>Insertion\<close>

lemma btree_insert_to:
  assumes T: "tree_in_pool w T"
    and key: "getField t (bf_keyField (tr_btree T)) = Inr (IntField kv)"
    and j: "j < length (tr_leaves T)"
      "bt_findLeafPage (Suc (Suc n)) (Some (bp_pid (tr_root T))) False (Some (IntField kv))
         (w\<lparr>w_dirtypages := []\<rparr>) = Inr (tr_addrs T ! j, w\<lparr>w_dirtypages := []\<rparr>)"
  shows "BTreeFile_insertTuple (Suc (Suc n)) (tr_file T) tid t w =
    bindM (if leaf_getNumEmptySlots (tr_leaves T ! j) = 0
           then splitLeafPage (Suc (Suc n)) (tr_file T) (tr_addrs T ! j) (IntField kv) else returnM (tr_addrs T ! j))
      (\<lambda>leaf. leaf_takes leaf t) (with_pages w (pages_of w) [(bp_pid (tr_leaves T ! j), tr_addrs T ! j)])"
proof -
  note t = T [unfolded tree_in_pool_def]
  have l: "leaf_resident w (tr_addrs T ! j) (tr_leaves T ! j)" using t j(1) by (auto simp: list_all2_conv_all_nth)
  let ?w = "w\<lparr>w_dirtypages := []\<rparr>"
  have find: "bindM (bt_findLeafPage (Suc (Suc n)) (Some (bp_pid (tr_root T))) False (Some (IntField kv))) k ?w =
      k (tr_addrs T ! j) ?w" for k :: "nat \<Rightarrow> (tuple \<times> nat list) M"
    using j(2) by (simp add: bindM_def)
  have root: "bindM (getRootPtrPage (tr_file T)) k ?w = k (tr_ptr T) ?w" for k :: "nat \<Rightarrow> (tuple \<times> nat list) M"
    using t by (simp add: getRootPtrPage_def bindM_assoc bt_getPage_resident run_root_at run_btree)
  show ?thesis
    using t l key
    by (simp add: BTreeFile_insertTuple_def root find run_root_at run_btree id_at_def bindM_assoc bt_getPage_resident
        leaf_resident_def run_leaf_at with_pages_self leaf_takes_def del: bt_findLeafPage.simps)
qed

text \<open>After the split the tuple goes to the half on its side of the new key.\<close>

lemma split_keys_around:
  assumes T: "tree_in_pool w T" "tree_in_pool W T'" and S: "has_split T T' j sv" and j: "j < length (tr_leaves T)"
    and lo: "key_le (fst (int_pairs (tr_root T) ! j)) v"
    and hi: "Suc j < length (tr_leaves T) \<longrightarrow> key_ge (fst (int_pairs (tr_root T) ! Suc j)) v"
  defines "i \<equiv> if v < sint sv then j else Suc j"
  shows "i < length (tr_leaves T')" "0 < leaf_getNumEmptySlots (tr_leaves T' ! i)"
    "key_le (fst (int_pairs (tr_root T') ! i)) v"
    "Suc i < length (tr_leaves T') \<longrightarrow> key_ge (fst (int_pairs (tr_root T') ! Suc i)) v"
proof -
  obtain no where p: "int_pairs (tr_root T') = ins_at (Suc j) (Some (IntField sv), no) (int_pairs (tr_root T))"
    and n: "length (tr_leaves T') = Suc (length (tr_leaves T))"
    using S by (auto simp: has_split_def)
  note len = tree_lengths(1) [OF T(1)]
  show "i < length (tr_leaves T')" "0 < leaf_getNumEmptySlots (tr_leaves T' ! i)"
    using S j by (auto simp: has_split_def i_def)
  show "key_le (fst (int_pairs (tr_root T') ! i)) v" "Suc i < length (tr_leaves T') \<longrightarrow> key_ge (fst (int_pairs (tr_root T') ! Suc i)) v"
    using lo hi j len by (auto simp: i_def p n ins_at_nth ins_at_nth_Suc key_le_iff key_ge_def sep_keys_def)
qed

lemma tree_insert_run:
  assumes R: "tree_ready w T" and ord: "\<And>m. mset (w_order w m) = mset m" and fit: "fits (bf_td (tr_btree T)) t"
    and room: "length (tr_leaves T) < np_numSlots (tr_root T)" "\<not> pool_full w"
  shows "\<exists>t' W T' k. bp_insertTuple (Suc (Suc n)) tid (bf_tableid (tr_btree T)) t w = Inr (t', W) \<and> strip t' = strip t \<and>
    tree_grown w T t W T' \<and> k \<le> 1 \<and> length (tr_leaves T') = length (tr_leaves T) + k \<and>
    length (w_pool W) = length (w_pool w) + k"
proof -
  have T: "tree_in_pool w T" and f: "file_open w (tr_file T) (tr_btree T)" using R by (auto simp: tree_ready_def)
  obtain kv j where kv: "getField t (bf_keyField (tr_btree T)) = Inr (IntField kv)"
      "key_of (bf_keyField (tr_btree T)) t = sint kv" and j: "j < length (tr_leaves T)"
      "bt_findLeafPage (Suc (Suc n)) (Some (bp_pid (tr_root T))) False (Some (IntField kv)) (w\<lparr>w_dirtypages := []\<rparr>)
        = Inr (tr_addrs T ! j, w\<lparr>w_dirtypages := []\<rparr>)"
      "key_le (fst (int_pairs (tr_root T) ! j)) (sint kv)"
      "Suc j < length (tr_leaves T) \<longrightarrow> key_ge (fst (int_pairs (tr_root T) ! Suc j)) (sint kv)"
    using btree_target [OF T fit, of n] .
  let ?l = "tr_leaves T ! j" and ?a = "tr_addrs T ! j" and ?i = "tr_file T"
  let ?w1 = "with_pages w (pages_of w) [(bp_pid ?l, ?a)]"
  note at = tree_pages_at(1) [OF T j(1)]
  note to = btree_insert_to [OF T kv(1) j(1,2), of tid]
  have pool: "bp_insertTuple (Suc (Suc n)) tid (bf_tableid (tr_btree T)) t w = Inr (t', W)"
    if "BTreeFile_insertTuple (Suc (Suc n)) ?i tid t w = Inr ((t', ds), W1)" "pool_add_dirty tid ds W1 = Inr ((), W)" for t' ds W1 W
    using that f by (simp add: bp_insertTuple_def file_insertTuple_def bindM_def db_getDatabaseFile_def file_open_def
        del: pool_add_dirty.simps)
  show ?thesis
  proof (cases "leaf_getNumEmptySlots ?l = 0")
    case False
    have "tree_ready ?w1 T" by (rule tree_ready_frame [OF R]) (simp_all add: same_setting_def)
    moreover have "dirty_ok ?w1" using at by (simp add: dirty_ok_def with_pages_self pages_of_def)
    ultimately obtain t' ds W1 W q where "leaf_takes ?a t ?w1 = Inr ((t', ds), W1)" "strip t' = strip t"
        "pool_add_dirty tid ds W1 = Inr ((), W)" "w_pool W = w_pool w" "tree_grown ?w1 T t W (tree_update T j q)"
      using leaf_takes_run [of ?w1 T j t tid] ord j kv(2) False fit by auto
    moreover have "tree_grown w T t W T' = tree_grown ?w1 T t W T'" for W T' by (simp add: tree_grown_def same_setting_def)
    ultimately show ?thesis
      using to False pool [of t' ds W1 W]
      by (intro exI [of _ t'] exI [of _ W] exI [of _ "tree_update T j q"] exI [of _ 0]) (simp add: tree_update_def)
  next
    case True
    obtain W0 T0 sv where s: "splitLeafPage (Suc (Suc n)) ?i ?a (IntField kv) ?w1 =
          Inr (tr_addrs T0 ! (if sint kv < sint sv then j else Suc j), W0)"
        "tree_ready W0 T0" "has_split T T0 j sv" "dirty_ok W0" "same_setting w W0" "length (w_pool W0) = Suc (length (w_pool w))"
      using tree_split_run [OF R j(1) True room, of "Suc n" kv] by blast
    have T0: "tree_in_pool W0 T0" using s(2) by (simp add: tree_ready_def)
    let ?j = "if sint kv < sint sv then j else Suc j"
    note ar = split_keys_around [OF T T0 s(3) j(1,3,4)]
    have b: "tr_file T0 = tr_file T" "bf_td (tr_btree T0) = bf_td (tr_btree T)" "bf_keyField (tr_btree T0) = bf_keyField (tr_btree T)"
      using s(3) by (auto simp: has_split_def)
    have "mset (w_order W0 m) = mset m" for m using ord s(5) by (simp add: same_setting_def)
    from leaf_takes_run [OF s(2,4) this ar(1,2) _ _, of t tid] ar(3,4) b fit kv(2)
    obtain t' ds W1 W q where u: "leaf_takes (tr_addrs T0 ! ?j) t W0 = Inr ((t', ds), W1)" "strip t' = strip t"
        "pool_add_dirty tid ds W1 = Inr ((), W)" "w_pool W = w_pool W0" "tree_grown W0 T0 t W (tree_update T0 ?j q)" by auto
    have g: "tree_grown w T t W (tree_update T0 ?j q)"
      using u(5) s(3,5) by (auto simp: tree_grown_def has_split_def intro: same_setting_trans)
    show ?thesis
      using to True pool [of t' ds W1 W] s(1,3,6) u(1-4) g
      by (intro exI [of _ t'] exI [of _ W] exI [of _ "tree_update T0 ?j q"] exI [of _ 1])
        (simp add: tree_update_def has_split_def bindM_apply del: splitLeafPage_def)
  qed
qed

section \<open>A B+ tree is a table\<close>

text \<open>
  The tree holds \<open>M\<close> and has room for \<open>b\<close> more tuples: the root has \<open>S\<close> slots for leaves, a leaf
  that is half full at least \<open>leaf_getMaxTuples div 2\<close> tuples, and the pool room for the leaves
  that are still to come.
\<close>

definition btree_rep :: "nat \<Rightarrow> int \<Rightarrow> tuple_desc \<Rightarrow> int \<Rightarrow> world \<Rightarrow> nat \<Rightarrow> tuple multiset \<Rightarrow> bool" where
  "btree_rep f tab td key w b M \<longleftrightarrow>
     (\<forall>m. mset (w_order w m) = mset m) \<and>
     (\<exists>T. tree_ready w T \<and> half_full T \<and> tr_file T = f \<and> bf_tableid (tr_btree T) = tab \<and> bf_td (tr_btree T) = td \<and>
       bf_keyField (tr_btree T) = key \<and> M = mset (tree_tuples T) \<and>
       size M + b \<le> np_numSlots (tr_root T) * (leaf_getMaxTuples (w_pageSize w) td div 2) \<and>
       length (w_pool w) + (np_numSlots (tr_root T) - length (tr_leaves T)) \<le> usize (w_numPages w))"

lemma concat_at_least: "(\<And>x. x \<in> set xs \<Longrightarrow> n \<le> length (f x)) \<Longrightarrow> length xs * n \<le> length (concat (map f xs))"
  by (induction xs) fastforce+

lemma half_full_size:
  assumes "tree_ready w T" "half_full T"
  shows "length (tr_leaves T) * (leaf_getMaxTuples (w_pageSize w) (bf_td (tr_btree T)) div 2) \<le> length (tree_tuples T)"
proof -
  have "leaf_getMaxTuples (w_pageSize w) (bf_td (tr_btree T)) div 2 \<le> length (leaf_tuples l)" if "l \<in> set (tr_leaves T)" for l
    using assms that by (auto simp: half_full_def tree_ready_def leaf_of_def)
  then show ?thesis unfolding tree_tuples_def by (intro concat_at_least)
qed

lemma btree_rep_insert:
  assumes "btree_rep f tab td key w (Suc b) M" "fits td t"
  shows "\<exists>t' w'. bp_insertTuple (Suc (Suc n)) tid tab t w = Inr (t', w') \<and> strip t' = strip t \<and>
    btree_rep f tab td key w' b (add_mset (strip t) M)"
proof -
  let ?h = "leaf_getMaxTuples (w_pageSize w) td div 2"
  obtain T where ord: "\<And>m. mset (w_order w m) = mset m" and T: "tree_ready w T" "half_full T" "tr_file T = f"
      "bf_tableid (tr_btree T) = tab" "bf_td (tr_btree T) = td" "bf_keyField (tr_btree T) = key" "M = mset (tree_tuples T)"
      "size M + Suc b \<le> np_numSlots (tr_root T) * ?h"
      "length (w_pool w) + (np_numSlots (tr_root T) - length (tr_leaves T)) \<le> usize (w_numPages w)"
    using assms(1) by (auto simp: btree_rep_def)
  have "length (tr_leaves T) * ?h < np_numSlots (tr_root T) * ?h"
    using half_full_size [OF T(1,2)] T(5,8) by (simp only: T(7) size_mset)
  then have room: "length (tr_leaves T) < np_numSlots (tr_root T)" by simp
  then have "\<not> pool_full w" using T(9) by (simp add: pool_full_def)
  from tree_insert_run [OF T(1) ord _ room this, of t n tid] assms(2) T(4,5) obtain t' W T' k where
    r: "bp_insertTuple (Suc (Suc n)) tid tab t w = Inr (t', W)" "strip t' = strip t" "tree_grown w T t W T'" "k \<le> 1"
      "length (tr_leaves T') = length (tr_leaves T) + k" "length (w_pool W) = length (w_pool w) + k" by auto
  have "btree_rep f tab td key W b (add_mset (strip t) M)"
    using r(3-6) T room ord by (auto simp: btree_rep_def tree_grown_def same_setting_def intro!: exI [of _ T'])
  with r(1,2) show ?thesis by blast
qed

lemma btree_rep_scan:
  assumes "btree_rep f tab td key w b M" "size M < k"
  shows "\<exists>us. btree_scan (Suc (Suc n)) k None f w = Inr (us, w) \<and> mset (map strip us) = M \<and> sorted (map (key_of key) us)"
proof -
  obtain T where T: "tree_ready w T" "tr_file T = f" "bf_keyField (tr_btree T) = key" "M = mset (tree_tuples T)"
    using assms(1) by (auto simp: btree_rep_def)
  then have t: "tree_in_pool w T" "sorted (tree_keys T)" "\<And>l. l \<in> set (tr_leaves T) \<Longrightarrow> leaf_tuples l \<noteq> []"
    by (auto simp: tree_ready_def)
  obtain us where us: "btree_scan (Suc (Suc n)) k None f w = Inr (us, w)" "map strip us = tree_tuples T"
    using btree_scan_run [OF t(1,3), of k n] assms(2) T(2,4) by auto
  have "map (key_of key) us = map (key_of key) (map strip us)" by (simp add: comp_def)
  with us tree_tuples_sorted [OF t(1,2)] T(3,4) show ?thesis by (simp del: mset_map map_map)
qed

interpretation btree_table: bag_table "bp_insertTuple (Suc (Suc n)) tid tab" "btree_rep f tab td key" "fits td"
    "\<lambda>k. btree_scan (Suc (Suc n)) k None f" "\<lambda>us. sorted (map (key_of key) us)"
  for n tid tab f td key
  by unfold_locales (blast intro: btree_rep_insert btree_rep_scan)+

section \<open>Properties\<close>

text \<open>
  The examples: as \<open>tree_world\<close>, on pages of 29 bytes, which give a leaf four slots and the root
  three. The leaves use the slots of the bits of \<open>h\<close> and \<open>h'\<close>, two or all four.
\<close>

definition grow_leaf :: "int \<Rightarrow> byte \<Rightarrow> i32 list \<Rightarrow> int \<Rightarrow> int \<Rightarrow> leaf_page" where
  "grow_leaf n h vs left right =
     \<lparr>bp_pid = BTreePageId 7 n LEAF, bp_td = leaf_example_td, bp_keyField = 0, bp_parent = 3, lp_header = [h],
      lp_tuples = map (\<lambda>i. leaf_example_tuple (vs ! i) (Some \<lparr>rid_pid = BTreePageId 7 n LEAF, rid_tupleno = int i\<rparr>)) [0..<4],
      lp_numSlots = 4, lp_leftSibling = left, lp_rightSibling = right\<rparr>"

definition grow_root :: internal_page where
  "grow_root = (int_example 3)\<lparr>np_keys := [None, Some (IntField 10), None], np_children := [4, 5, 0], np_numSlots := 3\<rparr>"

definition grow_tree :: "byte \<Rightarrow> byte \<Rightarrow> btree_pages" where
  "grow_tree h h' = tree_example\<lparr>tr_btree := (tr_btree tree_example)\<lparr>bf_disk := replicate 154 0\<rparr>, tr_root := grow_root,
     tr_leaves := [grow_leaf 4 h [1, 3, 5, 7] 0 5, grow_leaf 5 h' [12, 14, 16, 18] 4 0]\<rparr>"

definition grow_world :: "byte \<Rightarrow> byte \<Rightarrow> world" where
  "grow_world h h' = tree_world\<lparr>w_pageSize := 29,
     w_objs := [\<lparr>po_dirty = None, po_page = RootPg (tr_rootptr tree_example)\<rparr>, \<lparr>po_dirty = None, po_page = IntPg grow_root\<rparr>,
       \<lparr>po_dirty = None, po_page = LeafPg (grow_leaf 4 h [1, 3, 5, 7] 0 5)\<rparr>,
       \<lparr>po_dirty = None, po_page = LeafPg (grow_leaf 5 h' [12, 14, 16, 18] 4 0)\<rparr>],
     w_files := [BTreeF (tr_btree (grow_tree h h'))]\<rparr>"

lemma grow_leaf_simps [simp]:
  "bp_pid (grow_leaf n h vs l r) = BTreePageId 7 n LEAF" "bp_td (grow_leaf n h vs l r) = leaf_example_td"
  "bp_keyField (grow_leaf n h vs l r) = 0" "lp_numSlots (grow_leaf n h vs l r) = 4" "bp_parent (grow_leaf n h vs l r) = 3"
  "getRightSiblingId (grow_leaf n h vs l r) = (if r = 0 then None else Some (BTreePageId 7 r LEAF))"
  "getParentId (grow_leaf n h vs l r) = BTreePageId 7 3 INTERNAL"
  by (simp_all add: grow_leaf_def getRightSiblingId_def getParentId_def)

lemma grow_leaf_ok: "leaf_ok (grow_leaf n h vs l r)"
proof -
  have "lp_tuples (grow_leaf n h vs l r) ! i =
      leaf_example_tuple (vs ! i) (Some \<lparr>rid_pid = BTreePageId 7 n LEAF, rid_tupleno = int i\<rparr>)" if "i < 4" for i
    using that by (simp add: grow_leaf_def del: upt_conv_Cons_Cons)
  moreover have "length (lp_tuples (grow_leaf n h vs l r)) = 4" "lp_header (grow_leaf n h vs l r) = [h]"
    by (simp_all add: grow_leaf_def)
  moreover have "tp_rid (leaf_example_tuple v r) = r" for v r by (simp add: leaf_example_tuple_def)
  moreover have "numFields leaf_example_td = 1" by code_simp
  ultimately show ?thesis using leaf_example_fits by (simp add: leaf_ok_def)
qed

lemma grow_leaf_tuples:
  "leaf_tuples (grow_leaf 4 15 [1, 3, 5, 7] 0 5) = map (\<lambda>v. strip (leaf_example_tuple v None)) [1, 3, 5, 7]"
  "leaf_tuples (grow_leaf 4 3 [1, 3, 5, 7] 0 5) = map (\<lambda>v. strip (leaf_example_tuple v None)) [1, 3]"
  "leaf_tuples (grow_leaf 5 3 [12, 14, 16, 18] 4 0) = map (\<lambda>v. strip (leaf_example_tuple v None)) [12, 14]"
  "leaf_tuples (grow_leaf 5 15 [12, 14, 16, 18] 4 0) = map (\<lambda>v. strip (leaf_example_tuple v None)) [12, 14, 16, 18]"
  by code_simp+

lemma grow_root_facts: "int_pairs grow_root = [(None, 4), (Some (IntField 10), 5)]" "int_isSlotUsed grow_root 0"
    "int_isSlotUsed grow_root 1"
  by code_simp+

lemma grow_root_simps [simp]:
  "bp_pid grow_root = BTreePageId 7 3 INTERNAL" "bp_td grow_root = leaf_example_td" "bp_keyField grow_root = 0"
  "np_numSlots grow_root = 3" "np_childCategory grow_root = LEAF"
  by (simp_all add: grow_root_def)

lemma grow_root_ok: "int_ok grow_root"
proof -
  have "getFieldType leaf_example_td 0 = Inr INT_TYPE" "\<not> int_isSlotUsed grow_root 2" by code_simp+
  moreover have "i = 1" if "1 \<le> i" "i < 3" "int_isSlotUsed grow_root i" for i
    using that calculation(2) by (cases "i = 2") auto
  ultimately show ?thesis by (auto simp: int_ok_def) (auto simp: grow_root_def int_example_def)
qed

lemma grow_sizes: "leaf_getMaxTuples 29 leaf_example_td = 4" "int_getMaxEntries 29 leaf_example_td 0 = Inr 2"
    "getSize leaf_example_td = 4" "numFields leaf_example_td = 1"
  by code_simp+

lemma grow_tree_simps:
  "tr_file (grow_tree h h') = 0" "tr_btree (grow_tree h h') = (tr_btree tree_example)\<lparr>bf_disk := replicate 154 0\<rparr>"
  "tr_root (grow_tree h h') = grow_root" "tr_ptr (grow_tree h h') = 0" "tr_raddr (grow_tree h h') = 1"
  "tr_leaves (grow_tree h h') = [grow_leaf 4 h [1, 3, 5, 7] 0 5, grow_leaf 5 h' [12, 14, 16, 18] 4 0]"
  "tr_addrs (grow_tree h h') = [2, 3]" "tr_rootptr (grow_tree h h') = tr_rootptr tree_example"
  by (simp_all add: grow_tree_def tree_example_def)

lemma tree_example_simps:
  "tr_btree tree_example = \<lparr>bf_tableid = 7, bf_td = leaf_example_td, bf_keyField = 0, bf_disk = [0]\<rparr>"
  "tr_rootptr tree_example = \<lparr>rt_pid = BTreePageId 7 0 ROOT_PTR, rt_root = 3, rt_header = 0, rt_category = INTERNAL\<rparr>"
  by (simp_all add: tree_example_def)

lemma grow_ready:
  assumes "h = 3 \<or> h = 15" "h' = 3 \<or> h' = 15"
  shows "tree_ready (grow_world h h') (grow_tree h h')" "half_full (grow_tree h h')"
proof -
  note leaf = grow_leaf_ok [of 4 h "[1, 3, 5, 7]" 0 5] grow_leaf_ok [of 5 h' "[12, 14, 16, 18]" 4 0]
  note files = grow_tree_simps [of h h'] tree_example_simps
  have in_pool: "tree_in_pool (grow_world h h') (grow_tree h h')"
    using grow_root_facts grow_root_ok leaf
    by (simp add: tree_in_pool_def files grow_world_def tree_world_def rootptr_getId_def getRootId_def int_child_def leaf_resident_def)
  have key: "key_of 0 (leaf_example_tuple v None) = sint v" for v
    by (simp add: key_of_def getField_def leaf_example_tuple_def)
  have srt: "sorted (tree_keys (grow_tree h h'))"
    using assms by (auto simp: tree_keys_def files grow_root_facts sep_keys_def leaf_keys_def grow_leaf_tuples key)
  have "file_open (grow_world h h') 0 (tr_btree (grow_tree h h'))"
    by (simp add: file_open_def disk_fresh_def files grow_world_def tree_world_def ROOT_PAGE_SIZE_def disk_pages_def)
  moreover have "leaves_fit (grow_world h h') (tr_btree (grow_tree h h'))"
    by (simp add: leaves_fit_def files grow_sizes grow_world_def)
  moreover have "root_open (grow_world h h') (pages_of (grow_world h h')) (tr_btree (grow_tree h h')) 0 (tr_rootptr (grow_tree h h'))"
    by (simp add: root_open_def files grow_world_def tree_world_def rootptr_getId_def getHeaderId_def pages_of_def)
  moreover have "w_pageSize (grow_world h h') = 29" by (simp add: grow_world_def)
  moreover from this have "\<forall>l \<in> set (tr_leaves (grow_tree h h')). leaf_of (grow_world h h') (tr_btree (grow_tree h h')) l \<and>
      getParentId l = bp_pid grow_root \<and> leaf_tuples l \<noteq> []"
    using leaf assms by (auto simp: files leaf_of_def grow_sizes grow_leaf_tuples)
  ultimately show "tree_ready (grow_world h h') (grow_tree h h')"
    using in_pool srt unfolding tree_ready_def by (simp add: files(1-5,9) grow_sizes)
  show "half_full (grow_tree h h')" using assms by (auto simp: half_full_def files grow_leaf_tuples)
qed

text \<open>C3
  Inserting through the pool into a B+ tree of two levels whose root has a free slot, whatever the
  leaves hold: it succeeds, with a split of the leaf when that is full, and the tree afterwards is
  ready for the next insertion (in the pool, linked, keys and root keys sorted, every leaf with
  its parent) and holds exactly the new tuple more, in at most one leaf and one page of the pool
  more. Leaves that are at least half full stay so.
\<close>

theorem btree_insert_ready:
  assumes "tree_ready w T" "\<And>m. mset (w_order w m) = mset m" "fits (bf_td (tr_btree T)) t"
    "length (tr_leaves T) < np_numSlots (tr_root T)" "\<not> pool_full w"
  shows "\<exists>t' w' T' k. bp_insertTuple (Suc (Suc n)) tid (bf_tableid (tr_btree T)) t w = Inr (t', w') \<and> strip t' = strip t \<and>
    tree_ready w' T' \<and> mset (tree_tuples T') = add_mset (strip t) (mset (tree_tuples T)) \<and>
    (half_full T \<longrightarrow> half_full T') \<and> k \<le> 1 \<and> length (tr_leaves T') = length (tr_leaves T) + k \<and>
    length (w_pool w') = length (w_pool w) + k"
  using tree_insert_run [OF assms, of n tid] unfolding tree_grown_def by blast

theorem btree_insert_ready_witness:
  "\<exists>t' w' T'. leaf_getNumEmptySlots (tr_leaves (grow_tree 15 3) ! 0) = 0 \<and>
     bp_insertTuple 2 9 7 (leaf_example_tuple 4 None) (grow_world 15 3) = Inr (t', w') \<and> tree_ready w' T' \<and>
     mset (tree_tuples T') = image_mset (\<lambda>v. strip (leaf_example_tuple v None)) {#4, 1, 3, 5, 7, 12, 14#}"
proof -
  note l = grow_tree_simps [of 15 3] tree_example_simps
  have "leaf_getNumEmptySlots (tr_leaves (grow_tree 15 3) ! 0) = 0"
    using leaf_occupancy [of "grow_leaf 4 15 [1, 3, 5, 7] 0 5"] by (simp add: l grow_leaf_tuples)
  moreover have "mset (tree_tuples (grow_tree 15 3)) = image_mset (\<lambda>v. strip (leaf_example_tuple v None)) {#1, 3, 5, 7, 12, 14#}"
    by (simp add: tree_tuples_def l grow_leaf_tuples)
  moreover have "\<not> pool_full (grow_world 15 3)" "\<And>m. mset (w_order (grow_world 15 3) m) = mset m"
    by (simp_all add: grow_world_def pool_full_def tree_world_def)
  ultimately show ?thesis
    using btree_insert_ready [OF grow_ready(1) [of 15 3], of "leaf_example_tuple 4 None" 0 9]
    by (auto simp: l leaf_example_fits numeral_2_eq_2)
qed

text \<open>The tree with half-full leaves is a table with room for two more tuples.\<close>

lemma grow_rep: "btree_rep 0 7 leaf_example_td 0 (grow_world 3 3) 2 (image_mset (\<lambda>v. strip (leaf_example_tuple v None)) {#1, 3, 12, 14#})"
proof -
  note l = grow_tree_simps [of 3 3] tree_example_simps
  have "mset (tree_tuples (grow_tree 3 3)) = image_mset (\<lambda>v. strip (leaf_example_tuple v None)) {#1, 3, 12, 14#}"
    by (simp add: tree_tuples_def l grow_leaf_tuples)
  then show ?thesis
    using grow_ready [of 3 3] unfolding btree_rep_def
    by (intro conjI allI exI [of _ "grow_tree 3 3"]) (simp_all add: l grow_sizes grow_world_def tree_world_def usize_def)
qed

end
