(* ===== verification/BTreeRootSpec.thy ===== *)
theory BTreeRootSpec
  imports BTreeGrow
begin

text \<open>
  A B+ tree from its creation on: the empty file, the root that is a single leaf, and the split of
  that leaf, which puts a new root on top (\<open>getParentWithEmptySlots\<close> on the root pointer). Every
  sequence of insertions into the empty file succeeds up to the capacity of the root page.
\<close>

text \<open>As in \<open>BTreeRun\<close>, pages are stored by \<open>with_pages_put\<close>.\<close>

declare run_object(4,8) [simp del]

section \<open>The new root page\<close>

text \<open>What the constructor makes of a page of zeros.\<close>

definition empty_internal :: "tuple_desc \<Rightarrow> page_id \<Rightarrow> int \<Rightarrow> nat \<Rightarrow> internal_page" where
  "empty_internal td pid key mx =
     \<lparr>bp_pid = pid, bp_td = td, bp_keyField = key, bp_parent = 0, np_header = replicate (int_getHeaderSize mx) 0,
      np_keys = None # replicate mx (Some (IntField 0)), np_children = replicate (Suc mx) 0, np_numSlots = Suc mx,
      np_childCategory = LEAF\<rparr>"

lemma empty_internal_simps [simp]:
  "bp_pid (empty_internal td pid key mx) = pid" "bp_td (empty_internal td pid key mx) = td"
  "bp_keyField (empty_internal td pid key mx) = key" "np_numSlots (empty_internal td pid key mx) = Suc mx"
  "np_childCategory (empty_internal td pid key mx) = LEAF" "bp_parent (empty_internal td pid key mx) = 0"
  by (simp_all add: empty_internal_def)

lemma header_covers: "Suc mx \<le> 8 * int_getHeaderSize mx" "int_getHeaderSize mx \<le> Suc (Suc mx div 8)"
  by (auto simp: int_getHeaderSize_def Let_def)

lemma empty_internal_unused: "i < Suc mx \<Longrightarrow> \<not> int_isSlotUsed (empty_internal td pid key mx) i"
  using header_covers(1) [of mx] by (simp add: int_isSlotUsed_def empty_internal_def mod_used_zeros)

lemma empty_internal_spec:
  assumes "getFieldType td key = Inr INT_TYPE" "1 \<le> mx"
  shows "int_ok (empty_internal td pid key mx)" "int_getNumEmptySlots (empty_internal td pid key mx) = mx"
proof -
  show "int_ok (empty_internal td pid key mx)"
    using assms header_covers(1) [of mx] empty_internal_unused [of _ mx td pid key]
    by (auto simp: int_ok_def) (auto simp: empty_internal_def)
  show "int_getNumEmptySlots (empty_internal td pid key mx) = mx"
    using empty_internal_unused [of _ mx td pid key] by (simp add: int_getNumEmptySlots_def)
qed

lemma int_read_keys_zeros:
  "offset + 4 * n \<le> ps \<Longrightarrow>
   int_read_keys junk INT_TYPE (replicate ps 0) offset n = Inr (replicate n (Some (IntField 0)))"
  by (induction n arbitrary: offset) (simp_all add: int_parse_def buf_read_def)

lemma BTreeInternalPage_new_zeros:
  assumes ps: "12 \<le> ps" "ps < 2 ^ 60" and key: "getFieldType td key = Inr INT_TYPE" "int_getMaxEntries ps td key = Inr mx"
  shows "BTreeInternalPage_new junk ps td pid (replicate ps 0) key = Inr (empty_internal td pid key mx)"
proof -
  have "(int ps - 2 * 4 - 4) * 8 + 1 = int (8 * (ps - 12) + 1)" using ps by simp
  then have "mx = (8 * (ps - 12) + 1) div 65"
    using key ps by (simp add: int_getMaxEntries_def usize_def del: of_nat_add of_nat_mult)
  then have "65 * mx \<le> 8 * (ps - 12) + 1" by simp
  moreover have "8 * (Suc mx div 8) \<le> Suc mx" by simp
  ultimately have fit: "8 + int_getHeaderSize mx + 4 * mx \<le> ps" using header_covers(2) [of mx] ps by linarith
  moreover have "buf_read o' k (replicate ps 0) = Inr (replicate k 0)" if "o' + k \<le> ps" for o' k
    using that by (simp add: buf_read_def)
  ultimately show ?thesis
    using key by (simp add: BTreeInternalPage_new_def int_read_keys_zeros empty_internal_def Let_def)
qed

lemma read_new_internal:
  fixes w v :: world
  assumes "file_open w i b" "w_pageSize w < 2 ^ 60" "getFieldType (bf_td b) (bf_keyField b) = Inr INT_TYPE"
    "int_getMaxEntries (w_pageSize w) (bf_td b) (bf_keyField b) = Inr mx" "i < length (w_files v)"
    "w_files v ! i = BTreeF (b\<lparr>bf_disk := disk_grow (w_append w) (w_pageSize w) (bf_disk b)\<rparr>)"
    "w_catalog v = w_catalog w" "w_pageSize v = w_pageSize w"
  defines "pid \<equiv> BTreePageId (bf_tableid b) (new_page_no w b) INTERNAL"
  shows "file_readPage i pid v = Inr (IntPg (empty_internal (bf_td b) pid (bf_keyField b) mx), v)"
proof -
  note o' = assms(1) [unfolded file_open_def]
  have "db_getTupleDesc (bf_tableid b) v = Inr (bf_td b, v)"
    using o' assms(6,7)
    by (auto simp: db_getTupleDesc_def catalog_getTupleDesc_def getDatabaseFile_def w_file_td_def split: option.splits)
  then have td: "bindM (db_getTupleDesc (bf_tableid b)) k v = k (bf_td b) v" for k :: "tuple_desc \<Rightarrow> page M"
    by (simp add: bindM_def)
  have "disk_pread (btree_offset (w_pageSize w) (new_page_no w b)) (w_pageSize w)
      (disk_grow (w_append w) (w_pageSize w) (bf_disk b)) = Inr (replicate (w_pageSize w) 0)"
    using fresh_page_bytes(2) [of w b] o' by (simp add: new_page_no_def)
  moreover have "12 \<le> w_pageSize w" using o' by simp
  note BTreeInternalPage_new_zeros [OF this assms(2,3,4), of "w_junk v" pid]
  ultimately show ?thesis
    using assms(5,6,8) by (simp add: file_readPage_def BTreeFile_readPage_def td pid_def)
qed

section \<open>A new root\<close>

lemma pm_find_later: "pm_find i m = None \<Longrightarrow> pm_find i (m @ m') = pm_find i m'"
  by (induction i m rule: pm_find.induct) (auto split: if_splits)

text \<open>
  \<open>getParentWithEmptySlots\<close> for the root leaf \<open>l\<close> at \<open>a\<close>: a new page becomes the root, and the
  parent of the leaf.
\<close>

lemma new_root_run:
  assumes f: "file_open w i b" "w_pageSize w < 2 ^ 60" "root_open w g b r rp" "\<not> pool_full w"
    and key: "getFieldType (bf_td b) (bf_keyField b) = Inr INT_TYPE"
      "int_getMaxEntries (w_pageSize w) (bf_td b) (bf_keyField b) = Inr mx" "1 \<le> mx"
    and l: "a < length (w_objs w)" "a \<noteq> r" "g a = LeafPg l" "getRootId rp = Some (bp_pid l)" "pm_find (bp_pid l) m = Some a"
      "getTableId (bp_pid l) = bf_tableid b"
    and m: "pm_find (rootptr_getId (bf_tableid b)) m = None"
      "pm_find (BTreePageId (bf_tableid b) (new_page_no w b) INTERNAL) m = None"
  defines "no \<equiv> new_page_no w b" and "c \<equiv> length (w_objs w)"
    and "e \<equiv> empty_internal (bf_td b) (BTreePageId (bf_tableid b) (new_page_no w b) INTERNAL) (bf_keyField b) mx"
  shows "getParentWithEmptySlots (Suc n) i (BTreePageId (bf_tableid b) 0 ROOT_PTR) fld (with_pages w g m) =
    Inr (c, with_pages (add_page w i b (IntPg e))
      (g(c := IntPg e, r := RootPg (rp\<lparr>rt_root := no, rt_category := INTERNAL\<rparr>), a := LeafPg (l\<lparr>bp_parent := no\<rparr>)))
      (m @ [(bp_pid e, c), (rootptr_getId (bf_tableid b), r)]))"
proof -
  let ?rt = "rootptr_getId (bf_tableid b)" and ?w1 = "add_page w i b (IntPg e)" and ?g1 = "g(c := IntPg e)"
  let ?m1 = "m @ [(bp_pid e, c)]"
  have ro: "r < length (w_objs w)" "g r = RootPg rp" "getHeaderId rp = None" "pm_find ?rt (w_pool w) = Some r" "rt_pid rp = ?rt"
    using f(3) by (auto simp: root_open_def)
  have eid: "page_getId (IntPg e) = BTreePageId (bf_tableid b) (new_page_no w b) INTERNAL" by (simp add: e_def)
  have ne: "r \<noteq> c" "a \<noteq> c" using ro(1) l(1) by (simp_all add: c_def)
  have me: "pm_find (bp_pid e) m = None" using m(2) by (simp add: e_def)
  have rd: "file_readPage i (page_getId (IntPg e)) v = Inr (IntPg e, v)"
    if "i < length (w_files v)" "w_files v ! i = BTreeF (b\<lparr>bf_disk := disk_grow (w_append w) (w_pageSize w) (bf_disk b)\<rparr>)"
      "w_catalog v = w_catalog w" "w_pageSize v = w_pageSize w" for v
    unfolding eid using read_new_internal [OF f(1,2) key(1,2) that] by (simp add: e_def)
  note gp = getEmptyPage_run [where p = "IntPg e" and ty = INTERNAL and n = n and g = g and m = m, OF f(1) ro(1-4) disjI1 [OF m(1)] m(2) f(4) eid rd]
  have "getEmptyPage n i INTERNAL (with_pages w g m) = Inr (c, with_pages ?w1 ?g1 ?m1)"
    unfolding c_def by (rule gp [unfolded page_getId.simps pm_put_new [OF me]])
  then have em: "bindM (getEmptyPage n i INTERNAL) k (with_pages w g m) = k c (with_pages ?w1 ?g1 ?m1)" for k :: "nat \<Rightarrow> nat M"
    by (rule bindM_apply(1))
  have len: "length (w_objs ?w1) = Suc c" by (simp add: c_def)
  have fi: "i < length (w_files ?w1)" "w_files ?w1 ! i = BTreeF (b\<lparr>bf_disk := disk_grow (w_append w) (w_pageSize w) (bf_disk b)\<rparr>)"
    using f(1) by (simp_all add: file_open_def)
  have rt: "pm_find ?rt ?m1 = None" using pm_find_later [OF m(1)] by (simp add: rootptr_getId_def e_def)
  let ?m2 = "?m1 @ [(?rt, r)]" and ?rp = "rp\<lparr>rt_root := no, rt_category := INTERNAL\<rparr>"
  have "pm_find ?rt (w_pool ?w1) = Some r" using ro(4) by (simp add: pages.find_put rootptr_getId_def e_def)
  with rt have "pm_find ?rt ?m1 = Some r \<or> pm_find ?rt ?m1 = None \<and> pm_find ?rt (w_pool ?w1) = Some r" by simp
  note hit = with_pages_getPage(2) [OF this, unfolded rt pm_put_new [OF rt] append_assoc append_Cons append_Nil]
  have "pm_find (bp_pid l) ?m2 = Some a" using pm_find_append [OF l(5)] by simp
  then have "pm_find (bp_pid l) ?m2 = Some a \<or> pm_find (bp_pid l) ?m2 = None \<and> pm_find (bp_pid l) (w_pool ?w1) = Some a" by simp
  note hit2 = with_pages_getPage(2) [OF this]
  have sr: "setRootId rp (Some (bp_pid e)) = Inr ?rp"
    using ro(5) by (simp add: setRootId_def e_def no_def rootptr_getId_def)
  have sp: "page_setParentId (LeafPg l) (Some (bp_pid e)) = Inr (LeafPg (l\<lparr>bp_parent := no\<rparr>))"
    using l(6) by (simp add: page_setParentId_def setParentId_def e_def no_def)
  have em': "int_getNumEmptySlots e \<noteq> 0" using empty_internal_spec(2) [OF key(1,3)] key(3) by (simp add: e_def)
  have rid: "BTreePageId (bf_tableid b) 0 ROOT_PTR = ?rt" "btree_type ?rt = ROOT_PTR" by (simp_all add: rootptr_getId_def)
  show ?thesis
    using ne l(1-4) ro(1,2) len fi em' sr sp \<open>pm_find (bp_pid l) ?m2 = Some a\<close>
    by (simp add: em rid hit hit2 [simplified] bindM_assoc id_at_def bt_getPage_ptr_def setParentId_at_def)
qed

section \<open>A root that is a leaf\<close>

text \<open>
  A tree that is the single leaf \<open>l\<close>, at \<open>a\<close>, ready for the next insertion; \<open>mx\<close> entries fit into
  an internal page.
\<close>

definition root_leaf :: "world \<Rightarrow> nat \<Rightarrow> btree_file \<Rightarrow> nat \<Rightarrow> root_ptr_page \<Rightarrow> nat \<Rightarrow> leaf_page \<Rightarrow> nat \<Rightarrow> bool" where
  "root_leaf w f b r rp a l mx \<longleftrightarrow>
     file_open w f b \<and> leaves_fit w b \<and> root_open w (pages_of w) b r rp \<and> getRootId rp = Some (bp_pid l) \<and>
     a < length (w_objs w) \<and> pages_of w a = LeafPg l \<and> pm_find (bp_pid l) (w_pool w) = Some a \<and>
     leaf_of w b l \<and> bp_parent l = 0 \<and> getRightSiblingId l = None \<and> leaf_sorted l \<and>
     getFieldType (bf_td b) (bf_keyField b) = Inr INT_TYPE \<and>
     int_getMaxEntries (w_pageSize w) (bf_td b) (bf_keyField b) = Inr mx \<and> 1 \<le> mx \<and>
     2 \<le> leaf_getMaxTuples (w_pageSize w) (bf_td b)"

definition two_leaves :: "nat \<Rightarrow> btree_file \<Rightarrow> nat \<Rightarrow> root_ptr_page \<Rightarrow> nat \<Rightarrow> internal_page \<Rightarrow> nat \<Rightarrow> nat \<Rightarrow> leaf_page \<Rightarrow> leaf_page \<Rightarrow> btree_pages"
where
  "two_leaves f b r rp d p a c l q =
     \<lparr>tr_file = f, tr_btree = b, tr_ptr = r, tr_rootptr = rp, tr_raddr = d, tr_root = p, tr_addrs = [a, c], tr_leaves = [l, q]\<rparr>"

lemma two_leaves_simps [simp]:
  "tr_file (two_leaves f b r rp d p a c l q) = f" "tr_btree (two_leaves f b r rp d p a c l q) = b"
  "tr_ptr (two_leaves f b r rp d p a c l q) = r" "tr_rootptr (two_leaves f b r rp d p a c l q) = rp"
  "tr_raddr (two_leaves f b r rp d p a c l q) = d" "tr_root (two_leaves f b r rp d p a c l q) = p"
  "tr_addrs (two_leaves f b r rp d p a c l q) = [a, c]" "tr_leaves (two_leaves f b r rp d p a c l q) = [l, q]"
  "tree_tuples (two_leaves f b r rp d p a c l q) = leaf_tuples l @ leaf_tuples q"
  by (simp_all add: two_leaves_def tree_tuples_def)

lemma two_leaves_ready:
  assumes W: "file_open W f b" "leaves_fit W b" "root_open W (pages_of W) b r rp" "getRootId rp = Some (bp_pid p)"
    and p: "d < length (w_objs W)" "pages_of W d = IntPg p" "pm_find (bp_pid p) (w_pool W) = Some d"
      "btree_type (bp_pid p) = INTERNAL" "pageNumber (bp_pid p) \<noteq> 0" "int_ok p" "int_isSlotUsed p 0" "int_isSlotUsed p 1"
      "np_childCategory p = LEAF" "int_pairs p = [(None, n0), (Some (IntField sv), n1)]"
      "int_getMaxEntries (w_pageSize W) (bp_td p) (bp_keyField p) = Inr (np_numSlots p - 1)"
    and a: "a < length (w_objs W)" "pages_of W a = LeafPg l" "pm_find (bp_pid l) (w_pool W) = Some a" "a \<noteq> c"
    and c: "c < length (w_objs W)" "pages_of W c = LeafPg q" "pm_find (bp_pid q) (w_pool W) = Some c"
    and l: "leaf_of W b l" "getParentId l = bp_pid p" "leaf_tuples l \<noteq> []" "bp_pid l = int_child p n0" "getRightSiblingId l = Some (bp_pid q)"
    and q: "leaf_of W b q" "getParentId q = bp_pid p" "leaf_tuples q \<noteq> []" "bp_pid q = int_child p n1" "getRightSiblingId q = None"
    and two: "2 \<le> leaf_getMaxTuples (w_pageSize W) (bf_td b)" and srt: "sorted (leaf_keys l @ sint sv # leaf_keys q)"
  shows "tree_ready W (two_leaves f b r rp d p a c l q)"
proof -
  have "bf_disk b \<noteq> []" using W(1) by (auto simp: file_open_def disk_fresh_def ROOT_PAGE_SIZE_def)
  then have "tree_in_pool W (two_leaves f b r rp d p a c l q)"
    using W p a c l q by (simp add: tree_in_pool_def file_open_def root_open_def pages_of_def leaf_resident_def leaf_of_def)
  moreover have "sorted (tree_keys (two_leaves f b r rp d p a c l q))"
    using srt by (simp add: tree_keys_def p(10) sep_keys_def)
  ultimately show ?thesis using W p l q two by (simp add: tree_ready_def)
qed

text \<open>The end of \<open>splitLeafPage\<close> when the leaf is the root.\<close>

lemma root_tail_run:
  assumes f: "file_open w i b" "w_pageSize w < 2 ^ 60" "root_open w g b r rp" "\<not> pool_full w"
    and key: "getFieldType (bf_td b) (bf_keyField b) = Inr INT_TYPE"
      "int_getMaxEntries (w_pageSize w) (bf_td b) (bf_keyField b) = Inr mx" "1 \<le> mx"
    and l: "a < length (w_objs w)" "a \<noteq> r" "g a = LeafPg l" "getRootId rp = Some (bp_pid l)" "bp_pid l = BTreePageId (bf_tableid b) n0 LEAF"
    and q: "c < length (w_objs w)" "c \<noteq> r" "c \<noteq> a" "g c = LeafPg q" "bp_pid q = BTreePageId (bf_tableid b) n1 LEAF" "bp_parent q = 0"
      "n1 \<noteq> n0"
  defines "no \<equiv> new_page_no w b" and "d \<equiv> length (w_objs w)"
    and "e \<equiv> empty_internal (bf_td b) (BTreePageId (bf_tableid b) (new_page_no w b) INTERNAL) (bf_keyField b) mx"
  shows "\<exists>p. int_ok p \<and> int_frame e p \<and> int_isSlotUsed p 0 \<and> int_isSlotUsed p 1 \<and>
    int_pairs p = [(None, n0), (Some (IntField sv), n1)] \<and>
    split_tail (Suc n) i a c (BTreePageId (bf_tableid b) 0 ROOT_PTR) (bp_pid l) (bp_pid q) (IntField kv) sv
      (with_pages w g [(bp_pid l, a), (bp_pid q, c)]) =
    Inr (if sint kv < sint sv then a else c, with_pages (add_page w i b (IntPg e))
      (g(r := RootPg (rp\<lparr>rt_root := no, rt_category := INTERNAL\<rparr>), a := LeafPg (l\<lparr>bp_parent := no\<rparr>), d := IntPg p,
         c := LeafPg (q\<lparr>bp_parent := no\<rparr>)))
      [(bp_pid l, a), (bp_pid q, c), (bp_pid e, d), (rootptr_getId (bf_tableid b), r)])"
proof -
  let ?rt = "rootptr_getId (bf_tableid b)" and ?w1 = "add_page w i b (IntPg e)" and ?m = "[(bp_pid l, a), (bp_pid q, c)]"
  let ?rp = "rp\<lparr>rt_root := no, rt_category := INTERNAL\<rparr>" and ?l = "l\<lparr>bp_parent := no\<rparr>"
  let ?m1 = "?m @ [(bp_pid e, d), (?rt, r)]" and ?g1 = "g(d := IntPg e, r := RootPg ?rp, a := LeafPg ?l)"
  have eid: "bp_pid e = BTreePageId (bf_tableid b) no INTERNAL" by (simp add: e_def no_def)
  have m: "pm_find (bp_pid l) ?m = Some a" "pm_find ?rt ?m = None" "pm_find (BTreePageId (bf_tableid b) (new_page_no w b) INTERNAL) ?m = None"
    using l(5) q(5) by (simp_all add: rootptr_getId_def)
  have tl: "getTableId (bp_pid l) = bf_tableid b" using l(5) by simp
  have parent: "getParentWithEmptySlots (Suc n) i (BTreePageId (bf_tableid b) 0 ROOT_PTR) fld (with_pages w g ?m) =
      Inr (d, with_pages ?w1 ?g1 ?m1)" for fld
    using new_root_run [OF f key l(1-4) m(1) tl m(2,3), of n fld] by (simp add: d_def no_def e_def)
  have ne: "r < d" "a \<noteq> d" "c \<noteq> d" using f(3) l(1) q(1) by (auto simp: root_open_def d_def)
  have len: "length (w_objs ?w1) = Suc d" by (simp add: d_def)
  let ?ent = "BTreeEntry_new (Some (IntField sv)) (Some (bp_pid l)) (Some (bp_pid q))"
  have en: "e_key ?ent = Some (IntField sv)" "e_left ?ent = Some (BTreePageId (bf_tableid b) n0 LEAF)"
      "e_right ?ent = Some (BTreePageId (bf_tableid b) n1 LEAF)" using l(5) q(5) by (simp_all add: BTreeEntry_new_def)
  have es: "int_ok e" "int_getNumEmptySlots e = np_numSlots e - 1" "mx = np_numSlots e - 1" "np_childCategory e = LEAF"
      "bf_tableid b = getTableId (bp_pid e)"
    using empty_internal_spec [OF key(1,3)] by (simp_all add: e_def)
  obtain p where p: "insertEntry e mx ?ent = Inr p" "int_ok p" "int_frame e p" "int_isSlotUsed p 0" "int_isSlotUsed p 1"
      "int_pairs p = [(None, n0), (Some (IntField sv), n1)]"
    using int_insert_fresh [OF es(1) en es(5) es(4) [symmetric] _ es(2,3)] by auto
  note fr = int_frame_simps [OF p(3)]
  let ?g2 = "?g1(d := IntPg p)"
  have "int_getMaxEntries (w_pageSize w) (bp_td e) (bp_keyField e) = Inr mx" using key(2) by (simp add: e_def)
  then have ins: "insertEntry_at d ?ent (with_pages ?w1 ?g1 ?m1) = Inr ((), with_pages ?w1 ?g2 ?m1)"
    using len ne p(1) by (simp add: insertEntry_at_def fun_upd_twist)
  have pp: "bp_pid p = BTreePageId (bf_tableid b) no INTERNAL" "no \<noteq> 0" using fr eid by (simp_all add: no_def new_page_no_def)
  have child: "int_child p n0 = bp_pid l" "int_child p n1 = bp_pid q"
    using l(5) q(5) fr es(4,5) by (simp_all add: int_child_def)
  have mq: "pm_find (bp_pid q) ?m1 = Some c" using l(5) q(5,7) by simp
  have o': "orphan ?w1 ?g2 ?m1 (bp_pid p) (bp_pid q) c q"
    using q(1-6) ne len pp mq by (simp add: orphan_def getParentId_def d_def)
  have "own_child ?w1 ?g2 ?m1 (bp_pid p) (bp_pid q) c (int_child p (snd x))" if "x \<in> set (int_pairs p)" for x
  proof (cases "x = (None, n0)")
    case True
    have "getParentId ?l = bp_pid p" using pp tl by (simp add: getParentId_def)
    then show ?thesis
      using True l(1,2,5) q(3) ne len child
      by (auto simp: own_child_def found_def d_def intro!: exI [of _ a] exI [of _ ?l])
  next
    case False
    with that have "x = (Some (IntField sv), n1)" by (simp add: p(6))
    then show ?thesis using child by (simp add: own_child_def)
  qed
  moreover have "bp_pid q \<in> (\<lambda>x. int_child p (snd x)) ` set (int_pairs p)" using child by (simp add: p(6))
  ultimately have up: "updateParentPointers d (with_pages ?w1 ?g2 ?m1) = Inr ((), with_pages ?w1 (adopt (bp_pid p) c q ?g2) ?m1)"
    using len p(2,4,5) o' by (intro updateParentPointers_run) simp_all
  have "adopt (bp_pid p) c q ?g2 = g(r := RootPg ?rp, a := LeafPg ?l, d := IntPg p, c := LeafPg (q\<lparr>bp_parent := no\<rparr>))"
    using ne pp by (auto simp: adopt_def fun_eq_iff)
  then have "split_tail (Suc n) i a c (BTreePageId (bf_tableid b) 0 ROOT_PTR) (bp_pid l) (bp_pid q) (IntField kv) sv (with_pages w g ?m) =
      Inr (if sint kv < sint sv then a else c, with_pages ?w1
        (g(r := RootPg ?rp, a := LeafPg ?l, d := IntPg p, c := LeafPg (q\<lparr>bp_parent := no\<rparr>))) ?m1)"
    using parent [of "Some (IntField sv)"] ins up by (simp add: split_tail_def bindM_apply del: getParentWithEmptySlots.simps)
  with p show ?thesis by (intro exI [of _ p]) simp
qed

text \<open>The halves of a root leaf, the world with the new leaf, and the world with the new root page.\<close>

lemma root_halves:
  assumes R: "root_leaf w f b r rp a l mx" and hs: "leaf_halves w b l p' q' sv"
  shows "bp_pid p' = bp_pid l" "bp_pid q' = bp_pid (new_leaf w b)" "bp_parent q' = 0" "leaf_of w b p'" "leaf_of w b q'"
    "getRightSiblingId p' = Some (bp_pid (new_leaf w b))" "getRightSiblingId q' = None"
    "pm_find (bp_pid (new_leaf w b)) (w_pool w) = None"
proof -
  have fo: "file_open w f b" and lf: "leaves_fit w b" and l: "leaf_of w b l" "getRightSiblingId l = None"
    using R by (auto simp: root_leaf_def)
  have s: "leaf_ok p'" "leaf_frame (l\<lparr>lp_rightSibling := new_page_no w b\<rparr>) p'"
      "leaf_ok q'" "leaf_frame ((new_leaf w b)\<lparr>lp_rightSibling := lp_rightSibling l, lp_leftSibling := pageNumber (bp_pid l)\<rparr>) q'"
    using hs by (simp_all add: leaf_halves_def Let_def)
  note fp = leaf_frame_simps [OF s(2)] and fq = leaf_frame_simps [OF s(4)]
  have rid: "bp_pid (new_leaf w b) = BTreePageId (bf_tableid b) (new_page_no w b) LEAF" by (simp add: new_leaf_def)
  obtain n0 where n0: "bp_pid l = BTreePageId (bf_tableid b) n0 LEAF" using l(1) by (auto simp: leaf_of_def)
  show "bp_pid p' = bp_pid l" "bp_pid q' = bp_pid (new_leaf w b)" "bp_parent q' = 0"
    using fp fq by (simp_all add: new_leaf_def empty_leaf_def Let_def)
  show "leaf_of w b p'" "leaf_of w b q'"
    using leaf_of_frame [OF _ s(2,1)] leaf_of_frame [OF _ s(4,3)] l(1) new_leaf_of(1) [OF fo lf] by simp_all
  show "getRightSiblingId p' = Some (bp_pid (new_leaf w b))" using fp n0 by (simp add: getRightSiblingId_def rid new_page_no_def)
  show "getRightSiblingId q' = None" using fq l(2) by (auto simp: getRightSiblingId_def split: if_splits)
  show "pm_find (bp_pid (new_leaf w b)) (w_pool w) = None"
    using fo by (simp add: rid file_open_def disk_fresh_def new_page_no_def)
qed

lemma leaf_halves_data:
  assumes hs: "leaf_halves w b l p' q' sv" and of: "leaf_of w b l" "leaf_of w b p'" "leaf_of w b q'"
    and l: "leaf_sorted l" "leaf_getNumEmptySlots l = 0" and two: "2 \<le> leaf_getMaxTuples (w_pageSize w) (bf_td b)"
  shows "leaf_tuples p' \<noteq> []" "leaf_tuples q' \<noteq> []" "sorted (leaf_keys p' @ sint sv # leaf_keys q')"
    "mset (leaf_tuples p') + mset (leaf_tuples q') = mset (leaf_tuples l)"
    "leaf_getMaxTuples (w_pageSize w) (bf_td b) div 2 \<le> length (leaf_tuples p')"
    "leaf_getMaxTuples (w_pageSize w) (bf_td b) div 2 \<le> length (leaf_tuples q')"
    "0 < leaf_getNumEmptySlots p'" "0 < leaf_getNumEmptySlots q'"
proof -
  define h where "h = length (leaf_tuples l) div 2"
  have s: "leaf_tuples p' = take h (leaf_tuples l)" "leaf_sorted q'" "mset (leaf_tuples q') = mset (drop h (leaf_tuples l))"
      "key_of (bf_keyField b) (leaf_tuples l ! h) = sint sv"
    using hs by (simp_all add: leaf_halves_def Let_def h_def)
  have n: "length (leaf_tuples l) = leaf_getMaxTuples (w_pageSize w) (bf_td b)"
    using leaf_occupancy [of l] l(2) of(1) by (simp add: leaf_of_def)
  have hn: "0 < h" "h < length (leaf_tuples l)" using n two h_def by auto
  have len: "length (leaf_tuples p') = h" "length (leaf_tuples q') = length (leaf_tuples l) - h"
    using hn s(1) mset_eq_length [OF s(3)] by auto
  then show "leaf_tuples p' \<noteq> []" "leaf_tuples q' \<noteq> []" using hn by auto
  show "leaf_getMaxTuples (w_pageSize w) (bf_td b) div 2 \<le> length (leaf_tuples p')"
    "leaf_getMaxTuples (w_pageSize w) (bf_td b) div 2 \<le> length (leaf_tuples q')"
    using len n h_def by simp_all
  show "sorted (leaf_keys p' @ sint sv # leaf_keys q')"
    using of l(1) s hn by (intro halves_keys(1) [of l h]) (auto simp: leaf_of_def leaf_sorted_def leaf_keys_def)
  show "mset (leaf_tuples p') + mset (leaf_tuples q') = mset (leaf_tuples l)"
    using s(1,3) mset_append [of "take h (leaf_tuples l)" "drop h (leaf_tuples l)"] by simp
  show "0 < leaf_getNumEmptySlots p'" "0 < leaf_getNumEmptySlots q'"
    using leaf_occupancy [of p'] leaf_occupancy [of q'] len hn n of by (simp_all add: leaf_of_def)
qed

lemma root_new_leaf:
  assumes R: "root_leaf w f b r rp a l mx" and hs: "leaf_halves w b l p' q' sv"
  defines "c \<equiv> length (w_objs w)" and "w1 \<equiv> add_page w f b (LeafPg (new_leaf w b))"
    and "b1 \<equiv> b\<lparr>bf_disk := disk_grow (w_append w) (w_pageSize w) (bf_disk b)\<rparr>"
  shows "file_open w1 f b1" "w_pool w1 = w_pool w @ [(bp_pid (new_leaf w b), c)]" "length (w_objs w1) = Suc c"
    "w_pageSize w1 = w_pageSize w" "w_numPages w1 = w_numPages w" "a < c" "r < c" "a \<noteq> r"
    "root_open w1 ((pages_of w)(a := LeafPg p', c := LeafPg q')) b1 r rp"
    "\<And>n0 ty. bp_pid l = BTreePageId (bf_tableid b) n0 ty \<Longrightarrow> new_page_no w b \<noteq> n0"
proof -
  have fo: "file_open w f b" and ro: "root_open w (pages_of w) b r rp" and a: "a < length (w_objs w)" "pages_of w a = LeafPg l"
      "pm_find (bp_pid l) (w_pool w) = Some a" and l: "leaf_of w b l"
    using R by (auto simp: root_leaf_def)
  have rid: "bp_pid (new_leaf w b) = BTreePageId (bf_tableid b) (new_page_no w b) LEAF" by (simp add: new_leaf_def)
  note new = root_halves(8) [OF R hs]
  show "file_open w1 f b1" unfolding w1_def b1_def by (rule file_open_add_page [OF fo]) (simp add: rid)
  show pool1: "w_pool w1 = w_pool w @ [(bp_pid (new_leaf w b), c)]" using new by (simp add: w1_def c_def pm_put_new)
  show len1: "length (w_objs w1) = Suc c" "w_pageSize w1 = w_pageSize w" "w_numPages w1 = w_numPages w"
    by (simp_all add: w1_def c_def)
  show lt: "a < c" "r < c" "a \<noteq> r" using a ro by (auto simp: c_def root_open_def)
  then show "root_open w1 ((pages_of w)(a := LeafPg p', c := LeafPg q')) b1 r rp"
    using ro pm_find_append [of _ "w_pool w"] by (auto simp: root_open_def pool1 len1 b1_def)
  show "new_page_no w b \<noteq> n0" if "bp_pid l = BTreePageId (bf_tableid b) n0 ty" for n0 ty
    using that l new a(3) rid by (auto simp: leaf_of_def)
qed

lemma root_split_ready:
  assumes R: "root_leaf w f b r rp a l mx" and fl: "leaf_getNumEmptySlots l = 0" and hs: "leaf_halves w b l p' q' sv"
    and n0: "bp_pid l = BTreePageId (bf_tableid b) n0 LEAF"
  defines "c \<equiv> length (w_objs w)" and "w1 \<equiv> add_page w f b (LeafPg (new_leaf w b))"
    and "b1 \<equiv> b\<lparr>bf_disk := disk_grow (w_append w) (w_pageSize w) (bf_disk b)\<rparr>"
  defines "no \<equiv> new_page_no w1 b1"
  defines "e \<equiv> empty_internal (bf_td b) (BTreePageId (bf_tableid b) no INTERNAL) (bf_keyField b) mx"
  assumes p: "int_ok p" "int_frame e p" "int_isSlotUsed p 0" "int_isSlotUsed p 1"
      "int_pairs p = [(None, n0), (Some (IntField sv), new_page_no w b)]"
  defines "b2 \<equiv> b1\<lparr>bf_disk := disk_grow (w_append w1) (w_pageSize w1) (bf_disk b1)\<rparr>"
    and "rp' \<equiv> rp\<lparr>rt_root := no, rt_category := INTERNAL\<rparr>" and "L \<equiv> p'\<lparr>bp_parent := no\<rparr>" and "Q \<equiv> q'\<lparr>bp_parent := no\<rparr>"
  defines "W \<equiv> with_pages (add_page w1 f b1 (IntPg e))
      ((pages_of w)(a := LeafPg p', c := LeafPg q', r := RootPg rp', a := LeafPg L, Suc c := IntPg p, c := LeafPg Q))
      [(bp_pid l, a), (bp_pid (new_leaf w b), c), (bp_pid e, Suc c), (rootptr_getId (bf_tableid b), r)]"
    and "T \<equiv> two_leaves f b2 r rp' (Suc c) p a c L Q"
  shows "tree_ready W T" "half_full T" "dirty_ok W" "mset (tree_tuples T) = mset (leaf_tuples l)" "same_setting w W"
    "length (w_pool W) = length (w_pool w) + 2" "np_numSlots p = Suc mx"
    "0 < leaf_getNumEmptySlots L" "0 < leaf_getNumEmptySlots Q"
proof -
  let ?rid = "bp_pid (new_leaf w b)" and ?rt = "rootptr_getId (bf_tableid b)"
  have lf: "leaves_fit w b" and ro: "root_open w (pages_of w) b r rp" and a: "pm_find (bp_pid l) (w_pool w) = Some a"
    and l: "leaf_of w b l" "leaf_sorted l" and two: "2 \<le> leaf_getMaxTuples (w_pageSize w) (bf_td b)"
    and key: "int_getMaxEntries (w_pageSize w) (bf_td b) (bf_keyField b) = Inr mx"
    using R by (auto simp: root_leaf_def)
  note pq = root_halves [OF R hs] and nl = root_new_leaf [OF R hs, folded c_def w1_def b1_def]
  note d = leaf_halves_data [OF hs l(1) pq(4,5) l(2) fl two]
  have rid: "?rid = BTreePageId (bf_tableid b) (new_page_no w b) LEAF" by (simp add: new_leaf_def)
  have eid: "bp_pid e = BTreePageId (bf_tableid b) no INTERNAL" by (simp add: e_def)
  note fr = int_frame_simps [OF p(2)]
  have fo2: "file_open W f b2"
    unfolding W_def b2_def with_pages_facts by (rule file_open_add_page [OF nl(1)]) (simp add: eid no_def b1_def)
  have enew: "pm_find (bp_pid e) (w_pool w1) = None"
    using nl(1) by (simp add: eid no_def file_open_def disk_fresh_def new_page_no_def b1_def)
  have pool2: "w_pool W = w_pool w @ [(?rid, c), (bp_pid e, Suc c)]"
    using enew by (simp add: W_def pm_put_new nl(3)) (simp add: nl(2))
  then show "length (w_pool W) = length (w_pool w) + 2" by simp
  have len2: "length (w_objs W) = Suc (Suc c)" by (simp add: W_def nl(3))
  show st: "same_setting w W" by (simp add: same_setting_def W_def w1_def)
  have find2: "pm_find (bp_pid l) (w_pool W) = Some a" "pm_find ?rt (w_pool W) = Some r"
      "pm_find ?rid (w_pool W) = Some c" "pm_find (bp_pid e) (w_pool W) = Some (Suc c)"
  proof -
    show "pm_find (bp_pid l) (w_pool W) = Some a" "pm_find ?rt (w_pool W) = Some r"
      using a ro pm_find_append [of _ "w_pool w"] by (auto simp: pool2 root_open_def)
    show "pm_find ?rid (w_pool W) = Some c" using pm_find_later [OF pq(8)] by (simp add: pool2 rid)
    show "pm_find (bp_pid e) (w_pool W) = Some (Suc c)"
      using pm_find_later [OF enew, of "[(bp_pid e, Suc c)]"] by (simp add: pool2 nl(2) eid)
  qed
  have pages: "pages_of W a = LeafPg L" "pages_of W c = LeafPg Q" "pages_of W (Suc c) = IntPg p" "pages_of W r = RootPg rp'"
    using nl(3,6-8) by (simp_all add: W_def)
  have ids: "bp_pid p = BTreePageId (bf_tableid b) no INTERNAL" "no \<noteq> 0" "np_childCategory p = LEAF" "np_numSlots p = Suc mx"
    using fr eid by (simp_all add: e_def no_def new_page_no_def)
  then show "np_numSlots p = Suc mx" by simp
  have kids: "bp_pid L = int_child p n0" "bp_pid Q = int_child p (new_page_no w b)"
    using ids pq n0 rid by (simp_all add: int_child_def L_def Q_def)
  have parents: "getParentId L = bp_pid p" "getParentId Q = bp_pid p"
    using ids pq n0 rid by (simp_all add: getParentId_def L_def Q_def)
  have rO: "root_open W (pages_of W) b2 r rp'"
    using ro nl(7) find2(2) pages(4) len2
    by (auto simp: root_open_def getHeaderId_def b2_def b1_def rp'_def split: if_splits)
  have gR: "getRootId rp' = Some (bp_pid p)" using ids(1,2) ro by (simp add: getRootId_def root_open_def rootptr_getId_def rp'_def)
  have ps: "w_pageSize W = w_pageSize w" using st by (simp add: same_setting_def)
  then have lo: "leaf_of W b2 L" "leaf_of W b2 Q" "leaves_fit W b2" "2 \<le> leaf_getMaxTuples (w_pageSize W) (bf_td b2)"
      "int_getMaxEntries (w_pageSize W) (bp_td p) (bp_keyField p) = Inr (np_numSlots p - 1)"
    using pq(4,5) lf two key fr
    by (simp_all add: leaf_of_def leaves_fit_def ids e_def b2_def b1_def L_def Q_def)
  have tuples: "leaf_tuples L \<noteq> []" "leaf_tuples Q \<noteq> []" "sorted (leaf_keys L @ sint sv # leaf_keys Q)"
      "getRightSiblingId L = Some (bp_pid Q)" "getRightSiblingId Q = None" "bp_pid L = bp_pid l" "bp_pid Q = ?rid"
    using d(1-3) pq by (simp_all add: L_def Q_def leaf_keys_def)
  show "tree_ready W T"
    unfolding T_def using find2 nl(6) len2 ids tuples(6,7) fo2 eid
    by (intro two_leaves_ready [OF _ lo(3) rO gR _ pages(3) _ _ _ p(1,3,4) ids(3) p(5) lo(5) _ pages(1) _ _ _ pages(2) _
        lo(1) parents(1) tuples(1) kids(1) tuples(4) lo(2) parents(2) tuples(2) kids(2) tuples(5) lo(4) tuples(3)]) simp_all
  show "dirty_ok W"
  proof -
    have "page_getId (RootPg rp') = ?rt" using ro by (simp add: rp'_def root_open_def)
    then show ?thesis
      using find2 nl(3,6-8) len2 tuples(6,7) ids eid rO
      by (simp add: dirty_ok_def pages_of_def [symmetric] pages root_open_def) (simp add: W_def)
  qed
  show "half_full T" using d(5,6) lo(1,2) ps by (simp add: half_full_def T_def leaf_of_def L_def Q_def b2_def b1_def)
  show "mset (tree_tuples T) = mset (leaf_tuples l)" using d(4) by (simp add: T_def L_def Q_def)
  show "0 < leaf_getNumEmptySlots L" "0 < leaf_getNumEmptySlots Q" using d(7,8) by (simp_all add: L_def Q_def)
qed

lemma root_split_run:
  assumes R: "root_leaf w f b r rp a l mx" and fl: "leaf_getNumEmptySlots l = 0" and room: "length (w_pool w) + 2 \<le> usize (w_numPages w)"
  shows "\<exists>W T sv n0 n1. splitLeafPage (Suc n) f a (IntField kv) (with_pages w (pages_of w) [(bp_pid l, a)]) =
      Inr (tr_addrs T ! (if sint kv < sint sv then 0 else 1), W) \<and>
    tree_ready W T \<and> half_full T \<and> mset (tree_tuples T) = mset (leaf_tuples l) \<and> dirty_ok W \<and> same_setting w W \<and>
    length (w_pool W) = length (w_pool w) + 2 \<and> length (tr_leaves T) = 2 \<and> np_numSlots (tr_root T) = Suc mx \<and>
    int_pairs (tr_root T) = [(None, n0), (Some (IntField sv), n1)] \<and> tr_file T = f \<and> (\<exists>d. tr_btree T = b\<lparr>bf_disk := d\<rparr>) \<and>
    0 < leaf_getNumEmptySlots (tr_leaves T ! 0) \<and> 0 < leaf_getNumEmptySlots (tr_leaves T ! 1)"
proof -
  let ?g = "pages_of w" and ?rt = "rootptr_getId (bf_tableid b)" and ?rid = "bp_pid (new_leaf w b)"
  have fo: "file_open w f b" and lf: "leaves_fit w b" and ro: "root_open w ?g b r rp" and rp: "getRootId rp = Some (bp_pid l)"
    and a: "a < length (w_objs w)" "?g a = LeafPg l" "pm_find (bp_pid l) (w_pool w) = Some a"
    and l: "leaf_of w b l" "bp_parent l = 0" "getRightSiblingId l = None"
    and key: "getFieldType (bf_td b) (bf_keyField b) = Inr INT_TYPE"
      "int_getMaxEntries (w_pageSize w) (bf_td b) (bf_keyField b) = Inr mx" "1 \<le> mx"
    using R by (auto simp: root_leaf_def)
  obtain n0 where n0: "bp_pid l = BTreePageId (bf_tableid b) n0 LEAF" using l(1) by (auto simp: leaf_of_def)
  have full: "\<not> pool_full w" using room by (simp add: pool_full_def)
  have nb: "right_neighbour w ?g a l None" using l(3) by (simp add: right_neighbour_def)
  define c where "c = length (w_objs w)"
  define w1 where "w1 = add_page w f b (LeafPg (new_leaf w b))"
  define b1 where "b1 = b\<lparr>bf_disk := disk_grow (w_append w) (w_pageSize w) (bf_disk b)\<rparr>"
  obtain p' q' sv where hs: "leaf_halves w b l p' q' sv"
    and front: "splitLeafPage (Suc n) f a (IntField kv) (with_pages w ?g [(bp_pid l, a)]) =
        split_tail (Suc n) f a c (getParentId l) (bp_pid l) ?rid (IntField kv) sv
          (with_pages w1 (?g(a := LeafPg p', c := LeafPg q')) [(bp_pid l, a), (?rid, c)])"
    using split_front [OF fo lf ro full a(1,2) l(1) fl a(3) nb, of "Suc n" "IntField kv"]
    unfolding c_def w1_def by (auto simp: link_left_def link_dirty_def)
  note pq = root_halves [OF R hs] and nl = root_new_leaf [OF R hs, folded c_def w1_def b1_def]
  have full1: "\<not> pool_full w1" using room by (simp add: pool_full_def nl(2,5))
  have rid: "?rid = BTreePageId (bf_tableid b) (new_page_no w b) LEAF" by (simp add: new_leaf_def)
  have par: "getParentId l = BTreePageId (bf_tableid b) 0 ROOT_PTR" using l(2) n0 by (simp add: getParentId_def)
  define no where "no = new_page_no w1 b1"
  define e where "e = empty_internal (bf_td b) (BTreePageId (bf_tableid b) no INTERNAL) (bf_keyField b) mx"
  obtain p where p: "int_ok p" "int_frame e p" "int_isSlotUsed p 0" "int_isSlotUsed p 1"
      "int_pairs p = [(None, n0), (Some (IntField sv), new_page_no w b)]"
      "split_tail (Suc n) f a c (BTreePageId (bf_tableid b) 0 ROOT_PTR) (bp_pid l) ?rid (IntField kv) sv
        (with_pages w1 (?g(a := LeafPg p', c := LeafPg q')) [(bp_pid l, a), (?rid, c)]) =
      Inr (if sint kv < sint sv then a else c, with_pages (add_page w1 f b1 (IntPg e))
        (?g(a := LeafPg p', c := LeafPg q', r := RootPg (rp\<lparr>rt_root := no, rt_category := INTERNAL\<rparr>),
          a := LeafPg (p'\<lparr>bp_parent := no\<rparr>), Suc c := IntPg p, c := LeafPg (q'\<lparr>bp_parent := no\<rparr>)))
        [(bp_pid l, a), (?rid, c), (bp_pid e, Suc c), (?rt, r)])"
    using root_tail_run [of w1 f b1 "?g(a := LeafPg p', c := LeafPg q')" r rp mx a p' n0 c q' "new_page_no w b" sv n kv]
      nl full1 key pq n0 rp rid lf
    by (auto simp: leaves_fit_def no_def e_def b1_def)
  let ?rp = "rp\<lparr>rt_root := no, rt_category := INTERNAL\<rparr>" and ?b2 = "b1\<lparr>bf_disk := disk_grow (w_append w1) (w_pageSize w1) (bf_disk b1)\<rparr>"
  define W where "W = with_pages (add_page w1 f b1 (IntPg e))
      (?g(a := LeafPg p', c := LeafPg q', r := RootPg ?rp, a := LeafPg (p'\<lparr>bp_parent := no\<rparr>), Suc c := IntPg p,
        c := LeafPg (q'\<lparr>bp_parent := no\<rparr>))) [(bp_pid l, a), (?rid, c), (bp_pid e, Suc c), (?rt, r)]"
  define T where "T = two_leaves f ?b2 r ?rp (Suc c) p a c (p'\<lparr>bp_parent := no\<rparr>) (q'\<lparr>bp_parent := no\<rparr>)"
  note ready = root_split_ready [OF R fl hs n0, folded c_def w1_def b1_def, folded no_def, folded e_def, OF p(1-5), folded W_def T_def]
  have T: "tr_addrs T = [a, c]" "tr_leaves T = [p'\<lparr>bp_parent := no\<rparr>, q'\<lparr>bp_parent := no\<rparr>]" "tr_root T = p" "tr_file T = f"
      "tr_btree T = ?b2" by (simp_all add: T_def)
  have "splitLeafPage (Suc n) f a (IntField kv) (with_pages w ?g [(bp_pid l, a)]) =
      Inr (tr_addrs T ! (if sint kv < sint sv then 0 else 1), W)"
    using front [unfolded par p(6)] by (simp add: T W_def)
  with ready p(5) show ?thesis
    by (intro exI [of _ W] exI [of _ T] exI [of _ sv] exI [of _ n0] exI [of _ "new_page_no w b"]) (simp add: T b1_def)
qed

section \<open>Inserting into a root that is a leaf\<close>

lemma root_insert_to:
  assumes R: "root_leaf w f b r rp a l mx" and key: "getField t (bf_keyField b) = Inr (IntField kv)"
  shows "BTreeFile_insertTuple (Suc n) f tid t w =
    bindM (if leaf_getNumEmptySlots l = 0 then splitLeafPage (Suc n) f a (IntField kv) else returnM a)
      (\<lambda>leaf. leaf_takes leaf t) (with_pages w (pages_of w) [(bp_pid l, a)])"
proof -
  let ?w = "w\<lparr>w_dirtypages := []\<rparr>"
  have t: "f < length (w_files w)" "w_files w ! f = BTreeF b" "bf_disk b \<noteq> []" "r < length (w_objs w)" "po_page (w_objs w ! r) = RootPg rp"
      "pm_find (rootptr_getId (bf_tableid b)) (w_pool w) = Some r" "getRootId rp = Some (bp_pid l)"
      "a < length (w_objs w)" "po_page (w_objs w ! a) = LeafPg l" "pm_find (bp_pid l) (w_pool w) = Some a" "btree_type (bp_pid l) = LEAF"
    using R by (auto simp: root_leaf_def file_open_def disk_fresh_def ROOT_PAGE_SIZE_def root_open_def pages_of_def leaf_of_def)
  have find: "bindM (bt_findLeafPage (Suc n) (Some (bp_pid l)) False (Some (IntField kv))) k ?w = k a ?w"
    for k :: "nat \<Rightarrow> (tuple \<times> nat list) M"
    using t by (simp add: bindM_assoc bt_getPage_resident run_leaf_at)
  have root: "bindM (getRootPtrPage f) k ?w = k r ?w" for k :: "nat \<Rightarrow> (tuple \<times> nat list) M"
    using t by (simp add: getRootPtrPage_def bindM_assoc bt_getPage_resident run_root_at run_btree)
  show ?thesis
    using t key
    by (simp add: BTreeFile_insertTuple_def root find run_root_at run_btree id_at_def bindM_assoc bt_getPage_resident
        run_leaf_at with_pages_self leaf_takes_def del: bt_findLeafPage.simps)
qed

lemma root_leaf_frame:
  assumes R: "root_leaf w f b r rp a l mx" and W: "same_setting w W" "w_files W = w_files w" "w_pool W = w_pool w"
      "length (w_objs W) = length (w_objs w)" "\<And>i. i < length (w_objs w) \<Longrightarrow> pages_of W i = ((pages_of w)(a := LeafPg q)) i"
    and q: "leaf_ok q" "leaf_frame l q" "leaf_sorted q"
  shows "root_leaf W f b r rp a q mx"
proof -
  have st: "file_open W = file_open w" "leaves_fit W = leaves_fit w" "leaf_of W = leaf_of w" "w_pageSize W = w_pageSize w"
    using W by (simp_all add: file_open_def disk_fresh_def leaves_fit_def leaf_of_def same_setting_def fun_eq_iff)
  note fr = leaf_frame_simps [OF q(2)]
  have "leaf_of w b q" using leaf_of_frame [OF _ q(2,1)] R by (simp add: root_leaf_def)
  moreover have "a \<noteq> r" using R by (auto simp: root_leaf_def root_open_def)
  moreover have "getRightSiblingId q = getRightSiblingId l" using fr by (simp add: getRightSiblingId_def)
  ultimately show ?thesis
    using R W fr q by (simp add: root_leaf_def st root_open_def)
qed

lemma root_insert_run:
  assumes R: "root_leaf w f b r rp a l mx" and ord: "\<And>m. mset (w_order w m) = mset m" and fit: "fits (bf_td b) t"
    and room: "leaf_getNumEmptySlots l = 0 \<longrightarrow> length (w_pool w) + 2 \<le> usize (w_numPages w)"
  shows "\<exists>t' W. bp_insertTuple (Suc n) tid (bf_tableid b) t w = Inr (t', W) \<and> strip t' = strip t \<and> same_setting w W \<and>
    ((\<exists>q. root_leaf W f b r rp a q mx \<and> mset (leaf_tuples q) = add_mset (strip t) (mset (leaf_tuples l)) \<and>
        length (w_pool W) = length (w_pool w)) \<or>
     (\<exists>T. tree_ready W T \<and> half_full T \<and> mset (tree_tuples T) = add_mset (strip t) (mset (leaf_tuples l)) \<and>
        length (w_pool W) = length (w_pool w) + 2 \<and> length (tr_leaves T) = 2 \<and> np_numSlots (tr_root T) = Suc mx \<and>
        tr_file T = f \<and> (\<exists>d. tr_btree T = b\<lparr>bf_disk := d\<rparr>)))"
proof -
  let ?w1 = "with_pages w (pages_of w) [(bp_pid l, a)]"
  have f: "file_open w f b" and l: "leaf_of w b l" "leaf_sorted l" and a: "a < length (w_objs w)" "pages_of w a = LeafPg l"
      "pm_find (bp_pid l) (w_pool w) = Some a"
    using R by (auto simp: root_leaf_def)
  have k: "0 \<le> bf_keyField b" "nat (bf_keyField b) < numFields (bf_td b)" using R by (auto simp: root_leaf_def leaves_fit_def)
  obtain kv where kv: "getField t (bf_keyField b) = Inr (IntField kv)" "key_of (bf_keyField b) t = sint kv"
    using key_of_fits [OF fit k] by auto
  note to = root_insert_to [OF R kv(1), of n tid]
  have pool: "bp_insertTuple (Suc n) tid (bf_tableid b) t w = Inr (t', W)"
    if "BTreeFile_insertTuple (Suc n) f tid t w = Inr ((t', ds), W1)" "pool_add_dirty tid ds W1 = Inr ((), W)" for t' ds W1 W
    using that f by (simp add: bp_insertTuple_def file_insertTuple_def bindM_def db_getDatabaseFile_def file_open_def
        del: pool_add_dirty.simps)
  show ?thesis
  proof (cases "leaf_getNumEmptySlots l = 0")
    case False
    have "dirty_ok ?w1" using a by (simp add: dirty_ok_def with_pages_self pages_of_def)
    then obtain t' ds W1 W q where u: "leaf_takes a t ?w1 = Inr ((t', ds), W1)" "strip t' = strip t"
        "pool_add_dirty tid ds W1 = Inr ((), W)" "w_files W = w_files ?w1" "w_pool W = w_pool ?w1" "same_setting ?w1 W"
        "length (w_objs W) = length (w_objs ?w1)" "\<forall>i < length (w_objs ?w1). pages_of W i = ((pages_of ?w1)(a := LeafPg q)) i"
        "leaf_ok q" "leaf_frame l q" "leaf_tuples q = ins_tuple (bf_keyField b) (strip t) (leaf_tuples l)"
      using leaf_takes_at [of ?w1 b l a t tid] l(1) a ord False fit by auto
    have "bp_keyField l = bf_keyField b" using l(1) by (simp add: leaf_of_def)
    then have "leaf_sorted q" using leaf_sorted_insert [OF l(2) u(10), of "strip t"] u(11) by simp
    moreover have "same_setting w W" using u(6) by (simp add: same_setting_def)
    ultimately have "root_leaf W f b r rp a q mx"
      using u(4,5,7-10) by (intro root_leaf_frame [OF R]) (simp_all add: pages_of_def)
    then show ?thesis
      using to False pool [OF _ u(3)] u(1,2,5,11) \<open>same_setting w W\<close> by (intro exI [of _ t'] exI [of _ W]) auto
  next
    case True
    obtain W0 T0 sv n0 n1 where s: "splitLeafPage (Suc n) f a (IntField kv) ?w1 =
          Inr (tr_addrs T0 ! (if sint kv < sint sv then 0 else 1), W0)"
        "tree_ready W0 T0" "half_full T0" "mset (tree_tuples T0) = mset (leaf_tuples l)" "dirty_ok W0" "same_setting w W0"
        "length (w_pool W0) = length (w_pool w) + 2" "length (tr_leaves T0) = 2" "np_numSlots (tr_root T0) = Suc mx"
        "int_pairs (tr_root T0) = [(None, n0), (Some (IntField sv), n1)]" "tr_file T0 = f" "\<exists>d. tr_btree T0 = b\<lparr>bf_disk := d\<rparr>"
        "0 < leaf_getNumEmptySlots (tr_leaves T0 ! 0)" "0 < leaf_getNumEmptySlots (tr_leaves T0 ! 1)"
      using root_split_run [OF R True, of n kv] room True by blast
    define j where "j = (if sint kv < sint sv then 0 else 1 :: nat)"
    have b: "bf_td (tr_btree T0) = bf_td b" "bf_keyField (tr_btree T0) = bf_keyField b" using s(12) by auto
    have ar: "j < length (tr_leaves T0)" "0 < leaf_getNumEmptySlots (tr_leaves T0 ! j)"
        "key_le (fst (int_pairs (tr_root T0) ! j)) (sint kv)"
        "Suc j < length (tr_leaves T0) \<longrightarrow> key_ge (fst (int_pairs (tr_root T0) ! Suc j)) (sint kv)"
      using s(8,10,13,14) by (auto simp: j_def key_le_def key_ge_def)
    have "mset (w_order W0 m) = mset m" for m using ord s(6) by (simp add: same_setting_def)
    from leaf_takes_run [OF s(2,5) this ar(1,2) _ _, of t tid] ar(3,4) b fit kv(2)
    obtain t' ds W1 W q where u: "leaf_takes (tr_addrs T0 ! j) t W0 = Inr ((t', ds), W1)" "strip t' = strip t"
        "pool_add_dirty tid ds W1 = Inr ((), W)" "w_pool W = w_pool W0" "tree_grown W0 T0 t W (tree_update T0 j q)" by auto
    have "BTreeFile_insertTuple (Suc n) f tid t w = Inr ((t', ds), W1)"
      using to True s(1) u(1) by (simp add: j_def bindM_apply)
    from pool [OF this u(3)] show ?thesis
      using s(3,4,6,7,8,9,11,12) u(2,4,5) same_setting_trans [of w W0 W]
      by (intro exI [of _ t'] exI [of _ W]) (auto simp: tree_grown_def tree_update_def)
  qed
qed

end
