(* ===== verification/BTreeFill.thy ===== *)
theory BTreeFill
  imports BTreeRootSpec
begin

text \<open>
  The life of a B+ tree file under insertion: it is created empty, is a single leaf after the first
  tuple, and gets a root above two leaves when that leaf is full. Through all three stages it is a
  table in the sense of \<open>bag_table\<close>.
\<close>

section \<open>The three stages\<close>

text \<open>The file before the first insertion, with an empty pool; the sizes are those of the schema.\<close>

definition fresh_file :: "world \<Rightarrow> nat \<Rightarrow> btree_file \<Rightarrow> nat \<Rightarrow> bool" where
  "fresh_file w f b mx \<longleftrightarrow>
     f < length (w_files w) \<and> w_files w ! f = BTreeF b \<and> bf_disk b = [] \<and>
     getDatabaseFile (w_catalog w) (bf_tableid b) = Inr f \<and> w_pool w = [] \<and> 12 \<le> w_pageSize w \<and> leaves_fit w b \<and>
     getFieldType (bf_td b) (bf_keyField b) = Inr INT_TYPE \<and>
     int_getMaxEntries (w_pageSize w) (bf_td b) (bf_keyField b) = Inr mx \<and> 1 \<le> mx \<and>
     2 \<le> leaf_getMaxTuples (w_pageSize w) (bf_td b)"

text \<open>
  The pool must have room for the root pointer page, the root and a leaf for each of its slots.
\<close>

definition btree_file_rep :: "nat \<Rightarrow> int \<Rightarrow> tuple_desc \<Rightarrow> int \<Rightarrow> nat \<Rightarrow> world \<Rightarrow> nat \<Rightarrow> tuple multiset \<Rightarrow> bool" where
  "btree_file_rep f tab td key mx w b M \<longleftrightarrow>
     (\<forall>m. mset (w_order w m) = mset m) \<and>
     (let room = (size M + b \<le> Suc mx * (leaf_getMaxTuples (w_pageSize w) td div 2)) in
       (\<exists>bf. fresh_file w f bf mx \<and> bf_tableid bf = tab \<and> bf_td bf = td \<and> bf_keyField bf = key \<and> M = {#} \<and> room \<and>
          mx + 3 \<le> usize (w_numPages w)) \<or>
       (\<exists>bf r rp a l. root_leaf w f bf r rp a l mx \<and> bf_tableid bf = tab \<and> bf_td bf = td \<and> bf_keyField bf = key \<and>
          M = mset (leaf_tuples l) \<and> room \<and> length (w_pool w) + mx + 1 \<le> usize (w_numPages w)) \<or>
       btree_rep f tab td key w b M)"

lemma fresh_insert:
  assumes F: "fresh_file w f b mx" and ord: "\<And>m. mset (w_order w m) = mset m" and fit: "fits (bf_td b) t"
    and room: "2 \<le> usize (w_numPages w)"
  shows "\<exists>t' W b' r rp a l. bp_insertTuple (Suc n) tid (bf_tableid b) t w = Inr (t', W) \<and> strip t' = strip t \<and>
    same_setting w W \<and> length (w_pool W) = 2 \<and> (\<exists>d. b' = b\<lparr>bf_disk := d\<rparr>) \<and> root_leaf W f b' r rp a l mx \<and> leaf_tuples l = [strip t]"
proof -
  let ?l = "BTreePageId (bf_tableid b) 1 LEAF" and ?a = "length (w_objs w)"
  let ?rp = "(fresh_rootptr (w_junk w) (bf_tableid b))\<lparr>rt_root := 1, rt_category := LEAF\<rparr>"
  let ?d = "[(rootptr_getId (bf_tableid b), ?a), (?l, Suc ?a)]" and ?b = "b\<lparr>bf_disk := replicate (9 + w_pageSize w) 0\<rparr>"
  note F' = F [unfolded fresh_file_def leaves_fit_def]
  obtain t' q where r: "bp_insertTuple (Suc n) tid (bf_tableid b) t w = Inr (t', w\<lparr>
      w_files := (w_files w)[f := BTreeF ?b], w_pool := ?d, w_dirtypages := ?d,
      w_objs := w_objs w @ [\<lparr>po_dirty = Some tid, po_page = RootPg ?rp\<rparr>, \<lparr>po_dirty = Some tid, po_page = LeafPg q\<rparr>]\<rparr>)"
      "strip t' = strip t" "leaf_ok q" "leaf_frame (empty_leaf (w_pageSize w) (bf_td b) ?l (bf_keyField b)) q" "leaf_tuples q = [strip t]"
    using first_insert_pool [of f w b t n tid] F' ord fit room by blast
  let ?W = "w\<lparr>w_files := (w_files w)[f := BTreeF ?b], w_pool := ?d, w_dirtypages := ?d,
      w_objs := w_objs w @ [\<lparr>po_dirty = Some tid, po_page = RootPg ?rp\<rparr>, \<lparr>po_dirty = Some tid, po_page = LeafPg q\<rparr>]\<rparr>"
  note fr = leaf_frame_simps [OF r(4)]
  have dp: "disk_pages (w_pageSize w) (replicate (9 + w_pageSize w) 0) = 1"
    using F' by (simp add: disk_pages_def ROOT_PAGE_SIZE_def)
  have "file_open ?W f ?b" using F' dp by (simp add: file_open_def disk_fresh_def ROOT_PAGE_SIZE_def rootptr_getId_def)
  moreover have "leaf_of ?W ?b q" using fr r(3) by (simp add: leaf_of_def)
  moreover have "root_open ?W (pages_of ?W) ?b ?a ?rp"
    by (simp add: root_open_def pages_of_def nth_append getHeaderId_def fresh_rootptr_def)
  moreover have "getRootId ?rp = Some (bp_pid q)" using fr by (simp add: getRootId_def fresh_rootptr_def rootptr_getId_def)
  moreover have "pm_find (bp_pid q) ?d = Some (Suc ?a)" "pages_of ?W (Suc ?a) = LeafPg q"
    using fr by (simp_all add: rootptr_getId_def pages_of_def nth_append)
  moreover have "bp_parent q = 0" "getRightSiblingId q = None" using fr by (simp_all add: getRightSiblingId_def empty_leaf_def Let_def)
  ultimately have "root_leaf ?W f ?b ?a ?rp (Suc ?a) q mx"
    using F' r(5) by (simp add: root_leaf_def leaves_fit_def leaf_sorted_def)
  then show ?thesis
    using r(1,2,5) by (intro exI [of _ t'] exI [of _ ?W] exI [of _ ?b] exI [of _ ?a] exI [of _ ?rp] exI [of _ "Suc ?a"] exI [of _ q])
      (simp add: same_setting_def)
qed

section \<open>Insertion in every stage\<close>

lemma btree_file_rep_leaf:
  assumes "root_leaf w f bf r rp a l mx" "bf_tableid bf = tab" "bf_td bf = td" "bf_keyField bf = key"
    "\<And>m. mset (w_order w m) = mset m" "M = mset (leaf_tuples l)"
    "length (leaf_tuples l) + b \<le> Suc mx * (leaf_getMaxTuples (w_pageSize w) td div 2)"
    "length (w_pool w) + mx + 1 \<le> usize (w_numPages w)"
  shows "btree_file_rep f tab td key mx w b M"
proof -
  have "size M + b \<le> Suc mx * (leaf_getMaxTuples (w_pageSize w) td div 2)" using assms(6,7) by simp
  with assms show ?thesis unfolding btree_file_rep_def Let_def by blast
qed

lemma fill_first:
  assumes ord: "\<And>m. mset (w_order w m) = mset m" and F: "fresh_file w f bf mx" "bf_tableid bf = tab" "bf_td bf = td" "bf_keyField bf = key"
    and room: "Suc b \<le> Suc mx * (leaf_getMaxTuples (w_pageSize w) td div 2)" "mx + 3 \<le> usize (w_numPages w)" and fit: "fits td t"
  shows "\<exists>t' W. bp_insertTuple (Suc (Suc n)) tid tab t w = Inr (t', W) \<and> strip t' = strip t \<and>
    btree_file_rep f tab td key mx W b {#strip t#}"
proof -
  have fit': "fits (bf_td bf) t" and room': "2 \<le> usize (w_numPages w)" using F(3) fit room(2) by simp_all
  obtain t' W b' r rp a l where r: "bp_insertTuple (Suc (Suc n)) tid tab t w = Inr (t', W)" "strip t' = strip t" "same_setting w W"
      "length (w_pool W) = 2" "\<exists>d. b' = bf\<lparr>bf_disk := d\<rparr>" "root_leaf W f b' r rp a l mx" "leaf_tuples l = [strip t]"
    using fresh_insert [OF F(1) ord fit' room', of "Suc n" tid] unfolding F(2) by blast
  have "btree_file_rep f tab td key mx W b {#strip t#}"
    using r(3-5,7) F(2-4) room ord by (intro btree_file_rep_leaf [OF r(6)]) (auto simp: same_setting_def)
  with r(1,2) show ?thesis by blast
qed

lemma fill_leaf:
  assumes ord: "\<And>m. mset (w_order w m) = mset m" and R: "root_leaf w f bf r rp a l mx" "bf_tableid bf = tab" "bf_td bf = td"
      "bf_keyField bf = key"
    and room: "length (leaf_tuples l) + Suc b \<le> Suc mx * (leaf_getMaxTuples (w_pageSize w) td div 2)"
      "length (w_pool w) + mx + 1 \<le> usize (w_numPages w)" and fit: "fits td t"
  shows "\<exists>t' W. bp_insertTuple (Suc (Suc n)) tid tab t w = Inr (t', W) \<and> strip t' = strip t \<and>
    btree_file_rep f tab td key mx W b (add_mset (strip t) (mset (leaf_tuples l)))"
proof -
  have mx: "1 \<le> mx" using R(1) by (simp add: root_leaf_def)
  then have pool: "leaf_getNumEmptySlots l = 0 \<longrightarrow> length (w_pool w) + 2 \<le> usize (w_numPages w)"
    and fit': "fits (bf_td bf) t" using room(2) R(3) fit by simp_all
  obtain t' W where r: "bp_insertTuple (Suc (Suc n)) tid tab t w = Inr (t', W)" "strip t' = strip t" "same_setting w W"
    and cases: "(\<exists>q. root_leaf W f bf r rp a q mx \<and> mset (leaf_tuples q) = add_mset (strip t) (mset (leaf_tuples l)) \<and>
        length (w_pool W) = length (w_pool w)) \<or>
      (\<exists>T. tree_ready W T \<and> half_full T \<and> mset (tree_tuples T) = add_mset (strip t) (mset (leaf_tuples l)) \<and>
        length (w_pool W) = length (w_pool w) + 2 \<and> length (tr_leaves T) = 2 \<and> np_numSlots (tr_root T) = Suc mx \<and>
        tr_file T = f \<and> (\<exists>d. tr_btree T = bf\<lparr>bf_disk := d\<rparr>))"
    using root_insert_run [OF R(1) ord fit' pool, of "Suc n" tid] unfolding R(2) by blast
  have ord': "\<forall>m. mset (w_order W m) = mset m" and eq: "w_pageSize W = w_pageSize w" "w_numPages W = w_numPages w"
    using ord r(3) by (simp_all add: same_setting_def)
  from cases have "btree_file_rep f tab td key mx W b (add_mset (strip t) (mset (leaf_tuples l)))"
  proof (elim disjE exE conjE)
    fix q assume q: "root_leaf W f bf r rp a q mx" "mset (leaf_tuples q) = add_mset (strip t) (mset (leaf_tuples l))"
      "length (w_pool W) = length (w_pool w)"
    have "length (leaf_tuples q) = Suc (length (leaf_tuples l))" using arg_cong [OF q(2), of size] by simp
    with q(2,3) R(2-4) room ord' eq show ?thesis by (intro btree_file_rep_leaf [OF q(1)]) simp_all
  next
    fix T d assume T: "tree_ready W T" "half_full T" "mset (tree_tuples T) = add_mset (strip t) (mset (leaf_tuples l))"
      "length (w_pool W) = length (w_pool w) + 2" "length (tr_leaves T) = 2" "np_numSlots (tr_root T) = Suc mx" "tr_file T = f"
      "tr_btree T = bf\<lparr>bf_disk := d\<rparr>"
    have n: "length (tree_tuples T) = Suc (length (leaf_tuples l))" using arg_cong [OF T(3), of size] by simp
    have "btree_rep f tab td key W b (add_mset (strip t) (mset (leaf_tuples l)))"
      using T(1,2,4-8) R room ord' eq mx n unfolding btree_rep_def by (intro conjI exI [of _ T]) (simp_all add: T(3) [symmetric])
    then show ?thesis unfolding btree_file_rep_def using ord' by (simp add: Let_def)
  qed
  with r(1,2) show ?thesis by blast
qed

lemma btree_file_insert:
  assumes "btree_file_rep f tab td key mx w (Suc b) M" "fits td t"
  shows "\<exists>t' w'. bp_insertTuple (Suc (Suc n)) tid tab t w = Inr (t', w') \<and> strip t' = strip t \<and>
    btree_file_rep f tab td key mx w' b (add_mset (strip t) M)"
proof -
  have ord: "mset (w_order w m) = mset m" for m using assms(1) by (simp add: btree_file_rep_def)
  from assms(1) consider
    (fresh) bf where "fresh_file w f bf mx" "bf_tableid bf = tab" "bf_td bf = td" "bf_keyField bf = key" "M = {#}"
      "Suc b \<le> Suc mx * (leaf_getMaxTuples (w_pageSize w) td div 2)" "mx + 3 \<le> usize (w_numPages w)"
  | (leaf) bf r rp a l where "root_leaf w f bf r rp a l mx" "bf_tableid bf = tab" "bf_td bf = td" "bf_keyField bf = key"
      "M = mset (leaf_tuples l)" "length (leaf_tuples l) + Suc b \<le> Suc mx * (leaf_getMaxTuples (w_pageSize w) td div 2)"
      "length (w_pool w) + mx + 1 \<le> usize (w_numPages w)"
  | (tree) "btree_rep f tab td key w (Suc b) M"
    unfolding btree_file_rep_def Let_def by (elim conjE disjE exE) (auto simp: size_mset)
  then show ?thesis
  proof cases
    case fresh
    with fill_first [OF ord fresh(1-4,6,7) assms(2), of n tid] show ?thesis by simp
  next
    case leaf
    with fill_leaf [OF ord leaf(1-4,6,7) assms(2), of n tid] show ?thesis by simp
  next
    case tree
    from btree_rep_insert [OF this assms(2), of n tid] obtain t' w' where
      r: "bp_insertTuple (Suc (Suc n)) tid tab t w = Inr (t', w')" "strip t' = strip t" "btree_rep f tab td key w' b (add_mset (strip t) M)"
      by blast
    then have "btree_file_rep f tab td key mx w' b (add_mset (strip t) M)"
      by (simp add: btree_file_rep_def btree_rep_def [of f tab td key w'] Let_def)
    with r(1,2) show ?thesis by blast
  qed
qed

section \<open>Scanning a root that is a leaf\<close>

text \<open>
  \<open>begin()\<close> stands on the first used slot of the root leaf, or behind the last slot when none is
  used; it is not \<open>end()\<close>, so the loop dereferences it.
\<close>

lemma root_leaf_begin:
  assumes R: "root_leaf w f b r rp a l mx"
  shows "BTreeIterable_begin (Suc n) None f w = Inr (on_leaf f None a (leaf_next_used l 0), w)"
proof -
  have t: "f < length (w_files w)" "w_files w ! f = BTreeF b" "r < length (w_objs w)" "po_page (w_objs w ! r) = RootPg rp"
      "pm_find (rootptr_getId (bf_tableid b)) (w_pool w) = Some r" "getRootId rp = Some (bp_pid l)" "btree_type (bp_pid l) = LEAF"
    and a: "leaf_resident w a l"
    using R by (auto simp: root_leaf_def file_open_def root_open_def pages_of_def leaf_of_def leaf_resident_def)
  have "bt_findLeafPage (Suc n) (Some (bp_pid l)) False None (w\<lparr>w_dirtypages := []\<rparr>) = Inr (a, w\<lparr>w_dirtypages := []\<rparr>)"
    using a t(7) by (simp add: bt_getPage_resident run_leaf_at leaf_resident_def)
  then have "findLeafPage (Suc n) (Some (bp_pid l)) False None w = Inr (a, w)"
    by (simp add: findLeafPage_def bindM_def del: bt_findLeafPage.simps)
  then have "bindM (findLeafPage (Suc n) (Some (bp_pid l)) False None) m w = m a w" for m :: "nat \<Rightarrow> btree_iter M"
    by (simp add: bindM_def)
  then show ?thesis
    using t a by (simp add: BTreeIterable_begin_def BTreeFileIterator_new_def run_btree run_root_at run_leaf_at
        getPage_hit leaf_resident_def leaf_begin_on on_leaf_def)
qed

lemma root_leaf_scan:
  assumes R: "root_leaf w f b r rp a l mx" and ne: "leaf_tuples l \<noteq> []" and k: "length (leaf_tuples l) < k"
  shows "\<exists>ts. btree_scan (Suc n) k None f w = Inr (ts, w) \<and> map strip ts = leaf_tuples l \<and> (\<forall>t \<in> set ts. leaf_holds l t)"
proof -
  have a: "leaf_resident w a l" and sib: "getRightSiblingId l = None"
    using R by (auto simp: root_leaf_def pages_of_def leaf_of_def leaf_resident_def)
  let ?e = "\<lparr>bi_file = f, bi_pred = None, bi_leaf = None, bi_it = None\<rparr>"
  note root_leaf_begin [OF R, of n]
  moreover have "BTreeIterable_end (Suc n) None f w = Inr (?e, w)"
    by (simp add: BTreeIterable_end_def BTreeFileIterator_new_def)
  moreover have "leaf_next_used l 0 < lp_numSlots l" using ne leaf_next_used_nonempty by simp
  then obtain ts where "bti_collect k (on_leaf f None a (leaf_next_used l 0)) ?e w = Inr (ts, w)" "map strip ts = leaf_tuples l"
      "\<forall>t \<in> set ts. leaf_holds l t"
    using bti_collect_chain [of ?e w "[a]" "[l]" 0 k f None] a sib k ne by (auto simp flip: leaf_tuples_def)
  ultimately show ?thesis by (simp add: btree_scan_def bindM_def)
qed

lemma btree_file_scan:
  assumes "btree_file_rep f tab td key mx w b M" "M \<noteq> {#}" "size M < k"
  shows "\<exists>us. btree_scan (Suc (Suc n)) k None f w = Inr (us, w) \<and> mset (map strip us) = M \<and> sorted (map (key_of key) us)"
proof -
  from assms(1,2) consider
    (leaf) bf r rp a l where "root_leaf w f bf r rp a l mx" "bf_keyField bf = key" "M = mset (leaf_tuples l)"
  | (tree) "btree_rep f tab td key w b M"
    unfolding btree_file_rep_def Let_def by blast
  then show ?thesis
  proof cases
    case leaf
    obtain us where us: "btree_scan (Suc (Suc n)) k None f w = Inr (us, w)" "map strip us = leaf_tuples l"
      using root_leaf_scan [OF leaf(1), of k "Suc n"] assms(2,3) leaf(3) by auto
    have "map (key_of key) us = map (key_of key) (map strip us)" by (simp add: comp_def)
    moreover have "sorted (map (key_of key) (leaf_tuples l))"
      using leaf(1,2) by (auto simp: root_leaf_def leaf_sorted_def leaf_of_def)
    ultimately show ?thesis using us leaf(3) by (simp del: mset_map map_map)
  next
    case tree
    from btree_rep_scan [OF this assms(3)] show ?thesis .
  qed
qed

interpretation btree_file_table: bag_table "bp_insertTuple (Suc (Suc n)) tid tab" "btree_file_rep f tab td key mx" "fits td"
    "\<lambda>k. btree_scan (Suc (Suc n)) k None f" "\<lambda>us. sorted (map (key_of key) us)"
  for n tid tab f td key mx
  by unfold_locales (blast intro: btree_file_insert btree_file_scan)+

text \<open>A new file with pages of 29 bytes: four tuples fill the root leaf, the fifth splits it.\<close>

definition fill_world :: world where
  "fill_world = pool_example0\<lparr>w_pageSize := 29, w_numPages := 5, w_files := [BTreeF (BTreeFile_new 7 0 leaf_example_td)]\<rparr>"

lemma fill_world_simps:
  "bf_tableid (BTreeFile_new 7 0 leaf_example_td) = 7" "bf_td (BTreeFile_new 7 0 leaf_example_td) = leaf_example_td"
  "bf_keyField (BTreeFile_new 7 0 leaf_example_td) = 0" "bf_disk (BTreeFile_new 7 0 leaf_example_td) = []"
  "w_pageSize fill_world = 29" "w_numPages fill_world = 5" "w_files fill_world = [BTreeF (BTreeFile_new 7 0 leaf_example_td)]"
  "w_pool fill_world = []" "w_order fill_world = (\<lambda>m. m)" "getDatabaseFile (w_catalog fill_world) 7 = Inr 0"
  by (simp_all add: BTreeFile_new_def fill_world_def)

lemma fill_world_fresh: "fresh_file fill_world 0 (BTreeFile_new 7 0 leaf_example_td) 2"
proof -
  have "getFieldType leaf_example_td 0 = Inr INT_TYPE" by code_simp
  then show ?thesis by (simp add: fresh_file_def leaves_fit_def fill_world_simps grow_sizes)
qed

text \<open>
  The offsets of the pages of such a file, up to the capacity of the root page, are within the
  \<open>int\<close>s with which the code computes them, on pages of up to 32 KiB.
\<close>

lemma tree_offset_int32:
  assumes "int_getMaxEntries ps td key = Inr mx" "12 \<le> ps" "ps \<le> 2 ^ 15" "1 \<le> n" "n \<le> int mx + 3"
  shows "is_int32 ((n - 1) * int ps)" "is_int32 (btree_offset ps n)"
proof -
  obtain ty where ty: "mx = usize ((int ps - 2 * 4 - 4) * 8 + 1) div ((getLen ty + 4) * 8 + 1)"
    using assms(1) by (auto simp: int_getMaxEntries_def bindE_eq_Inr)
  have "usize ((int ps - 2 * 4 - 4) * 8 + 1) \<le> 33 * ps" using assms(2,3) by (subst usize_small) auto
  also have "\<dots> \<le> ((getLen ty + 4) * 8 + 1) * ps" by (rule mult_le_mono1) simp
  finally have "mx \<le> ((getLen ty + 4) * 8 + 1) * ps div ((getLen ty + 4) * 8 + 1)" unfolding ty by (rule div_le_mono)
  then have "mx \<le> ps" by simp
  with assms(3,5) have "n - 1 \<le> 2 ^ 15 + 2" by simp
  then have "(n - 1) * int ps \<le> (2 ^ 15 + 2) * 2 ^ 15" using assms(3,4) by (intro mult_mono) auto
  then have "int ROOT_PAGE_SIZE + (n - 1) * int ps < 2 ^ 31" by (simp add: ROOT_PAGE_SIZE_def)
  with assms(4) show "is_int32 ((n - 1) * int ps)" "is_int32 (btree_offset ps n)" by (rule btree_offset_int32)+
qed

section \<open>Properties\<close>

text \<open>C1
  The life of a B+ tree file: any tuples of its schema, in any order, inserted one after the other
  through the pool into a file that was just created all go in, as long as their number stays
  below the slots of a root page times half of a leaf, and the pool has room for those pages. The
  first one makes the root pointer page and a leaf, a full root leaf is split under a new root, full
  leaves are split below it. The scan afterwards returns exactly these tuples, each once, sorted by
  the key.
\<close>

theorem btree_fill_from_empty:
  assumes "fresh_file w f b mx" "\<And>m. mset (w_order w m) = mset m" "\<And>t. t \<in> set ts \<Longrightarrow> fits (bf_td b) t"
    "ts \<noteq> []" "length ts \<le> Suc mx * (leaf_getMaxTuples (w_pageSize w) (bf_td b) div 2)"
    "mx + 3 \<le> usize (w_numPages w)" "length ts < k"
  shows "\<exists>w' us. insertTuples (bp_insertTuple (Suc (Suc n)) tid (bf_tableid b)) ts w = Inr ((), w') \<and>
    btree_scan (Suc (Suc n)) k None f w' = Inr (us, w') \<and> mset (map strip us) = mset (map strip ts) \<and>
    sorted (map (key_of (bf_keyField b)) us)"
proof -
  have "btree_file_rep f (bf_tableid b) (bf_td b) (bf_keyField b) mx w (length ts + 0) {#}"
    using assms(1,2,5,6) unfolding btree_file_rep_def Let_def by auto
  from btree_file_table.insert_all_scan [OF this, of k n tid] assms(3,4,7) show ?thesis by auto
qed

theorem btree_fill_from_empty_witness:
  "\<exists>w' us. insertTuples (bp_insertTuple 2 9 7) (map (\<lambda>v. leaf_example_tuple v None) [7, 3, 9, 1, 5, 3]) fill_world = Inr ((), w') \<and>
     btree_scan 2 7 None 0 w' = Inr (us, w') \<and> sorted (map (key_of 0) us) \<and>
     mset (map strip us) = image_mset (\<lambda>v. strip (leaf_example_tuple v None)) {#1, 3, 3, 5, 7, 9#}"
proof -
  let ?b = "BTreeFile_new 7 0 leaf_example_td"
  let ?ts = "map (\<lambda>v. leaf_example_tuple v None) [7, 3, 9, 1, 5, 3]"
  have room: "length ?ts \<le> Suc 2 * (leaf_getMaxTuples (w_pageSize fill_world) (bf_td ?b) div 2)"
      "2 + 3 \<le> usize (w_numPages fill_world)"
    by (simp_all add: fill_world_simps grow_sizes usize_def)
  have "fits (bf_td ?b) t" if "t \<in> set ?ts" for t using that by (auto simp: fill_world_simps leaf_example_fits)
  then obtain w' us where r: "insertTuples (bp_insertTuple (Suc (Suc 0)) 9 7) ?ts fill_world = Inr ((), w')"
      "btree_scan (Suc (Suc 0)) 7 None 0 w' = Inr (us, w')" "mset (map strip us) = mset (map strip ?ts)" "sorted (map (key_of 0) us)"
    using btree_fill_from_empty [OF fill_world_fresh, of ?ts 7 0 9] room unfolding fill_world_simps by (auto simp del: insertTuples.simps list.map mset_map)
  moreover have "mset (map strip ?ts) = image_mset (\<lambda>v. strip (leaf_example_tuple v None)) {#1, 3, 3, 5, 7, 9#}"
    by (simp add: add_mset_commute)
  ultimately show ?thesis unfolding numeral_2_eq_2 by metis
qed

end
