(* ===== verification/BTreeDeleteSpec.thy ===== *)
theory BTreeDeleteSpec
  imports BTreeFill
begin

text \<open>
  Deletion from a B+ tree of two levels whose leaves are at least half full: what happens to the
  tree when the leaf stays half full, when it can steal from its right sibling, when it would
  have to be merged, and when it is not the leftmost one.
\<close>

section \<open>Moving tuples from the front of a leaf\<close>

lemma leaf_next_used_skip:
  "i \<le> s \<Longrightarrow> s \<le> lp_numSlots p \<Longrightarrow> (\<And>k. i \<le> k \<Longrightarrow> k < s \<Longrightarrow> \<not> leaf_isSlotUsed p k) \<Longrightarrow>
   leaf_next_used p i = leaf_next_used p s"
proof (induction "s - i" arbitrary: i)
  case (Suc n)
  then have "i < s" by simp
  with Suc.prems have "leaf_next_used p i = leaf_next_used p (Suc i)" by (simp add: leaf_next_used.simps [of p i])
  with Suc.hyps(1) [of "Suc i"] Suc.hyps(2) Suc.prems \<open>i < s\<close> show ?case by simp
qed simp

lemma leaf_next_used_before:
  "i \<le> k \<Longrightarrow> k < leaf_next_used p i \<Longrightarrow> \<not> leaf_isSlotUsed p k"
proof (induction p i rule: leaf_next_used.induct)
  case (1 p i)
  then show ?case by (cases "k = i") (auto simp: leaf_next_used.simps [of p i] split: if_splits)
qed

lemma leaf_next_used_empty:
  assumes "leaf_tuples p = []"
  shows "leaf_next_used p 0 = lp_numSlots p"
proof (rule ccontr)
  assume "leaf_next_used p 0 \<noteq> lp_numSlots p"
  then have "leaf_next_used p 0 < lp_numSlots p" using leaf_next_used_spec [of 0 p] by simp
  with assms leaf_next_used_spec [of 0 p] show False by (auto simp: leaf_tuples_def leaf_view_drop_used)
qed

text \<open>As \<open>leaf_rbegin_step\<close>, from the other end.\<close>

lemma leaf_begin_step:
  assumes ok: "leaf_ok p" and ne: "leaf_tuples p \<noteq> []"
  obtains s where "leaf_iter_deref p (leaf_begin p) = Inr s" "s < lp_numSlots p" "leaf_isSlotUsed p s"
    "strip (lp_tuples p ! s) = hd (leaf_tuples p)" "\<forall>t. leaf_tuples (leaf_drop p s t) = tl (leaf_tuples p)"
    "\<forall>t. leaf_iter_next (leaf_drop p s t) (leaf_begin p) = leaf_begin (leaf_drop p s t)"
proof -
  let ?s = "leaf_next_used p 0" and ?v = "leaf_view p"
  have s: "?s < lp_numSlots p" by (rule leaf_next_used_nonempty [OF ne])
  have used: "leaf_isSlotUsed p ?s" and v0: "somes ?v = somes (drop ?s ?v)"
    using leaf_next_used_spec [of 0 p] s by auto
  have ts: "leaf_tuples p = strip (lp_tuples p ! ?s) # somes (drop (Suc ?s) ?v)"
    using v0 leaf_view_drop_used [OF s used] by (simp add: leaf_tuples_def)
  have unused: "\<not> leaf_isSlotUsed p k" if "k < ?s" for k using leaf_next_used_before [of 0 k p] that by simp
  have "somes (take ?s ?v) = []" using s unused by (auto simp: somes_Nil_iff in_set_conv_nth leaf_view_nth)
  then have ts': "leaf_tuples (leaf_drop p ?s t) = tl (leaf_tuples p)" for t
    using somes_update [of ?s ?v None] s leaf_drop_spec(1) [OF ok s, of t] ts by (simp add: leaf_tuples_def)
  have nx: "leaf_iter_next (leaf_drop p ?s t) (leaf_begin p) = leaf_begin (leaf_drop p ?s t)" for t
  proof -
    have "leaf_next_used (leaf_drop p ?s t) 0 = leaf_next_used (leaf_drop p ?s t) (Suc ?s)"
      using s unused leaf_drop_spec(4) [OF ok s, of _ t] leaf_frame_simps(5) [OF leaf_drop_spec(3) [OF ok s, of t]]
      by (intro leaf_next_used_skip) (auto simp: less_Suc_eq)
    then show ?thesis by (simp add: leaf_begin_on leaf_iter_next_on)
  qed
  show ?thesis
    using that [of ?s] ts ts' nx s used leaf_deref_on [OF ok s used] by (simp add: leaf_begin_on)
qed

lemma front_give:
  assumes "a \<noteq> c" "a < length (w_objs w)" "c < length (w_objs w)" "g a = LeafPg p" "g c = LeafPg q"
    and p: "leaf_ok p" "leaf_tuples p \<noteq> []" and q: "leaf_ok q" "bp_td q = bp_td p" "0 < leaf_getNumEmptySlots q"
  obtains s p1 q1 where "leaf_iter_deref p (leaf_begin p) = Inr s"
    "leaf_give a c s (with_pages w g m) = Inr ((), with_pages w (g(a := LeafPg p1, c := LeafPg q1)) m)"
    "leaf_iter_next p1 (leaf_begin p) = leaf_begin p1" "leaf_ok p1" "leaf_frame p p1" "leaf_tuples p1 = tl (leaf_tuples p)"
    "leaf_ok q1" "leaf_frame q q1" "mset (leaf_tuples q1) = add_mset (hd (leaf_tuples p)) (mset (leaf_tuples q))"
    "leaf_sorted q \<longrightarrow> leaf_sorted q1" "leaf_getNumEmptySlots q = Suc (leaf_getNumEmptySlots q1)"
proof -
  obtain s where s: "leaf_iter_deref p (leaf_begin p) = Inr s" "s < lp_numSlots p" "leaf_isSlotUsed p s"
      "strip (lp_tuples p ! s) = hd (leaf_tuples p)" "\<forall>t. leaf_tuples (leaf_drop p s t) = tl (leaf_tuples p)"
      "\<forall>t. leaf_iter_next (leaf_drop p s t) (leaf_begin p) = leaf_begin (leaf_drop p s t)"
    using leaf_begin_step [OF p] .
  obtain t q1 where q1: "leaf_give a c s (with_pages w g m) =
        Inr ((), with_pages w (g(a := LeafPg (leaf_drop p s t), c := LeafPg q1)) m)"
      "leaf_ok q1" "leaf_frame q q1" "leaf_tuples q1 = ins_tuple (bp_keyField q) (hd (leaf_tuples p)) (leaf_tuples q)"
    using leaf_give_run [OF assms(1-5) p(1) s(2,3) q, of m] s(4) by auto
  have "leaf_getNumEmptySlots q = Suc (leaf_getNumEmptySlots q1)"
    using leaf_occupancy [of q] leaf_occupancy [of q1] q1(4) leaf_frame_simps [OF q1(3)] by simp
  then show ?thesis
    using that [OF s(1) q1(1)] s(5,6) leaf_drop_spec(2,3) [OF p(1) s(2)] q1(2-4) leaf_sorted_insert [OF _ q1(3,4)] by simp
qed

text \<open>Stealing from the right sibling moves its first \<open>k\<close> tuples.\<close>

lemma steal_leaf_loop_run:
  assumes w: "a \<noteq> c" "a < length (w_objs w)" "c < length (w_objs w)"
  shows "leaf_ok p \<Longrightarrow> leaf_ok q \<Longrightarrow> bp_td q = bp_td p \<Longrightarrow> g a = LeafPg p \<Longrightarrow> g c = LeafPg q \<Longrightarrow>
    k \<le> length (leaf_tuples p) \<Longrightarrow> k \<le> leaf_getNumEmptySlots q \<Longrightarrow>
    \<exists>p' q' s'. steal_leaf_loop c a k (leaf_begin p) s (with_pages w g m) =
        Inr ((leaf_begin p', s'), with_pages w (g(a := LeafPg p', c := LeafPg q')) m) \<and>
      leaf_ok p' \<and> leaf_frame p p' \<and> leaf_tuples p' = drop k (leaf_tuples p) \<and> leaf_ok q' \<and> leaf_frame q q' \<and>
      mset (leaf_tuples q') = mset (take k (leaf_tuples p)) + mset (leaf_tuples q) \<and> (leaf_sorted q \<longrightarrow> leaf_sorted q')"
proof (induction k arbitrary: p q g s)
  case 0
  then have "g(a := LeafPg p, c := LeafPg q) = g" by auto
  then have "with_pages w g m = with_pages w (g(a := LeafPg p, c := LeafPg q)) m" by (simp only:)
  with 0 show ?case by - (rule exI [of _ p], rule exI [of _ q], simp del: fun_upd_apply)
next
  case (Suc k)
  have ne: "leaf_tuples p \<noteq> []" and room: "0 < leaf_getNumEmptySlots q" using Suc.prems(6,7) by auto
  obtain s1 p1 q1 where r: "leaf_iter_deref p (leaf_begin p) = Inr s1"
      "leaf_give a c s1 (with_pages w g m) = Inr ((), with_pages w (g(a := LeafPg p1, c := LeafPg q1)) m)"
      "leaf_iter_next p1 (leaf_begin p) = leaf_begin p1" "leaf_ok p1" "leaf_frame p p1" "leaf_tuples p1 = tl (leaf_tuples p)"
      "leaf_ok q1" "leaf_frame q q1" "mset (leaf_tuples q1) = add_mset (hd (leaf_tuples p)) (mset (leaf_tuples q))"
      "leaf_sorted q \<longrightarrow> leaf_sorted q1" "leaf_getNumEmptySlots q = Suc (leaf_getNumEmptySlots q1)"
    using front_give [OF w Suc.prems(4,5,1) ne Suc.prems(2,3) room, of m] .
  let ?g1 = "g(a := LeafPg p1, c := LeafPg q1)"
  have run: "steal_leaf_loop c a (Suc k) (leaf_begin p) s (with_pages w g m) =
      steal_leaf_loop c a k (leaf_begin p1) s1 (with_pages w ?g1 m)"
    using w Suc.prems(4) r(1-3) by (simp add: bindM_apply)
  have prems: "bp_td q1 = bp_td p1" "k \<le> length (leaf_tuples p1)" "k \<le> leaf_getNumEmptySlots q1"
    using Suc.prems(3,6,7) r(6,11) leaf_frame_simps [OF r(5)] leaf_frame_simps [OF r(8)] by simp_all
  have at: "?g1 a = LeafPg p1" "?g1 c = LeafPg q1" using w(1) by simp_all
  obtain p' q' s' where p': "steal_leaf_loop c a k (leaf_begin p1) s1 (with_pages w ?g1 m) =
        Inr ((leaf_begin p', s'), with_pages w (?g1(a := LeafPg p', c := LeafPg q')) m)"
      "leaf_ok p'" "leaf_frame p1 p'" "leaf_tuples p' = drop k (leaf_tuples p1)" "leaf_ok q'" "leaf_frame q1 q'"
      "mset (leaf_tuples q') = mset (take k (leaf_tuples p1)) + mset (leaf_tuples q1)" "leaf_sorted q1 \<longrightarrow> leaf_sorted q'"
    using Suc.IH [OF r(4,7) prems(1) at prems(2,3), of s1] by blast
  have "?g1(a := LeafPg p', c := LeafPg q') = g(a := LeafPg p', c := LeafPg q')" using w(1) by auto
  moreover have "mset (leaf_tuples q') = mset (take (Suc k) (leaf_tuples p)) + mset (leaf_tuples q)"
    using p'(7) r(6,9) ne by (cases "leaf_tuples p") auto
  moreover have "leaf_tuples p' = drop (Suc k) (leaf_tuples p)" using p'(4) r(6) by (simp add: drop_Suc)
  ultimately show ?case
    using run p' r(10) leaf_frame_trans [OF r(5) p'(3)] leaf_frame_trans [OF r(8) p'(6)]
    by - (rule exI [of _ p'], rule exI [of _ q'], simp del: fun_upd_apply)
qed

text \<open>Merging moves them all; the index grows with every round, so a round per slot and one more are enough.\<close>

lemma merge_leaf_loop_run:
  assumes w: "a \<noteq> c" "a < length (w_objs w)" "c < length (w_objs w)"
  shows "leaf_ok p \<Longrightarrow> leaf_ok q \<Longrightarrow> bp_td q = bp_td p \<Longrightarrow> g a = LeafPg p \<Longrightarrow> g c = LeafPg q \<Longrightarrow>
    length (leaf_tuples p) < n \<Longrightarrow> length (leaf_tuples p) \<le> leaf_getNumEmptySlots q \<Longrightarrow> ite = leaf_end p \<Longrightarrow>
    \<exists>p' q'. merge_leaf_loop n c a (leaf_begin p) ite (with_pages w g m) =
        Inr ((), with_pages w (g(a := LeafPg p', c := LeafPg q')) m) \<and>
      leaf_ok p' \<and> leaf_frame p p' \<and> leaf_tuples p' = [] \<and> leaf_ok q' \<and> leaf_frame q q' \<and>
      mset (leaf_tuples q') = mset (leaf_tuples p) + mset (leaf_tuples q) \<and> (leaf_sorted q \<longrightarrow> leaf_sorted q')"
proof (induction n arbitrary: p q g)
  case (Suc n)
  show ?case
  proof (cases "leaf_tuples p = []")
    case True
    have "leaf_next_used p 0 = lp_numSlots p" by (rule leaf_next_used_empty [OF True])
    then have "\<not> leaf_iter_ne (leaf_begin p) ite" using Suc.prems(8) by (simp add: leaf_begin_on leaf_on_end)
    moreover have "g(a := LeafPg p, c := LeafPg q) = g" using Suc.prems(4,5) by auto
    then have "with_pages w g m = with_pages w (g(a := LeafPg p, c := LeafPg q)) m" by (simp only:)
    ultimately show ?thesis
      using Suc.prems(1,2) True by - (rule exI [of _ p], rule exI [of _ q], simp del: fun_upd_apply)
  next
    case False
    have room: "0 < leaf_getNumEmptySlots q" using Suc.prems(7) False by (cases "leaf_tuples p") auto
    obtain s1 p1 q1 where r: "leaf_iter_deref p (leaf_begin p) = Inr s1"
        "leaf_give a c s1 (with_pages w g m) = Inr ((), with_pages w (g(a := LeafPg p1, c := LeafPg q1)) m)"
        "leaf_iter_next p1 (leaf_begin p) = leaf_begin p1" "leaf_ok p1" "leaf_frame p p1" "leaf_tuples p1 = tl (leaf_tuples p)"
        "leaf_ok q1" "leaf_frame q q1" "mset (leaf_tuples q1) = add_mset (hd (leaf_tuples p)) (mset (leaf_tuples q))"
        "leaf_sorted q \<longrightarrow> leaf_sorted q1" "leaf_getNumEmptySlots q = Suc (leaf_getNumEmptySlots q1)"
      using front_give [OF w Suc.prems(4,5,1) False Suc.prems(2,3) room, of m] .
    let ?g1 = "g(a := LeafPg p1, c := LeafPg q1)"
    have "leaf_iter_ne (leaf_begin p) ite"
      using leaf_next_used_nonempty [OF False] Suc.prems(8) by (simp add: leaf_begin_on leaf_on_end)
    then have run: "merge_leaf_loop (Suc n) c a (leaf_begin p) ite (with_pages w g m) =
        merge_leaf_loop n c a (leaf_begin p1) ite (with_pages w ?g1 m)"
      using w Suc.prems(4) r(1-3) by (simp add: bindM_apply)
    obtain x xs where xs: "leaf_tuples p = x # xs" using False by (cases "leaf_tuples p") auto
    have prems: "bp_td q1 = bp_td p1" "length (leaf_tuples p1) < n" "length (leaf_tuples p1) \<le> leaf_getNumEmptySlots q1"
        "ite = leaf_end p1"
      using Suc.prems(3,6,7,8) r(6,11) xs leaf_frame_simps [OF r(5)] leaf_frame_simps [OF r(8)] by (simp_all add: leaf_end_def)
    have at: "?g1 a = LeafPg p1" "?g1 c = LeafPg q1" using w(1) by simp_all
    obtain p' q' where p': "merge_leaf_loop n c a (leaf_begin p1) ite (with_pages w ?g1 m) =
          Inr ((), with_pages w (?g1(a := LeafPg p', c := LeafPg q')) m)"
        "leaf_ok p'" "leaf_frame p1 p'" "leaf_tuples p' = []" "leaf_ok q'" "leaf_frame q1 q'"
        "mset (leaf_tuples q') = mset (leaf_tuples p1) + mset (leaf_tuples q1)" "leaf_sorted q1 \<longrightarrow> leaf_sorted q'"
      using Suc.IH [OF r(4,7) prems(1) at prems(2-4)] by blast
    have "?g1(a := LeafPg p', c := LeafPg q') = g(a := LeafPg p', c := LeafPg q')" using w(1) by auto
    moreover have "mset (leaf_tuples q') = mset (leaf_tuples p) + mset (leaf_tuples q)"
      using p'(7) r(6,9) False by (cases "leaf_tuples p") auto
    ultimately show ?thesis
      using run p' r(10) leaf_frame_trans [OF r(5) p'(3)] leaf_frame_trans [OF r(8) p'(6)]
      by - (rule exI [of _ p'], rule exI [of _ q'], simp del: fun_upd_apply)
  qed
qed simp

section \<open>The new key between two leaves\<close>

lemma int_check_next_spec:
  assumes "int_ok p" "\<And>b. b \<in> set (somes (drop i (int_view p))) \<Longrightarrow> key_ge (fst b) (sint sv)" "1 \<le> i"
  shows "int_check_next p (Some (IntField sv)) i = Inr ()"
  using assms(2,3)
proof (induction "np_numSlots p - i" arbitrary: i)
  case 0
  then show ?case by (simp add: int_check_next.simps [of p _ i])
next
  case (Suc n)
  then have i: "i < np_numSlots p" by simp
  have d: "drop i (int_view p) = int_view p ! i # drop (Suc i) (int_view p)" using i by (simp add: Cons_nth_drop_Suc)
  show ?case
  proof (cases "int_isSlotUsed p i")
    case True
    with assms(1) i Suc.prems(2) obtain v where v: "np_keys p ! i = Some (IntField v)" by (auto simp: int_ok_def)
    with Suc.prems(1) [of "(np_keys p ! i, np_children p ! i)"] True i have "sint sv \<le> sint v"
      by (auto simp: d int_view_nth key_ge_def)
    with True i v show ?thesis by (simp add: int_check_next.simps [of p _ i])
  next
    case False
    with Suc.hyps(1) [of "Suc i"] Suc.hyps(2) Suc.prems i show ?thesis
      by (simp add: int_check_next.simps [of p _ i] d int_view_nth)
  qed
qed

text \<open>The first two slots of the page are used, so the first entry is the one of slot 1.\<close>

lemma first_slots:
  assumes "int_ok p" "int_isSlotUsed p 0" "int_isSlotUsed p 1" "int_pairs p = (k0, c0) # (k1, c1) # bs"
  shows "k0 = None" "np_children p ! 0 = c0" "np_keys p ! 1 = k1" "np_children p ! 1 = c1" "bs = somes (drop 2 (int_view p))"
    "int_view p = Some (None, c0) # Some (k1, c1) # drop 2 (int_view p)"
proof -
  have n: "2 \<le> np_numSlots p" "np_keys p ! 0 = None" using assms(1) by (simp_all add: int_ok_def)
  have "int_view p = int_view p ! 0 # int_view p ! 1 # drop 2 (int_view p)"
    using n by (simp add: Cons_nth_drop_Suc numeral_2_eq_2)
  then have v: "int_view p = Some (None, np_children p ! 0) # Some (np_keys p ! 1, np_children p ! 1) # drop 2 (int_view p)"
    using assms(2,3) n by (simp add: int_view_nth)
  then have "int_pairs p = (None, np_children p ! 0) # (np_keys p ! 1, np_children p ! 1) # somes (drop 2 (int_view p))"
    by (metis int_pairs_def somes.simps(3))
  with assms(4) show "k0 = None" "np_children p ! 0 = c0" "np_keys p ! 1 = k1" "np_children p ! 1 = c1"
      "bs = somes (drop 2 (int_view p))" by auto
  with v show "int_view p = Some (None, c0) # Some (k1, c1) # drop 2 (int_view p)" by simp
qed

lemma updateEntry_first:
  assumes p: "int_ok p" "int_isSlotUsed p 0" "int_isSlotUsed p 1" "int_pairs p = (None, c0) # (k1, c1) # bs"
    and bs: "\<And>b. b \<in> set bs \<Longrightarrow> key_ge (fst b) (sint sv)"
  shows "\<exists>p'. updateEntry p \<lparr>e_key = Some (IntField sv), e_left = Some (int_child p c0), e_right = Some (int_child p c1),
        e_rid = Some \<lparr>rid_pid = bp_pid p, rid_tupleno = 1\<rparr>\<rparr> = Inr p' \<and>
    int_ok p' \<and> int_frame p p' \<and> int_pairs p' = (None, c0) # (Some (IntField sv), c1) # bs \<and>
    int_isSlotUsed p' 0 \<and> int_isSlotUsed p' 1"
proof -
  note v = first_slots [OF p]
  have ok: "2 \<le> np_numSlots p" "length (np_keys p) = np_numSlots p" "length (np_children p) = np_numSlots p"
      "np_numSlots p \<le> 8 * length (np_header p)"
    using p(1) by (simp_all add: int_ok_def)
  let ?p = "p\<lparr>np_children := (np_children p)[1 := c1], np_keys := (np_keys p)[1 := Some (IntField sv)]\<rparr>"
  have "(np_children p)[0 := c0] = np_children p" using v(2) by (metis list_update_id)
  then have "p\<lparr>np_children := (np_children p)[0 := c0]\<rparr> = p" by simp
  moreover have "int_check_next p (Some (IntField sv)) 2 = Inr ()"
    using bs v(5) by (intro int_check_next_spec [OF p(1)]) auto
  ultimately have "updateEntry p \<lparr>e_key = Some (IntField sv), e_left = Some (int_child p c0), e_right = Some (int_child p c1),
        e_rid = Some \<lparr>rid_pid = bp_pid p, rid_tupleno = 1\<rparr>\<rparr> = Inr ?p"
    using ok p(2,3)
    by (simp add: updateEntry_def int_isSlotUsedE_def int_child_def Let_def nat_add_distrib numeral_2_eq_2)
  moreover have "int_view ?p = Some (None, c0) # Some (Some (IntField sv), c1) # drop 2 (int_view p)"
  proof -
    have "int_view ?p = (int_view p)[1 := Some (Some (IntField sv), c1)]"
      using ok p(3) by (intro nth_equalityI) (auto simp: int_view_nth nth_list_update)
    also have "\<dots> = Some (None, c0) # Some (Some (IntField sv), c1) # drop 2 (int_view p)"
      by (subst v(6)) simp
    finally show ?thesis .
  qed
  then have "int_pairs ?p = (None, c0) # (Some (IntField sv), c1) # bs" using v(5) by (simp add: int_pairs_def)
  moreover have "int_ok ?p" using p(1) by (auto simp: int_ok_def nth_list_update)
  moreover have "int_frame p ?p" by simp
  ultimately show ?thesis using p(2,3) by (intro exI [of _ ?p]) simp
qed

section \<open>Stealing from the right sibling\<close>

definition stolen :: "leaf_page \<Rightarrow> leaf_page \<Rightarrow> nat" where
  "stolen q p = (length (leaf_tuples p) - length (leaf_tuples q)) div 2"

lemma stealFromLeafPage_run:
  assumes w: "a \<noteq> c" "r \<noteq> a" "r \<noteq> c" "a < length (w_objs w)" "c < length (w_objs w)" "r < length (w_objs w)"
      "g a = LeafPg p" "g c = LeafPg q" "g r = IntPg x"
    and f: "f < length (w_files w)" "w_files w ! f = BTreeF b" "bf_keyField b = bp_keyField p"
    and p: "leaf_ok p" and q: "leaf_ok q" "bp_td q = bp_td p" "lp_numSlots q = lp_numSlots p"
    and more: "length (leaf_tuples q) + 2 \<le> length (leaf_tuples p)"
    and x: "int_ok x" "int_isSlotUsed x 0" "int_isSlotUsed x 1" "int_pairs x = (None, c0) # (k1, c1) # bs"
    and bs: "\<And>b t. b \<in> set bs \<Longrightarrow> t \<in> set (leaf_tuples p) \<Longrightarrow> key_ge (fst b) (key_of (bp_keyField p) t)"
    and e: "e_left e = Some (int_child x c0)" "e_right e = Some (int_child x c1)"
      "e_rid e = Some \<lparr>rid_pid = bp_pid x, rid_tupleno = 1\<rparr>"
  defines "k \<equiv> stolen q p"
  shows "\<exists>p' q' x' sv. stealFromLeafPage f c a r e True (with_pages w g m) =
      Inr ((), with_pages w (g(a := LeafPg p', c := LeafPg q', r := IntPg x')) m) \<and>
    leaf_ok p' \<and> leaf_frame p p' \<and> leaf_tuples p' = drop k (leaf_tuples p) \<and>
    leaf_ok q' \<and> leaf_frame q q' \<and> mset (leaf_tuples q') = mset (take k (leaf_tuples p)) + mset (leaf_tuples q) \<and>
    (leaf_sorted q \<longrightarrow> leaf_sorted q') \<and> sint sv = key_of (bp_keyField p) (leaf_tuples p ! k) \<and>
    int_ok x' \<and> int_frame x x' \<and> int_pairs x' = (None, c0) # (Some (IntField sv), c1) # bs \<and>
    int_isSlotUsed x' 0 \<and> int_isSlotUsed x' 1"
proof -
  have k: "0 < k" "k < length (leaf_tuples p)" using more by (auto simp: k_def stolen_def)
  have kq: "k \<le> leaf_getNumEmptySlots q"
    using more leaf_occupancy [of p] leaf_occupancy [of q] q(3) by (simp add: k_def stolen_def)
  obtain p' q' s' where l: "steal_leaf_loop c a k (leaf_begin p) 0 (with_pages w g m) =
        Inr ((leaf_begin p', s'), with_pages w (g(a := LeafPg p', c := LeafPg q')) m)"
      "leaf_ok p'" "leaf_frame p p'" "leaf_tuples p' = drop k (leaf_tuples p)" "leaf_ok q'" "leaf_frame q q'"
      "mset (leaf_tuples q') = mset (take k (leaf_tuples p)) + mset (leaf_tuples q)" "leaf_sorted q \<longrightarrow> leaf_sorted q'"
    using steal_leaf_loop_run [OF w(1,4,5) p q(1,2) w(7,8) less_imp_le [OF k(2)] kq, of 0 m] by blast
  have ne: "leaf_tuples p' \<noteq> []" using l(4) k(2) by simp
  have hd: "hd (leaf_tuples p') = leaf_tuples p ! k" using l(4) k(2) by (simp add: hd_drop_conv_nth)
  obtain s where s: "leaf_iter_deref p' (leaf_begin p') = Inr s" "s < lp_numSlots p'" "leaf_isSlotUsed p' s"
      "strip (lp_tuples p' ! s) = leaf_tuples p ! k"
    using leaf_begin_step [OF l(2) ne] unfolding hd by metis
  have ok: "s < length (lp_tuples p')" "fits (bp_td p') (lp_tuples p' ! s)" "0 \<le> bp_keyField p'" "nat (bp_keyField p') < numFields (bp_td p')"
    using l(2) s(2,3) by (simp_all add: leaf_ok_def)
  obtain sv where sv: "getField (lp_tuples p' ! s) (bp_keyField p') = Inr (IntField sv)"
      "key_of (bp_keyField p') (lp_tuples p' ! s) = sint sv" using key_of_fits [OF ok(2-4)] by auto
  have kf: "bp_keyField p' = bp_keyField p" using leaf_frame_simps [OF l(3)] by simp
  then have svk: "sint sv = key_of (bp_keyField p) (leaf_tuples p ! k)" using sv(2) s(4) by (metis key_of_strip)
  have ge: "key_ge (fst b) (sint sv)" if "b \<in> set bs" for b
    unfolding svk by (rule bs [OF that nth_mem [OF k(2)]])
  obtain x' where x': "updateEntry x \<lparr>e_key = Some (IntField sv), e_left = Some (int_child x c0), e_right = Some (int_child x c1),
        e_rid = Some \<lparr>rid_pid = bp_pid x, rid_tupleno = 1\<rparr>\<rparr> = Inr x'"
      "int_ok x'" "int_frame x x'" "int_pairs x' = (None, c0) # (Some (IntField sv), c1) # bs" "int_isSlotUsed x' 0" "int_isSlotUsed x' 1"
    using updateEntry_first [OF x ge] by blast
  have ent: "e\<lparr>e_key := Some (IntField sv)\<rparr> = \<lparr>e_key = Some (IntField sv), e_left = Some (int_child x c0),
      e_right = Some (int_child x c1), e_rid = Some \<lparr>rid_pid = bp_pid x, rid_tupleno = 1\<rparr>\<rparr>" using e by (cases e) simp
  have items: "c_div (int (leaf_getNumTuples p) - int (leaf_getNumTuples q)) 2 = int k"
    using more by (simp add: leaf_getNumTuples_eq c_div_def k_def stolen_def zdiv_int of_nat_diff)
  have "stealFromLeafPage f c a r e True (with_pages w g m) =
      Inr ((), with_pages w (g(a := LeafPg p', c := LeafPg q', r := IntPg x')) m)"
    using w f k l(1) s(1) ok(1) sv(1) kf x'(1) items ent
    by (simp add: stealFromLeafPage_def updateEntry_at_def Let_def bindM_apply(1) [where m = "steal_leaf_loop c a k (leaf_begin p) 0", OF l(1)])
  with l(2-8) svk x'(2-6) show ?thesis by blast
qed

section \<open>A leaf below minimum occupancy\<close>

definition first_entry :: "internal_page \<Rightarrow> int \<Rightarrow> field option \<Rightarrow> int \<Rightarrow> btree_entry" where
  "first_entry x c0 k1 c1 = \<lparr>e_key = k1, e_left = Some (int_child x c0), e_right = Some (int_child x c1),
     e_rid = Some \<lparr>rid_pid = bp_pid x, rid_tupleno = 1\<rparr>\<rparr>"

lemma first_entry_iter:
  assumes "int_ok x" "int_isSlotUsed x 0" "int_isSlotUsed x 1" "int_pairs x = (None, c0) # (k1, c1) # bs"
  obtains it ite where "int_begin x = Inr it" "int_end x = Inr ite" "int_iter_ne it ite"
    "int_iter_deref x it = Inr (first_entry x c0 k1 c1)"
proof -
  note v = first_slots [OF assms]
  from int_begin_spec [OF assms(1-3)] obtain it where it: "int_begin x = Inr it" "iter_on x 1 (np_children x ! 0) it" .
  have "\<exists>ite. int_end x = Inr ite \<and> int_iter_ne it ite"
    using it(2) by (auto simp: int_end_def int_iter_new_def int_iter_ne_def iter_on_def)
  moreover have "int_iter_deref x it = Inr (first_entry x c0 k1 c1)"
    using iter_on_deref [OF assms(1) it(2)] v(2-4) by (simp add: first_entry_def)
  ultimately show ?thesis using that it(1) by blast
qed

lemma handleMin_run:
  assumes g: "c < length (w_objs w)" "g c = LeafPg q" "r < length (w_objs w)" "g r = IntPg x"
    and par: "getParentId q = bp_pid x" "btree_type (bp_pid x) = INTERNAL" "btree_type (bp_pid q) = LEAF"
    and fx: "pm_find (bp_pid x) m = None" "pm_find (bp_pid x) (w_pool w) = Some r"
    and x: "int_ok x" "int_isSlotUsed x 0" "int_isSlotUsed x 1" "int_pairs x = (None, c0) # (k1, c1) # bs"
  shows "\<not> pid_eq (int_child x c0) (bp_pid q) \<Longrightarrow> handleMinOccupancyPage dpe n f c (with_pages w g m) = Inl OutOfFuel"
    and "pid_eq (int_child x c0) (bp_pid q) \<Longrightarrow> handleMinOccupancyPage dpe (Suc n) f c (with_pages w g m) =
      handleMinOccupancyLeafPage dpe (Suc n) f c (Some r) None (Some (first_entry x c0 k1 c1)) (with_pages w g (pm_put (bp_pid x) r m))"
proof -
  obtain it ite where it: "int_begin x = Inr it" "int_end x = Inr ite" "int_iter_ne it ite"
      "int_iter_deref x it = Inr (first_entry x c0 k1 c1)"
    using first_entry_iter [OF x] .
  have "pm_find (bp_pid x) m = Some r \<or> pm_find (bp_pid x) m = None \<and> pm_find (bp_pid x) (w_pool w) = Some r"
    using fx by simp
  note hit = with_pages_getPage(2) [OF this]
  show "handleMinOccupancyPage dpe n f c (with_pages w g m) = Inl OutOfFuel" if "\<not> pid_eq (int_child x c0) (bp_pid q)"
    using find_siblings_stuck [OF it(3,4), of "int_child x c0" "int_child x c1" "bp_pid q" n None] that g par fx it
    by (simp add: handleMinOccupancyPage_def page_getParentId_def first_entry_def hit bindM_assoc)
  show "handleMinOccupancyPage dpe (Suc n) f c (with_pages w g m) =
      handleMinOccupancyLeafPage dpe (Suc n) f c (Some r) None (Some (first_entry x c0 k1 c1)) (with_pages w g (pm_put (bp_pid x) r m))"
    if "pid_eq (int_child x c0) (bp_pid q)"
    using that g par fx it
    by (simp add: handleMinOccupancyPage_def page_getParentId_def first_entry_def hit bindM_assoc)
qed

section \<open>Trees with other leaves and keys\<close>

definition tree_repl :: "btree_pages \<Rightarrow> internal_page \<Rightarrow> leaf_page list \<Rightarrow> btree_pages" where
  "tree_repl T x ls = T\<lparr>tr_root := x, tr_leaves := ls\<rparr>"

lemma tree_repl_simps [simp]:
  "tr_file (tree_repl T x ls) = tr_file T" "tr_btree (tree_repl T x ls) = tr_btree T" "tr_ptr (tree_repl T x ls) = tr_ptr T"
  "tr_rootptr (tree_repl T x ls) = tr_rootptr T" "tr_raddr (tree_repl T x ls) = tr_raddr T" "tr_root (tree_repl T x ls) = x"
  "tr_addrs (tree_repl T x ls) = tr_addrs T" "tr_leaves (tree_repl T x ls) = ls"
  by (simp_all add: tree_repl_def)

lemma leaf_frame_ids: "leaf_frame l l' \<Longrightarrow> getRightSiblingId l' = getRightSiblingId l" "leaf_frame l l' \<Longrightarrow> getParentId l' = getParentId l"
  using leaf_frame_simps [of l l'] by (simp_all add: getRightSiblingId_def getParentId_def)

text \<open>A leaf that keeps its place in the tree.\<close>

definition same_place :: "leaf_page \<Rightarrow> leaf_page \<Rightarrow> bool" where
  "same_place l l' \<longleftrightarrow> leaf_ok l' \<and> leaf_frame l l' \<and> leaf_tuples l' \<noteq> []"

lemma same_place_simps:
  assumes "same_place l l'"
  shows "bp_pid l' = bp_pid l" "getRightSiblingId l' = getRightSiblingId l" "getParentId l' = getParentId l"
    "leaf_ok l'" "leaf_tuples l' \<noteq> []" "leaf_frame l l'"
  using assms leaf_frame_simps(1) [of l l'] leaf_frame_ids [of l l'] by (simp_all add: same_place_def)

lemma same_place_chained: "list_all2 same_place ls ls' \<Longrightarrow> chained ls \<Longrightarrow> chained ls'"
proof (induction ls arbitrary: ls' rule: chained.induct)
  case (2 l)
  then show ?case by (auto simp: list_all2_Cons1 dest: same_place_simps(2))
next
  case (3 l m ls)
  from 3(2) obtain l' m' ks where ls': "ls' = l' # m' # ks" and p: "same_place l l'" "same_place m m'" "list_all2 same_place (m # ls) (m' # ks)"
    by (auto simp: list_all2_Cons1)
  with 3(1) [OF p(3)] 3(3) show ?case
    by (simp add: ls' same_place_simps [OF p(1)] same_place_simps [OF p(2)])
qed simp

lemma tree_ready_repl:
  assumes R: "tree_ready w T"
    and x: "int_ok x" "int_frame (tr_root T) x" "int_isSlotUsed x 0" "int_isSlotUsed x 1"
      "map snd (int_pairs x) = map snd (int_pairs (tr_root T))"
    and ls: "list_all2 same_place (tr_leaves T) ls" and srt: "sorted (tree_keys (tree_repl T x ls))"
    and W: "same_setting w W" "w_files W = w_files w" "w_pool W = w_pool w" "length (w_objs W) = length (w_objs w)"
      "pages_of W (tr_ptr T) = RootPg (tr_rootptr T)" "pages_of W (tr_raddr T) = IntPg x"
      "\<And>i. i < length ls \<Longrightarrow> pages_of W (tr_addrs T ! i) = LeafPg (ls ! i)"
  shows "tree_ready W (tree_repl T x ls)"
proof -
  have T: "tree_in_pool w T" using R by (simp add: tree_ready_def)
  note t = T [unfolded tree_in_pool_def] and len = tree_lengths [OF T] and fx = int_frame_simps [OF x(2)]
  have n: "length ls = length (tr_leaves T)" using ls by (simp add: list_all2_lengthD)
  have same: "same_place (tr_leaves T ! i) (ls ! i)" if "i < length ls" for i using ls that n by (simp add: list_all2_conv_all_nth)
  note sp = same_place_simps [OF same]
  have pids: "map bp_pid ls = map bp_pid (tr_leaves T)" using sp n by (intro nth_equalityI) simp_all
  have child: "int_child x = int_child (tr_root T)" by (simp add: int_child_def fx fun_eq_iff)
  have "map (\<lambda>y. int_child (tr_root T) (snd y)) (int_pairs x) = map (\<lambda>y. int_child (tr_root T) (snd y)) (int_pairs (tr_root T))"
    using arg_cong [OF x(5), of "map (int_child (tr_root T))"] by (simp add: comp_def)
  then have kids: "map bp_pid ls = map (\<lambda>y. int_child x (snd y)) (int_pairs x)" using t pids child by simp
  have res: "list_all2 (leaf_resident W) (tr_addrs T) ls"
    using t W(3,4,7) n len(2) sp(1,4)
    by (auto simp: list_all2_conv_all_nth leaf_resident_def pages_of_def)
  have lv: "\<forall>l \<in> set ls. leaf_of w (tr_btree T) l \<and> getParentId l = bp_pid (tr_root T) \<and> leaf_tuples l \<noteq> []"
  proof
    fix l assume "l \<in> set ls"
    then obtain i where i: "i < length ls" "l = ls ! i" by (auto simp: in_set_conv_nth)
    have "leaf_of w (tr_btree T) (tr_leaves T ! i)" "getParentId (tr_leaves T ! i) = bp_pid (tr_root T)"
      using R i(1) n by (simp_all add: tree_ready_def)
    then show "leaf_of w (tr_btree T) l \<and> getParentId l = bp_pid (tr_root T) \<and> leaf_tuples l \<noteq> []"
      using leaf_of_frame [OF _ sp(6,4) [OF i(1)]] sp(3,5) [OF i(1)] i(2) by simp
  qed
  have "tree_in_pool W (tree_repl T x ls)"
    using t W x(1,3,4) fx kids res same_place_chained [OF ls] lv
    by (simp add: tree_in_pool_def pages_of_def) (simp add: leaf_of_def)
  moreover have st: "file_open W = file_open w" "leaves_fit W = leaves_fit w" "leaf_of W = leaf_of w" "w_pageSize W = w_pageSize w"
    using W by (simp_all add: file_open_def disk_fresh_def leaves_fit_def leaf_of_def same_setting_def fun_eq_iff)
  moreover have "root_open W (pages_of W) (tr_btree T) (tr_ptr T) (tr_rootptr T)"
    using R W by (simp add: root_open_def tree_ready_def)
  ultimately show ?thesis using R lv srt fx by (simp add: tree_ready_def)
qed

section \<open>The leaf that loses the tuple\<close>

lemma leaf_without:
  assumes "leaf_ok p" "s < lp_numSlots p" "leaf_isSlotUsed p s"
  defines "q \<equiv> leaf_markSlotUsed p s False"
  obtains A B where "leaf_tuples p = A @ strip (lp_tuples p ! s) # B" "leaf_tuples q = A @ B" "leaf_ok q" "leaf_frame p q"
proof -
  have "q = leaf_drop p s (lp_tuples p ! s)" by (simp add: q_def leaf_drop_def)
  note d = leaf_drop_spec [OF assms(1,2), where t = "lp_tuples p ! s", folded this]
  have "leaf_tuples p = somes (take s (leaf_view p)) @ strip (lp_tuples p ! s) # somes (drop (Suc s) (leaf_view p))"
    using somes_split [of s "leaf_view p"] assms(2,3) by (simp add: leaf_tuples_def leaf_view_nth)
  moreover have "leaf_tuples q = somes (take s (leaf_view p)) @ somes (drop (Suc s) (leaf_view p))"
    using somes_update [of s "leaf_view p" None] assms(2) d(1) by (simp add: leaf_tuples_def)
  ultimately show ?thesis using that d(2,3) by blast
qed

lemma leaf_less_keys:
  assumes "leaf_frame p q" "leaf_tuples p = A @ x # B" "leaf_tuples q = A @ B"
  shows "sorted (leaf_keys p) \<Longrightarrow> sorted (leaf_keys q)" "set (leaf_keys q) \<subseteq> set (leaf_keys p)"
  using assms leaf_frame_simps [OF assms(1)] by (auto simp: leaf_keys_def sorted_append)

lemma sorted_mid_shrink:
  fixes M :: "int list"
  shows "sorted (A @ M @ B) \<Longrightarrow> (sorted M \<Longrightarrow> sorted M') \<Longrightarrow> set M' \<subseteq> set M \<Longrightarrow> sorted (A @ M' @ B)"
  by (auto simp: sorted_append)

lemma tree_keys_shrink:
  assumes T: "tree_in_pool w T" and srt: "sorted (tree_keys T)" and j: "j < length (tr_leaves T)"
    and q: "sorted (leaf_keys (tr_leaves T ! j)) \<Longrightarrow> sorted (leaf_keys q)" "set (leaf_keys q) \<subseteq> set (leaf_keys (tr_leaves T ! j))"
  shows "sorted (tree_keys (tree_repl T (tr_root T) ((tr_leaves T)[j := q])))"
proof -
  note len = tree_lengths(1) [OF T]
  note sp = keys_split [OF j len]
  have "concat (map2 (\<lambda>x l. sep_keys (fst x) @ leaf_keys l) (int_pairs (tr_root T)) ((tr_leaves T)[j := tr_leaves T ! j])) = tree_keys T"
    by (simp add: tree_keys_def)
  with srt have "sorted (concat (map2 (\<lambda>x l. sep_keys (fst x) @ leaf_keys l) (int_pairs (tr_root T)) ((tr_leaves T)[j := tr_leaves T ! j])))"
    by (simp only:)
  from sorted_mid_shrink [OF this [unfolded sp] q] show ?thesis by (simp add: tree_keys_def sp)
qed

text \<open>\<open>deleteTuple\<close> up to the question whether the leaf is below minimum occupancy.\<close>

lemma leaf_delete_to:
  assumes f: "f < length (w_files w)" "w_files w ! f = BTreeF b" and lo: "leaf_of w b l"
    and a: "a < length (w_objs w)" "pages_of w a = LeafPg l" "pm_find (bp_pid l) (w_pool w) = Some a"
    and s: "s < lp_numSlots l" "leaf_isSlotUsed l s"
  defines "q \<equiv> leaf_markSlotUsed l s False"
  shows "BTreeFile_deleteTuple n f tid (lp_tuples l ! s) w =
    bindM (if length (leaf_tuples q) < leaf_getMaxTuples (w_pageSize w) (bf_td b) div 2
           then handleMinOccupancyPage (deleteParentEntry n f) n f a else returnM ())
      (\<lambda>_. bindM dirty_pages (\<lambda>ds. returnM (setRecordId (lp_tuples l ! s) None, ds)))
      (with_pages w ((pages_of w)(a := LeafPg q)) [(bp_pid l, a)])"
proof -
  note lf = lo [unfolded leaf_of_def]
  obtain A B where q: "leaf_tuples l = A @ strip (lp_tuples l ! s) # B" "leaf_tuples q = A @ B" "leaf_ok q" "leaf_frame l q"
    using leaf_without [of l s] lf s unfolding q_def by blast
  note fr = leaf_frame_simps [OF q(4)]
  have rid: "tp_rid (lp_tuples l ! s) = Some \<lparr>rid_pid = bp_pid l, rid_tupleno = int s\<rparr>" using lf s by (simp add: leaf_ok_def)
  have pid: "BTreePageId (bf_tableid b) (pageNumber (bp_pid l)) LEAF = bp_pid l" using lf by auto
  have del: "leaf_deleteTuple l (lp_tuples l ! s) = Inr (setRecordId (lp_tuples l ! s) None, q)"
    using leaf_delete_spec [of l s] lf s by (simp add: q_def)
  have "w\<lparr>w_dirtypages := []\<rparr> = with_pages w (pages_of w) []" by (simp add: with_pages_self)
  moreover have "pm_find (bp_pid l) [] = Some a \<or> pm_find (bp_pid l) [] = None \<and> pm_find (bp_pid l) (w_pool w) = Some a"
    using a by simp
  note hit = with_pages_getPage(2) [OF this]
  moreover have "leaf_getMaxTuples (w_pageSize w) (bf_td b) - leaf_getMaxTuples (w_pageSize w) (bf_td b) div 2
      < leaf_getNumEmptySlots q \<longleftrightarrow> length (leaf_tuples q) < leaf_getMaxTuples (w_pageSize w) (bf_td b) div 2"
    using leaf_occupancy [of q] fr(5) lf by linarith
  moreover have "bp_td q = bf_td b" using fr lf by simp
  ultimately show ?thesis
    using f a rid pid del by (simp add: BTreeFile_deleteTuple_def Let_def hit bindM_assoc)
qed

lemma btree_delete_to:
  assumes R: "tree_ready w T" and j: "j < length (tr_leaves T)"
    and s: "s < lp_numSlots (tr_leaves T ! j)" "leaf_isSlotUsed (tr_leaves T ! j) s"
  defines "l \<equiv> tr_leaves T ! j" and "a \<equiv> tr_addrs T ! j" and "q \<equiv> leaf_markSlotUsed (tr_leaves T ! j) s False"
  shows "BTreeFile_deleteTuple n (tr_file T) tid (lp_tuples l ! s) w =
    bindM (if length (leaf_tuples q) < leaf_getMaxTuples (w_pageSize w) (bf_td (tr_btree T)) div 2
           then handleMinOccupancyPage (deleteParentEntry n (tr_file T)) n (tr_file T) a else returnM ())
      (\<lambda>_. bindM dirty_pages (\<lambda>ds. returnM (setRecordId (lp_tuples l ! s) None, ds)))
      (with_pages w ((pages_of w)(a := LeafPg q)) [(bp_pid l, a)])"
proof -
  have T: "tree_in_pool w T" and lo: "leaf_of w (tr_btree T) l" using R j by (auto simp: tree_ready_def l_def)
  have "tr_file T < length (w_files w)" "w_files w ! tr_file T = BTreeF (tr_btree T)"
    using T by (simp_all add: tree_in_pool_def)
  then show ?thesis
    using tree_pages_at(1) [OF T j] s lo unfolding q_def l_def a_def by (intro leaf_delete_to) simp_all
qed

section \<open>Deletion\<close>

text \<open>What a successful deletion has done to the tree.\<close>

definition tree_loses :: "world \<Rightarrow> btree_pages \<Rightarrow> tuple \<Rightarrow> world \<Rightarrow> btree_pages \<Rightarrow> bool" where
  "tree_loses w T t W T' \<longleftrightarrow>
     tree_ready W T' \<and> half_full T' \<and> mset (tree_tuples T) = add_mset (strip t) (mset (tree_tuples T')) \<and>
     same_setting w W \<and> w_pool W = w_pool w \<and> w_files W = w_files w \<and> tr_file T' = tr_file T \<and> tr_btree T' = tr_btree T \<and>
     length (tr_leaves T') = length (tr_leaves T) \<and> np_numSlots (tr_root T') = np_numSlots (tr_root T)"

lemma mset_concat_replace:
  "j < length xs \<Longrightarrow>
   mset (concat (map f (xs[j := y]))) + mset (f (xs ! j)) = mset (concat (map f xs)) + mset (f y)"
proof (induction xs arbitrary: j)
  case (Cons x xs)
  then show ?case
  proof (cases j)
    case (Suc i)
    with Cons.IH [of i] Cons.prems show ?thesis by (simp add: union_assoc)
  qed simp
qed simp

lemma same_place_update:
  assumes "\<And>l. l \<in> set ls \<Longrightarrow> leaf_ok l \<and> leaf_tuples l \<noteq> []" "j < length ls" "same_place (ls ! j) q"
  shows "list_all2 same_place ls (ls[j := q])"
  using assms by (auto simp: list_all2_conv_all_nth nth_list_update same_place_def)

lemma tree_ready_leaves:
  assumes "tree_ready w T" "l \<in> set (tr_leaves T)"
  shows "leaf_ok l" "leaf_tuples l \<noteq> []" "lp_numSlots l = leaf_getMaxTuples (w_pageSize w) (bf_td (tr_btree T))"
    "bp_td l = bf_td (tr_btree T)" "bp_keyField l = bf_keyField (tr_btree T)" "getParentId l = bp_pid (tr_root T)"
    "btree_type (bp_pid l) = LEAF"
  using assms by (auto simp: tree_ready_def leaf_of_def)

lemma tree_ready_slots:
  assumes "tree_ready w T"
  shows "int_ok (tr_root T)" "int_isSlotUsed (tr_root T) 0" "int_isSlotUsed (tr_root T) 1" "sorted (tree_keys T)" "tree_in_pool w T"
  using assms by (simp_all add: tree_ready_def tree_in_pool_def)

text \<open>The leaf stays half full.\<close>

lemma btree_delete_keeps:
  assumes R: "tree_ready w T" "half_full T" and j: "j < length (tr_leaves T)"
    and s: "s < lp_numSlots (tr_leaves T ! j)" "leaf_isSlotUsed (tr_leaves T ! j) s"
    and more: "leaf_getMaxTuples (w_pageSize w) (bf_td (tr_btree T)) div 2 < length (leaf_tuples (tr_leaves T ! j))"
  defines "t \<equiv> lp_tuples (tr_leaves T ! j) ! s"
  shows "\<exists>ds W T'. BTreeFile_deleteTuple n (tr_file T) tid t w = Inr ((setRecordId t None, ds), W) \<and> tree_loses w T t W T'"
proof -
  let ?l = "tr_leaves T ! j" and ?a = "tr_addrs T ! j" and ?q = "leaf_markSlotUsed (tr_leaves T ! j) s False"
  let ?h = "leaf_getMaxTuples (w_pageSize w) (bf_td (tr_btree T)) div 2"
  let ?W = "with_pages w ((pages_of w)(?a := LeafPg ?q)) [(bp_pid ?l, ?a)]" and ?T = "tree_repl T (tr_root T) ((tr_leaves T)[j := ?q])"
  note lv = tree_ready_leaves [OF R(1) nth_mem [OF j]] and rt = tree_ready_slots [OF R(1)]
  note T = rt(5) and at = tree_pages_at [OF rt(5)] and ad = tree_addresses [OF rt(5) j]
  obtain A B where q: "leaf_tuples ?l = A @ strip t # B" "leaf_tuples ?q = A @ B" "leaf_ok ?q" "leaf_frame ?l ?q"
    using leaf_without [OF lv(1) s] unfolding t_def by blast
  have len: "?h \<le> length (leaf_tuples ?q)" "leaf_tuples ?q \<noteq> []"
    using more q(1,2) R(1) by (auto simp: tree_ready_def)
  have run: "BTreeFile_deleteTuple n (tr_file T) tid t w = Inr ((setRecordId t None, map snd (w_order w [(bp_pid ?l, ?a)])), ?W)"
    using btree_delete_to [OF R(1) j s, of n tid] len(1) by (simp add: t_def dirty_pages_def)
  have pl: "list_all2 same_place (tr_leaves T) ((tr_leaves T)[j := ?q])"
    using tree_ready_leaves(1,2) [OF R(1)] j q(3,4) len(2) by (intro same_place_update) (auto simp: same_place_def)
  have "tree_ready ?W ?T"
  proof (rule tree_ready_repl [OF R(1) rt(1) int_frame_refl rt(2,3) refl pl])
    show "sorted (tree_keys ?T)" using leaf_less_keys [OF q(4,1,2)] by (intro tree_keys_shrink [OF T rt(4) j])
    show "pages_of ?W (tr_addrs T ! i) = LeafPg ((tr_leaves T)[j := ?q] ! i)" if "i < length ((tr_leaves T)[j := ?q])" for i
      using that at(1) [of i] ad(5) [of i] by (auto simp: pages_of_def)
  qed (use at ad in \<open>simp_all add: pages_of_def same_setting_def\<close>)
  moreover have "half_full ?T"
    using R(2) len(1) lv(3) leaf_frame_simps(5) [OF q(4)]
    by (auto simp: half_full_def dest!: set_update_subset_insert [THEN subsetD])
  moreover have "mset (tree_tuples T) = add_mset (strip t) (mset (tree_tuples ?T))"
    using mset_concat_replace [OF j, of leaf_tuples ?q] q(1,2) by (simp add: tree_tuples_def)
  ultimately have "tree_loses w T t ?W ?T" by (simp add: tree_loses_def same_setting_def)
  with run show ?thesis by blast
qed

text \<open>The first two leaves and the entry between them.\<close>

lemma tree_first_two:
  assumes "tree_ready w T"
  obtains c0 k1 c1 bs where "int_pairs (tr_root T) = (None, c0) # (Some (IntField k1), c1) # bs" "1 < length (tr_leaves T)"
    "bp_pid (tr_leaves T ! 0) = int_child (tr_root T) c0" "bp_pid (tr_leaves T ! 1) = int_child (tr_root T) c1"
proof -
  note rt = tree_ready_slots [OF assms]
  have n: "2 \<le> np_numSlots (tr_root T)" using rt(1) by (simp add: int_ok_def)
  then obtain v where v: "np_keys (tr_root T) ! 1 = Some (IntField v)" using rt(1,3) by (auto simp: int_ok_def)
  from root_pairs [OF rt(5)] obtain c0 where "int_pairs (tr_root T) = (None, c0) # somes (drop 1 (int_view (tr_root T)))" .
  moreover have "somes (drop 1 (int_view (tr_root T))) = (np_keys (tr_root T) ! 1, np_children (tr_root T) ! 1) # somes (drop 2 (int_view (tr_root T)))"
    using int_view_drop_used [of 1 "tr_root T"] n rt(3) by (simp add: numeral_2_eq_2)
  ultimately have p: "int_pairs (tr_root T) = (None, c0) # (Some (IntField v), np_children (tr_root T) ! 1) # somes (drop 2 (int_view (tr_root T)))"
    using v by simp
  have "1 < length (tr_leaves T)" using tree_lengths(1) [OF rt(5)] p by simp
  moreover from this have "0 < length (tr_leaves T)" by linarith
  ultimately show ?thesis
    using that [OF p] tree_addresses(7) [OF rt(5), of 0] tree_addresses(7) [OF rt(5), of 1] p by simp
qed

lemma handleMin_leaf_run:
  assumes g: "c < length (w_objs w)" "g c = LeafPg q" "a < length (w_objs w)" "g a = LeafPg p"
    and e: "e_right e = Some (bp_pid p)" and fp: "pm_find (bp_pid p) m = None" "pm_find (bp_pid p) (w_pool w) = Some a"
    and n: "lp_numSlots p = leaf_getMaxTuples (w_pageSize w) (bp_td q)"
  shows "handleMinOccupancyLeafPage dpe n f c (Some r) None (Some e) (with_pages w g m) =
    (if length (leaf_tuples p) \<le> leaf_getMaxTuples (w_pageSize w) (bp_td q) div 2 then mergeLeafPages dpe n f c a r e
     else stealFromLeafPage f c a r e True) (with_pages w g (m @ [(bp_pid p, a)]))"
proof -
  have "pm_find (bp_pid p) m = Some a \<or> pm_find (bp_pid p) m = None \<and> pm_find (bp_pid p) (w_pool w) = Some a" using fp by simp
  note hit = with_pages_getPage(2) [OF this]
  have "leaf_getMaxTuples (w_pageSize w) (bp_td q) - leaf_getMaxTuples (w_pageSize w) (bp_td q) div 2 \<le> leaf_getNumEmptySlots p \<longleftrightarrow>
      length (leaf_tuples p) \<le> leaf_getMaxTuples (w_pageSize w) (bp_td q) div 2"
    using leaf_occupancy [of p] n by linarith
  then show ?thesis
    using g e fp by (simp add: handleMinOccupancyLeafPage_def left_sibling_def right_sibling_def Let_def hit pm_put_new)
qed

lemma btree_delete_first:
  assumes R: "tree_ready w T" and s: "s < lp_numSlots (tr_leaves T ! 0)" "leaf_isSlotUsed (tr_leaves T ! 0) s"
    and min: "length (leaf_tuples (tr_leaves T ! 0)) = leaf_getMaxTuples (w_pageSize w) (bf_td (tr_btree T)) div 2"
    and pairs: "int_pairs (tr_root T) = (None, c0) # (k1, c1) # bs" "1 < length (tr_leaves T)"
      "bp_pid (tr_leaves T ! 0) = int_child (tr_root T) c0" "bp_pid (tr_leaves T ! 1) = int_child (tr_root T) c1"
  defines "l0 \<equiv> tr_leaves T ! 0" and "l1 \<equiv> tr_leaves T ! 1" and "a0 \<equiv> tr_addrs T ! 0" and "a1 \<equiv> tr_addrs T ! 1" and "f \<equiv> tr_file T"
    and "q \<equiv> leaf_markSlotUsed (tr_leaves T ! 0) s False" and "e \<equiv> first_entry (tr_root T) c0 k1 c1"
  shows "BTreeFile_deleteTuple (Suc n) f tid (lp_tuples l0 ! s) w =
    bindM (if length (leaf_tuples l1) \<le> leaf_getMaxTuples (w_pageSize w) (bf_td (tr_btree T)) div 2
           then mergeLeafPages (deleteParentEntry (Suc n) f) (Suc n) f a0 a1 (tr_raddr T) e
           else stealFromLeafPage f a0 a1 (tr_raddr T) e True)
      (\<lambda>_. bindM dirty_pages (\<lambda>ds. returnM (setRecordId (lp_tuples l0 ! s) None, ds)))
      (with_pages w ((pages_of w)(a0 := LeafPg q)) [(bp_pid l0, a0), (bp_pid (tr_root T), tr_raddr T), (bp_pid l1, a1)])"
proof -
  let ?x = "tr_root T" and ?g = "(pages_of w)(a0 := LeafPg q)" and ?m = "[(bp_pid l0, a0), (bp_pid (tr_root T), tr_raddr T)]"
  have j: "0 < length (tr_leaves T)" using pairs(2) by linarith
  note rt = tree_ready_slots [OF R] and lv = tree_ready_leaves [OF R nth_mem [OF j], folded l0_def]
    and lv1 = tree_ready_leaves [OF R nth_mem [OF pairs(2)], folded l1_def]
  note at = tree_pages_at [OF rt(5)] and ad = tree_addresses [OF rt(5) j, folded a0_def]
  have xt: "btree_type (bp_pid ?x) = INTERNAL" "pm_find (bp_pid ?x) (w_pool w) = Some (tr_raddr T)"
    using rt(5) by (simp_all add: tree_in_pool_def)
  obtain A B where q: "leaf_tuples l0 = A @ strip (lp_tuples l0 ! s) # B" "leaf_tuples q = A @ B" "leaf_ok q" "leaf_frame l0 q"
    using leaf_without [of l0 s] lv(1) s unfolding l0_def q_def by blast
  note fr = leaf_frame_simps [OF q(4)]
  have less: "length (leaf_tuples q) < leaf_getMaxTuples (w_pageSize w) (bf_td (tr_btree T)) div 2"
    using min [folded l0_def] q(1,2) by simp
  have ids: "\<not> pid_eq (bp_pid ?x) (bp_pid l0)" "\<not> pid_eq (bp_pid l1) (bp_pid ?x)" "\<not> pid_eq (bp_pid l1) (bp_pid l0)"
    using xt(1) lv(7) lv1(7) ad(6) [OF pairs(2), folded l0_def l1_def] by (cases "bp_pid l0"; cases "bp_pid l1"; cases "bp_pid ?x"; auto)+
  then have find: "pm_find (bp_pid ?x) [(bp_pid l0, a0)] = None" "pm_find (bp_pid l1) ?m = None"
    by simp_all
  have ga: "a0 < length (w_objs w)" "?g a0 = LeafPg q" "tr_raddr T < length (w_objs w)" "?g (tr_raddr T) = IntPg ?x"
      "a1 < length (w_objs w)" "?g a1 = LeafPg l1" "pm_find (bp_pid l1) (w_pool w) = Some a1"
    using at(1) [OF j] at(1) [OF pairs(2)] at(2,3) ad(2) ad(5) [OF pairs(2)]
    by (simp_all add: a0_def a1_def l1_def)
  have par: "getParentId q = bp_pid ?x" "btree_type (bp_pid q) = LEAF" using lv(6,7) fr(1) leaf_frame_ids(2) [OF q(4)] by simp_all
  have "bp_pid q = int_child ?x c0" using pairs(3) [folded l0_def] fr(1) by simp
  then have "pid_eq (int_child ?x c0) (bp_pid q)" by (simp add: int_child_def)
  note hm = handleMin_run(2) [OF ga(1-4) par(1) xt(1) par(2) find(1) xt(2) rt(1-3) pairs(1) this, folded e_def, unfolded pm_put_new [OF find(1)]]
  have er: "e_right e = Some (bp_pid l1)" using pairs(4) [folded l1_def] by (simp add: e_def first_entry_def)
  have n1: "lp_numSlots l1 = leaf_getMaxTuples (w_pageSize w) (bp_td q)" using lv1(3) fr(2) lv(4) by simp
  note hl = handleMin_leaf_run [OF ga(1,2,5,6) er find(2) ga(7) n1]
  have "bp_td q = bf_td (tr_btree T)" using fr(2) lv(4) by simp
  then show ?thesis
    using btree_delete_to [OF R j s, of "Suc n" tid, folded l0_def a0_def q_def f_def] less hm hl
    by (simp add: bindM_def del: fun_upd_apply)
qed

text \<open>The keys of a tree from its first two leaves on.\<close>

definition later_keys :: "(field option \<times> int) list \<Rightarrow> leaf_page list \<Rightarrow> int list" where
  "later_keys bs ls = concat (map2 (\<lambda>x l. sep_keys (fst x) @ leaf_keys l) bs ls)"

lemma tree_keys_two:
  "int_pairs (tr_root T) = (None, c0) # (Some (IntField k1), c1) # bs \<Longrightarrow> tr_leaves T = l0 # l1 # ls \<Longrightarrow>
   tree_keys T = leaf_keys l0 @ sint k1 # leaf_keys l1 @ later_keys bs ls"
  by (simp add: tree_keys_def later_keys_def sep_keys_def)

lemma later_keys_sep:
  "b \<in> set bs \<Longrightarrow> length bs = length ls \<Longrightarrow> sep_keys (fst b) = [v] \<Longrightarrow> v \<in> set (later_keys bs ls)"
proof (induction bs arbitrary: ls)
  case (Cons c bs)
  then show ?case by (cases ls) (auto simp: later_keys_def)
qed simp

lemma sorted_steal:
  fixes B :: "int list"
  assumes "sorted (A @ v # B @ C)" "k < length B" "sorted A'" "set A' \<subseteq> set A \<union> set (take k B)"
  shows "sorted (A' @ B ! k # drop k B @ C)"
proof -
  have s: "sorted B" "sorted C" "\<And>x y. x \<in> set A \<Longrightarrow> y \<in> set (B @ C) \<Longrightarrow> x \<le> y" "\<And>x y. x \<in> set B \<Longrightarrow> y \<in> set C \<Longrightarrow> x \<le> y"
    using assms(1) by (auto simp: sorted_append)
  have d: "\<And>x. x \<in> set (take k B) \<Longrightarrow> x \<le> B ! k" "\<And>x. x \<in> set (drop k B) \<Longrightarrow> B ! k \<le> x" "B ! k \<in> set B"
    using sorted_mid_le [OF s(1) assms(2)] assms(2) by auto
  have "sorted (B ! k # drop k B @ C)"
    using s d by (auto simp: sorted_append sorted_wrt_drop dest: in_set_dropD)
  moreover have "x \<le> y" if "x \<in> set A'" "y \<in> set (B ! k # drop k B @ C)" for x y
  proof -
    have "x \<le> B ! k" using that(1) assms(4) s(3) d(1,3) by auto
    moreover have "B ! k \<le> y" using that(2) d(2,3) s(4) by auto
    ultimately show ?thesis by simp
  qed
  ultimately show ?thesis using assms(3) by (simp add: sorted_append)
qed

lemma second_leaf_below:
  assumes R: "tree_ready w T" and pairs: "int_pairs (tr_root T) = (None, c0) # (Some (IntField k1), c1) # bs"
    and ls: "tr_leaves T = l0 # l1 # ls" and b: "b \<in> set bs" and u: "u \<in> set (leaf_tuples l1)"
  shows "key_ge (fst b) (key_of (bp_keyField l1) u)"
proof -
  note rt = tree_ready_slots [OF R]
  have "sorted (leaf_keys l0 @ sint k1 # leaf_keys l1 @ later_keys bs ls)" using rt(4) tree_keys_two [OF pairs ls] by simp
  then have le: "x \<le> y" if "x \<in> set (leaf_keys l1)" "y \<in> set (later_keys bs ls)" for x y
    using that by (auto simp: sorted_append)
  from root_pairs [OF rt(5)] obtain c where "int_pairs (tr_root T) = (None, c) # somes (drop 1 (int_view (tr_root T)))" .
  then have "somes (drop 1 (int_view (tr_root T))) = (Some (IntField k1), c1) # bs" using pairs by simp
  then have "b \<in> set (somes (drop 1 (int_view (tr_root T))))" using b by (simp only: list.set_intros(2))
  from int_keys_present [OF rt(1) this] obtain v where v: "fst b = Some (IntField v)" ..
  then have "sint v \<in> set (later_keys bs ls)"
    using later_keys_sep [OF b, of ls "sint v"] tree_lengths(1) [OF rt(5)] pairs ls by (simp add: sep_keys_def)
  with le [of "key_of (bp_keyField l1) u"] u v show ?thesis by (simp add: leaf_keys_def key_ge_def)
qed

text \<open>The tree after the theft.\<close>

lemma tree_stolen:
  fixes m :: pages_map
  assumes R: "tree_ready w T" and pairs: "int_pairs (tr_root T) = (None, c0) # (Some (IntField k1), c1) # bs"
    and ls: "tr_leaves T = l0 # l1 # ls"
    and k: "k < length (leaf_tuples l1)"
    and p': "leaf_ok p'" "leaf_frame l1 p'" "leaf_tuples p' = drop k (leaf_tuples l1)"
    and q': "leaf_ok q'" "leaf_frame l0 q'" "mset (leaf_tuples q') = mset (take k (leaf_tuples l1)) + M" "leaf_sorted q'" "leaf_tuples q' \<noteq> []"
    and M: "M \<subseteq># mset (leaf_tuples l0)"
    and x': "int_ok x'" "int_frame (tr_root T) x'" "int_pairs x' = (None, c0) # (Some (IntField sv), c1) # bs"
      "int_isSlotUsed x' 0" "int_isSlotUsed x' 1" "sint sv = key_of (bp_keyField l1) (leaf_tuples l1 ! k)"
  defines "W \<equiv> with_pages w ((pages_of w)(tr_addrs T ! 1 := LeafPg p', tr_addrs T ! 0 := LeafPg q', tr_raddr T := IntPg x')) m"
  shows "tree_ready W (tree_repl T x' (q' # p' # ls))"
proof -
  note rt = tree_ready_slots [OF R]
  have j: "0 < length (tr_leaves T)" "1 < length (tr_leaves T)" by (simp_all add: ls)
  note at = tree_pages_at [OF rt(5)] and ad = tree_addresses [OF rt(5)]
  have kf: "bp_keyField l1 = bp_keyField l0" using tree_ready_leaves(5) [OF R] ls by simp
  have keys: "leaf_keys p' = drop k (leaf_keys l1)" "leaf_keys l1 ! k = sint sv" "k < length (leaf_keys l1)"
    using p'(3) leaf_frame_simps(3) [OF p'(2)] x'(6) k by (simp_all add: leaf_keys_def drop_map)
  have q: "sorted (leaf_keys q')" using q'(4) by (simp add: leaf_sorted_def leaf_keys_def)
  have "set (leaf_tuples q') \<subseteq> set (take k (leaf_tuples l1)) \<union> set (leaf_tuples l0)"
    using arg_cong [OF q'(3), of set_mset] set_mset_mono [OF M] by auto
  then have sub: "set (leaf_keys q') \<subseteq> set (leaf_keys l0) \<union> set (take k (leaf_keys l1))"
    using leaf_frame_simps(3) [OF q'(2)] kf by (auto simp: leaf_keys_def take_map)
  have "sorted (leaf_keys l0 @ sint k1 # leaf_keys l1 @ later_keys bs ls)" using rt(4) tree_keys_two [OF pairs ls] by simp
  from sorted_steal [OF this keys(3) q sub] have srt: "sorted (tree_keys (tree_repl T x' (q' # p' # ls)))"
    using tree_keys_two [of "tree_repl T x' (q' # p' # ls)" c0 sv c1 bs q' p' ls] x'(3) keys(1,2) by simp
  have same: "list_all2 same_place (tr_leaves T) (q' # p' # ls)"
    using p' q' k tree_ready_leaves(1,2) [OF R] ls by (auto simp: same_place_def list_all2_same)
  have kids: "map snd (int_pairs x') = map snd (int_pairs (tr_root T))" using x'(3) pairs by simp
  show ?thesis
  proof (rule tree_ready_repl [OF R x'(1,2,4,5) kids same srt])
    show "pages_of W (tr_addrs T ! i) = LeafPg ((q' # p' # ls) ! i)" if "i < length (q' # p' # ls)" for i
    proof -
      have i: "i < length (tr_leaves T)" using that ls by simp
      have "tr_addrs T ! i \<noteq> tr_raddr T" "tr_addrs T ! i = tr_addrs T ! 0 \<longleftrightarrow> i = 0" "tr_addrs T ! i = tr_addrs T ! 1 \<longleftrightarrow> i = 1"
        using ad(2) [OF i] ad(5) [OF j(1) i] ad(5) [OF j(2) i] by simp_all
      then show ?thesis using at(1) [OF i] ls by (auto simp: W_def pages_of_def nth_Cons split: nat.split)
    qed
    show "pages_of W (tr_ptr T) = RootPg (tr_rootptr T)" "pages_of W (tr_raddr T) = IntPg x'"
      using at(2,4,5) ad(3) [OF j(1)] ad(3) [OF j(2)] ad(4) [OF j(1)] by (auto simp: W_def pages_of_def)
  qed (simp_all add: W_def same_setting_def)
qed

text \<open>The first leaf is at minimum occupancy, the second above it.\<close>

lemma btree_delete_steals:
  assumes R: "tree_ready w T" "half_full T" and s: "s < lp_numSlots (tr_leaves T ! 0)" "leaf_isSlotUsed (tr_leaves T ! 0) s"
    and min: "length (leaf_tuples (tr_leaves T ! 0)) = leaf_getMaxTuples (w_pageSize w) (bf_td (tr_btree T)) div 2"
    and more: "leaf_getMaxTuples (w_pageSize w) (bf_td (tr_btree T)) div 2 < length (leaf_tuples (tr_leaves T ! 1))"
  defines "t \<equiv> lp_tuples (tr_leaves T ! 0) ! s"
  shows "\<exists>ds W T'. BTreeFile_deleteTuple (Suc n) (tr_file T) tid t w = Inr ((setRecordId t None, ds), W) \<and> tree_loses w T t W T'"
proof -
  let ?h = "leaf_getMaxTuples (w_pageSize w) (bf_td (tr_btree T)) div 2"
  obtain c0 k1 c1 bs where pairs: "int_pairs (tr_root T) = (None, c0) # (Some (IntField k1), c1) # bs" "1 < length (tr_leaves T)"
      "bp_pid (tr_leaves T ! 0) = int_child (tr_root T) c0" "bp_pid (tr_leaves T ! 1) = int_child (tr_root T) c1"
    using tree_first_two [OF R(1)] .
  then obtain l0 l1 ls where ls: "tr_leaves T = l0 # l1 # ls" by (cases "tr_leaves T"; cases "tl (tr_leaves T)") auto
  let ?x = "tr_root T" and ?a0 = "tr_addrs T ! 0" and ?a1 = "tr_addrs T ! 1" and ?r = "tr_raddr T"
  define q where "q = leaf_markSlotUsed l0 s False"
  define e where "e = first_entry ?x c0 (Some (IntField k1)) c1"
  define m where "m = [(bp_pid l0, ?a0), (bp_pid ?x, ?r), (bp_pid l1, ?a1)]"
  define g where "g = (pages_of w)(?a0 := LeafPg q)"
  have j: "0 < length (tr_leaves T)" by (simp add: ls)
  note rt = tree_ready_slots [OF R(1)]
  note at = tree_pages_at [OF rt(5)] and ad = tree_addresses [OF rt(5) j]
  have lv: "leaf_ok l0" "leaf_ok l1" "lp_numSlots l1 = lp_numSlots l0" "lp_numSlots l0 = leaf_getMaxTuples (w_pageSize w) (bf_td (tr_btree T))"
      "bp_td l1 = bp_td l0" "bp_keyField l1 = bf_keyField (tr_btree T)" "bp_keyField l0 = bf_keyField (tr_btree T)"
    using tree_ready_leaves [OF R(1), of l0] tree_ready_leaves [OF R(1), of l1] by (simp_all add: ls)
  obtain A B where q: "leaf_tuples l0 = A @ strip t # B" "leaf_tuples q = A @ B" "leaf_ok q" "leaf_frame l0 q"
    using leaf_without [of l0 s] lv(1) s unfolding q_def t_def by (auto simp: ls)
  note fq = leaf_frame_simps [OF q(4)]
  have run: "BTreeFile_deleteTuple (Suc n) (tr_file T) tid t w =
      bindM (stealFromLeafPage (tr_file T) ?a0 ?a1 ?r e True) (\<lambda>_. bindM dirty_pages (\<lambda>ds. returnM (setRecordId t None, ds))) (with_pages w g m)"
    using btree_delete_first [OF R(1) s min pairs, of n tid] more by (simp add: ls q_def e_def m_def g_def t_def)
  note ge = second_leaf_below [OF R(1) pairs(1) ls]
  have ad': "?a1 \<noteq> ?a0" "?r \<noteq> ?a1" "?r \<noteq> ?a0" "?a1 < length (w_objs w)" "?a0 < length (w_objs w)" "?r < length (w_objs w)"
      "g ?a1 = LeafPg l1" "g ?a0 = LeafPg q" "g ?r = IntPg ?x"
    using ad(2) ad(5) [OF pairs(2)] at(1) [OF j] at(1) [OF pairs(2)] at(2,3) tree_addresses(2) [OF rt(5) pairs(2)]
    by (simp_all add: g_def ls)
  have fi: "tr_file T < length (w_files w)" "w_files w ! tr_file T = BTreeF (tr_btree T)" "bf_keyField (tr_btree T) = bp_keyField l1"
    using rt(5) lv(6) by (simp_all add: tree_in_pool_def)
  have lq: "length (leaf_tuples q) + 2 \<le> length (leaf_tuples l1)" "Suc (length (leaf_tuples q)) = ?h"
    using q(1,2) min more by (simp_all add: ls)
  define k where "k = stolen q l1"
  have "leaf_ok q" "bp_td q = bp_td l1" "lp_numSlots q = lp_numSlots l1" using q(3) fq lv by simp_all
  then obtain p' q' x' sv where st: "stealFromLeafPage (tr_file T) ?a0 ?a1 ?r e True (with_pages w g m) =
        Inr ((), with_pages w (g(?a1 := LeafPg p', ?a0 := LeafPg q', ?r := IntPg x')) m)"
      "leaf_ok p'" "leaf_frame l1 p'" "leaf_tuples p' = drop k (leaf_tuples l1)"
      "leaf_ok q'" "leaf_frame q q'" "mset (leaf_tuples q') = mset (take k (leaf_tuples l1)) + mset (leaf_tuples q)"
      "leaf_sorted q \<longrightarrow> leaf_sorted q'" "sint sv = key_of (bp_keyField l1) (leaf_tuples l1 ! k)"
      "int_ok x'" "int_frame ?x x'" "int_pairs x' = (None, c0) # (Some (IntField sv), c1) # bs"
      "int_isSlotUsed x' 0" "int_isSlotUsed x' 1"
    using stealFromLeafPage_run [where e = e and m = m and bs = bs, OF ad' fi lv(2) _ _ _ lq(1) rt(1-3) pairs(1) ge, folded k_def]
    by (auto simp: e_def first_entry_def simp del: fun_upd_apply)
  let ?W = "with_pages w (g(?a1 := LeafPg p', ?a0 := LeafPg q', ?r := IntPg x')) m" and ?T = "tree_repl T x' (q' # p' # ls)"
  have kk: "0 < k" "k < length (leaf_tuples l1)" "2 * k + length (leaf_tuples q) \<le> length (leaf_tuples l1)"
    using lq(1) by (auto simp: k_def stolen_def)
  have "length (leaf_tuples q') = k + length (leaf_tuples q)" "length (leaf_tuples p') = length (leaf_tuples l1) - k"
    using arg_cong [OF st(7), of size] st(4) kk(2) by simp_all
  with kk lq(2) have len: "?h \<le> length (leaf_tuples q')" "?h \<le> length (leaf_tuples p')" by linarith+
  have M: "mset (leaf_tuples q) \<subseteq># mset (leaf_tuples l0)" using q(1,2) by (simp add: mset_subset_eq_add_left)
  have gW: "g(?a1 := LeafPg p', ?a0 := LeafPg q', ?r := IntPg x') = (pages_of w)(?a1 := LeafPg p', ?a0 := LeafPg q', ?r := IntPg x')"
    by (auto simp: g_def)
  have "sorted (leaf_keys l0)" using rt(4) tree_keys_two [OF pairs(1) ls] by (simp add: sorted_append)
  then have "leaf_sorted q" using leaf_less_keys(1) [OF q(4,1,2)] by (simp add: leaf_sorted_def leaf_keys_def)
  with st(8) have sq: "leaf_sorted q'" by simp
  have ne: "leaf_tuples q' \<noteq> []" using len(1) lq(2) by auto
  have "tree_ready ?W ?T"
    unfolding gW by (rule tree_stolen [OF R(1) pairs(1) ls kk(2) st(2-5) leaf_frame_trans [OF q(4) st(6)] st(7) sq ne M st(10-14,9)])
  moreover have "half_full ?T"
    using R(2) len lv leaf_frame_simps(5) [OF st(3)] leaf_frame_simps(5) [OF leaf_frame_trans [OF q(4) st(6)]]
    by (simp add: half_full_def ls)
  moreover have "mset (tree_tuples T) = add_mset (strip t) (mset (tree_tuples ?T))"
    using st(4,7) q(1,2) mset_take_drop [of k "leaf_tuples l1"] by (simp add: tree_tuples_def ls ac_simps)
  ultimately have "tree_loses w T t ?W ?T"
    using int_frame_simps(5) [OF st(11)] by (simp add: tree_loses_def same_setting_def ls)
  with run st(1) show ?thesis by (simp add: bindM_apply dirty_pages_def del: fun_upd_apply) blast
qed

section \<open>Merging\<close>

text \<open>
  Merging moves the tuples and relinks the leaves, and then cannot delete the entry of the
  parent, because the assertion in \<open>deleteEntry\<close> demands an entry of another table.
\<close>

lemma leaf_pid_eq: "btree_type p = LEAF \<Longrightarrow> pid_eq p q \<longleftrightarrow> p = q"
  by (cases p; cases q) auto

lemma mergeLeafPages_aborts:
  assumes w: "a \<noteq> c" "r \<noteq> a" "r \<noteq> c" "a < length (w_objs w)" "c < length (w_objs w)" "r < length (w_objs w)"
      "g a = LeafPg p" "g c = LeafPg q" "g r = IntPg x"
    and p: "leaf_ok p" and q: "leaf_ok q" "bp_td q = bp_td p" "length (leaf_tuples p) \<le> leaf_getNumEmptySlots q"
    and ids: "getTableId (bp_pid p) = getTableId (bp_pid q)" "btree_type (bp_pid q) = LEAF"
    and nb: "\<And>i. getRightSiblingId p = Some i \<Longrightarrow>
      \<exists>b l. found w m i b \<and> b \<noteq> r \<and> b \<noteq> a \<and> b \<noteq> c \<and> g b = LeafPg l \<and> getTableId (bp_pid l) = getTableId (bp_pid q)"
    and e: "e_rid e = Some rid" "getTableId (rid_pid rid) = getTableId (bp_pid x)"
  shows "mergeLeafPages (deleteParentEntry (Suc k) f) n f c a r e (with_pages w g m) = Inl AssertFail"
proof -
  have "length (leaf_tuples p) < Suc (lp_numSlots p)" using leaf_occupancy [of p] by simp
  from merge_leaf_loop_run [OF w(1,4,5) p q(1,2) w(7,8) this q(3) refl] obtain p' q' where
    l: "merge_leaf_loop (Suc (lp_numSlots p)) c a (leaf_begin p) (leaf_end p) (with_pages w g m) =
        Inr ((), with_pages w (g(a := LeafPg p', c := LeafPg q')) m)" and fr: "leaf_frame p p'" "leaf_frame q q'" by blast
  have sib: "getRightSiblingId p' = getRightSiblingId p" by (rule leaf_frame_ids(1) [OF fr(1)])
  have pid: "bp_pid q' = bp_pid q" by (rule leaf_frame_simps(1) [OF fr(2)])
  have dpe: "deleteParentEntry (Suc k) f c r e (with_pages w G m') = Inl AssertFail" if "G r = IntPg x" for G m'
    using w(6) that int_delete_own [OF e, of True]
    by (simp add: deleteKeyAndRightChild_at_def deleteKeyAndRightChild_def bindM_def)
  have run: "mergeLeafPages (deleteParentEntry (Suc k) f) n f c a r e (with_pages w g m) =
      bindM (liftM (setRightSiblingId q' (getRightSiblingId p))) (\<lambda>l'.
      bindM (put_page c (LeafPg l')) (\<lambda>_.
      bindM (case getRightSiblingId p of None \<Rightarrow> returnM ()
            | Some i \<Rightarrow>
                bindM (bt_getPage i True) (\<lambda>nx.
                bindM (leaf_at nx) (\<lambda>next.
                bindM (liftM (setLeftSiblingId next (Some (bp_pid q')))) (\<lambda>next'. put_page nx (LeafPg next'))))) (\<lambda>_.
      bindM (deleteParentEntry (Suc k) f c r e) (\<lambda>_. setEmptyPage n f (pageNumber (bp_pid p))))))
      (with_pages w (g(a := LeafPg p', c := LeafPg q')) m)"
    using w sib by (simp add: mergeLeafPages_def Let_def bindM_apply(1) [where m = "merge_leaf_loop (Suc (lp_numSlots p)) c a (leaf_begin p) (leaf_end p)", OF l]
        del: deleteParentEntry.simps merge_leaf_loop.simps)
  show ?thesis
  proof (cases "getRightSiblingId p")
    case None
    then show ?thesis
      using run w(1-3,5,9) dpe by (simp add: setRightSiblingId_def bindM_apply(2) del: deleteParentEntry.simps)
  next
    case (Some i)
    from nb [OF this] obtain b l where b: "found w m i b" "b \<noteq> r" "b \<noteq> a" "b \<noteq> c" "g b = LeafPg l" "getTableId (bp_pid l) = getTableId (bp_pid q)"
      by blast
    have i: "getTableId i = getTableId (bp_pid q)" "btree_type i = LEAF"
      using Some ids by (auto simp: getRightSiblingId_def split: if_splits)
    have "b < length (w_objs w)" using b(1) by (simp add: found_def)
    then show ?thesis
      using run Some w(1-3,5,9) b i ids pid dpe
      by (simp add: setRightSiblingId_def setLeftSiblingId_def found_getPage [OF b(1)] bindM_assoc bindM_apply(2) del: deleteParentEntry.simps)
  qed
qed

section \<open>The four outcomes\<close>

lemma delete_good:
  assumes "tree_ready w T" "half_full T" "j < length (tr_leaves T)"
    "s < lp_numSlots (tr_leaves T ! j)" "leaf_isSlotUsed (tr_leaves T ! j) s" "t = lp_tuples (tr_leaves T ! j) ! s"
    "h = leaf_getMaxTuples (w_pageSize w) (bf_td (tr_btree T)) div 2"
    "h < length (leaf_tuples (tr_leaves T ! j)) \<or> j = 0 \<and> h < length (leaf_tuples (tr_leaves T ! 1))"
  shows "\<exists>ds W T'. BTreeFile_deleteTuple (Suc n) (tr_file T) tid t w = Inr ((setRecordId t None, ds), W) \<and> tree_loses w T t W T'"
proof (cases "h < length (leaf_tuples (tr_leaves T ! j))")
  case True
  with btree_delete_keeps [OF assms(1-5), of "Suc n" tid] assms(6,7) show ?thesis by blast
next
  case False
  then have j: "j = 0" "h < length (leaf_tuples (tr_leaves T ! 1))" using assms(8) by auto
  have "tr_leaves T ! j \<in> set (tr_leaves T)" using assms(3) by simp
  then have "h \<le> length (leaf_tuples (tr_leaves T ! j))"
    using assms(2,7) tree_ready_leaves(3) [OF assms(1)] by (auto simp: half_full_def)
  with False j have "length (leaf_tuples (tr_leaves T ! 0)) = h" by simp
  with btree_delete_steals [OF assms(1,2), of s n tid] assms(4-7) j show ?thesis by auto
qed

lemma delete_merge_aborts:
  assumes "tree_ready w T" "s < lp_numSlots (tr_leaves T ! 0)" "leaf_isSlotUsed (tr_leaves T ! 0) s"
    "h = leaf_getMaxTuples (w_pageSize w) (bf_td (tr_btree T)) div 2" "length (leaf_tuples (tr_leaves T ! 0)) = h"
    "length (leaf_tuples (tr_leaves T ! 1)) \<le> h"
  shows "BTreeFile_deleteTuple (Suc n) (tr_file T) tid (lp_tuples (tr_leaves T ! 0) ! s) w = Inl AssertFail"
proof -
  obtain c0 k1 c1 bs where pairs: "int_pairs (tr_root T) = (None, c0) # (Some (IntField k1), c1) # bs" "1 < length (tr_leaves T)"
      "bp_pid (tr_leaves T ! 0) = int_child (tr_root T) c0" "bp_pid (tr_leaves T ! 1) = int_child (tr_root T) c1"
    using tree_first_two [OF assms(1)] .
  let ?l0 = "tr_leaves T ! 0" and ?l1 = "tr_leaves T ! 1" and ?a0 = "tr_addrs T ! 0" and ?a1 = "tr_addrs T ! 1" and ?x = "tr_root T"
  let ?q = "leaf_markSlotUsed ?l0 s False" and ?e = "first_entry ?x c0 (Some (IntField k1)) c1"
  let ?g = "(pages_of w)(?a0 := LeafPg ?q)" and ?m = "[(bp_pid ?l0, ?a0), (bp_pid ?x, tr_raddr T), (bp_pid ?l1, ?a1)]"
  have j: "0 < length (tr_leaves T)" using pairs(2) by linarith
  note rt = tree_ready_slots [OF assms(1)] and lv = tree_ready_leaves [OF assms(1) nth_mem]
  note at = tree_pages_at [OF rt(5)] and ad = tree_addresses [OF rt(5)]
  obtain A B where q: "leaf_tuples ?l0 = A @ strip (lp_tuples ?l0 ! s) # B" "leaf_tuples ?q = A @ B" "leaf_ok ?q" "leaf_frame ?l0 ?q"
    using leaf_without [OF lv(1) [OF j] assms(2,3)] .
  note fq = leaf_frame_simps [OF q(4)]
  have room: "length (leaf_tuples ?l1) \<le> leaf_getNumEmptySlots ?q"
    using leaf_occupancy [of ?q] fq(5) lv(3) [OF j] assms(4,5,6) q(1,2) by simp
  have tab: "getTableId (bp_pid (tr_leaves T ! i)) = bf_tableid (tr_btree T)" if "i < length (tr_leaves T)" for i
    using assms(1) that by (auto simp: tree_ready_def leaf_of_def)
  have g: "?a1 \<noteq> ?a0" "tr_raddr T \<noteq> ?a1" "tr_raddr T \<noteq> ?a0" "?a1 < length (w_objs w)" "?a0 < length (w_objs w)"
      "tr_raddr T < length (w_objs w)" "?g ?a1 = LeafPg ?l1" "?g ?a0 = LeafPg ?q" "?g (tr_raddr T) = IntPg ?x"
    using ad(2) [OF j] ad(2) [OF pairs(2)] ad(5) [OF j pairs(2)] at(1) [OF j] at(1) [OF pairs(2)] at(2,3) by simp_all
  have nb: "\<exists>b l. found w ?m i b \<and> b \<noteq> tr_raddr T \<and> b \<noteq> ?a1 \<and> b \<noteq> ?a0 \<and> ?g b = LeafPg l \<and> getTableId (bp_pid l) = getTableId (bp_pid ?q)"
    if i: "getRightSiblingId ?l1 = Some i" for i
  proof -
    have "chained (tr_leaves T)" using rt(5) by (simp add: tree_in_pool_def)
    from chained_nth [OF this pairs(2)] i have k: "2 < length (tr_leaves T)" "i = bp_pid (tr_leaves T ! 2)"
      by (auto simp: numeral_2_eq_2 split: if_splits)
    have "btree_type (bp_pid ?x) = INTERNAL" using rt(5) by (simp add: tree_in_pool_def)
    then have ne: "i \<noteq> bp_pid ?x" "i \<noteq> bp_pid ?l0" "i \<noteq> bp_pid ?l1"
      using k(2) lv(7) [OF k(1)] ad(6) [OF k(1) j] ad(6) [OF k(1) pairs(2)] by auto
    have "btree_type i = LEAF" using k(2) lv(7) [OF k(1)] by simp
    from leaf_pid_eq [OF this] ne have "pm_find i ?m = None" by simp
    then have "found w ?m i (tr_addrs T ! 2)" using at(1) [OF k(1)] k(2) by (simp add: found_def)
    then show ?thesis
      using ad(2) [OF k(1)] ad(5) [OF j k(1)] ad(5) [OF pairs(2) k(1)] at(1) [OF k(1)] tab [OF k(1)] tab [OF j] fq(1)
      by (intro exI [of _ "tr_addrs T ! 2"] exI [of _ "tr_leaves T ! 2"]) auto
  qed
  have "bp_td ?q = bp_td ?l1" "getTableId (bp_pid ?l1) = getTableId (bp_pid ?q)" "btree_type (bp_pid ?q) = LEAF"
    using fq(1,2) lv(4) [OF j] lv(4) [OF pairs(2)] tab [OF j] tab [OF pairs(2)] lv(7) [OF j] by simp_all
  note mg = mergeLeafPages_aborts [where rid = "\<lparr>rid_pid = bp_pid ?x, rid_tupleno = 1\<rparr>" and e = ?e and m = ?m and n = "Suc n" and k = n and f = "tr_file T", OF g lv(1) [OF pairs(2)] q(3) this(1) room this(2,3) nb]
  have "mergeLeafPages (deleteParentEntry (Suc n) (tr_file T)) (Suc n) (tr_file T) ?a0 ?a1 (tr_raddr T) ?e (with_pages w ?g ?m) = Inl AssertFail"
    by (rule mg) (simp_all add: first_entry_def)
  moreover have "length (leaf_tuples ?l0) = leaf_getMaxTuples (w_pageSize w) (bf_td (tr_btree T)) div 2" using assms(4,5) by simp
  ultimately show ?thesis
    using btree_delete_first [OF assms(1-3) _ pairs, of n tid] assms(4,6) by (simp add: bindM_apply(2) del: fun_upd_apply)
qed

lemma delete_diverges:
  assumes "tree_ready w T" "0 < j" "j < length (tr_leaves T)"
    "s < lp_numSlots (tr_leaves T ! j)" "leaf_isSlotUsed (tr_leaves T ! j) s"
    "length (leaf_tuples (tr_leaves T ! j)) \<le> leaf_getMaxTuples (w_pageSize w) (bf_td (tr_btree T)) div 2"
  shows "BTreeFile_deleteTuple n (tr_file T) tid (lp_tuples (tr_leaves T ! j) ! s) w = Inl OutOfFuel"
proof -
  obtain c0 k1 c1 bs where pairs: "int_pairs (tr_root T) = (None, c0) # (Some (IntField k1), c1) # bs" "1 < length (tr_leaves T)"
      "bp_pid (tr_leaves T ! 0) = int_child (tr_root T) c0"
    using tree_first_two [OF assms(1)] .
  let ?l = "tr_leaves T ! j" and ?a = "tr_addrs T ! j" and ?x = "tr_root T" and ?q = "leaf_markSlotUsed (tr_leaves T ! j) s False"
  have j0: "0 < length (tr_leaves T)" using assms(3) by linarith
  note rt = tree_ready_slots [OF assms(1)] and lv = tree_ready_leaves [OF assms(1) nth_mem [OF assms(3)]]
  note at = tree_pages_at [OF rt(5)] and ad = tree_addresses [OF rt(5) assms(3)]
  obtain A B where q: "leaf_tuples ?l = A @ strip (lp_tuples ?l ! s) # B" "leaf_tuples ?q = A @ B" "leaf_frame ?l ?q"
    using leaf_without [OF lv(1) assms(4,5)] .
  note fq = leaf_frame_simps [OF q(3)]
  have x: "btree_type (bp_pid ?x) = INTERNAL" "pm_find (bp_pid ?x) (w_pool w) = Some (tr_raddr T)"
    using rt(5) by (simp_all add: tree_in_pool_def)
  have m: "pm_find (bp_pid ?x) [(bp_pid ?l, ?a)] = None"
    using x(1) lv(7) by (cases "bp_pid ?x"; cases "bp_pid ?l") auto
  have "bp_pid (tr_leaves T ! 0) \<noteq> bp_pid ?l" using ad(6) [OF j0] assms(2) by simp
  moreover have "btree_type (int_child ?x c0) = LEAF" using tree_ready_leaves(7) [OF assms(1) nth_mem [OF j0]] pairs(3) by simp
  ultimately have ne: "\<not> pid_eq (int_child ?x c0) (bp_pid ?q)" using pairs(3) fq(1) by (simp add: leaf_pid_eq)
  have g: "?a < length (w_objs w)" "((pages_of w)(?a := LeafPg ?q)) ?a = LeafPg ?q" "((pages_of w)(?a := LeafPg ?q)) (tr_raddr T) = IntPg ?x"
    using at(1) [OF assms(3)] at(2,3) ad(2) by simp_all
  have "getParentId ?q = bp_pid ?x" "btree_type (bp_pid ?q) = LEAF" using leaf_frame_ids(2) [OF q(3)] lv(6,7) fq(1) by simp_all
  note hm = handleMin_run(1) [OF g(1,2) at(2) g(3) this(1) x(1) this(2) m x(2) rt(1-3) pairs(1) ne]
  have "length (leaf_tuples ?q) < leaf_getMaxTuples (w_pageSize w) (bf_td (tr_btree T)) div 2" using assms(6) q(1,2) by simp
  with btree_delete_to [OF assms(1,3-5), of n tid] hm show ?thesis by (simp add: bindM_def del: fun_upd_apply)
qed

section \<open>Properties\<close>

text \<open>C4
  Deleting a tuple of a B+ tree of two levels whose leaves are at least half full, when its leaf
  stays half full or is the leftmost one and the leaf to its right has more than half: the
  deletion succeeds, by stealing from the right sibling where needed, and the tree afterwards is
  ready for the next operation (linked, keys and root keys sorted, every leaf with its parent),
  with its leaves half full, and holds exactly this tuple less.
\<close>

theorem btree_delete_ready:
  assumes "tree_ready w T" "half_full T" "j < length (tr_leaves T)"
    "s < lp_numSlots (tr_leaves T ! j)" "leaf_isSlotUsed (tr_leaves T ! j) s" "t = lp_tuples (tr_leaves T ! j) ! s"
    "h = leaf_getMaxTuples (w_pageSize w) (bf_td (tr_btree T)) div 2"
    "h < length (leaf_tuples (tr_leaves T ! j)) \<or> j = 0 \<and> h < length (leaf_tuples (tr_leaves T ! 1))"
  shows "\<exists>ds w' T'. BTreeFile_deleteTuple (Suc n) (tr_file T) tid t w = Inr ((setRecordId t None, ds), w') \<and>
    tree_ready w' T' \<and> half_full T' \<and> mset (tree_tuples T) = add_mset (strip t) (mset (tree_tuples T')) \<and>
    length (tr_leaves T') = length (tr_leaves T) \<and> w_files w' = w_files w \<and> w_pool w' = w_pool w"
  using delete_good [OF assms, of n tid] unfolding tree_loses_def by blast

theorem btree_delete_ready_witness:
  "\<exists>t ds w' T'. t = lp_tuples (grow_leaf 4 3 [1, 3, 5, 7] 0 5) ! 0 \<and> length (leaf_tuples (grow_leaf 4 3 [1, 3, 5, 7] 0 5)) = 4 div 2 \<and>
     BTreeFile_deleteTuple 1 0 9 t (grow_world 3 15) = Inr ((setRecordId t None, ds), w') \<and>
     tree_ready w' T' \<and> half_full T' \<and>
     mset (tree_tuples T') = image_mset (\<lambda>v. strip (leaf_example_tuple v None)) {#3, 12, 14, 16, 18#}"
proof -
  note l = grow_tree_simps [of 3 15] tree_example_simps
  let ?t = "lp_tuples (grow_leaf 4 3 [1, 3, 5, 7] 0 5) ! 0"
  have used: "leaf_isSlotUsed (grow_leaf 4 3 [1, 3, 5, 7] 0 5) 0" by code_simp
  have t: "strip ?t = strip (leaf_example_tuple 1 None)" by code_simp
  have ps: "w_pageSize (grow_world 3 15) = 29" by (simp add: grow_world_def)
  obtain ds w' T' where r: "BTreeFile_deleteTuple (Suc 0) 0 9 ?t (grow_world 3 15) = Inr ((setRecordId ?t None, ds), w')"
      "tree_ready w' T'" "half_full T'" "mset (tree_tuples (grow_tree 3 15)) = add_mset (strip ?t) (mset (tree_tuples T'))"
    using btree_delete_ready [OF grow_ready [of 3 15], of 0 0 ?t 2 0 9] used by (auto simp: l grow_sizes grow_leaf_tuples ps)
  have "mset (tree_tuples (grow_tree 3 15)) = image_mset (\<lambda>v. strip (leaf_example_tuple v None)) {#1, 3, 12, 14, 16, 18#}"
    by (simp add: tree_tuples_def l grow_leaf_tuples)
  with r(4) t have "mset (tree_tuples T') = image_mset (\<lambda>v. strip (leaf_example_tuple v None)) {#3, 12, 14, 16, 18#}" by simp
  with r show ?thesis by (intro exI [of _ ?t] exI [of _ ds] exI [of _ w'] exI [of _ T']) (simp add: grow_leaf_tuples)
qed

text \<open>C29
  Deleting a tuple of the leftmost leaf of a B+ tree of two levels with half-full leaves, when this
  leaf and the one to its right are at minimum occupancy: the leaves would be merged, which aborts
  with the failed assertion of \<open>deleteEntry\<close>.
\<close>

theorem btree_delete_merge_aborts:
  assumes "tree_ready w T" "s < lp_numSlots (tr_leaves T ! 0)" "leaf_isSlotUsed (tr_leaves T ! 0) s"
    "h = leaf_getMaxTuples (w_pageSize w) (bf_td (tr_btree T)) div 2" "length (leaf_tuples (tr_leaves T ! 0)) = h"
    "length (leaf_tuples (tr_leaves T ! 1)) \<le> h"
  shows "BTreeFile_deleteTuple (Suc n) (tr_file T) tid (lp_tuples (tr_leaves T ! 0) ! s) w = Inl AssertFail"
  by (rule delete_merge_aborts [OF assms])

theorem btree_delete_merge_aborts_witness:
  "BTreeFile_deleteTuple 1 0 9 (lp_tuples (grow_leaf 4 3 [1, 3, 5, 7] 0 5) ! 0) (grow_world 3 3) = Inl AssertFail"
proof -
  note l = grow_tree_simps [of 3 3] tree_example_simps
  have "leaf_isSlotUsed (grow_leaf 4 3 [1, 3, 5, 7] 0 5) 0" by code_simp
  moreover have "w_pageSize (grow_world 3 3) = 29" by (simp add: grow_world_def)
  ultimately show ?thesis
    using btree_delete_merge_aborts [OF grow_ready(1) [of 3 3], of 0 2 0 9] by (simp add: l grow_sizes grow_leaf_tuples)
qed

text \<open>C28
  Deleting a tuple of any leaf of such a tree but the leftmost one, when the leaf is at minimum
  occupancy: the call never returns, whatever the fuel, since the loop that looks for the siblings of the leaf
  does not advance its iterator.
\<close>

theorem btree_delete_diverges:
  assumes "tree_ready w T" "0 < j" "j < length (tr_leaves T)"
    "s < lp_numSlots (tr_leaves T ! j)" "leaf_isSlotUsed (tr_leaves T ! j) s"
    "length (leaf_tuples (tr_leaves T ! j)) \<le> leaf_getMaxTuples (w_pageSize w) (bf_td (tr_btree T)) div 2"
  shows "BTreeFile_deleteTuple n (tr_file T) tid (lp_tuples (tr_leaves T ! j) ! s) w = Inl OutOfFuel"
  by (rule delete_diverges [OF assms])

theorem btree_delete_diverges_witness:
  "BTreeFile_deleteTuple 1000 0 9 (lp_tuples (grow_leaf 5 3 [12, 14, 16, 18] 4 0) ! 0) (grow_world 15 3) = Inl OutOfFuel"
proof -
  note l = grow_tree_simps [of 15 3] tree_example_simps
  have "leaf_isSlotUsed (grow_leaf 5 3 [12, 14, 16, 18] 4 0) 0" by code_simp
  moreover have "w_pageSize (grow_world 15 3) = 29" by (simp add: grow_world_def)
  ultimately show ?thesis
    using btree_delete_diverges [OF grow_ready(1) [of 15 3], of 1 0 1000 9] by (simp add: l grow_sizes grow_leaf_tuples)
qed

end
