(* ===== verification/BTreeOps.thy ===== *)
theory BTreeOps
  imports BTreeDeleteSpec
begin

text \<open>
  Insertions through the pool and deletions in the file, in any order, on a B+ tree file: fresh, with
  a root leaf, or with two levels, it is a table with deletion in the sense of \<open>bag_table_del\<close>. In a
  tree of two levels a deletion that returns has either left the leaf half full or stolen from the
  sibling; the other two outcomes do not return a value. In a root leaf every deletion succeeds, but
  after the last one the file cannot be scanned.
\<close>

section \<open>Deletion of a tuple that a scan returned\<close>

lemma leaf_holds_nth:
  assumes "l \<in> set (tr_leaves T)" "leaf_holds l t"
  obtains j s where "j < length (tr_leaves T)" "s < lp_numSlots (tr_leaves T ! j)" "leaf_isSlotUsed (tr_leaves T ! j) s"
    "t = lp_tuples (tr_leaves T ! j) ! s"
  using assms by (auto simp: leaf_holds_def in_set_conv_nth)

lemma btree_rep_delete:
  assumes "btree_rep f tab td key w b M" "btree_scan (Suc (Suc n)) k None f w = Inr (us, w)" "size M < k" "t \<in> set us"
    "BTreeFile_deleteTuple (Suc m) f tid t w = Inr (x, w')"
  shows "btree_rep f tab td key w' (Suc b) (M - {#strip t#})"
proof -
  let ?h = "leaf_getMaxTuples (w_pageSize w) td div 2"
  obtain T where ord: "\<And>m. mset (w_order w m) = mset m" and T: "tree_ready w T" "half_full T" "tr_file T = f"
      "bf_tableid (tr_btree T) = tab" "bf_td (tr_btree T) = td" "bf_keyField (tr_btree T) = key" "M = mset (tree_tuples T)"
      "size M + b \<le> np_numSlots (tr_root T) * ?h"
      "length (w_pool w) + (np_numSlots (tr_root T) - length (tr_leaves T)) \<le> usize (w_numPages w)"
    using assms(1) by (auto simp: btree_rep_def)
  have "\<exists>l \<in> set (tr_leaves T). leaf_holds l t"
    using btree_scan_run [OF tree_ready_slots(5) [OF T(1)] tree_ready_leaves(2) [OF T(1)], of k n] assms(2-4) T(3,7) by auto
  then obtain j s where j: "j < length (tr_leaves T)" "s < lp_numSlots (tr_leaves T ! j)" "leaf_isSlotUsed (tr_leaves T ! j) s"
      "t = lp_tuples (tr_leaves T ! j) ! s" by (auto elim: leaf_holds_nth)
  have good: "?h < length (leaf_tuples (tr_leaves T ! j)) \<or> j = 0 \<and> ?h < length (leaf_tuples (tr_leaves T ! 1))"
  proof (rule ccontr)
    assume bad: "\<not> ?thesis"
    show False
    proof (cases "j = 0")
      case True
      have "length (leaf_tuples (tr_leaves T ! 0)) = ?h"
        using bad True T(1,2,5) nth_mem [OF j(1)] tree_ready_leaves(3) [OF T(1) nth_mem [OF j(1)]] by (fastforce simp: half_full_def)
      then show False
        using delete_merge_aborts [OF T(1), of s ?h m tid] assms(5) bad j True T(3,5) by simp
    next
      case False
      then show False using delete_diverges [OF T(1) _ j(1-3), of "Suc m" tid] assms(5) bad j(4) T(3,5) by simp
    qed
  qed
  obtain ds W T' where r: "BTreeFile_deleteTuple (Suc m) f tid t w = Inr ((setRecordId t None, ds), W)" "tree_loses w T t W T'"
    using delete_good [OF T(1,2) j, of ?h m tid] good T(3,5) by auto
  then have W: "w' = W" using assms(5) by simp
  note l = r(2) [unfolded tree_loses_def]
  have "M - {#strip t#} = mset (tree_tuples T')" "size M = Suc (size (mset (tree_tuples T')))" using l T(7) by simp_all
  then show ?thesis
    unfolding W btree_rep_def using l T ord by (intro conjI exI [of _ T']) (simp_all add: same_setting_def)
qed

lemma btree_rep_nonempty: "btree_rep f tab td key w b M \<Longrightarrow> M \<noteq> {#}"
proof -
  assume "btree_rep f tab td key w b M"
  then obtain T where T: "tree_ready w T" "M = mset (tree_tuples T)" by (auto simp: btree_rep_def)
  have "1 < length (tr_leaves T)" using tree_first_two [OF T(1)] by blast
  then have "hd (tr_leaves T) \<in> set (tr_leaves T)" by (cases "tr_leaves T") auto
  with tree_ready_leaves(2) [OF T(1) this] T(2) show ?thesis by (auto simp: tree_tuples_def)
qed

lemma btree_rep_room: "btree_rep f tab td key w (Suc b) M \<Longrightarrow> btree_rep f tab td key w b M"
  by (auto simp: btree_rep_def)

section \<open>A root that is a leaf\<close>

text \<open>The root leaf has no siblings: nothing is done about its occupancy.\<close>

lemma root_leaf_delete:
  assumes R: "root_leaf w f b r rp a l mx" and s: "s < lp_numSlots l" "leaf_isSlotUsed l s"
  defines "t \<equiv> lp_tuples l ! s" and "q \<equiv> leaf_markSlotUsed l s False"
  shows "\<exists>ds W. BTreeFile_deleteTuple n f tid t w = Inr ((setRecordId t None, ds), W) \<and> root_leaf W f b r rp a q mx \<and>
    mset (leaf_tuples l) = add_mset (strip t) (mset (leaf_tuples q)) \<and> same_setting w W \<and> w_pool W = w_pool w"
proof -
  let ?W = "with_pages w ((pages_of w)(a := LeafPg q)) [(bp_pid l, a)]"
  have l: "f < length (w_files w)" "w_files w ! f = BTreeF b" "leaf_of w b l" "a < length (w_objs w)" "pages_of w a = LeafPg l"
      "pm_find (bp_pid l) (w_pool w) = Some a" "bp_parent l = 0" "leaf_sorted l"
    using R by (auto simp: root_leaf_def file_open_def)
  obtain A B where q: "leaf_tuples l = A @ strip t # B" "leaf_tuples q = A @ B" "leaf_ok q" "leaf_frame l q"
    using leaf_without [OF _ s] l(3) unfolding t_def q_def leaf_of_def by blast
  note fr = leaf_frame_simps [OF q(4)]
  have "handleMinOccupancyPage (deleteParentEntry n f) n f a ?W = Inr ((), ?W)"
    using l(3,4,7) fr
    by (auto simp: handleMinOccupancyPage_def handleMinOccupancyLeafPage_def page_getParentId_def leaf_of_def getParentId_def
        left_sibling_def right_sibling_def Let_def)
  then have "BTreeFile_deleteTuple n f tid t w = Inr ((setRecordId t None, map snd (w_order w [(bp_pid l, a)])), ?W)"
    using leaf_delete_to [OF l(1-6) s, of n tid] by (simp add: t_def q_def bindM_def dirty_pages_def)
  moreover have "leaf_sorted q"
    using l(8) fr q(1,2) by (simp add: leaf_sorted_def sorted_append)
  then have "root_leaf ?W f b r rp a q mx"
    by (intro root_leaf_frame [OF R _ _ _ _ _ q(3,4)]) (simp_all add: same_setting_def pages_of_def)
  ultimately show ?thesis using q(1,2) by (simp add: same_setting_def)
qed

lemma empty_root_scan_fails:
  assumes R: "root_leaf w f b r rp a l mx" and e: "leaf_tuples l = []"
  shows "btree_scan (Suc n) (Suc k) None f w = Inl AssertFail"
proof -
  have a: "a < length (w_objs w)" "po_page (w_objs w ! a) = LeafPg l"
    using R by (auto simp: root_leaf_def pages_of_def)
  have "bti_deref (on_leaf f None a (lp_numSlots l)) w = Inl AssertFail"
    using a by (simp add: bti_deref_def on_leaf_def run_leaf_at leaf_iter_deref_def leaf_getTuple_def leaf_on_def)
  then show ?thesis
    using root_leaf_begin [OF R, of n] leaf_next_used_empty [OF e]
    by (simp add: btree_scan_def BTreeIterable_end_def BTreeFileIterator_new_def bindM_def bti_ne_def on_leaf_def)
qed

text \<open>A file without its root pointer page cannot be scanned: the page is not on the disk.\<close>

lemma fresh_scan_fails:
  assumes F: "fresh_file w f b mx" and room: "1 \<le> usize (w_numPages w)"
  shows "btree_scan n k None f w = Inl AssertFail"
proof -
  have "\<not> pool_full w" using F room by (simp add: fresh_file_def pool_full_def)
  moreover have "file_readPage f (rootptr_getId (bf_tableid b)) w = Inl AssertFail"
    using F by (simp add: fresh_file_def file_readPage_def BTreeFile_readPage_def rootptr_getId_def disk_pread_def
        ROOT_PAGE_SIZE_def run_btree)
  ultimately have "bp_getPage (rootptr_getId (bf_tableid b)) w = Inl AssertFail"
    using F by (simp add: fresh_file_def bp_getPage_def db_getDatabaseFile_def bindM_def rootptr_getId_def)
  then show ?thesis
    using F by (simp add: btree_scan_def BTreeIterable_begin_def BTreeFileIterator_new_def fresh_file_def run_btree bindM_def)
qed

section \<open>Deletion in every stage\<close>

lemma btree_file_rep_stages:
  assumes "btree_file_rep f tab td key mx w b M"
  obtains (fresh) bf where "fresh_file w f bf mx" "M = {#}" "1 \<le> usize (w_numPages w)"
  | (leaf) bf r rp a l where "root_leaf w f bf r rp a l mx" "bf_tableid bf = tab" "bf_td bf = td" "bf_keyField bf = key"
      "M = mset (leaf_tuples l)" "length (leaf_tuples l) + b \<le> Suc mx * (leaf_getMaxTuples (w_pageSize w) td div 2)"
      "length (w_pool w) + mx + 1 \<le> usize (w_numPages w)"
  | (tree) "btree_rep f tab td key w b M"
  using assms unfolding btree_file_rep_def Let_def by (elim conjE disjE exE) (auto simp: size_mset)

lemma btree_file_order: "btree_file_rep f tab td key mx w b M \<Longrightarrow> mset (w_order w m) = mset m"
  by (simp add: btree_file_rep_def)

lemma btree_file_of_tree: "btree_rep f tab td key w b M \<Longrightarrow> btree_file_rep f tab td key mx w b M"
  by (simp add: btree_file_rep_def btree_rep_def [of f tab td key w] Let_def)

lemma btree_file_delete:
  assumes rep: "btree_file_rep f tab td key mx w b M" and us: "btree_scan (Suc (Suc n)) k None f w = Inr (us, w)" "size M < k" "t \<in> set us"
    and run: "BTreeFile_deleteTuple (Suc m) f tid t w = Inr (x, w')"
  shows "btree_file_rep f tab td key mx w' (Suc b) (M - {#strip t#})"
proof (cases rule: btree_file_rep_stages [OF rep])
  case (1 bf)
  with fresh_scan_fails [OF 1(1,3)] us(1) show ?thesis by simp
next
  case (2 bf r rp a l)
  obtain k' where k: "k = Suc k'" using us(2) by (cases k) auto
  have ne: "leaf_tuples l \<noteq> []" using empty_root_scan_fails [OF 2(1), of "Suc n" k'] us(1) k by auto
  then obtain s where s: "s < lp_numSlots l" "leaf_isSlotUsed l s" "t = lp_tuples l ! s"
    using root_leaf_scan [OF 2(1) ne, of k "Suc n"] us 2(5) by (auto simp: leaf_holds_def)
  let ?q = "leaf_markSlotUsed l s False"
  have r: "root_leaf w' f bf r rp a ?q mx" "mset (leaf_tuples l) = add_mset (strip t) (mset (leaf_tuples ?q))"
      "same_setting w w'" "w_pool w' = w_pool w"
    using root_leaf_delete [OF 2(1) s(1,2), of "Suc m" tid] run s(3) by auto
  have "length (leaf_tuples l) = Suc (length (leaf_tuples ?q))" using arg_cong [OF r(2), of size] by simp
  then show ?thesis
    using 2 r btree_file_order [OF rep] by (intro btree_file_rep_leaf [OF r(1)]) (simp_all add: same_setting_def)
next
  case 3
  from btree_rep_delete [OF this us run] show ?thesis by (rule btree_file_of_tree)
qed

lemma btree_file_empty:
  assumes "btree_file_rep f tab td key mx w b {#}"
  shows "\<exists>e. btree_scan (Suc (Suc n)) k None f w = Inl e"
proof (cases rule: btree_file_rep_stages [OF assms])
  case (1 bf)
  with fresh_scan_fails show ?thesis by blast
next
  case (2 bf r rp a l)
  note b = root_leaf_begin [OF 2(1), of "Suc n"]
  show ?thesis
  proof (cases k)
    case 0
    with b show ?thesis by (simp add: btree_scan_def BTreeIterable_end_def BTreeFileIterator_new_def bindM_def)
  next
    case (Suc k')
    with empty_root_scan_fails [OF 2(1)] 2(5) show ?thesis by auto
  qed
next
  case 3
  with btree_rep_nonempty show ?thesis by blast
qed

lemma btree_file_room: "btree_file_rep f tab td key mx w (Suc b) M \<Longrightarrow> btree_file_rep f tab td key mx w b M"
proof -
  assume "btree_file_rep f tab td key mx w (Suc b) M"
  moreover have "size M + Suc b \<le> x \<Longrightarrow> size M + b \<le> x" for x by simp
  ultimately show ?thesis unfolding btree_file_rep_def Let_def using btree_rep_room by blast
qed

interpretation btree_table_del: bag_table_del "bp_insertTuple (Suc (Suc n)) tid tab" "btree_file_rep f tab td key mx" "fits td"
    "\<lambda>k. btree_scan (Suc (Suc n)) k None f" "\<lambda>us. sorted (map (key_of key) us)" "BTreeFile_deleteTuple (Suc m) f tid"
  for n tid tab f td key mx m
  by unfold_locales (blast intro: btree_file_delete btree_file_empty btree_file_room)+

section \<open>Properties\<close>

text \<open>
  The life of a file of six insertions: it is emptied after the first one, the sixth splits the root
  leaf, and the last removal makes the left leaf steal from the right one.
\<close>

definition ops_example :: "table_op list" where
  "ops_example = [Add (leaf_example_tuple 7 None), Remove 0, Add (leaf_example_tuple 3 None), Add (leaf_example_tuple 9 None),
     Add (leaf_example_tuple 1 None), Add (leaf_example_tuple 5 None), Add (leaf_example_tuple 4 None), Remove 0]"

lemma ops_example_runs:
  "\<exists>w' us w2. run_ops (bp_insertTuple 2 9 7) (BTreeFile_deleteTuple 1 0 9) (btree_scan 2 9 None 0) ops_example fill_world = Inr ((), w') \<and>
     btree_scan 2 9 None 0 w' = Inr (us, w2)"
proof -
  have gen: "\<exists>v us v'. x = Inr ((), v) \<and> sc v = Inr (us, v')"
    if "case x of Inl e \<Rightarrow> False | Inr r \<Rightarrow> (case sc (snd r) of Inl e \<Rightarrow> False | Inr s \<Rightarrow> True)"
    for x :: "error + unit \<times> world" and sc :: "tuple list M"
  proof (cases x)
    case (Inr r)
    with that obtain s where "sc (snd r) = Inr s" by (cases "sc (snd r)") simp_all
    then have "sc (snd r) = Inr (fst s, snd s)" by simp
    moreover have "x = Inr ((), snd r)" using Inr by (metis prod.collapse unit.exhaust)
    ultimately show ?thesis by blast
  qed (use that in simp)
  show ?thesis by (rule gen) code_simp
qed

text \<open>C2
  Insertions and deletions in any order, each deletion of a tuple that a scan just returned, on a
  B+ tree file that was just created, is a single root leaf, or has two levels with half-full leaves,
  with room for the insertions: when the sequence returns, the scan afterwards is sorted by the key
  and is what the same sequence makes of the multiset of tuples, whatever splits and thefts
  happened on the way; only when that multiset is empty the scan fails.
\<close>

theorem btree_ops_refine:
  assumes "btree_file_rep f tab td key mx w b M" "adds ops \<le> b" "\<And>t. Add t \<in> set ops \<Longrightarrow> fits td t" "size M + adds ops < k"
    "run_ops (bp_insertTuple (Suc (Suc n)) tid tab) (BTreeFile_deleteTuple (Suc m) f tid) (btree_scan (Suc (Suc n)) k None f) ops w
       = Inr ((), w')"
  shows "(\<exists>us. btree_scan (Suc (Suc n)) k None f w' = Inr (us, w') \<and> bag_ops ops M (mset (map strip us)) \<and>
      sorted (map (key_of key) us)) \<or>
    bag_ops ops M {#} \<and> (\<exists>e. btree_scan (Suc (Suc n)) k None f w' = Inl e)"
  by (rule btree_table_del.run_ops_scan [OF assms])

theorem btree_ops_refine_witness:
  "\<exists>w' us. run_ops (bp_insertTuple 2 9 7) (BTreeFile_deleteTuple 1 0 9) (btree_scan 2 9 None 0) ops_example fill_world = Inr ((), w') \<and>
     btree_scan 2 9 None 0 w' = Inr (us, w') \<and> sorted (map (key_of 0) us) \<and> bag_ops ops_example {#} (mset (map strip us))"
proof -
  obtain w' us w2 where w': "run_ops (bp_insertTuple 2 9 7) (BTreeFile_deleteTuple 1 0 9) (btree_scan 2 9 None 0) ops_example fill_world
      = Inr ((), w')" "btree_scan 2 9 None 0 w' = Inr (us, w2)" using ops_example_runs by blast
  have rep: "btree_file_rep 0 7 leaf_example_td 0 2 fill_world 6 {#}"
    using fill_world_fresh unfolding btree_file_rep_def Let_def
    by (intro conjI disjI1 exI [of _ "BTreeFile_new 7 0 leaf_example_td"]) (simp_all add: fill_world_simps grow_sizes usize_def)
  have n: "adds ops_example \<le> 6" "size {#} + adds ops_example < 9" "\<And>t. Add t \<in> set ops_example \<Longrightarrow> fits leaf_example_td t"
    by (auto simp: ops_example_def leaf_example_fits)
  show ?thesis
    using btree_ops_refine [OF rep n(1,3,2), of 0 9 0 w'] w' by (auto simp: numeral_2_eq_2 simp del: run_ops.simps)
qed

text \<open>C27
  A file whose last tuple is deleted stays a well-formed root leaf, but it cannot be scanned any
  more: \<open>begin()\<close> does not compare with \<open>end()\<close>, so the loop dereferences the iterator behind the
  last slot and the assertion in \<open>getTuple\<close> fails.
\<close>

theorem btree_emptied_scan_fails:
  assumes "root_leaf w f b r rp a l mx" "leaf_tuples l = [v]" "s < lp_numSlots l" "leaf_isSlotUsed l s"
  shows "\<exists>t' ds W q. BTreeFile_deleteTuple n f tid (lp_tuples l ! s) w = Inr ((t', ds), W) \<and>
    root_leaf W f b r rp a q mx \<and> leaf_tuples q = [] \<and> btree_scan (Suc m) (Suc k) None f W = Inl AssertFail"
proof -
  obtain ds W where r: "BTreeFile_deleteTuple n f tid (lp_tuples l ! s) w = Inr ((setRecordId (lp_tuples l ! s) None, ds), W)"
      "root_leaf W f b r rp a (leaf_markSlotUsed l s False) mx"
      "mset (leaf_tuples l) = add_mset (strip (lp_tuples l ! s)) (mset (leaf_tuples (leaf_markSlotUsed l s False)))"
    using root_leaf_delete [OF assms(1,3,4), of n tid] by blast
  have "leaf_tuples (leaf_markSlotUsed l s False) = []" using r(3) assms(2) by (simp add: single_is_union)
  with r(1,2) empty_root_scan_fails [OF r(2), of m k] show ?thesis by blast
qed

theorem btree_emptied_scan_fails_witness:
  "\<exists>t w t' ds W. bp_insertTuple 2 9 7 (leaf_example_tuple 7 None) fill_world = Inr (t, w) \<and>
     (\<exists>u. BTreeFile_deleteTuple 1 0 9 u w = Inr ((t', ds), W)) \<and> btree_scan 2 9 None 0 W = Inl AssertFail"
proof -
  let ?b = "BTreeFile_new 7 0 leaf_example_td"
  have fit: "fits (bf_td ?b) (leaf_example_tuple 7 None)" "2 \<le> usize (w_numPages fill_world)"
    by (simp_all add: fill_world_simps leaf_example_fits usize_def)
  have ord: "mset (w_order fill_world m) = mset m" for m by (simp add: fill_world_simps)
  obtain t w b r rp a l where r: "bp_insertTuple (Suc 1) 9 7 (leaf_example_tuple 7 None) fill_world = Inr (t, w)"
      "root_leaf w 0 b r rp a l 2" "leaf_tuples l = [strip (leaf_example_tuple 7 None)]"
    using fresh_insert [OF fill_world_fresh ord fit, of 1 9] unfolding fill_world_simps by blast
  have "leaf_next_used l 0 < lp_numSlots l" "leaf_isSlotUsed l (leaf_next_used l 0)"
    using r(3) leaf_next_used_nonempty [of l] leaf_next_used_spec [of 0 l] by auto
  then obtain t' ds W where "BTreeFile_deleteTuple 1 0 9 (lp_tuples l ! leaf_next_used l 0) w = Inr ((t', ds), W)"
      "btree_scan (Suc 1) (Suc 8) None 0 W = Inl AssertFail"
    using btree_emptied_scan_fails [OF r(2,3), of "leaf_next_used l 0" 1 9 1 8] by blast
  with r(1) show ?thesis by (auto simp: numeral_2_eq_2)
qed

end
