(* ===== verification/HeapFileSpec.thy ===== *)
theory HeapFileSpec
  imports Storage PoolSpec
begin

text \<open>
  Heap files above the buffer pool: insertion through the pool, and the scan that visits every
  tuple of a file.
\<close>

section \<open>Files whose pages are in the pool\<close>

text \<open>The pages \<open>pgs\<close> of the heap file at \<open>i\<close> are in the pool, at the addresses \<open>as\<close>.\<close>

definition heapfile_in_pool :: "world \<Rightarrow> nat \<Rightarrow> heap_file \<Rightarrow> nat list \<Rightarrow> heap_page list \<Rightarrow> bool" where
  "heapfile_in_pool w i f as pgs \<longleftrightarrow>
     i < length (w_files w) \<and> w_files w ! i = HeapF f \<and> hf_numPages f = int (length pgs) \<and>
     length as = length pgs \<and>
     (\<forall>j < length pgs. pm_find (HeapPageId (hf_tableid f) (int j)) (w_pool w) = Some (as ! j) \<and>
        as ! j < length (w_objs w) \<and> po_page (w_objs w ! (as ! j)) = HeapPg (pgs ! j) \<and>
        hp_pid (pgs ! j) = HeapPageId (hf_tableid f) (int j) \<and> heap_ok (w_pageSize w) (pgs ! j))"

lemma heapfile_in_poolD:
  assumes "heapfile_in_pool w i f as pgs"
  shows "i < length (w_files w)" "w_files w ! i = HeapF f" "hf_numPages f = int (length pgs)"
    "length as = length pgs"
    "\<And>j. j < length pgs \<Longrightarrow> pm_find (HeapPageId (hf_tableid f) (int j)) (w_pool w) = Some (as ! j)"
    "\<And>j. j < length pgs \<Longrightarrow> as ! j < length (w_objs w)"
    "\<And>j. j < length pgs \<Longrightarrow> po_page (w_objs w ! (as ! j)) = HeapPg (pgs ! j)"
    "\<And>j. j < length pgs \<Longrightarrow> hp_pid (pgs ! j) = HeapPageId (hf_tableid f) (int j)"
    "\<And>j. j < length pgs \<Longrightarrow> heap_ok (w_pageSize w) (pgs ! j)"
  using assms by (auto simp: heapfile_in_pool_def)

section \<open>Scanning\<close>

lemma heap_tuples_Cons:
  assumes "s < hp_numSlots p" "heap_isSlotUsed p s"
  shows "somes (drop s (heap_view p)) = hp_tuples p ! s # somes (drop (Suc s) (heap_view p))"
proof -
  have "drop s (heap_view p) = Some (hp_tuples p ! s) # drop (Suc s) (heap_view p)"
    using assms by (simp add: Cons_nth_drop_Suc [symmetric] heap_view_nth)
  then show ?thesis by simp
qed

lemma hpi_skip_done:
  assumes "i \<le> hp_numSlots p" "hpi_skip p i = hp_numSlots p"
  shows "somes (drop i (heap_view p)) = []"
  using heap_view_drop_skip [OF assms(1)] assms(2) by simp

lemma hpi_skip_nonempty:
  assumes "heap_tuples p \<noteq> []"
  shows "hpi_skip p 0 < hp_numSlots p"
  using hpi_skip_spec [of 0 p] hpi_skip_done [of 0 p] assms by (auto simp: heap_tuples_def le_less)

text \<open>The iterator of page \<open>j\<close>, standing at slot \<open>s\<close>.\<close>

definition file_iter :: "heap_file \<Rightarrow> nat list \<Rightarrow> nat \<Rightarrow> nat \<Rightarrow> heap_file_iter" where
  "file_iter f as j s = \<lparr>hi_numPages = hf_numPages f, hi_hpid = HeapPageId (hf_tableid f) (int j),
     hi_end = False, hi_it = Some s, hi_page = Some (as ! j), hi_keyed = False\<rparr>"

lemma hi_keyed_file_iter [simp]: "\<not> hi_keyed (file_iter f as j s)"
  by (simp add: file_iter_def)

definition file_end :: "heap_file \<Rightarrow> heap_file_iter" where
  "file_end f = \<lparr>hi_numPages = hf_numPages f, hi_hpid = HeapPageId (hf_tableid f) (hf_numPages f),
     hi_end = True, hi_it = None, hi_page = None, hi_keyed = False\<rparr>"

lemma hfi_load_page:
  assumes "heapfile_in_pool w i f as pgs" "j < length pgs" "hi_hpid it = HeapPageId (hf_tableid f) (int j)"
  shows "hfi_load it w = Inr (it\<lparr>hi_page := Some (as ! j), hi_it := Some (hpi_skip (pgs ! j) 0)\<rparr>, w)"
  using heapfile_in_poolD [OF assms(1)] assms(2,3)
  by (simp add: hfi_load_def getPage_hit heap_begin_def hpi_new_def)

lemma hfi_deref_page:
  assumes "heapfile_in_pool w i f as pgs" "j < length pgs" "s < hp_numSlots (pgs ! j)"
  shows "hfi_deref (file_iter f as j s) w = Inr (hp_tuples (pgs ! j) ! s, w)"
proof -
  have "length (hp_tuples (pgs ! j)) = hp_numSlots (pgs ! j)"
    using heapfile_in_poolD(9) [OF assms(1,2)] by (simp add: heap_ok_def)
  with heapfile_in_poolD [OF assms(1)] assms(2,3) show ?thesis
    by (simp add: hfi_deref_def file_iter_def hpi_deref_def run_heap_at)
qed

lemma hfi_next_page:
  assumes r: "heapfile_in_pool w i f as pgs" and j: "j < length pgs"
  shows "hfi_next (file_iter f as j s) w =
    (let s' = hpi_skip (pgs ! j) (Suc s) in
     if s' \<noteq> hp_numSlots (pgs ! j) then Inr (file_iter f as j s', w)
     else if Suc j < length pgs then Inr (file_iter f as (Suc j) (hpi_skip (pgs ! Suc j) 0), w)
     else Inr (\<lparr>hi_numPages = hf_numPages f, hi_hpid = HeapPageId (hf_tableid f) (hf_numPages f), hi_end = True,
            hi_it = None, hi_page = Some (as ! j), hi_keyed = False\<rparr>, w))"
proof -
  note d = heapfile_in_poolD [OF r]
  have "Suc j = length pgs" if "\<not> Suc j < length pgs" using that j by simp
  moreover have "pm_find (HeapPageId (hf_tableid f) (1 + int j)) (w_pool w) = Some (as ! Suc j)" if "Suc j < length pgs"
    using d(5) [OF that] by simp
  ultimately show ?thesis
    using d j by (auto simp: hfi_next_def file_iter_def hpi_next_def run_heap_at Let_def hfi_load_page [OF r, of "Suc j"] add.commute)
qed

lemma hfi_collect_pages:
  assumes r: "heapfile_in_pool w i f as pgs" and ne: "\<And>p. p \<in> set pgs \<Longrightarrow> heap_tuples p \<noteq> []"
  shows "j < length pgs \<Longrightarrow> k \<le> hp_numSlots (pgs ! j) \<Longrightarrow> hpi_skip (pgs ! j) k < hp_numSlots (pgs ! j) \<Longrightarrow>
    length (somes (drop k (heap_view (pgs ! j))) @ concat (map heap_tuples (drop (Suc j) pgs))) < n \<Longrightarrow>
    hfi_collect n (file_iter f as j (hpi_skip (pgs ! j) k)) (file_end f) w =
      Inr (somes (drop k (heap_view (pgs ! j))) @ concat (map heap_tuples (drop (Suc j) pgs)), w)"
proof (induction n arbitrary: j k)
  case 0
  then show ?case by simp
next
  case (Suc n)
  let ?p = "pgs ! j" and ?s = "hpi_skip (pgs ! j) k"
  let ?rest = "concat (map heap_tuples (drop (Suc j) pgs))"
  note sp = hpi_skip_spec [OF Suc.prems(2)] and sp' = hpi_skip_spec [of "Suc ?s" ?p]
  have used: "heap_isSlotUsed ?p ?s" using sp Suc.prems(3) by blast
  have v: "somes (drop k (heap_view ?p)) = hp_tuples ?p ! ?s # somes (drop (Suc ?s) (heap_view ?p))"
    using heap_view_drop_skip [OF Suc.prems(2)] heap_tuples_Cons [OF Suc.prems(3) used] by simp
  have step: "hfi_collect (Suc n) (file_iter f as j ?s) (file_end f) w =
      bindM (hfi_next (file_iter f as j ?s)) (\<lambda>it'. bindM (hfi_collect n it' (file_end f))
        (\<lambda>ts. returnM (hp_tuples ?p ! ?s # ts))) w"
    using hfi_deref_page [OF r Suc.prems(1,3)] by (simp add: hfi_ne_def file_iter_def file_end_def bindM_def)
  show ?case
  proof (cases "hpi_skip ?p (Suc ?s) = hp_numSlots ?p")
    case False
    then have "hpi_skip ?p (Suc ?s) < hp_numSlots ?p" using sp' Suc.prems(3) by simp
    then have "hfi_collect n (file_iter f as j (hpi_skip ?p (Suc ?s))) (file_end f) w =
        Inr (somes (drop (Suc ?s) (heap_view ?p)) @ ?rest, w)"
      using Suc.prems v by (intro Suc.IH) auto
    then show ?thesis using step hfi_next_page [OF r Suc.prems(1), of ?s] False v by (simp add: bindM_def)
  next
    case True
    then have nil: "somes (drop (Suc ?s) (heap_view ?p)) = []" using Suc.prems(3) by (intro hpi_skip_done) auto
    show ?thesis
    proof (cases "Suc j < length pgs")
      case next': True
      let ?q = "pgs ! Suc j"
      have d: "drop (Suc j) pgs = ?q # drop (Suc (Suc j)) pgs" using next' by (simp add: Cons_nth_drop_Suc)
      have "hfi_collect n (file_iter f as (Suc j) (hpi_skip ?q 0)) (file_end f) w =
          Inr (somes (drop 0 (heap_view ?q)) @ concat (map heap_tuples (drop (Suc (Suc j)) pgs)), w)"
        using Suc.prems(4) next' v nil d hpi_skip_nonempty [of ?q] ne
        by (intro Suc.IH) (auto simp: heap_tuples_def)
      then show ?thesis
        using step hfi_next_page [OF r Suc.prems(1), of ?s] True next' v nil d
        by (simp add: bindM_def heap_tuples_def [of ?q])
    next
      case False
      moreover have "0 < n" using Suc.prems(4) v by simp
      then obtain m where "n = Suc m" by (cases n) auto
      ultimately show ?thesis
        using step hfi_next_page [OF r Suc.prems(1), of ?s] True v nil
        by (simp add: bindM_def hfi_ne_def file_end_def)
    qed
  qed
qed

lemma heapfile_scan_run:
  assumes r: "heapfile_in_pool w i f as pgs" and ne: "pgs \<noteq> []" "\<And>p. p \<in> set pgs \<Longrightarrow> heap_tuples p \<noteq> []"
    and n: "length (concat (map heap_tuples pgs)) < n"
  shows "heapfile_scan n i w = Inr (concat (map heap_tuples pgs), w)"
proof -
  note d = heapfile_in_poolD [OF r]
  obtain p ps where pgs: "pgs = p # ps" using ne(1) by (cases pgs) auto
  have "hfi_load \<lparr>hi_numPages = hf_numPages f, hi_hpid = HeapPageId (hf_tableid f) 0, hi_end = False,
      hi_it = None, hi_page = None, hi_keyed = False\<rparr> w = Inr (file_iter f as 0 (hpi_skip (pgs ! 0) 0), w)"
    using hfi_load_page [OF r, of 0] ne(1) by (simp add: file_iter_def)
  then have "HeapFile_begin i w = Inr (file_iter f as 0 (hpi_skip (pgs ! 0) 0), w)"
    using d by (simp add: HeapFile_begin_def HeapFileIterator_new_def Let_def)
  moreover have "HeapFile_end i w = Inr (file_end f, w)"
    using d by (simp add: HeapFile_end_def HeapFileIterator_new_def file_end_def)
  moreover have "hfi_collect n (file_iter f as 0 (hpi_skip (pgs ! 0) 0)) (file_end f) w =
      Inr (somes (drop 0 (heap_view (pgs ! 0))) @ concat (map heap_tuples (drop (Suc 0) pgs)), w)"
    using ne n pgs hpi_skip_nonempty [of p]
    by (intro hfi_collect_pages [OF r]) (auto simp: heap_tuples_def)
  ultimately show ?thesis using pgs by (simp add: heapfile_scan_def bindM_def heap_tuples_def)
qed

section \<open>Insertion\<close>

lemma heapfile_find_run:
  assumes r: "heapfile_in_pool w i f as pgs"
    and n: "j + n = length pgs" and full: "\<And>k. j \<le> k \<Longrightarrow> k < m \<Longrightarrow> heap_getNumEmptySlots (pgs ! k) = 0"
  shows "(j \<le> m \<and> m < length pgs \<and> 0 < heap_getNumEmptySlots (pgs ! m) \<longrightarrow>
      heapfile_find_page (hf_tableid f) j n w = Inr (Some (as ! m), w)) \<and>
    (m = length pgs \<longrightarrow> heapfile_find_page (hf_tableid f) j n w = Inr (None, w))"
  using n full
proof (induction n arbitrary: j)
  case 0
  then show ?case by simp
next
  case (Suc n)
  note d = heapfile_in_poolD [OF r]
  have j: "j < length pgs" using Suc.prems by simp
  have step: "heapfile_find_page (hf_tableid f) j (Suc n) w =
      (if 0 < heap_getNumEmptySlots (pgs ! j) then Inr (Some (as ! j), w)
       else heapfile_find_page (hf_tableid f) (Suc j) n w)"
    using d j by (simp add: getPage_hit run_heap_at)
  show ?case
  proof (cases "j < m")
    case True
    then have "heap_getNumEmptySlots (pgs ! j) = 0" using Suc.prems(2) by simp
    with step Suc.IH [of "Suc j"] Suc.prems True show ?thesis by simp
  next
    case False
    with step Suc.prems(1) j show ?thesis by (auto simp del: heapfile_find_page.simps dest: le_antisym)
  qed
qed

lemma bp_insert_heap_room:
  assumes r: "heapfile_in_pool w i f as pgs" and db: "getDatabaseFile (w_catalog w) (hf_tableid f) = Inr i"
    and m: "m < length pgs" "\<And>k. k < m \<Longrightarrow> heap_getNumEmptySlots (pgs ! k) = 0"
      "0 < heap_getNumEmptySlots (pgs ! m)"
    and ins: "heap_insertTuple (pgs ! m) t = Inr (t', p')" "hp_pid p' = hp_pid (pgs ! m)"
  shows "bp_insertTuple n tid (hf_tableid f) t w =
    Inr (t', w\<lparr>w_objs := (w_objs w)[as ! m := \<lparr>po_dirty = Some tid, po_page = HeapPg p'\<rparr>]\<rparr>)"
proof -
  note d = heapfile_in_poolD [OF r]
  let ?w = "w\<lparr>w_objs := (w_objs w)[as ! m := (w_objs w ! (as ! m))\<lparr>po_page := HeapPg p'\<rparr>]\<rparr>"
  have "heapfile_find_page (hf_tableid f) 0 (length pgs) w = Inr (Some (as ! m), w)"
    using heapfile_find_run [OF r, of 0 "length pgs" m] m by simp
  then have "bindM (heapfile_find_page (hf_tableid f) 0 (length pgs)) l w = l (Some (as ! m)) w"
    for l :: "nat option \<Rightarrow> (tuple \<times> nat list) M"
    by (simp add: bindM_def)
  then have "HeapFile_insertTuple i tid t w = Inr ((t', [as ! m]), ?w)"
    using d(1-4) d(6,7) [OF m(1)] ins(1) by (simp add: HeapFile_insertTuple_def run_heap_at)
  then have "file_insertTuple n i tid t w = Inr ((t', [as ! m]), ?w)"
    using d(1,2) by (simp add: file_insertTuple_def)
  moreover have "pool_add_dirty tid [as ! m] ?w =
      Inr ((), ?w\<lparr>w_objs := (w_objs ?w)[as ! m := (w_objs ?w ! (as ! m))\<lparr>po_dirty := Some tid\<rparr>]\<rparr>)"
    using d(5,6,8) [OF m(1)] ins(2) by (intro pool_add_dirty_hit) auto
  ultimately show ?thesis
    using db d(6) [OF m(1)]
    by (simp add: bp_insertTuple_def bindM_def db_getDatabaseFile_def del: pool_add_dirty.simps)
qed

text \<open>A page fresh from \<open>createEmptyPageData\<close> holds nothing.\<close>

lemma shift_used_zero:
  assumes "i < 8 * n"
  shows "\<not> shift_used (replicate n 0) i"
proof -
  have "drop_bit 3 i < n" using assms by (simp add: drop_bit_eq_div)
  then show ?thesis by (simp add: shift_used_def Let_def)
qed

lemma heap_read_slots_zero:
  "slot + n \<le> 8 * h \<Longrightarrow> heap_read_slots junk td pid (replicate h 0) data offset slot n = Inr (replicate n Tuple_default)"
  by (induction n arbitrary: offset slot) (simp_all add: shift_used_zero)

definition empty_heap_page :: "nat \<Rightarrow> tuple_desc \<Rightarrow> page_id \<Rightarrow> heap_page" where
  "empty_heap_page ps td pid = \<lparr>hp_pid = pid, hp_td = td,
     hp_header = replicate (heap_getHeaderSize ps td (heap_getNumTuples ps td)) 0,
     hp_tuples = replicate (heap_getNumTuples ps td) Tuple_default, hp_numSlots = heap_getNumTuples ps td\<rparr>"

lemma empty_heap_page_bits:
  assumes "i < heap_getNumTuples ps td"
  shows "\<not> heap_isSlotUsed (empty_heap_page ps td pid) i"
proof -
  have "heap_getNumTuples ps td \<le> 8 * heap_getHeaderSize ps td (heap_getNumTuples ps td)"
    unfolding heap_getHeaderSize_def heap_getNumTuples_def by (rule numSlots_le_header [OF refl])
  with assms show ?thesis by (simp add: heap_isSlotUsed_def empty_heap_page_def shift_used_zero)
qed

lemma heap_ok_empty: "heap_ok ps (empty_heap_page ps td pid)"
  using empty_heap_page_bits [of _ ps td pid]
  by (auto simp: heap_ok_def) (auto simp: empty_heap_page_def)

lemma heap_view_empty: "heap_view (empty_heap_page ps td pid) = replicate (heap_getNumTuples ps td) None"
proof (rule nth_equalityI)
  show "length (heap_view (empty_heap_page ps td pid)) = length (replicate (heap_getNumTuples ps td) None)"
    by (simp add: empty_heap_page_def)
next
  fix i assume "i < length (heap_view (empty_heap_page ps td pid))"
  then have i: "i < heap_getNumTuples ps td" by (simp add: empty_heap_page_def)
  moreover have "hp_numSlots (empty_heap_page ps td pid) = heap_getNumTuples ps td"
    by (simp add: empty_heap_page_def)
  ultimately show "heap_view (empty_heap_page ps td pid) ! i = replicate (heap_getNumTuples ps td) None ! i"
    using empty_heap_page_bits [OF i] by (simp add: heap_view_nth)
qed

lemma HeapPage_new_empty:
  "HeapPage_new junk ps td pid (heap_createEmptyPageData ps) = Inr (empty_heap_page ps td pid)"
proof -
  let ?n = "heap_getNumTuples ps td"
  have n: "0 + ?n \<le> 8 * heap_getHeaderSize ps td ?n"
    unfolding heap_getHeaderSize_def heap_getNumTuples_def add_0 by (rule numSlots_le_header [OF refl])
  have "heap_getHeaderSize ps td ?n \<le> ps" by (simp add: heap_getHeaderSize_def)
  then have "buf_read 0 (heap_getHeaderSize ps td ?n) (heap_createEmptyPageData ps) =
      Inr (replicate (heap_getHeaderSize ps td ?n) 0)"
    by (simp add: buf_read_def heap_createEmptyPageData_def min_def)
  then show ?thesis
    using heap_read_slots_zero [OF n] by (simp add: HeapPage_new_def Let_def empty_heap_page_def)
qed

text \<open>Recording a new page when the pool has room.\<close>

lemma pool_add_dirty_new:
  assumes "a < length (w_objs w)" "\<not> pool_full w"
  shows "pool_add_dirty tid [a] w =
    Inr ((), w\<lparr>w_objs := (w_objs w)[a := (w_objs w ! a)\<lparr>po_dirty := Some tid\<rparr>],
             w_pool := pm_put (page_getId (po_page (w_objs w ! a))) a (w_pool w)\<rparr>)"
  using assms by (simp add: pool_put_def Let_def pool_full_def)

lemma bp_insert_heap_new:
  assumes r: "heapfile_in_pool w i f as pgs" and db: "getDatabaseFile (w_catalog w) (hf_tableid f) = Inr i"
    and full: "\<And>k. k < length pgs \<Longrightarrow> heap_getNumEmptySlots (pgs ! k) = 0" and room: "\<not> pool_full w"
    and ins: "heap_insertTuple (empty_heap_page (w_pageSize w) (hf_td f) (HeapPageId (hf_tableid f) (hf_numPages f))) t
        = Inr (t', p')" "hp_pid p' = HeapPageId (hf_tableid f) (hf_numPages f)"
  shows "bp_insertTuple n tid (hf_tableid f) t w =
    Inr (t', w\<lparr>w_objs := w_objs w @ [\<lparr>po_dirty = Some tid, po_page = HeapPg p'\<rparr>],
      w_files := (w_files w)[i := HeapF (f\<lparr>hf_numPages := hf_numPages f + 1\<rparr>)],
      w_pool := pm_put (hp_pid p') (length (w_objs w)) (w_pool w)\<rparr>)"
proof -
  note d = heapfile_in_poolD [OF r]
  let ?w = "w\<lparr>w_objs := w_objs w @ [\<lparr>po_dirty = None, po_page = HeapPg p'\<rparr>],
    w_files := (w_files w)[i := HeapF (f\<lparr>hf_numPages := hf_numPages f + 1\<rparr>)]\<rparr>"
  have "heapfile_find_page (hf_tableid f) 0 (length pgs) w = Inr (None, w)"
    using heapfile_find_run [OF r, of 0 "length pgs" "length pgs"] full by simp
  then have find: "bindM (heapfile_find_page (hf_tableid f) 0 (length pgs)) l w = l None w"
    for l :: "nat option \<Rightarrow> (tuple \<times> nat list) M"
    by (simp add: bindM_def)
  have "db_getTupleDesc (hf_tableid f) w = Inr (hf_td f, w)" by (rule heap_tupleDesc [OF db d(1,2)])
  then have td: "bindM (db_getTupleDesc (hf_tableid f)) l w = l (hf_td f) w" for l :: "tuple_desc \<Rightarrow> (tuple \<times> nat list) M"
    by (simp add: bindM_def)
  have "HeapFile_insertTuple i tid t w = Inr ((t', [length (w_objs w)]), ?w)"
    using d(1-4) find td ins(1)
    by (simp add: HeapFile_insertTuple_def Let_def bindM_assoc HeapPage_new_empty run_heap_at)
  then have "file_insertTuple n i tid t w = Inr ((t', [length (w_objs w)]), ?w)"
    using d(1,2) by (simp add: file_insertTuple_def)
  moreover have "pool_add_dirty tid [length (w_objs w)] ?w = Inr ((), ?w\<lparr>
      w_objs := (w_objs ?w)[length (w_objs w) := (w_objs ?w ! length (w_objs w))\<lparr>po_dirty := Some tid\<rparr>],
      w_pool := pm_put (page_getId (po_page (w_objs ?w ! length (w_objs w)))) (length (w_objs w)) (w_pool ?w)\<rparr>)"
    using room by (intro pool_add_dirty_new) (auto simp: pool_full_def)
  ultimately show ?thesis
    using db by (simp add: bp_insertTuple_def bindM_def db_getDatabaseFile_def nth_append del: pool_add_dirty.simps)
qed

section \<open>Properties\<close>

text \<open>
  The example: the two pages of the example file are in a pool of two, page 0 with one tuple and
  one free slot, page 1 full.
\<close>

definition scan_example :: world where
  "scan_example = pool_example0\<lparr>w_numPages := 2,
     w_pool := [(HeapPageId 7 0, 0), (HeapPageId 7 1, 1)],
     w_objs := [\<lparr>po_dirty = None, po_page = HeapPg (heap_example 1)\<rparr>,
                \<lparr>po_dirty = None, po_page = HeapPg pool_example_page1\<rparr>]\<rparr>"

lemma pool_example_page1_ok: "heap_ok 10 pool_example_page1"
proof -
  have "tp_rid (hp_tuples pool_example_page1 ! j) = Some \<lparr>rid_pid = HeapPageId 7 1, rid_tupleno = int j\<rparr> \<and>
      tp_td (hp_tuples pool_example_page1 ! j) = heap_example_td" if "j < 2" for j
    using that by (cases j) (auto simp: pool_example_page1_def heap_example_tuple_def)
  then show ?thesis by (auto simp: heap_ok_def) (auto simp: pool_example_page1_def heap_example_sizes)
qed

lemma scan_example_in_pool:
  "heapfile_in_pool scan_example 0 pool_example_file [0, 1] [heap_example 1, pool_example_page1]"
  using heap_example_ok [of 1] pool_example_page1_ok
  by (auto simp: heapfile_in_pool_def scan_example_def pool_example_file_def pool_example_page1_def less_Suc_eq)

lemma scan_example_tuples:
  "heap_tuples (heap_example 1) = [heap_example_tuple 10 (Some \<lparr>rid_pid = HeapPageId 7 0, rid_tupleno = 0\<rparr>)]"
  "heap_tuples pool_example_page1 =
     [heap_example_tuple 12 (Some \<lparr>rid_pid = HeapPageId 7 1, rid_tupleno = 0\<rparr>),
      heap_example_tuple 13 (Some \<lparr>rid_pid = HeapPageId 7 1, rid_tupleno = 1\<rparr>)]"
  by code_simp+

text \<open>C13
  A scan of a heap file whose pages are in the pool and none of which is empty returns every
  tuple of every page, in page and slot order, each once, and changes nothing. One more step
  than there are tuples is enough.
\<close>

theorem heapfile_scan_complete:
  assumes "heapfile_in_pool w i f as pgs" "pgs \<noteq> []" "\<And>p. p \<in> set pgs \<Longrightarrow> heap_tuples p \<noteq> []"
    "length (concat (map heap_tuples pgs)) < n"
  shows "heapfile_scan n i w = Inr (concat (map heap_tuples pgs), w)"
  using heapfile_scan_run [OF assms] .

theorem heapfile_scan_complete_witness:
  "heapfile_scan 4 0 scan_example = Inr (
     [heap_example_tuple 10 (Some \<lparr>rid_pid = HeapPageId 7 0, rid_tupleno = 0\<rparr>),
      heap_example_tuple 12 (Some \<lparr>rid_pid = HeapPageId 7 1, rid_tupleno = 0\<rparr>),
      heap_example_tuple 13 (Some \<lparr>rid_pid = HeapPageId 7 1, rid_tupleno = 1\<rparr>)], scan_example)"
proof -
  have "heap_tuples p \<noteq> []" if "p \<in> set [heap_example 1, pool_example_page1]" for p
    using that scan_example_tuples by auto
  then show ?thesis
    using heapfile_scan_complete [OF scan_example_in_pool, of 4] scan_example_tuples by simp
qed

text \<open>
  The effect of a heap file insertion on the tuples of the file: the first page with room gets
  the tuple, in its first free slot.
\<close>

definition heap_inserted :: "heap_page \<Rightarrow> tuple \<Rightarrow> tuple \<Rightarrow> heap_page \<Rightarrow> bool" where
  "heap_inserted p t t' p' \<longleftrightarrow> (\<exists>s < hp_numSlots p. heap_view p ! s = None \<and>
     (\<forall>i < s. heap_view p ! i \<noteq> None) \<and>
     t' = setRecordId t (Some \<lparr>rid_pid = hp_pid p, rid_tupleno = int s\<rparr>) \<and>
     heap_view p' = (heap_view p)[s := Some t'])"

lemma heap_insertE:
  assumes "heap_ok ps p" "td_eq (hp_td p) (tp_td t)" "0 < heap_getNumEmptySlots p"
  obtains t' p' where "heap_insertTuple p t = Inr (t', p')" "heap_inserted p t t' p'" "heap_ok ps p'"
    "hp_pid p' = hp_pid p" "tp_fields t' = tp_fields t"
proof -
  obtain s where s: "s < hp_numSlots p" "heap_view p ! s = None" "\<forall>i < s. heap_view p ! i \<noteq> None"
    and r: "heap_insertTuple p t =
       Inr (setRecordId t (Some \<lparr>rid_pid = hp_pid p, rid_tupleno = int s\<rparr>),
            p\<lparr>hp_header := shift_mark (hp_header p) s True,
              hp_tuples := (hp_tuples p)[s :=
                setRecordId t (Some \<lparr>rid_pid = hp_pid p, rid_tupleno = int s\<rparr>)]\<rparr>)"
    using heap_insert_step [OF assms] .
  let ?t = "setRecordId t (Some \<lparr>rid_pid = hp_pid p, rid_tupleno = int s\<rparr>)"
  have "heap_view (p\<lparr>hp_header := shift_mark (hp_header p) s True, hp_tuples := (hp_tuples p)[s := ?t]\<rparr>)
      = (heap_view p)[s := Some ?t]"
    using s(1) heap_ok_slots [OF assms(1)] assms(1) by (intro heap_view_update) (auto simp: heap_ok_def)
  with s have "heap_inserted p t ?t
      (p\<lparr>hp_header := shift_mark (hp_header p) s True, hp_tuples := (hp_tuples p)[s := ?t]\<rparr>)"
    by (auto simp: heap_inserted_def)
  then show ?thesis
    by (rule that [OF r _ heap_ok_insert [OF assms(1,2) s(1)]]) (simp_all add: setRecordId_def)
qed

lemma heap_inserted_mset:
  assumes "heap_inserted p t t' p'"
  shows "mset (heap_tuples p') = add_mset t' (mset (heap_tuples p))"
proof -
  obtain s where s: "s < length (heap_view p)" "heap_view p ! s = None" "heap_view p' = (heap_view p)[s := Some t']"
    using assms by (auto simp: heap_inserted_def)
  then show ?thesis using somes_split [OF s(1)] by (simp add: heap_tuples_def somes_update)
qed

lemma bp_insert_heap_scan:
  assumes "heapfile_in_pool w i f as pgs" "getDatabaseFile (w_catalog w) (hf_tableid f) = Inr i"
    "m < length pgs" "\<And>k. k < m \<Longrightarrow> heap_getNumEmptySlots (pgs ! k) = 0"
    "0 < heap_getNumEmptySlots (pgs ! m)" "td_eq (hp_td (pgs ! m)) (tp_td t)"
    "distinct as" "\<And>p. p \<in> set pgs \<Longrightarrow> heap_tuples p \<noteq> []"
  shows "\<exists>t' p' ts. heap_inserted (pgs ! m) t t' p' \<and>
    (let w' = w\<lparr>w_objs := (w_objs w)[as ! m := \<lparr>po_dirty = Some tid, po_page = HeapPg p'\<rparr>]\<rparr> in
      bp_insertTuple n tid (hf_tableid f) t w = Inr (t', w') \<and>
      heapfile_scan (length (concat (map heap_tuples pgs)) + 2) i w' = Inr (ts, w') \<and>
      mset ts = add_mset t' (mset (concat (map heap_tuples pgs))))"
proof -
  note d = heapfile_in_poolD [OF assms(1)]
  obtain t' p' where p': "heap_insertTuple (pgs ! m) t = Inr (t', p')" "heap_inserted (pgs ! m) t t' p'"
      "heap_ok (w_pageSize w) p'" "hp_pid p' = hp_pid (pgs ! m)"
    using heap_insertE [OF d(9) [OF assms(3)] assms(6,5)] by metis
  let ?w = "w\<lparr>w_objs := (w_objs w)[as ! m := \<lparr>po_dirty = Some tid, po_page = HeapPg p'\<rparr>]\<rparr>"
  have "bp_insertTuple n tid (hf_tableid f) t w = Inr (t', ?w)"
    using bp_insert_heap_room [OF assms(1-5) p'(1,4)] .
  moreover have r': "heapfile_in_pool ?w i f as (pgs[m := p'])"
    using d assms(3,7) p'(3,4)
    by (auto simp: heapfile_in_pool_def nth_list_update nth_eq_iff_index_eq)
  have ms: "mset (concat (map heap_tuples (pgs[m := p']))) = add_mset t' (mset (concat (map heap_tuples pgs)))"
    using heap_inserted_mset [OF p'(2)] by (rule mset_concat_update [OF assms(3)])
  then have "length (concat (map heap_tuples (pgs[m := p']))) = Suc (length (concat (map heap_tuples pgs)))"
    by (metis size_add_mset size_mset)
  moreover have "heap_tuples p' \<noteq> []" using heap_inserted_mset [OF p'(2)] by auto
  then have "\<And>p. p \<in> set (pgs[m := p']) \<Longrightarrow> heap_tuples p \<noteq> []"
    using assms(8) set_update_subset_insert [of pgs m p'] by auto
  moreover have "pgs[m := p'] \<noteq> []" using assms(3) by auto
  ultimately have "heapfile_scan (length (concat (map heap_tuples pgs)) + 2) i ?w =
      Inr (concat (map heap_tuples (pgs[m := p'])), ?w)"
    using heapfile_scan_run [OF r'] by simp
  with \<open>bp_insertTuple n tid (hf_tableid f) t w = Inr (t', ?w)\<close> p'(2) ms show ?thesis
    by (auto simp: Let_def)
qed

text \<open>C8
  Inserting through the pool into a heap file with a free slot: the first page with room gets
  the tuple in its first free slot, with its record id set; that page is marked dirty by the
  transaction and nothing else changes. A scan afterwards returns the tuples of before and the
  new one.
\<close>

theorem bp_insertTuple_heap:
  assumes "heapfile_in_pool w i f as pgs" "getDatabaseFile (w_catalog w) (hf_tableid f) = Inr i"
    "m < length pgs" "\<And>k. k < m \<Longrightarrow> heap_getNumEmptySlots (pgs ! k) = 0"
    "0 < heap_getNumEmptySlots (pgs ! m)" "td_eq (hp_td (pgs ! m)) (tp_td t)"
    "distinct as" "\<And>p. p \<in> set pgs \<Longrightarrow> heap_tuples p \<noteq> []"
  shows "\<exists>t' p' ts. heap_inserted (pgs ! m) t t' p' \<and>
    (let w' = w\<lparr>w_objs := (w_objs w)[as ! m := \<lparr>po_dirty = Some tid, po_page = HeapPg p'\<rparr>]\<rparr> in
      bp_insertTuple n tid (hf_tableid f) t w = Inr (t', w') \<and>
      heapfile_scan (length (concat (map heap_tuples pgs)) + 2) i w' = Inr (ts, w') \<and>
      mset ts = add_mset t' (mset (concat (map heap_tuples pgs))))"
  using bp_insert_heap_scan [OF assms] .

theorem bp_insertTuple_heap_witness:
  "\<exists>t' w'. bp_insertTuple 0 9 7 (heap_example_tuple 5 None) scan_example = Inr (t', w') \<and>
     po_dirty (w_objs w' ! 0) = Some 9"
proof -
  have e: "0 < heap_getNumEmptySlots (heap_example 1)" by code_simp
  have "getDatabaseFile (w_catalog scan_example) (hf_tableid pool_example_file) = Inr 0"
    by (simp add: scan_example_def pool_example_file_def)
  moreover have "td_eq heap_example_td (tp_td (heap_example_tuple 5 None))" by (simp add: heap_example_tuple_def)
  moreover have "heap_tuples p \<noteq> []" if "p \<in> set [heap_example 1, pool_example_page1]" for p
    using that scan_example_tuples by auto
  ultimately show ?thesis
    using bp_insertTuple_heap [OF scan_example_in_pool, of 0 "heap_example_tuple 5 None" 9 0] e
    by (auto simp: Let_def pool_example_file_def scan_example_def)
qed

text \<open>
  Inserting into a heap file all of whose pages are full, with room in the pool: a new page is
  made at the end of the file, holds exactly the tuple, in slot 0, and is in the pool, dirty;
  the file has one page more.
\<close>

lemma bp_insertTuple_heap_grows:
  assumes "heapfile_in_pool w i f as pgs" "getDatabaseFile (w_catalog w) (hf_tableid f) = Inr i"
    "\<And>k. k < length pgs \<Longrightarrow> heap_getNumEmptySlots (pgs ! k) = 0" "\<not> pool_full w"
    "td_eq (hf_td f) (tp_td t)" "0 < heap_getNumTuples (w_pageSize w) (hf_td f)"
  shows "\<exists>t' w' p'. bp_insertTuple n tid (hf_tableid f) t w = Inr (t', w') \<and>
    t' = setRecordId t (Some \<lparr>rid_pid = HeapPageId (hf_tableid f) (hf_numPages f), rid_tupleno = 0\<rparr>) \<and>
    heap_tuples p' = [t'] \<and> heap_ok (w_pageSize w) p' \<and>
    w_files w' = (w_files w)[i := HeapF (f\<lparr>hf_numPages := hf_numPages f + 1\<rparr>)] \<and>
    w_objs w' = w_objs w @ [\<lparr>po_dirty = Some tid, po_page = HeapPg p'\<rparr>] \<and>
    pm_find (HeapPageId (hf_tableid f) (hf_numPages f)) (w_pool w') = Some (length (w_objs w))"
proof -
  let ?p = "empty_heap_page (w_pageSize w) (hf_td f) (HeapPageId (hf_tableid f) (hf_numPages f))"
  let ?n = "heap_getNumTuples (w_pageSize w) (hf_td f)"
  have pp: "hp_td ?p = hf_td f" "hp_pid ?p = HeapPageId (hf_tableid f) (hf_numPages f)" "hp_numSlots ?p = ?n"
    by (simp_all add: empty_heap_page_def)
  have "heap_getNumEmptySlots ?p = ?n" using heap_occupancy [of ?p] pp(3)
    by (simp add: heap_tuples_def heap_view_empty)
  then obtain t' p' where p': "heap_insertTuple ?p t = Inr (t', p')" "heap_inserted ?p t t' p'"
      "heap_ok (w_pageSize w) p'" "hp_pid p' = hp_pid ?p"
    using heap_insertE [OF heap_ok_empty [of "w_pageSize w" "hf_td f" "HeapPageId (hf_tableid f) (hf_numPages f)"], of t]
      assms(5,6) pp(1) by metis
  then obtain s where s: "s < ?n" "\<forall>j < s. heap_view ?p ! j \<noteq> None"
      "t' = setRecordId t (Some \<lparr>rid_pid = hp_pid ?p, rid_tupleno = int s\<rparr>)"
      "heap_view p' = (heap_view ?p)[s := Some t']"
    unfolding heap_inserted_def pp by auto
  have "s = 0" using s(1,2) by (cases s) (auto simp: heap_view_empty)
  then have "heap_tuples p' = [t']"
    using s(1,4) by (simp add: heap_tuples_def heap_view_empty somes_update)
  with \<open>s = 0\<close> s(3) p' pp(2) show ?thesis
    using bp_insert_heap_new [OF assms(1-4) p'(1)] by auto
qed

text \<open>C22
  \<open>BufferPool::deleteTuple\<close> inserts: deleting a tuple of a heap file that has a free slot
  somewhere leaves every tuple of the file where it is and adds a copy of the tuple, so that a
  scan returns one tuple more than before.
\<close>

theorem bp_deleteTuple_inserts:
  assumes "heapfile_in_pool w i f as pgs" "getDatabaseFile (w_catalog w) (hf_tableid f) = Inr i"
    "m < length pgs" "\<And>k. k < m \<Longrightarrow> heap_getNumEmptySlots (pgs ! k) = 0"
    "0 < heap_getNumEmptySlots (pgs ! m)" "td_eq (hp_td (pgs ! m)) (tp_td t)"
    "distinct as" "\<And>p. p \<in> set pgs \<Longrightarrow> heap_tuples p \<noteq> []"
    "tp_rid t = Some rid" "getTableId (rid_pid rid) = hf_tableid f" "t \<in> set (concat (map heap_tuples pgs))"
  shows "\<exists>t' w' ts. bp_deleteTuple n tid t w = Inr (t', w') \<and>
    heapfile_scan (length (concat (map heap_tuples pgs)) + 2) i w' = Inr (ts, w') \<and>
    t \<in> set ts \<and> tp_fields t' = tp_fields t \<and>
    mset ts = add_mset t' (mset (concat (map heap_tuples pgs)))"
proof -
  obtain t' p' ts where ins: "heap_inserted (pgs ! m) t t' p'"
    and run: "let w' = w\<lparr>w_objs := (w_objs w)[as ! m := \<lparr>po_dirty = Some tid, po_page = HeapPg p'\<rparr>]\<rparr> in
      bp_insertTuple n tid (hf_tableid f) t w = Inr (t', w') \<and>
      heapfile_scan (length (concat (map heap_tuples pgs)) + 2) i w' = Inr (ts, w') \<and>
      mset ts = add_mset t' (mset (concat (map heap_tuples pgs)))"
    using bp_insert_heap_scan [OF assms(1-8)] by blast
  have "bp_deleteTuple n tid t w = bp_insertTuple n tid (hf_tableid f) t w"
    using assms(9,10) by (simp add: bp_deleteTuple_def bp_insertTuple_def)
  moreover have "tp_fields t' = tp_fields t" using ins by (auto simp: heap_inserted_def setRecordId_def)
  moreover have "t \<in> set ts" using run assms(11) by (metis mset_eq_setD set_mset_mset union_iff set_mset_add_mset_insert insertI2)
  ultimately show ?thesis using run by (auto simp: Let_def)
qed

theorem bp_deleteTuple_inserts_witness:
  "\<exists>t' w' ts. bp_deleteTuple 0 9 (heap_example_tuple 10 (Some \<lparr>rid_pid = HeapPageId 7 0, rid_tupleno = 0\<rparr>)) scan_example
      = Inr (t', w') \<and> heapfile_scan 5 0 w' = Inr (ts, w') \<and> length ts = 4"
proof -
  let ?t = "heap_example_tuple 10 (Some \<lparr>rid_pid = HeapPageId 7 0, rid_tupleno = 0\<rparr>)"
  have e: "0 < heap_getNumEmptySlots (heap_example 1)" by code_simp
  have db: "getDatabaseFile (w_catalog scan_example) (hf_tableid pool_example_file) = Inr 0"
    by (simp add: scan_example_def pool_example_file_def)
  have td: "td_eq heap_example_td (tp_td ?t)" by (simp add: heap_example_tuple_def)
  have ne: "heap_tuples p \<noteq> []" if "p \<in> set [heap_example 1, pool_example_page1]" for p
    using that scan_example_tuples by auto
  have ts: "concat (map heap_tuples [heap_example 1, pool_example_page1]) = [?t,
      heap_example_tuple 12 (Some \<lparr>rid_pid = HeapPageId 7 1, rid_tupleno = 0\<rparr>),
      heap_example_tuple 13 (Some \<lparr>rid_pid = HeapPageId 7 1, rid_tupleno = 1\<rparr>)]"
    using scan_example_tuples by simp
  have fl: "hf_tableid pool_example_file = 7" by (simp add: pool_example_file_def)
  have rid: "tp_rid ?t = Some \<lparr>rid_pid = HeapPageId 7 0, rid_tupleno = 0\<rparr>" by (simp add: heap_example_tuple_def)
  note th = bp_deleteTuple_inserts [OF scan_example_in_pool db, where m = 0 and t = ?t and n = 0 and tid = 9,
      OF _ _ _ _ _ _ rid, unfolded ts]
  have "\<exists>t' w' xs. bp_deleteTuple 0 9 ?t scan_example = Inr (t', w') \<and>
      heapfile_scan 5 0 w' = Inr (xs, w') \<and> size (mset xs) = 4"
    using th e td ne fl by (auto simp: eval_nat_numeral dest: arg_cong [where f = size])
  then obtain t' w' xs where r: "bp_deleteTuple 0 9 ?t scan_example = Inr (t', w')"
      "heapfile_scan 5 0 w' = Inr (xs, w')" "length xs = 4" by auto
  with r show ?thesis by (intro exI [of _ t'] exI [of _ w'] exI [of _ xs]) simp
qed

end
