(* ===== verification/HeapTableSpec.thy ===== *)
theory HeapTableSpec
  imports HeapFileSpec TableSpec
begin

text \<open>
  A heap file is a table: any sequence of insertions through the buffer pool succeeds while the
  pool has room for the pages, growing the file as its pages fill up, and the scan returns what was
  inserted.
\<close>

section \<open>One insertion\<close>

lemma heap_insertTuple_td: "heap_insertTuple p t = Inr (t', p') \<Longrightarrow> hp_td p' = hp_td p"
  by (auto simp: heap_insertTuple_def heap_markSlotUsed_def Let_def bindE_eq_Inr split: if_splits)

text \<open>
  The heap file at \<open>i\<close> holds \<open>M\<close>, and the pool has room for \<open>b\<close> more pages, the worst case for \<open>b\<close>
  more tuples. An empty file has no page.
\<close>

definition heap_rep :: "nat \<Rightarrow> int \<Rightarrow> tuple_desc \<Rightarrow> world \<Rightarrow> nat \<Rightarrow> tuple multiset \<Rightarrow> bool" where
  "heap_rep i tab td w b M \<longleftrightarrow>
     getDatabaseFile (w_catalog w) tab = Inr i \<and> length (w_pool w) + b \<le> usize (w_numPages w) \<and>
     0 < heap_getNumTuples (w_pageSize w) td \<and>
     (\<exists>f as pgs. heapfile_in_pool w i f as pgs \<and> hf_tableid f = tab \<and> hf_td f = td \<and> distinct as \<and>
       (\<forall>p \<in> set pgs. heap_tuples p \<noteq> [] \<and> hp_td p = td) \<and> M = mset (map strip (concat (map heap_tuples pgs))))"

lemma heapfile_update:
  assumes r: "heapfile_in_pool w i f as pgs" and d: "distinct as" "m < length pgs"
    and p: "heap_ok (w_pageSize w) p" "hp_pid p = hp_pid (pgs ! m)"
  shows "heapfile_in_pool (w\<lparr>w_objs := (w_objs w)[as ! m := \<lparr>po_dirty = x, po_page = HeapPg p\<rparr>]\<rparr>) i f as (pgs[m := p])"
  using heapfile_in_poolD [OF r] assms
  by (auto simp: heapfile_in_pool_def nth_list_update nth_eq_iff_index_eq)

lemma heapfile_append:
  assumes r: "heapfile_in_pool w i f as pgs" and p: "heap_ok (w_pageSize w) p" "hp_pid p = HeapPageId (hf_tableid f) (hf_numPages f)"
  shows "heapfile_in_pool (w\<lparr>w_objs := w_objs w @ [\<lparr>po_dirty = x, po_page = HeapPg p\<rparr>],
      w_files := (w_files w)[i := HeapF (f\<lparr>hf_numPages := hf_numPages f + 1\<rparr>)],
      w_pool := pm_put (hp_pid p) (length (w_objs w)) (w_pool w)\<rparr>) i (f\<lparr>hf_numPages := hf_numPages f + 1\<rparr>)
      (as @ [length (w_objs w)]) (pgs @ [p])"
  using heapfile_in_poolD [OF r] p
  by (auto simp: heapfile_in_pool_def nth_append less_Suc_eq pages.find_put)

text \<open>The tuple goes into the first page with a free slot, or into a new page at the end.\<close>

lemma heap_rep_insert_room:
  assumes r: "heapfile_in_pool w i f as pgs" and f: "hf_tableid f = tab" "hf_td f = td" "distinct as"
      "\<And>p. p \<in> set pgs \<Longrightarrow> heap_tuples p \<noteq> [] \<and> hp_td p = td" "M = mset (map strip (concat (map heap_tuples pgs)))"
    and db: "getDatabaseFile (w_catalog w) (hf_tableid f) = Inr i"
    and pool: "length (w_pool w) + Suc b \<le> usize (w_numPages w)"
    and sz: "0 < heap_getNumTuples (w_pageSize w) td" and t: "td_eq td (tp_td t)"
    and True: "\<exists>m. m < length pgs \<and> 0 < heap_getNumEmptySlots (pgs ! m)"
  shows "\<exists>t' w'. bp_insertTuple n tid tab t w = Inr (t', w') \<and> strip t' = strip t \<and> heap_rep i tab td w' b (add_mset (strip t) M)"
proof -
  note d = heapfile_in_poolD [OF r]
  define m where "m = (LEAST m. m < length pgs \<and> 0 < heap_getNumEmptySlots (pgs ! m))"
  have m: "m < length pgs" "0 < heap_getNumEmptySlots (pgs ! m)" using LeastI_ex [OF True] by (simp_all add: m_def)
  have low: "heap_getNumEmptySlots (pgs ! k) = 0" if "k < m" for k
    using not_less_Least [of k "\<lambda>m. m < length pgs \<and> 0 < heap_getNumEmptySlots (pgs ! m)"] that m(1) by (auto simp: m_def)
  have pm: "hp_td (pgs ! m) = td" using f(4) [OF nth_mem [OF m(1)]] by simp
  obtain t' p' where p': "heap_insertTuple (pgs ! m) t = Inr (t', p')" "heap_inserted (pgs ! m) t t' p'"
      "heap_ok (w_pageSize w) p'" "hp_pid p' = hp_pid (pgs ! m)"
    using heap_insertE [OF d(9) [OF m(1)] _ m(2)] t pm by metis
  let ?w = "w\<lparr>w_objs := (w_objs w)[as ! m := \<lparr>po_dirty = Some tid, po_page = HeapPg p'\<rparr>]\<rparr>"
  have "bp_insertTuple n tid tab t w = Inr (t', ?w)"
    using bp_insert_heap_room [OF r db m(1) low m(2) p'(1,4)] f(1) by simp
  moreover have st: "strip t' = strip t" using p'(2) by (auto simp: heap_inserted_def)
  moreover have "mset (concat (map heap_tuples (pgs[m := p']))) = add_mset t' (mset (concat (map heap_tuples pgs)))"
    using heap_inserted_mset [OF p'(2)] by (rule mset_concat_update [OF m(1)])
  then have "mset (map strip (concat (map heap_tuples (pgs[m := p'])))) = add_mset (strip t) M" using st f(5) by simp
  moreover have "heap_tuples p' \<noteq> []" using heap_inserted_mset [OF p'(2)] by auto
  then have "\<forall>p \<in> set (pgs[m := p']). heap_tuples p \<noteq> [] \<and> hp_td p = td"
    using f(4) pm heap_insertTuple_td [OF p'(1)] by (auto dest!: set_update_subset_insert [THEN subsetD])
  ultimately show ?thesis
    using heapfile_update [OF r f(3) m(1) p'(3,4), of "Some tid"] db f(1-3) pool sz
    by (auto simp: heap_rep_def intro!: exI [of _ t'] exI [of _ ?w] exI [of _ f] exI [of _ as] exI [of _ "pgs[m := p']"])
qed

lemma heap_rep_insert_new:
  assumes r: "heapfile_in_pool w i f as pgs" and f: "hf_tableid f = tab" "hf_td f = td" "distinct as"
      "\<And>p. p \<in> set pgs \<Longrightarrow> heap_tuples p \<noteq> [] \<and> hp_td p = td" "M = mset (map strip (concat (map heap_tuples pgs)))"
    and db: "getDatabaseFile (w_catalog w) (hf_tableid f) = Inr i"
    and pool: "length (w_pool w) + Suc b \<le> usize (w_numPages w)"
    and sz: "0 < heap_getNumTuples (w_pageSize w) td" and t: "td_eq td (tp_td t)"
    and False: "\<not> (\<exists>m. m < length pgs \<and> 0 < heap_getNumEmptySlots (pgs ! m))"
  shows "\<exists>t' w'. bp_insertTuple n tid tab t w = Inr (t', w') \<and> strip t' = strip t \<and> heap_rep i tab td w' b (add_mset (strip t) M)"
proof -
  note d = heapfile_in_poolD [OF r]
  let ?p = "empty_heap_page (w_pageSize w) (hf_td f) (HeapPageId (hf_tableid f) (hf_numPages f))"
  have pp: "hp_td ?p = td" "hp_pid ?p = HeapPageId (hf_tableid f) (hf_numPages f)" "hp_numSlots ?p = heap_getNumTuples (w_pageSize w) td"
    by (simp_all add: empty_heap_page_def f(2))
  have "heap_tuples ?p = []" by (simp add: heap_tuples_def heap_view_empty)
  then have room: "0 < heap_getNumEmptySlots ?p" using heap_occupancy [of ?p] sz pp(3) by simp
  obtain t' p' where p': "heap_insertTuple ?p t = Inr (t', p')" "heap_inserted ?p t t' p'"
      "heap_ok (w_pageSize w) p'" "hp_pid p' = hp_pid ?p"
    using heap_insertE [OF heap_ok_empty _ room] t pp(1) by metis
  have full: "\<not> pool_full w" using pool by (simp add: pool_full_def)
  have zero: "heap_getNumEmptySlots (pgs ! k) = 0" if "k < length pgs" for k using False that by auto
  let ?f = "f\<lparr>hf_numPages := hf_numPages f + 1\<rparr>"
  let ?w = "w\<lparr>w_objs := w_objs w @ [\<lparr>po_dirty = Some tid, po_page = HeapPg p'\<rparr>], w_files := (w_files w)[i := HeapF ?f],
    w_pool := pm_put (hp_pid p') (length (w_objs w)) (w_pool w)\<rparr>"
  have pid: "hp_pid p' = HeapPageId (hf_tableid f) (hf_numPages f)" using p'(4) pp(2) by simp
  have "bp_insertTuple n tid tab t w = Inr (t', ?w)"
    using bp_insert_heap_new [OF r db zero full p'(1) pid] f(1) by simp
  moreover have st: "strip t' = strip t" using p'(2) by (auto simp: heap_inserted_def)
  moreover have ms: "mset (heap_tuples p') = {#t'#}" using heap_inserted_mset [OF p'(2)] \<open>heap_tuples ?p = []\<close> by simp
  then have "mset (map strip (concat (map heap_tuples (pgs @ [p'])))) = add_mset (strip t) M" using st f(5) by simp
  moreover have "\<forall>p \<in> set (pgs @ [p']). heap_tuples p \<noteq> [] \<and> hp_td p = td"
    using f(4) ms pp(1) heap_insertTuple_td [OF p'(1)] by auto
  moreover have "distinct (as @ [length (w_objs w)])"
    using f(3) d(4) less_irrefl d(6) by (fastforce simp: in_set_conv_nth)
  moreover have "length (w_pool ?w) \<le> Suc (length (w_pool w))" by (simp add: pages.size_put)
  ultimately show ?thesis
    using heapfile_append [OF r p'(3) pid, of "Some tid"] db f(1,2) pool sz
    by (auto simp: heap_rep_def intro!: exI [of _ t'] exI [of _ ?w] exI [of _ ?f] exI [of _ "as @ [length (w_objs w)]"] exI [of _ "pgs @ [p']"])
qed

lemma heap_rep_insert:
  assumes "heap_rep i tab td w (Suc b) M" "td_eq td (tp_td t)"
  shows "\<exists>t' w'. bp_insertTuple n tid tab t w = Inr (t', w') \<and> strip t' = strip t \<and> heap_rep i tab td w' b (add_mset (strip t) M)"
proof -
  obtain f as pgs where r: "heapfile_in_pool w i f as pgs" and f: "hf_tableid f = tab" "hf_td f = td" "distinct as"
      "\<And>p. p \<in> set pgs \<Longrightarrow> heap_tuples p \<noteq> [] \<and> hp_td p = td" "M = mset (map strip (concat (map heap_tuples pgs)))"
    and db: "getDatabaseFile (w_catalog w) (hf_tableid f) = Inr i" and pool: "length (w_pool w) + Suc b \<le> usize (w_numPages w)"
    and sz: "0 < heap_getNumTuples (w_pageSize w) td"
    using assms(1) by (auto simp: heap_rep_def)
  show ?thesis
    using heap_rep_insert_room [OF r f db pool sz assms(2)] heap_rep_insert_new [OF r f db pool sz assms(2)] by blast
qed

lemma heap_rep_scan:
  assumes "heap_rep i tab td w b M" "M \<noteq> {#}" "size M < k"
  shows "\<exists>us. heapfile_scan k i w = Inr (us, w) \<and> mset (map strip us) = M \<and> True"
proof -
  obtain f as pgs where r: "heapfile_in_pool w i f as pgs" "\<And>p. p \<in> set pgs \<Longrightarrow> heap_tuples p \<noteq> []"
      "M = mset (map strip (concat (map heap_tuples pgs)))"
    using assms(1) by (auto simp: heap_rep_def)
  moreover from r(3) assms(2) have "pgs \<noteq> []" by auto
  moreover have "length (concat (map heap_tuples pgs)) < k" using assms(3) by (simp only: r(3) size_mset length_map)
  ultimately show ?thesis using heapfile_scan_run [of w i f as pgs k] by blast
qed

interpretation heap_table: bag_table "bp_insertTuple n tid tab" "heap_rep i tab td" "\<lambda>t. td_eq td (tp_td t)"
    "\<lambda>k. heapfile_scan k i" "\<lambda>us. True"
  for n tid tab i td
  by unfold_locales (blast intro: heap_rep_insert heap_rep_scan)+

section \<open>Property\<close>

text \<open>The example: an empty heap file on pages of 10 bytes, two tuples per page, and a pool of nine pages.\<close>

definition fill_example :: world where
  "fill_example = pool_example0\<lparr>w_numPages := 9, w_files := [HeapF (pool_example_file\<lparr>hf_numPages := 0\<rparr>)]\<rparr>"

text \<open>C7
  Filling a heap file, from the empty one on: tuples of its schema, inserted one after the other
  through the buffer pool, all go in while the pool has room for a page per tuple, whatever pages
  are added on the way; the scan afterwards returns exactly the old and the new tuples, each once.
\<close>

theorem heap_fill_scan:
  assumes "heap_rep i tab td w (length ts + b) M" "\<And>t. t \<in> set ts \<Longrightarrow> td_eq td (tp_td t)" "M \<noteq> {#} \<or> ts \<noteq> []"
    "size M + length ts < k"
  shows "\<exists>w' us. insertTuples (bp_insertTuple n tid tab) ts w = Inr ((), w') \<and>
    heapfile_scan k i w' = Inr (us, w') \<and> mset (map strip us) = M + mset (map strip ts) \<and>
    heap_rep i tab td w' b (M + mset (map strip ts))"
  using heap_table.insert_all_scan [OF assms, of n tid] by blast

theorem heap_fill_scan_witness:
  "\<exists>w' us. insertTuples (bp_insertTuple 0 9 7) (map (\<lambda>v. heap_example_tuple v None) [5, 3, 8]) fill_example = Inr ((), w') \<and>
     heapfile_scan 4 0 w' = Inr (us, w') \<and>
     mset (map strip us) = image_mset (\<lambda>v. strip (heap_example_tuple v None)) {#5, 3, 8#}"
proof -
  have "heapfile_in_pool fill_example 0 (pool_example_file\<lparr>hf_numPages := 0\<rparr>) [] []"
    by (simp add: heapfile_in_pool_def fill_example_def)
  then have "heap_rep 0 7 heap_example_td fill_example (length (map (\<lambda>v. heap_example_tuple v None) [5, 3, 8]) + 0) {#}"
    unfolding heap_rep_def
    by (intro conjI exI [of _ "pool_example_file\<lparr>hf_numPages := 0\<rparr>"] exI [of _ "[]"])
      (simp_all add: fill_example_def heap_example_sizes usize_def pool_example_file_def)
  moreover have "td_eq heap_example_td (tp_td t)" if "t \<in> set (map (\<lambda>v. heap_example_tuple v None) [5, 3, 8])" for t
    using that by (auto simp: heap_example_tuple_def)
  ultimately show ?thesis
    using heap_fill_scan [of 0 7 heap_example_td fill_example "map (\<lambda>v. heap_example_tuple v None) [5, 3, 8]" 0 "{#}" 4 0 9]
    by (auto simp del: insertTuples.simps)
qed

end
