(* ===== verification/HeapStoreSpec.thy ===== *)
theory HeapStoreSpec
  imports HeapTableSpec
begin

text \<open>
  Heap files under eviction: the pages of a file are in the pool or on the disk, whatever the
  capacity of the pool is and whatever page it evicts. Insertion keeps that, and flushing the pool
  brings the whole table to the disk, where a restarted database finds it. The file must stay below
  two gigabytes, since the offsets of its pages are \<open>int\<close>s. Scanning it through a pool that does not
  hold its pages is what the iterator cannot do: it changes a page id that the pool uses as a key.
\<close>

section \<open>Pages in the pool and on the disk\<close>

text \<open>\<open>p\<close> is page \<open>j\<close> of the file, with the slots \<open>v\<close>.\<close>

definition page_holds :: "nat \<Rightarrow> heap_file \<Rightarrow> nat \<Rightarrow> tuple option list \<Rightarrow> heap_page \<Rightarrow> bool" where
  "page_holds ps f j v p \<longleftrightarrow> heap_ok ps p \<and> hp_pid p = HeapPageId (hf_tableid f) (int j) \<and> hp_td p = hf_td f \<and>
     heap_view p = v \<and> (\<forall>t \<in> set (somes v). fits (hf_td f) t)"

text \<open>Reading page \<open>j\<close> from the disk of the file gives such a page.\<close>

definition on_disk :: "(nat \<Rightarrow> byte) \<Rightarrow> nat \<Rightarrow> heap_file \<Rightarrow> nat \<Rightarrow> tuple option list \<Rightarrow> bool" where
  "on_disk junk ps f j v \<longleftrightarrow> Suc j * ps \<le> length (hf_disk f) \<and>
     (\<exists>q. HeapPage_new junk ps (hf_td f) (HeapPageId (hf_tableid f) (int j)) (heap_page_bytes junk ps (int j * int ps) (hf_disk f)) = Inr q \<and>
       page_holds ps f j v q)"

text \<open>The offsets of \<open>n\<close> pages, the products of page numbers and page size, are \<open>int\<close>s.\<close>

definition offsets_fit :: "nat \<Rightarrow> nat \<Rightarrow> bool" where
  "offsets_fit ps n \<longleftrightarrow> n * ps \<le> 2 ^ 31"

lemma offsets_fit_le: "offsets_fit ps n \<Longrightarrow> m \<le> n \<Longrightarrow> offsets_fit ps m"
  unfolding offsets_fit_def by (meson mult_le_mono1 order_trans)

lemma offset_int32:
  assumes "offsets_fit ps n" "j < n" "0 < ps"
  shows "is_int32 (int j * int ps)"
proof -
  have "Suc j * ps \<le> n * ps" using assms(2) by (intro mult_le_mono1) simp
  then have "j * ps < 2 ^ 31" using assms(1,3) unfolding offsets_fit_def by simp
  then show ?thesis by (simp flip: of_nat_mult add: is_int32_int)
qed

text \<open>
  The pool entries of the file hold its pages; entries of other files are clean, so that evicting
  them writes nothing. A page that is not dirty in the pool is on the disk.
\<close>

definition entry_stored :: "world \<Rightarrow> heap_file \<Rightarrow> tuple option list list \<Rightarrow> page_id \<times> nat \<Rightarrow> bool" where
  "entry_stored w f vs e \<longleftrightarrow>
     (if getTableId (fst e) = hf_tableid f
      then \<exists>j < length vs. \<exists>p. fst e = HeapPageId (hf_tableid f) (int j) \<and> po_page (w_objs w ! snd e) = HeapPg p \<and>
        page_holds (w_pageSize w) f j (vs ! j) p
      else po_dirty (w_objs w ! snd e) = None)"

definition dirty_in_pool :: "world \<Rightarrow> page_id \<Rightarrow> bool" where
  "dirty_in_pool w k \<longleftrightarrow> (\<exists>a. pm_find k (w_pool w) = Some a \<and> po_dirty (w_objs w ! a) \<noteq> None)"

definition heap_store :: "world \<Rightarrow> nat \<Rightarrow> heap_file \<Rightarrow> tuple option list list \<Rightarrow> bool" where
  "heap_store w i f vs \<longleftrightarrow>
     pool_ok w \<and> getDatabaseFile (w_catalog w) (hf_tableid f) = Inr i \<and> i < length (w_files w) \<and> w_files w ! i = HeapF f \<and>
     int_schema (hf_td f) \<and> 0 < w_pageSize w \<and> offsets_fit (w_pageSize w) (length vs) \<and> length (hf_disk f) \<le> length vs * w_pageSize w \<and>
     (\<forall>e \<in> set (w_pool w). entry_stored w f vs e) \<and>
     (\<forall>j < length vs. dirty_in_pool w (HeapPageId (hf_tableid f) (int j)) \<or> on_disk (w_junk w) (w_pageSize w) f j (vs ! j))"

lemma heap_storeD:
  assumes "heap_store w i f vs"
  shows "pool_ok w" "getDatabaseFile (w_catalog w) (hf_tableid f) = Inr i" "i < length (w_files w)" "w_files w ! i = HeapF f"
    "int_schema (hf_td f)" "length (hf_disk f) \<le> length vs * w_pageSize w"
    "\<And>e. e \<in> set (w_pool w) \<Longrightarrow> entry_stored w f vs e"
    "\<And>j. j < length vs \<Longrightarrow> dirty_in_pool w (HeapPageId (hf_tableid f) (int j)) \<or> on_disk (w_junk w) (w_pageSize w) f j (vs ! j)"
    "0 < w_pageSize w" "offsets_fit (w_pageSize w) (length vs)" "\<And>j. j < length vs \<Longrightarrow> is_int32 (int j * int (w_pageSize w))"
  using assms by (auto simp: heap_store_def intro: offset_int32)

section \<open>Writing one page\<close>

lemma page_holds_disk [simp]: "page_holds ps (f\<lparr>hf_disk := d\<rparr>) = page_holds ps f"
  by (simp add: page_holds_def fun_eq_iff)

lemma length_disk_pwrite: "length (disk_pwrite False (int j * int ps) d disk) = max (length disk) (j * ps + length d)"
  by (simp add: disk_pwrite_def length_disk_write nat_mult_distrib flip: of_nat_mult)

lemma page_written:
  assumes p: "page_holds ps f j v p" and td: "int_schema (hf_td f)"
  obtains d where "heap_getPageData junk ps p = Inr d" "length d = ps"
    "on_disk junk ps (f\<lparr>hf_disk := disk_pwrite False (int j * int ps) d (hf_disk f)\<rparr>) j v"
proof -
  have ok: "heap_ok ps p" "hp_pid p = HeapPageId (hf_tableid f) (int j)" "hp_td p = hf_td f" "heap_view p = v"
      "\<And>t. t \<in> set (somes v) \<Longrightarrow> fits (hf_td f) t"
    using p by (auto simp: page_holds_def)
  have "fits (hp_td p) (hp_tuples p ! s)" if "s < hp_numSlots p" "heap_isSlotUsed p s" for s
  proof -
    have "heap_view p ! s = Some (hp_tuples p ! s)" "s < length (heap_view p)" using that by (simp_all add: heap_view_nth)
    then have "Some (hp_tuples p ! s) \<in> set v" using nth_mem [of s "heap_view p"] ok(4) by simp
    with ok(3,5) show ?thesis by (simp add: set_somes)
  qed
  moreover have "int_schema (hp_td p)" using td ok(3) by simp
  ultimately obtain d q where
    d: "heap_getPageData junk ps p = Inr d" "length d = ps" "HeapPage_new junk ps (hf_td f) (HeapPageId (hf_tableid f) (int j)) d = Inr q"
      "heap_ok ps q" "heap_view q = heap_view p"
    using heap_page_rt [OF ok(1), of junk junk] unfolding ok(2,3) by blast
  have "hp_pid q = HeapPageId (hf_tableid f) (int j)" "hp_td q = hf_td f"
    using d(3) by (auto simp: HeapPage_new_def bindE_eq_Inr Let_def)
  with d ok have "page_holds ps f j v q" by (simp add: page_holds_def)
  with d(2,3) show ?thesis
    by (intro that [OF d(1,2)]) (simp add: on_disk_def length_disk_pwrite heap_page_bytes_written)
qed

lemma page_kept:
  assumes "on_disk junk ps f k u" "k \<noteq> j" "length d = ps"
  shows "on_disk junk ps (f\<lparr>hf_disk := disk_pwrite False (int j * int ps) d (hf_disk f)\<rparr>) k u"
proof -
  have len: "Suc k * ps \<le> length (hf_disk f)" using assms(1) by (simp add: on_disk_def)
  then have "int (Suc k * ps) \<le> int (length (hf_disk f))" by linarith
  then have "(int k + 1) * int ps \<le> int (length (hf_disk f))" by (simp add: algebra_simps)
  from heap_page_bytes_other [OF assms(3) _ _ _ this, of "int j" junk] assms(1,2) len show ?thesis
    by (auto simp: on_disk_def length_disk_pwrite le_max_iff_disj)
qed

section \<open>Flushing and evicting\<close>

text \<open>The file may change on the disk only.\<close>

definition disk_differs :: "heap_file \<Rightarrow> heap_file \<Rightarrow> bool" where
  "disk_differs f f' \<longleftrightarrow> (\<exists>d. f' = f\<lparr>hf_disk := d\<rparr>)"

lemma disk_differs_refl [simp]: "disk_differs f f"
  by (auto simp: disk_differs_def intro: exI [of _ "hf_disk f"])

lemma disk_differs_trans: "disk_differs f g \<Longrightarrow> disk_differs g h \<Longrightarrow> disk_differs f h"
  by (auto simp: disk_differs_def)

lemma disk_differs_simps:
  assumes "disk_differs f f'"
  shows "hf_tableid f' = hf_tableid f" "hf_td f' = hf_td f" "hf_numPages f' = hf_numPages f"
    "page_holds ps f' = page_holds ps f"
  using assms by (auto simp: disk_differs_def)

lemma entry_stored_pool [simp]: "entry_stored (w\<lparr>w_pool := m\<rparr>) = entry_stored w"
  by (simp add: entry_stored_def fun_eq_iff)

lemma entry_stored_clean:
  assumes "entry_stored w f vs e" "disk_differs f f'" "w_pageSize w' = w_pageSize w" "w_objs w' = clean_obj x (w_objs w)"
    "snd e < length (w_objs w)"
  shows "entry_stored w' f' vs e"
  using assms disk_differs_simps [OF assms(2)] by (auto simp: entry_stored_def dirty_clean_obj)

lemma dirty_in_pool_flushed:
  assumes ok: "pool_ok w" and e: "(k, a) \<in> set (w_pool w)" and l: "no_skeleton l" "l \<noteq> k" "dirty_in_pool w l"
  shows "dirty_in_pool (w\<lparr>w_objs := clean_obj (Some a) (w_objs w)\<rparr>) l"
proof -
  obtain c where c: "pm_find l (w_pool w) = Some c" "po_dirty (w_objs w ! c) \<noteq> None" using l(3) by (auto simp: dirty_in_pool_def)
  then have "entry_ok w (l, c)" "entry_ok w (k, a)" using ok e pm_find_Some_set [OF l(1) c(1)] by (auto simp: pool_ok_def)
  then have "c \<noteq> a" "c < length (w_objs w)" using l(2) by (auto simp: entry_ok_def)
  with c show ?thesis by (auto simp: dirty_in_pool_def dirty_clean_obj)
qed

lemma flush_stored:
  assumes S: "heap_store w i f vs" and e: "(k, a) \<in> set (w_pool w)"
  obtains w' f' where "flushPage k w = Inr ((), w')" "heap_store w' i f' vs" "disk_differs f f'" "w_pool w' = w_pool w"
    "same_base w w'" "po_dirty (w_objs w' ! a) = None" "w_objs w' = clean_obj (Some a) (w_objs w)"
proof -
  note d = heap_storeD [OF S]
  have ka: "no_skeleton k" "a < length (w_objs w)" using d(1) e by (auto simp: pool_ok_def entry_ok_def)
  have fk: "pm_find k (w_pool w) = Some a" using d(1) e ka(1) by (intro pm_find_mem) (auto simp: pool_ok_def)
  show ?thesis
  proof (cases "po_dirty (w_objs w ! a) = None")
    case True
    then have "flushPage k w = Inr ((), w)" using fk ka by (simp add: flushPage_def isDirty_def bindM_def)
    then show ?thesis using True S by (intro that [of w f]) (simp_all add: clean_obj_noop)
  next
    case False
    with d(7) [OF e] obtain j p where j: "j < length vs" "k = HeapPageId (hf_tableid f) (int j)" "po_page (w_objs w ! a) = HeapPg p"
        "page_holds (w_pageSize w) f j (vs ! j) p"
      by (auto simp: entry_stored_def split: if_splits)
    obtain b where b: "heap_getPageData (w_junk w) (w_pageSize w) p = Inr b" "length b = w_pageSize w"
        "on_disk (w_junk w) (w_pageSize w) (f\<lparr>hf_disk := disk_pwrite False (int j * int (w_pageSize w)) b (hf_disk f)\<rparr>) j (vs ! j)"
      using page_written [OF j(4) d(5)] .
    let ?f = "f\<lparr>hf_disk := disk_pwrite False (int j * int (w_pageSize w)) b (hf_disk f)\<rparr>"
    let ?w = "w\<lparr>w_objs := clean_obj (Some a) (w_objs w), w_files := (w_files w)[i := HeapF ?f]\<rparr>"
    have "pageNumber (hp_pid p) = int j" using j(4) by (simp add: page_holds_def)
    then have run: "flushPage k w = Inr ((), ?w)"
      using flushPage_run [OF fk ka(2) False, of i] d(2-4) d(11) [OF j(1)] j(2,3) b(1,2)
        heap_write_run [of i "w\<lparr>w_objs := clean_obj (Some a) (w_objs w)\<rparr>" f p b] by simp
    have diff: "disk_differs f ?f" by (auto simp: disk_differs_def)
    have "Suc j * w_pageSize w \<le> length vs * w_pageSize w" using j(1) by (intro mult_le_mono1) simp
    then have len: "length (hf_disk ?f) \<le> length vs * w_pageSize w" using d(6) b(2) by (simp add: length_disk_pwrite)
    have st: "entry_stored ?w ?f vs x" if "x \<in> set (w_pool w)" for x
      using that d(1) by (intro entry_stored_clean [OF d(7) diff]) (auto simp: pool_ok_def entry_ok_def)
    have pg: "dirty_in_pool ?w (HeapPageId (hf_tableid f) (int m)) \<or> on_disk (w_junk w) (w_pageSize w) ?f m (vs ! m)"
      if m: "m < length vs" for m
    proof (cases "m = j")
      case True
      with b(3) show ?thesis by simp
    next
      case False
      from d(8) [OF m] show ?thesis
      proof
        assume "dirty_in_pool w (HeapPageId (hf_tableid f) (int m))"
        with dirty_in_pool_flushed [OF d(1) e, of "HeapPageId (hf_tableid f) (int m)"] False j(2) show ?thesis
          by (simp add: dirty_in_pool_def)
      qed (use page_kept [OF _ False b(2)] in blast)
    qed
    have "pool_ok ?w" using pool_ok_flush [OF d(1) run] by simp
    then have "heap_store ?w i ?f vs" using d st pg len by (simp add: heap_store_def)
    then show ?thesis using run diff ka(2)
      by (intro that [of ?w ?f]) (simp_all add: same_base_def dirty_clean_obj)
  qed
qed

lemma evict_stored:
  assumes S: "heap_store w i f vs"
  obtains w' f' where "evictPage w = Inr ((), w')" "heap_store w' i f' vs" "disk_differs f f'"
proof (cases "w_order w (w_pool w)")
  case Nil
  then have "evictPage w = Inr ((), w)" by (simp add: evictPage_def)
  with S show ?thesis by (intro that [of w f]) simp_all
next
  case (Cons x rest)
  obtain k a where x: "x = (k, a)" by (cases x)
  note d = heap_storeD [OF S]
  have ord: "mset (w_order w (w_pool w)) = mset (w_pool w)" using d(1) by (simp add: pool_ok_def)
  have e: "(k, a) \<in> set (w_pool w)" using mset_eq_setD [OF ord] Cons x by auto
  obtain v f' where v: "flushPage k w = Inr ((), v)" "heap_store v i f' vs" "disk_differs f f'" "w_pool v = w_pool w"
      "same_base w v" "po_dirty (w_objs v ! a) = None"
    using flush_stored [OF S e] by metis
  let ?w = "v\<lparr>w_pool := remove1 (k, a) (w_pool w)\<rparr>"
  note dv = heap_storeD [OF v(2)]
  have ev: "evictPage w = Inr ((), ?w)" using v(1,4) Cons x by (simp add: evictPage_def bindM_def)
  have inv: "pm_inv (w_pool w)" "no_skeleton k" using d(1) e by (auto simp: pool_ok_def entry_ok_def)
  have pg: "dirty_in_pool ?w (HeapPageId (hf_tableid f') (int j)) \<or> on_disk (w_junk v) (w_pageSize v) f' j (vs ! j)"
    if j: "j < length vs" for j
    using dv(8) [OF j] v(4,6) pm_find_mem [OF inv(1) e inv(2)] pm_find_remove1 [OF inv(1) e inv(2), of "HeapPageId (hf_tableid f') (int j)"]
    by (auto simp: dirty_in_pool_def)
  have "pool_ok ?w" using pool_ok_evict [OF d(1) ev] by simp
  moreover have "entry_stored v f' vs x" if "x \<in> set (remove1 (k, a) (w_pool w))" for x
    using dv(7) v(4) subsetD [OF set_remove1_subset that] by simp
  ultimately have "heap_store ?w i f' vs" using dv pg by (simp add: heap_store_def)
  then show ?thesis using that [OF ev] v(3) by blast
qed

text \<open>Making room, as \<open>getPage\<close> and the loop over the dirty pages do.\<close>

lemma make_room_stored:
  assumes S: "heap_store w i f vs"
  obtains v f' where "(if b then evictPage else returnM ()) w = Inr ((), v)" "heap_store v i f' vs" "disk_differs f f'"
proof (cases b)
  case True
  obtain v f' where "evictPage w = Inr ((), v)" "heap_store v i f' vs" "disk_differs f f'" using evict_stored [OF S] .
  with True show ?thesis by (intro that [of v f']) simp_all
next
  case False
  with S show ?thesis by (intro that [of w f]) simp_all
qed

lemma make_room_objs:
  assumes ok: "pool_ok w" and v: "(if b then evictPage else returnM ()) w = Inr ((), v)"
  shows "length (w_objs v) = length (w_objs w)" "a \<notin> snd ` set (w_pool w) \<Longrightarrow> w_objs v ! a = w_objs w ! a"
proof -
  obtain x where x: "w_objs v = clean_obj x (w_objs w)" "\<And>c. x = Some c \<Longrightarrow> c \<in> snd ` set (w_pool w)"
  proof (cases b)
    case True
    with v have "evictPage w = Inr ((), v)" by simp
    from evictPage_objs [OF ok this] show ?thesis using that by blast
  next
    case False
    with v have "v = w" by simp
    then show ?thesis by (intro that [of None]) (simp_all add: clean_obj_def)
  qed
  then show "length (w_objs v) = length (w_objs w)" by simp
  show "w_objs v ! a = w_objs w ! a" if "a \<notin> snd ` set (w_pool w)"
  proof -
    have "x \<noteq> Some a" using x(2) that by blast
    then show ?thesis by (cases x) (simp_all add: x(1) clean_obj_def nth_list_update_neq)
  qed
qed

section \<open>Getting a page\<close>

text \<open>The page object at \<open>a\<close> is in the pool and holds page \<open>j\<close>.\<close>

definition has_page :: "world \<Rightarrow> heap_file \<Rightarrow> nat \<Rightarrow> tuple option list \<Rightarrow> nat \<Rightarrow> heap_page \<Rightarrow> bool" where
  "has_page w f j v a p \<longleftrightarrow> pm_find (HeapPageId (hf_tableid f) (int j)) (w_pool w) = Some a \<and> a < length (w_objs w) \<and>
     po_page (w_objs w ! a) = HeapPg p \<and> page_holds (w_pageSize w) f j v p"

lemma has_page_stored:
  assumes S: "heap_store w i f vs" and a: "pm_find (HeapPageId (hf_tableid f) (int j)) (w_pool w) = Some a"
  obtains p where "j < length vs" "has_page w f j (vs ! j) a p"
proof -
  note d = heap_storeD [OF S]
  have e: "(HeapPageId (hf_tableid f) (int j), a) \<in> set (w_pool w)" using pm_find_Some_set [OF _ a] by simp
  then have "a < length (w_objs w)" using d(1) by (auto simp: pool_ok_def entry_ok_def)
  with d(7) [OF e] a show ?thesis by (auto simp: entry_stored_def has_page_def intro: that)
qed

lemma getPage_stored:
  assumes S: "heap_store w i f vs" and j: "j < length vs"
  obtains a w' f' p where "bp_getPage (HeapPageId (hf_tableid f) (int j)) w = Inr (a, w')" "heap_store w' i f' vs" "disk_differs f f'"
    "has_page w' f' j (vs ! j) a p" "same_base w w'"
    "set (w_pool w') \<subseteq> insert (HeapPageId (hf_tableid f) (int j), a) (set (w_pool w))"
proof (cases "pm_find (HeapPageId (hf_tableid f) (int j)) (w_pool w)")
  case (Some a)
  then obtain p where "has_page w f j (vs ! j) a p" using has_page_stored [OF S] by blast
  with Some S show ?thesis by (intro that [of a w f p]) (auto simp: getPage_hit)
next
  case None
  let ?k = "HeapPageId (hf_tableid f) (int j)"
  note d = heap_storeD [OF S]
  obtain v g where v: "(if pool_full w then evictPage else returnM ()) w = Inr ((), v)" "heap_store v i g vs" "disk_differs f g"
    using make_room_stored [OF S] .
  note dv = heap_storeD [OF v(2)] and eq = disk_differs_simps [OF v(3)]
  have mr: "same_base w v" "set (w_pool v) \<subseteq> set (w_pool w)" using make_room [OF d(1), of "pool_full w" True, OF _ v(1)] by auto
  have new: "pm_find ?k (w_pool v) = None" using pm_find_subset [OF mr(2) _ None] by simp
  with dv(8) [OF j] obtain q where q: "page_holds (w_pageSize v) g j (vs ! j) q"
      "HeapPage_new (w_junk v) (w_pageSize v) (hf_td g) ?k (heap_page_bytes (w_junk v) (w_pageSize v) (int j * int (w_pageSize v)) (hf_disk g)) = Inr q"
    by (auto simp: dirty_in_pool_def on_disk_def eq)
  have db: "getDatabaseFile (w_catalog v) (hf_tableid f) = Inr i" using dv(2) by (simp add: eq)
  let ?a = "length (w_objs v)"
  let ?w = "v\<lparr>w_objs := w_objs v @ [\<lparr>po_dirty = None, po_page = HeapPg q\<rparr>], w_pool := pm_put ?k ?a (w_pool v)\<rparr>"
  have "file_readPage i ?k v = Inr (HeapPg q, v)" using heap_read_run [OF dv(3,4) db q(2) dv(11) [OF j]] .
  with None v(1) db have run: "bp_getPage ?k w = Inr (?a, ?w)" by (intro bp_getPage_run) simp_all
  have ok: "pool_ok ?w" "same_base w ?w" using pool_ok_getPage [OF d(1) _ run] by simp_all
  have addr: "snd e < length (w_objs v)" if "e \<in> set (w_pool v)" for e using dv(1) that by (auto simp: pool_ok_def entry_ok_def)
  have ent: "entry_stored ?w g vs e" if "e \<in> set (w_pool ?w)" for e
  proof (cases "e \<in> set (w_pool v)")
    case True
    with dv(7) [OF True] addr [OF True] show ?thesis by (auto simp: entry_stored_def nth_append split: if_splits)
  next
    case False
    then have "e = (?k, ?a)" using that new by (simp add: pm_put_new)
    with q(1) j show ?thesis by (auto simp: entry_stored_def eq)
  qed
  have pg: "dirty_in_pool ?w (HeapPageId (hf_tableid g) (int m)) \<or> on_disk (w_junk v) (w_pageSize v) g m (vs ! m)" if m: "m < length vs" for m
  proof -
    have "dirty_in_pool ?w (HeapPageId (hf_tableid g) (int m))" if dm: "dirty_in_pool v (HeapPageId (hf_tableid g) (int m))"
    proof -
      obtain c where c: "pm_find (HeapPageId (hf_tableid g) (int m)) (w_pool v) = Some c" "po_dirty (w_objs v ! c) \<noteq> None"
        using dm by (auto simp: dirty_in_pool_def)
      then have "c < ?a" using addr [OF pm_find_Some_set [OF _ c(1)]] by simp
      moreover have "m \<noteq> j" using c(1) new by (auto simp: eq)
      ultimately show ?thesis using c by (auto simp: dirty_in_pool_def nth_append pages.find_put eq)
    qed
    with dv(8) [OF m] show ?thesis by blast
  qed
  have "heap_store ?w i g vs" using dv ok(1) ent pg by (simp add: heap_store_def)
  moreover have "has_page ?w g j (vs ! j) ?a q" using q(1) by (simp add: has_page_def eq)
  moreover have "set (w_pool ?w) \<subseteq> insert (?k, ?a) (set (w_pool w))" using new mr(2) by (auto simp: pm_put_new)
  ultimately show ?thesis using that [OF run _ v(3) _ ok(2)] by blast
qed

text \<open>The loop that looks for a page with room.\<close>

lemma find_stored:
  assumes "heap_store w i f vs" "j + n = length vs"
  obtains r w' f' where "heapfile_find_page (hf_tableid f) j n w = Inr (r, w')" "heap_store w' i f' vs" "disk_differs f f'" "same_base w w'"
    "case r of None \<Rightarrow> True | Some a \<Rightarrow> \<exists>m p. m < length vs \<and> has_page w' f' m (vs ! m) a p \<and> 0 < heap_getNumEmptySlots p"
  using assms
proof (induction n arbitrary: w f j thesis)
  case 0
  then show ?case by (intro "0.prems"(1) [of None w f]) simp_all
next
  case (Suc n)
  from Suc.prems(3) have j: "j < length vs" "Suc j + n = length vs" by simp_all
  obtain a w1 f1 p where g: "bp_getPage (HeapPageId (hf_tableid f) (int j)) w = Inr (a, w1)" "heap_store w1 i f1 vs" "disk_differs f f1"
      "has_page w1 f1 j (vs ! j) a p" "same_base w w1"
    using getPage_stored [OF Suc.prems(2) j(1)] by metis
  note h = g(4) [unfolded has_page_def disk_differs_simps [OF g(3)]]
  have step: "heapfile_find_page (hf_tableid f) j (Suc n) w =
      (if 0 < heap_getNumEmptySlots p then Inr (Some a, w1) else heapfile_find_page (hf_tableid f) (Suc j) n w1)"
    using g(1) h by (simp add: bindM_apply run_heap_at getPage_hit)
  show ?case
  proof (cases "0 < heap_getNumEmptySlots p")
    case True
    have "\<exists>m p. m < length vs \<and> has_page w1 f1 m (vs ! m) a p \<and> 0 < heap_getNumEmptySlots p" using True g(4) j(1) by blast
    then show ?thesis
      by (intro Suc.prems(1) [of "Some a" w1 f1]) (use step True g in \<open>simp_all del: heapfile_find_page.simps\<close>)
  next
    case False
    obtain r w2 f2 where r: "heapfile_find_page (hf_tableid f1) (Suc j) n w1 = Inr (r, w2)" "heap_store w2 i f2 vs"
        "disk_differs f1 f2" "same_base w1 w2"
        "case r of None \<Rightarrow> True | Some a \<Rightarrow> \<exists>m p. m < length vs \<and> has_page w2 f2 m (vs ! m) a p \<and> 0 < heap_getNumEmptySlots p"
      using Suc.IH [OF _ g(2) j(2)] .
    show ?thesis
      by (rule Suc.prems(1) [OF _ r(2) disk_differs_trans [OF g(3) r(3)] same_base_trans [OF g(5) r(4)] r(5)])
        (use step False r(1) disk_differs_simps(1) [OF g(3)] in simp)
  qed
qed

section \<open>Insertion\<close>

text \<open>The changed page at \<open>a\<close>, which is in the pool and now dirty.\<close>

lemma put_stored:
  assumes S: "heap_store w i f vs" and m: "m < length vs" and a: "has_page w f m (vs ! m) a p" and p': "page_holds (w_pageSize w) f m v p'"
  shows "heap_store (w\<lparr>w_objs := (w_objs w)[a := \<lparr>po_dirty = Some tid, po_page = HeapPg p'\<rparr>]\<rparr>) i f (vs[m := v])"
proof -
  let ?w = "w\<lparr>w_objs := (w_objs w)[a := \<lparr>po_dirty = Some tid, po_page = HeapPg p'\<rparr>]\<rparr>"
  note d = heap_storeD [OF S] and h = a [unfolded has_page_def]
  have id: "page_getId (po_page (w_objs w ! a)) = HeapPageId (hf_tableid f) (int m)" "hp_pid p' = HeapPageId (hf_tableid f) (int m)"
    using h p' by (simp_all add: page_holds_def)
  then have "pool_ok ?w"
    using h by (intro pool_ok_mono [OF d(1)]) (auto simp: same_base_def same_ids_def nth_list_update)
  moreover have "entry_stored ?w f (vs[m := v]) e" if e: "e \<in> set (w_pool w)" for e
  proof (cases "snd e = a")
    case True
    then have "fst e = HeapPageId (hf_tableid f) (int m)" using d(1) e id(1) by (auto simp: pool_ok_def entry_ok_def)
    with True h m p' show ?thesis by (auto simp: entry_stored_def)
  next
    case False
    have "no_skeleton (fst e)" "pm_inv (w_pool w)" using d(1) e by (auto simp: pool_ok_def entry_ok_def)
    then have "pm_find (fst e) (w_pool w) = Some (snd e)" using e by (intro pm_find_mem) simp_all
    with False h have "fst e \<noteq> HeapPageId (hf_tableid f) (int m)" by auto
    then show ?thesis using d(7) [OF e] False
      by (cases "getTableId (fst e) = hf_tableid f") (auto simp: entry_stored_def nth_list_update_neq)
  qed
  moreover have "dirty_in_pool ?w (HeapPageId (hf_tableid f) (int j)) \<or> on_disk (w_junk w) (w_pageSize w) f j (vs[m := v] ! j)"
    if j: "j < length vs" for j
  proof (cases "j = m")
    case True
    with h show ?thesis by (simp add: dirty_in_pool_def)
  next
    case False
    with d(8) [OF j] h show ?thesis by (auto simp: dirty_in_pool_def nth_list_update)
  qed
  ultimately show ?thesis using d by (simp add: heap_store_def)
qed

text \<open>A new page object \<open>a\<close> behind the last page: the pool makes room and takes it.\<close>

lemma enter_stored:
  assumes S: "heap_store u i g vs" and ok: "pool_ok (u\<lparr>w_pool := pm_put (HeapPageId (hf_tableid g) (int (length vs))) a (w_pool u)\<rparr>)"
    and new: "pm_find (HeapPageId (hf_tableid g) (int (length vs))) (w_pool u) = None"
    and p: "po_page (w_objs u ! a) = HeapPg p" "po_dirty (w_objs u ! a) \<noteq> None" "page_holds (w_pageSize u) g (length vs) v p"
    and fit: "offsets_fit (w_pageSize u) (Suc (length vs))"
  shows "heap_store (u\<lparr>w_pool := pm_put (HeapPageId (hf_tableid g) (int (length vs))) a (w_pool u)\<rparr>) i g (vs @ [v])"
proof -
  let ?k = "HeapPageId (hf_tableid g) (int (length vs))"
  let ?u = "u\<lparr>w_pool := pm_put ?k a (w_pool u)\<rparr>"
  note du = heap_storeD [OF S]
  have "entry_stored ?u g (vs @ [v]) e" if "e \<in> set (w_pool ?u)" for e
  proof (cases "e \<in> set (w_pool u)")
    case True
    with du(7) [OF True] show ?thesis by (auto simp: entry_stored_def nth_append split: if_splits)
  next
    case False
    then have "e = (?k, a)" using that new by (simp add: pm_put_new)
    with p show ?thesis by (auto simp: entry_stored_def)
  qed
  moreover have "dirty_in_pool ?u (HeapPageId (hf_tableid g) (int j)) \<or> on_disk (w_junk u) (w_pageSize u) g j ((vs @ [v]) ! j)"
    if j: "j < Suc (length vs)" for j
  proof (cases "j = length vs")
    case True
    then show ?thesis using p(2) by (simp add: dirty_in_pool_def pages.find_put)
  next
    case False
    with j du(8) [of j] show ?thesis by (auto simp: dirty_in_pool_def pages.find_put nth_append)
  qed
  ultimately show ?thesis using du ok fit by (simp add: heap_store_def)
qed

lemma new_stored:
  assumes S: "heap_store w i f vs" and a: "a < length (w_objs w)" "a \<notin> snd ` set (w_pool w)"
    and p: "po_page (w_objs w ! a) = HeapPg p" "page_holds (w_pageSize w) f (length vs) v p"
    and fit: "offsets_fit (w_pageSize w) (Suc (length vs))"
  obtains w' f' where "pool_add_dirty tid [a] w = Inr ((), w')" "heap_store w' i f' (vs @ [v])" "disk_differs f f'" "same_base w w'"
proof -
  let ?k = "HeapPageId (hf_tableid f) (int (length vs))"
  let ?w = "w\<lparr>w_objs := (w_objs w)[a := (w_objs w ! a)\<lparr>po_dirty := Some tid\<rparr>]\<rparr>"
  note d = heap_storeD [OF S]
  have na: "snd e \<noteq> a" if "e \<in> set (w_pool w)" for e using a(2) that by auto
  have k: "page_getId (po_page (w_objs w ! a)) = ?k" using p by (simp add: page_holds_def)
  have ok1: "pool_ok ?w" using a(1) by (intro pool_ok_mono [OF d(1)]) (auto simp: same_base_def same_ids_def nth_list_update)
  have "entry_stored ?w f vs e" if "e \<in> set (w_pool w)" for e
    using d(7) [OF that] na [OF that] by (auto simp: entry_stored_def nth_list_update_neq split: if_splits)
  moreover have "dirty_in_pool ?w (HeapPageId (hf_tableid f) (int j)) \<or> on_disk (w_junk w) (w_pageSize w) f j (vs ! j)"
    if "j < length vs" for j
    using d(8) [OF that] a(1) by (auto simp: dirty_in_pool_def nth_list_update)
  ultimately have S1: "heap_store ?w i f vs" using d(1-6,9,10) ok1 by (simp add: heap_store_def)
  have "pm_find ?k (w_pool w) = None"
  proof (cases "pm_find ?k (w_pool w)")
    case (Some c)
    then show ?thesis using has_page_stored [OF S Some] by auto
  qed
  let ?b = "pool_full ?w \<and> pm_find ?k (w_pool ?w) = None"
  obtain u g where u: "(if ?b then evictPage else returnM ()) ?w = Inr ((), u)" "heap_store u i g vs" "disk_differs f g"
    using make_room_stored [OF S1] .
  note du = heap_storeD [OF u(2)] and eq = disk_differs_simps [OF u(3)]
  have mr: "same_base ?w u" "set (w_pool u) \<subseteq> set (w_pool w)" using make_room [OF ok1 refl u(1)] by auto
  have obj: "w_objs u ! a = w_objs ?w ! a" "length (w_objs u) = length (w_objs w)"
    using make_room_objs [OF ok1 u(1)] a(2) by simp_all
  let ?u = "u\<lparr>w_pool := pm_put ?k a (w_pool u)\<rparr>"
  have run: "pool_add_dirty tid [a] w = Inr ((), ?u)"
    using a(1) k u(1) by (simp add: pool_put_def bindM_apply Let_def)
  have new: "pm_find ?k (w_pool u) = None"
    using pm_find_subset [OF mr(2) _ \<open>pm_find ?k (w_pool w) = None\<close>] by simp
  have "pool_ok ?u" using pool_ok_add_dirty [OF d(1) _ run] a(1) k by simp
  moreover have "w_pageSize u = w_pageSize w" using mr(1) by (simp add: same_base_def)
  ultimately have "heap_store ?u i g (vs @ [v])"
    using enter_stored [OF u(2), of a p v] new p obj a(1) fit by (simp add: eq)
  moreover have "same_base w ?u" using mr(1) by (simp add: same_base_def)
  ultimately show ?thesis using that [OF run _ u(3)] by blast
qed

lemma page_holds_insert:
  assumes p: "page_holds ps f j v p" and t: "fits (hf_td f) t" and room: "0 < heap_getNumEmptySlots p"
  obtains t' p' where "heap_insertTuple p t = Inr (t', p')" "page_holds ps f j (heap_view p') p'" "strip t' = strip t"
    "mset (somes (heap_view p')) = add_mset t' (mset (somes v))" "hp_pid p' = hp_pid p"
proof -
  have ok: "heap_ok ps p" "hp_td p = hf_td f" "heap_view p = v" using p by (auto simp: page_holds_def)
  then have "td_eq (hp_td p) (tp_td t)" using t by (simp add: fits_def)
  then obtain t' p' where r: "heap_insertTuple p t = Inr (t', p')" "heap_inserted p t t' p'" "heap_ok ps p'" "hp_pid p' = hp_pid p"
    using heap_insertE [OF ok(1) _ room] by metis
  have t': "strip t' = strip t" "fits (hf_td f) t'"
    using r(2) t by (auto simp: heap_inserted_def fits_def)
  have ms: "mset (somes (heap_view p')) = add_mset t' (mset (somes v))"
    using heap_inserted_mset [OF r(2)] ok(3) by (simp add: heap_tuples_def)
  then have "set (somes (heap_view p')) = insert t' (set (somes v))" by (metis set_mset_add_mset_insert set_mset_mset)
  with p r t'(2) heap_insertTuple_td [OF r(1)] have "page_holds ps f j (heap_view p') p'" by (simp add: page_holds_def)
  with r(1,4) t'(1) ms show ?thesis using that by blast
qed

lemma dirty_in_pool_append:
  assumes "pool_ok w" "no_skeleton k" "dirty_in_pool w k"
  shows "dirty_in_pool (w\<lparr>w_objs := w_objs w @ xs, w_files := fs\<rparr>) k"
proof -
  obtain a where a: "pm_find k (w_pool w) = Some a" "po_dirty (w_objs w ! a) \<noteq> None"
    using assms(3) by (auto simp: dirty_in_pool_def)
  then have "a < length (w_objs w)"
    using assms(1) pm_find_Some_set [OF assms(2) a(1)] by (auto simp: pool_ok_def entry_ok_def)
  with a show ?thesis by (auto simp: dirty_in_pool_def nth_append)
qed

lemma on_disk_numPages [simp]: "on_disk junk ps (f\<lparr>hf_numPages := n\<rparr>) = on_disk junk ps f"
  by (simp add: on_disk_def page_holds_def fun_eq_iff)

text \<open>One insertion through the pool: into a page with room, or into a new page.\<close>

lemma insert_found:
  assumes S: "heap_store w i f vs" and find: "heapfile_find_page (hf_tableid f) 0 (nat (hf_numPages f)) w = Inr (Some a, w1)"
    and S1: "heap_store w1 i f1 vs" "disk_differs f f1" and m: "m < length vs" "has_page w1 f1 m (vs ! m) a p" "0 < heap_getNumEmptySlots p"
    and t: "fits (hf_td f) t"
  obtains t' w' v where "bp_insertTuple n tid (hf_tableid f) t w = Inr (t', w')" "strip t' = strip t" "heap_store w' i f1 (vs[m := v])"
    "mset (somes v) = add_mset t' (mset (somes (vs ! m)))" "same_base w1 w'"
proof -
  note d = heap_storeD [OF S] and h = m(2) [unfolded has_page_def] and eq = disk_differs_simps [OF S1(2)]
  have "fits (hf_td f1) t" using t by (simp add: eq)
  then obtain t' p' where p': "heap_insertTuple p t = Inr (t', p')" "page_holds (w_pageSize w1) f1 m (heap_view p') p'" "strip t' = strip t"
      "mset (somes (heap_view p')) = add_mset t' (mset (somes (vs ! m)))" "hp_pid p' = hp_pid p"
    using page_holds_insert [OF _ _ m(3)] h by metis
  let ?w = "w1\<lparr>w_objs := (w_objs w1)[a := (w_objs w1 ! a)\<lparr>po_page := HeapPg p'\<rparr>]\<rparr>"
  let ?W = "w1\<lparr>w_objs := (w_objs w1)[a := \<lparr>po_dirty = Some tid, po_page = HeapPg p'\<rparr>]\<rparr>"
  have "bindM (heapfile_find_page (hf_tableid f) 0 (nat (hf_numPages f))) l w = l (Some a) w1"
    for l :: "nat option \<Rightarrow> (tuple \<times> nat list) M" using find by (simp add: bindM_def)
  then have "HeapFile_insertTuple i tid t w = Inr ((t', [a]), ?w)"
    using d(3,4) h p'(1) by (simp add: HeapFile_insertTuple_def run_heap_at)
  then have "file_insertTuple n i tid t w = Inr ((t', [a]), ?w)" using d(3,4) by (simp add: file_insertTuple_def)
  moreover have "pool_add_dirty tid [a] ?w = Inr ((), ?w\<lparr>w_objs := (w_objs ?w)[a := (w_objs ?w ! a)\<lparr>po_dirty := Some tid\<rparr>]\<rparr>)"
    using h p'(5) by (intro pool_add_dirty_hit) (auto simp: page_holds_def)
  moreover have "?w\<lparr>w_objs := (w_objs ?w)[a := (w_objs ?w ! a)\<lparr>po_dirty := Some tid\<rparr>]\<rparr> = ?W" using h by simp
  ultimately have "bp_insertTuple n tid (hf_tableid f) t w = Inr (t', ?W)"
    using d(2) by (simp add: bp_insertTuple_def bindM_def db_getDatabaseFile_def del: pool_add_dirty.simps)
  then show ?thesis using put_stored [OF S1(1) m(1,2) p'(2)] p'(3,4) by (intro that [of t' ?W "heap_view p'"]) (simp_all add: same_base_def)
qed

lemma insert_grows:
  assumes S: "heap_store w i f vs" and np: "hf_numPages f = int (length vs)"
    and find: "heapfile_find_page (hf_tableid f) 0 (nat (hf_numPages f)) w = Inr (None, w1)"
    and S1: "heap_store w1 i f1 vs" "disk_differs f f1" and t: "fits (hf_td f) t" and sz: "0 < heap_getNumTuples (w_pageSize w1) (hf_td f)"
    and fit: "offsets_fit (w_pageSize w1) (Suc (length vs))"
  obtains t' w' f' v where "bp_insertTuple n tid (hf_tableid f) t w = Inr (t', w')" "strip t' = strip t" "heap_store w' i f' (vs @ [v])"
    "disk_differs (f\<lparr>hf_numPages := hf_numPages f + 1\<rparr>) f'" "somes v = [t']" "same_base w1 w'"
proof -
  note d = heap_storeD [OF S] and d1 = heap_storeD [OF S1(1)] and eq = disk_differs_simps [OF S1(2)]
  let ?g = "f1\<lparr>hf_numPages := hf_numPages f1 + 1\<rparr>" and ?k = "HeapPageId (hf_tableid f) (hf_numPages f)"
  let ?p = "empty_heap_page (w_pageSize w1) (hf_td f) ?k" and ?a = "length (w_objs w1)"
  have view: "heap_view ?p = replicate (heap_getNumTuples (w_pageSize w1) (hf_td f)) None" by (rule heap_view_empty)
  have "page_holds (w_pageSize w1) ?g (length vs) (heap_view ?p) ?p"
    using heap_ok_empty [of "w_pageSize w1" "hf_td f" ?k] view
    by (simp add: page_holds_def eq np) (simp add: empty_heap_page_def)
  moreover have "0 < heap_getNumEmptySlots ?p"
    using heap_occupancy [of ?p] sz view by (simp add: heap_tuples_def) (simp add: empty_heap_page_def)
  moreover have "fits (hf_td ?g) t" using t by (simp add: eq)
  ultimately obtain t' p' where p': "heap_insertTuple ?p t = Inr (t', p')" "page_holds (w_pageSize w1) ?g (length vs) (heap_view p') p'"
      "strip t' = strip t" "mset (somes (heap_view p')) = add_mset t' (mset (somes (heap_view ?p)))"
    using page_holds_insert by blast
  let ?w = "w1\<lparr>w_objs := w_objs w1 @ [\<lparr>po_dirty = None, po_page = HeapPg p'\<rparr>], w_files := (w_files w1)[i := HeapF ?g]\<rparr>"
  have one: "somes (heap_view p') = [t']" using p'(4) view by (simp add: mset_single_iff_right)
  have "bindM (heapfile_find_page (hf_tableid f) 0 (nat (hf_numPages f))) l w = l None w1"
    for l :: "nat option \<Rightarrow> (tuple \<times> nat list) M" using find by (simp add: bindM_def)
  moreover have "db_getTupleDesc (hf_tableid f) w1 = Inr (hf_td f, w1)"
    using heap_tupleDesc [OF d1(2-4)] by (simp add: eq)
  ultimately have "HeapFile_insertTuple i tid t w = Inr ((t', [?a]), ?w)"
    using d(3,4) d1(3,4) p'(1) by (simp add: HeapFile_insertTuple_def Let_def bindM_assoc HeapPage_new_empty run_heap_at bindM_apply)
  then have ins: "file_insertTuple n i tid t w = Inr ((t', [?a]), ?w)" using d(3,4) by (simp add: file_insertTuple_def)
  have addr: "snd e < ?a" if "e \<in> set (w_pool w1)" for e using d1(1) that by (auto simp: pool_ok_def entry_ok_def)
  have "pool_ok ?w" by (rule pool_ok_mono [OF d1(1)]) (auto simp: same_base_def same_ids_def nth_append)
  moreover have "entry_stored ?w ?g vs e" if "e \<in> set (w_pool w1)" for e
    using d1(7) [OF that] addr [OF that] by (auto simp: entry_stored_def nth_append page_holds_def split: if_splits)
  moreover have "dirty_in_pool ?w (HeapPageId (hf_tableid f1) (int j)) \<or> on_disk (w_junk w1) (w_pageSize w1) ?g j (vs ! j)"
    if "j < length vs" for j
    using d1(8) [OF that] dirty_in_pool_append [OF d1(1)] by auto
  ultimately have "heap_store ?w i ?g vs" using d1 by (simp add: heap_store_def)
  moreover have "?a \<notin> snd ` set (w_pool ?w)" using addr by force
  ultimately obtain W f' where W: "pool_add_dirty tid [?a] ?w = Inr ((), W)" "heap_store W i f' (vs @ [heap_view p'])"
      "disk_differs ?g f'" "same_base ?w W"
    using new_stored [of ?w i ?g vs ?a p' "heap_view p'" tid] p'(2) fit by auto
  have "bp_insertTuple n tid (hf_tableid f) t w = Inr (t', W)"
    using ins W(1) d(2) by (simp add: bp_insertTuple_def bindM_def db_getDatabaseFile_def del: pool_add_dirty.simps)
  moreover have "disk_differs (f\<lparr>hf_numPages := hf_numPages f + 1\<rparr>) f'" using W(3) S1(2) by (auto simp: disk_differs_def)
  moreover have "same_base w1 W" using W(4) by (simp add: same_base_def)
  ultimately show ?thesis using that p'(3) W(2) one by blast
qed

text \<open>
  The table as a multiset. The capacity of the pool is no limit; the offsets of \<open>b\<close> more pages, the
  worst case for \<open>b\<close> more tuples, must be \<open>int\<close>s.
\<close>

definition heap_store_rep :: "nat \<Rightarrow> int \<Rightarrow> tuple_desc \<Rightarrow> world \<Rightarrow> nat \<Rightarrow> tuple multiset \<Rightarrow> bool" where
  "heap_store_rep i tab td w b M \<longleftrightarrow> 0 < heap_getNumTuples (w_pageSize w) td \<and>
     (\<exists>f vs. heap_store w i f vs \<and> offsets_fit (w_pageSize w) (length vs + b) \<and> hf_numPages f = int (length vs) \<and> hf_tableid f = tab \<and> hf_td f = td \<and>
       M = mset (map strip (concat (map somes vs))))"

lemma heap_store_insert:
  assumes "heap_store_rep i tab td w (Suc b) M" "fits td t"
  shows "\<exists>t' w'. bp_insertTuple n tid tab t w = Inr (t', w') \<and> strip t' = strip t \<and> heap_store_rep i tab td w' b (add_mset (strip t) M)"
proof -
  obtain f vs where S: "heap_store w i f vs" and f: "hf_numPages f = int (length vs)" "hf_tableid f = tab" "hf_td f = td"
      "M = mset (map strip (concat (map somes vs)))" and sz: "0 < heap_getNumTuples (w_pageSize w) td"
      and fit: "offsets_fit (w_pageSize w) (length vs + Suc b)"
    using assms(1) by (auto simp: heap_store_rep_def)
  have fit1: "offsets_fit (w_pageSize w) (length vs + b)" using fit by (rule offsets_fit_le) simp
  have t: "fits (hf_td f) t" using assms(2) f(3) by simp
  obtain r w1 f1 where r: "heapfile_find_page (hf_tableid f) 0 (nat (hf_numPages f)) w = Inr (r, w1)" "heap_store w1 i f1 vs"
      "disk_differs f f1" "same_base w w1"
      "case r of None \<Rightarrow> True | Some a \<Rightarrow> \<exists>m p. m < length vs \<and> has_page w1 f1 m (vs ! m) a p \<and> 0 < heap_getNumEmptySlots p"
    using find_stored [OF S, of 0 "length vs"] f(1) by auto
  note eq = disk_differs_simps [OF r(3)]
  have ps: "w_pageSize w1 = w_pageSize w" using r(4) by (simp add: same_base_def)
  show ?thesis
  proof (cases r)
    case (Some a)
    then obtain m p where m: "m < length vs" "has_page w1 f1 m (vs ! m) a p" "0 < heap_getNumEmptySlots p" using r(5) by auto
    obtain t' w' v where i: "bp_insertTuple n tid (hf_tableid f) t w = Inr (t', w')" "strip t' = strip t" "heap_store w' i f1 (vs[m := v])"
        "mset (somes v) = add_mset t' (mset (somes (vs ! m)))" "same_base w1 w'"
      using insert_found [OF S r(1) [unfolded Some] r(2,3) m t] .
    have "mset (concat (map somes (vs[m := v]))) = add_mset t' (mset (concat (map somes vs)))"
      by (rule mset_concat_update [OF m(1) i(4)])
    then have "mset (map strip (concat (map somes (vs[m := v])))) = add_mset (strip t) M" using i(2) f(4) by simp
    then have "heap_store_rep i tab td w' b (add_mset (strip t) M)"
      using i(3,5) f sz ps eq fit1 unfolding heap_store_rep_def
      by (intro conjI exI [of _ f1] exI [of _ "vs[m := v]"]) (simp_all add: same_base_def)
    with i(1,2) f(2) show ?thesis by blast
  next
    case None
    have sz1: "0 < heap_getNumTuples (w_pageSize w1) (hf_td f)" using sz ps f(3) by simp
    have fit2: "offsets_fit (w_pageSize w1) (Suc (length vs))" using offsets_fit_le [OF fit, of "Suc (length vs)"] ps by simp
    obtain t' w' f' v where i: "bp_insertTuple n tid (hf_tableid f) t w = Inr (t', w')" "strip t' = strip t" "heap_store w' i f' (vs @ [v])"
        "disk_differs (f\<lparr>hf_numPages := hf_numPages f + 1\<rparr>) f'" "somes v = [t']" "same_base w1 w'"
      using insert_grows [OF S f(1) r(1) [unfolded None] r(2,3) t sz1 fit2] .
    have "mset (map strip (concat (map somes (vs @ [v])))) = add_mset (strip t) M" using i(2,5) f(4) by simp
    then have "heap_store_rep i tab td w' b (add_mset (strip t) M)"
      using i(3,6) f sz ps fit disk_differs_simps [OF i(4)] unfolding heap_store_rep_def
      by (intro conjI exI [of _ f'] exI [of _ "vs @ [v]"]) (simp_all add: same_base_def)
    with i(1,2) f(2) show ?thesis by blast
  qed
qed

interpretation heap_store_fill: bag_fill "bp_insertTuple n tid tab" "heap_store_rep i tab td" "fits td"
  for n tid tab i td
  by unfold_locales (blast intro: heap_store_insert)

section \<open>Flushing everything, and a restart\<close>

lemma flush_list_stored:
  assumes "heap_store w i f vs" "set es \<subseteq> set (w_pool w)"
  obtains w' f' where "forM es (\<lambda>e. flushPage (fst e)) w = Inr ((), w')" "heap_store w' i f' vs" "disk_differs f f'"
    "w_pool w' = w_pool w" "same_base w w'" "\<And>e. e \<in> set es \<Longrightarrow> po_dirty (w_objs w' ! snd e) = None"
    "\<And>a. a < length (w_objs w) \<Longrightarrow> po_dirty (w_objs w ! a) = None \<Longrightarrow> po_dirty (w_objs w' ! a) = None"
  using assms
proof (induction es arbitrary: w f thesis)
  case Nil
  then show ?case by (intro Nil.prems(1) [of w f]) simp_all
next
  case (Cons e es)
  obtain k a where e: "e = (k, a)" by (cases e)
  have m: "(k, a) \<in> set (w_pool w)" using Cons.prems(3) e by simp
  obtain v g where v: "flushPage k w = Inr ((), v)" "heap_store v i g vs" "disk_differs f g" "w_pool v = w_pool w" "same_base w v"
      "po_dirty (w_objs v ! a) = None" "w_objs v = clean_obj (Some a) (w_objs w)"
    using flush_stored [OF Cons.prems(2) m] .
  have a: "a < length (w_objs w)" using heap_storeD(1) [OF Cons.prems(2)] m by (auto simp: pool_ok_def entry_ok_def)
  have es: "set es \<subseteq> set (w_pool v)" using Cons.prems(3) v(4) by simp
  obtain w' f' where r: "forM es (\<lambda>e. flushPage (fst e)) v = Inr ((), w')" "heap_store w' i f' vs" "disk_differs g f'"
      "w_pool w' = w_pool v" "same_base v w'" "\<And>e. e \<in> set es \<Longrightarrow> po_dirty (w_objs w' ! snd e) = None"
      "\<And>a. a < length (w_objs v) \<Longrightarrow> po_dirty (w_objs v ! a) = None \<Longrightarrow> po_dirty (w_objs w' ! a) = None"
    using Cons.IH [OF _ v(2) es] by metis
  show ?case
  proof (rule Cons.prems(1) [OF _ r(2) disk_differs_trans [OF v(3) r(3)] _ same_base_trans [OF v(5) r(5)]])
    show "forM (e # es) (\<lambda>e. flushPage (fst e)) w = Inr ((), w')" using v(1) r(1) e by (simp add: bindM_apply)
    show "po_dirty (w_objs w' ! snd x) = None" if "x \<in> set (e # es)" for x
    proof (cases "x = e")
      case True
      then show ?thesis using e r(7) [of a] v(6,7) a by simp
    next
      case False
      then show ?thesis using that r(6) [of x] by simp
    qed
    show "po_dirty (w_objs w' ! b) = None" if "b < length (w_objs w)" "po_dirty (w_objs w ! b) = None" for b
      using that r(7) [of b] v(7) by (simp add: dirty_clean_obj)
  qed (simp add: r(4) v(4))
qed

lemma flushAll_stored:
  assumes S: "heap_store w i f vs"
  obtains w' f' where "flushAllPages w = Inr ((), w')" "heap_store w' i f' vs" "disk_differs f f'" "same_base w w'"
    "\<And>j. j < length vs \<Longrightarrow> on_disk (w_junk w') (w_pageSize w') f' j (vs ! j)"
proof -
  have "mset (w_order w (w_pool w)) = mset (w_pool w)" using heap_storeD(1) [OF S] by (simp add: pool_ok_def)
  then have es: "set (w_order w (w_pool w)) = set (w_pool w)" by (rule mset_eq_setD)
  then obtain w' f' where r: "forM (w_order w (w_pool w)) (\<lambda>e. flushPage (fst e)) w = Inr ((), w')" "heap_store w' i f' vs"
      "disk_differs f f'" "w_pool w' = w_pool w" "same_base w w'" "\<And>e. e \<in> set (w_pool w) \<Longrightarrow> po_dirty (w_objs w' ! snd e) = None"
    using flush_list_stored [OF S, of "w_order w (w_pool w)"] by (metis subset_refl)
  have "\<not> dirty_in_pool w' (HeapPageId (hf_tableid f') (int j))" for j
    using r(4,6) pm_find_Some_set [of "HeapPageId (hf_tableid f') (int j)" "w_pool w"] by (fastforce simp: dirty_in_pool_def)
  then have "on_disk (w_junk w') (w_pageSize w') f' j (vs ! j)" if "j < length vs" for j
    using heap_storeD(8) [OF r(2) that] by blast
  with r show ?thesis by (intro that [of w' f']) (simp_all add: flushAllPages_def)
qed

text \<open>A restarted database: the file is opened again, the pool is empty.\<close>

lemma restart_stored:
  assumes S: "heap_store w i f vs" and np: "hf_numPages f = int (length vs)" and ps: "0 < w_pageSize w"
    and disk: "\<And>j. j < length vs \<Longrightarrow> on_disk (w_junk w) (w_pageSize w) f j (vs ! j)"
  shows "HeapFile_new (w_pageSize w) (hf_tableid f) (hf_disk f) (hf_td f) = f" "heap_store (w\<lparr>w_pool := [], w_objs := []\<rparr>) i f vs"
proof -
  note d = heap_storeD [OF S]
  have "length vs * w_pageSize w \<le> length (hf_disk f)"
  proof (cases vs rule: rev_cases)
    case (snoc us v)
    then have "Suc (length us) * w_pageSize w \<le> length (hf_disk f)" using disk [of "length us"] unfolding on_disk_def by simp
    with snoc show ?thesis by simp
  qed simp
  with d(6) have "length (hf_disk f) = length vs * w_pageSize w" by simp
  then have "c_div (int (length (hf_disk f))) (int (w_pageSize w)) = int (length vs)"
    using ps by (cases "length vs = 0") (simp_all add: c_div_def sgn_if)
  then show "HeapFile_new (w_pageSize w) (hf_tableid f) (hf_disk f) (hf_td f) = f" using np by (simp add: HeapFile_new_def)
  have "pool_ok (w\<lparr>w_pool := [], w_objs := []\<rparr>)" using d(1) by (simp add: pool_ok_def pm_inv_def)
  then show "heap_store (w\<lparr>w_pool := [], w_objs := []\<rparr>) i f vs" using d disk by (simp add: heap_store_def)
qed

lemma stored_pages:
  assumes S: "heap_store w i f vs" and disk: "\<And>j. j < length vs \<Longrightarrow> on_disk (w_junk w) (w_pageSize w) f j (vs ! j)"
  obtains qs where "length qs = length vs" "map heap_tuples qs = map somes vs"
    "\<And>j. j < length vs \<Longrightarrow> file_readPage i (HeapPageId (hf_tableid f) (int j)) w = Inr (HeapPg (qs ! j), w)"
proof -
  note d = heap_storeD [OF S]
  have "\<exists>q. file_readPage i (HeapPageId (hf_tableid f) (int j)) w = Inr (HeapPg q, w) \<and> heap_tuples q = somes (vs ! j)"
    if "j < length vs" for j
    using disk [OF that] heap_read_run [OF d(3,4,2) _ d(11) [OF that]] by (auto simp: on_disk_def page_holds_def heap_tuples_def)
  then obtain Q where "\<And>j. j < length vs \<Longrightarrow>
      file_readPage i (HeapPageId (hf_tableid f) (int j)) w = Inr (HeapPg (Q j), w) \<and> heap_tuples (Q j) = somes (vs ! j)"
    by metis
  then show ?thesis by (intro that [of "map Q [0..<length vs]"]) (auto intro: nth_equalityI)
qed

section \<open>Scans that read pages\<close>






section \<open>Property\<close>

text \<open>The example: an empty heap file on pages of 10 bytes, two tuples per page, and a pool of one page.\<close>

definition store_example :: world where
  "store_example = pool_example0\<lparr>w_files := [HeapF (HeapFile_new 10 7 [] heap_example_td)]\<rparr>"

lemma store_example_rep: "heap_store_rep 0 7 heap_example_td store_example 3 {#}"
  unfolding heap_store_rep_def
  by (intro conjI exI [of _ "HeapFile_new 10 7 [] heap_example_td"] exI [of _ "[]"])
    (simp_all add: heap_store_def store_example_def HeapFile_new_def c_div_def heap_example_sizes pool_ok_def pm_inv_def offsets_fit_def)

text \<open>C6
  A heap table survives eviction and a restart: integer tuples of its schema, inserted one after
  the other through the buffer pool, all go in, whatever the capacity of the pool is and whatever
  pages it evicts on the way, as long as the file with a page more for every tuple stays within
  two gigabytes (\<open>heap_store_rep\<close> with room for \<open>length ts\<close> pages); beyond, the \<open>int\<close> offsets of the
  pages overflow. After \<open>flushAllPages\<close> the program may end: opening the file again
  gives the file object with the right number of pages, and with an empty pool the pages read from
  the disk hold exactly the old and the new tuples, each once, ready for further insertions.
\<close>

theorem heap_fill_durable:
  assumes "heap_store_rep i tab td w (length ts + b) M" "\<And>t. t \<in> set ts \<Longrightarrow> fits td t"
  shows "\<exists>w1 w2 f qs. insertTuples (bp_insertTuple n tid tab) ts w = Inr ((), w1) \<and> flushAllPages w1 = Inr ((), w2) \<and>
    w_files w2 ! i = HeapF f \<and> HeapFile_new (w_pageSize w2) tab (hf_disk f) td = f \<and>
    (let w3 = w2\<lparr>w_pool := [], w_objs := []\<rparr> in
       hf_numPages f = int (length qs) \<and>
       (\<forall>j < length qs. file_readPage i (HeapPageId tab (int j)) w3 = Inr (HeapPg (qs ! j), w3)) \<and>
       mset (map strip (concat (map heap_tuples qs))) = M + mset (map strip ts) \<and>
       heap_store_rep i tab td w3 b (M + mset (map strip ts)))"
proof -
  from heap_store_fill.insert_all [OF assms, of n tid] obtain w1 where
    w1: "insertTuples (bp_insertTuple n tid tab) ts w = Inr ((), w1)" "heap_store_rep i tab td w1 b (M + mset (map strip ts))"
    by blast
  then obtain f1 vs where S1: "heap_store w1 i f1 vs" and f1: "hf_numPages f1 = int (length vs)" "hf_tableid f1 = tab" "hf_td f1 = td"
      "M + mset (map strip ts) = mset (map strip (concat (map somes vs)))" and sz: "0 < heap_getNumTuples (w_pageSize w1) td"
      and fit: "offsets_fit (w_pageSize w1) (length vs + b)"
    by (auto simp: heap_store_rep_def)
  obtain w2 f where w2: "flushAllPages w1 = Inr ((), w2)" "heap_store w2 i f vs" "disk_differs f1 f" "same_base w1 w2"
      "\<And>j. j < length vs \<Longrightarrow> on_disk (w_junk w2) (w_pageSize w2) f j (vs ! j)"
    using flushAll_stored [OF S1] by metis
  have f: "hf_numPages f = int (length vs)" "hf_tableid f = tab" "hf_td f = td"
    using disk_differs_simps [OF w2(3)] f1 by simp_all
  have sz2: "0 < heap_getNumTuples (w_pageSize w2) td" "offsets_fit (w_pageSize w2) (length vs + b)"
    using sz fit w2(4) by (simp_all add: same_base_def)
  note r = restart_stored [OF w2(2) f(1) heap_storeD(9) [OF w2(2)] w2(5)]
  let ?w = "w2\<lparr>w_pool := [], w_objs := []\<rparr>"
  obtain qs where qs: "length qs = length vs" "map heap_tuples qs = map somes vs"
      "\<And>j. j < length vs \<Longrightarrow> file_readPage i (HeapPageId (hf_tableid f) (int j)) ?w = Inr (HeapPg (qs ! j), ?w)"
    using stored_pages [OF r(2)] w2(5) by auto
  moreover have "heap_store_rep i tab td ?w b (M + mset (map strip ts))"
    unfolding heap_store_rep_def using r(2) f f1(4) sz2 by (intro conjI exI [of _ f] exI [of _ vs]) simp_all
  ultimately show ?thesis
    using w1(1) w2(1) heap_storeD(4) [OF w2(2)] r(1) f f1(4)
    by (intro exI [of _ w1] exI [of _ w2] exI [of _ f] exI [of _ qs]) (simp add: Let_def)
qed

theorem heap_fill_durable_witness:
  "\<exists>w1 w2 f. insertTuples (bp_insertTuple 0 9 7) (map (\<lambda>v. heap_example_tuple v None) [5, 3, 8]) store_example = Inr ((), w1) \<and>
     flushAllPages w1 = Inr ((), w2) \<and> w_files w2 ! 0 = HeapF f \<and>
     heap_store_rep 0 7 heap_example_td (w2\<lparr>w_pool := [], w_objs := []\<rparr>) 0
       (image_mset (\<lambda>v. strip (heap_example_tuple v None)) {#5, 3, 8#})"
proof -
  let ?ts = "map (\<lambda>v. heap_example_tuple v None) [5, 3, 8]"
  have "fits heap_example_td t" if "t \<in> set ?ts" for t using that heap_example_fits by auto
  moreover have "heap_store_rep 0 7 heap_example_td store_example (length ?ts + 0) {#}" using store_example_rep by (simp add: numeral_3_eq_3)
  ultimately show ?thesis using heap_fill_durable [of 0 7 heap_example_td store_example ?ts 0 "{#}" 0 9]
    by (auto simp: Let_def simp del: insertTuples.simps)
qed






end
