(* ===== verification/CatalogSpec.thy ===== *)
theory CatalogSpec
  imports Catalog
begin

text \<open>
  Schemas and the catalog as step systems: what can be built with the constructors of
  \<open>TupleDesc\<close> and with the operations of \<open>Catalog\<close>, and what holds of all of it.
\<close>

section \<open>Schemas\<close>

text \<open>A schema that the program can have built.\<close>

inductive schema :: "tuple_desc \<Rightarrow> bool" where
  empty: "schema TupleDesc_empty"
| types: "schema (TupleDesc_types tys)"
| named: "TupleDesc_named tys nms = Inr td \<Longrightarrow> schema td"
| merged: "schema td1 \<Longrightarrow> schema td2 \<Longrightarrow> TupleDesc_merge td1 td2 = Inr td \<Longrightarrow> schema td"

lemma TupleDesc_named_Inr:
  "TupleDesc_named tys nms = Inr td \<longleftrightarrow> length tys \<le> length nms \<and>
     td = \<lparr>td_items = named_items tys (take (length tys) nms), td_size = sum_list (map getLen tys)\<rparr>"
  using TupleDesc_named_ok [of tys nms] TupleDesc_named_short [of nms tys]
  by (cases "length tys \<le> length nms") auto

lemma td_ok_named: "TupleDesc_named tys nms = Inr td \<Longrightarrow> td_ok td"
  by (auto simp: TupleDesc_named_Inr td_ok_def fieldType_named_items simp flip: map_map comp_def [of getLen fieldType])

lemma td_ok_merge: "TupleDesc_merge a b = Inr td \<Longrightarrow> td_ok td"
  by (auto simp: TupleDesc_merge_spec td_ok_def)

lemma schema_ok: "schema td \<Longrightarrow> td_ok td"
  by (induction rule: schema.induct)
    (auto simp: td_ok_TupleDesc_types td_ok_named td_ok_merge, simp add: td_ok_def TupleDesc_empty_def)

text \<open>
  \<open>fieldNameToIndex\<close> returns the first field with the name, and throws when no field has it.
\<close>

lemma fieldNameToIndex_first:
  "case fieldNameToIndex td nm of
     Inr j \<Rightarrow> getFieldName td (int j) = Inr nm \<and> nm \<notin> fieldName ` set (take j (td_items td))
   | Inl e \<Rightarrow> e = InvalidArgument ''field name not found'' \<and> nm \<notin> fieldName ` set (td_items td)"
proof (cases "fieldNameToIndex td nm")
  case (Inl e)
  then have "e = InvalidArgument ''field name not found'' \<and> (\<forall>it \<in> set (td_items td). fieldName it \<noteq> nm)"
    by (simp add: fieldNameToIndex_def name_index_Inl)
  with Inl show ?thesis by auto
next
  case (Inr j)
  then have "j < length (td_items td)" "fieldName (td_items td ! j) = nm" "\<forall>k < j. fieldName (td_items td ! k) \<noteq> nm"
    by (simp_all add: fieldNameToIndex_def name_index_Inr)
  moreover from this(3) have "nm \<notin> fieldName ` set (take j (td_items td))"
    by (auto simp: in_set_conv_nth) metis
  ultimately show ?thesis using Inr by (simp add: getFieldName_def)
qed

section \<open>Tables\<close>

text \<open>The catalogs that a sequence of operations leads to.\<close>

inductive catalog_reach :: "(nat \<Rightarrow> int) \<Rightarrow> catalog \<Rightarrow> bool" for file_id where
  start: "catalog_reach file_id Catalog_new"
| add: "catalog_reach file_id c \<Longrightarrow> addTable file_id c f n k = Inr c' \<Longrightarrow> catalog_reach file_id c'"
| add_anon: "catalog_reach file_id c \<Longrightarrow> addTable_anon file_id u c f = Inr (c', u') \<Longrightarrow> catalog_reach file_id c'"
| clear: "catalog_reach file_id c \<Longrightarrow> catalog_reach file_id (catalog_clear c)"

lemma catalog_reach_ok: "catalog_reach file_id c \<Longrightarrow> catalog_ok file_id c"
proof (induction rule: catalog_reach.induct)
  case (add_anon c f c' u')
  then show ?case
    by (auto simp: addTable_anon_def generateUUID_def bindE_eq_Inr intro: catalog_ok_addTable)
next
  case (clear c)
  show ?case using catalog_ok_new by (simp add: catalog_clear_def Catalog_new_def)
qed (auto simp: catalog_ok_new intro: catalog_ok_addTable)

lemma catalog_file:
  assumes "catalog_ok file_id c" "getDatabaseFile c i = Inr f"
  shows "file_id f = i"
proof -
  obtain t where "map_of (ct_idToTable c) i = Some t" "tb_file t = f"
    using assms(2) by (auto simp: getDatabaseFile_def split: option.splits)
  with assms(1) show ?thesis by (auto simp: catalog_ok_def dest!: map_of_SomeD)
qed

lemma catalog_known:
  "catalog_getTableName c i = Inr n \<Longrightarrow> \<exists>f. getDatabaseFile c i = Inr f"
  by (auto simp: catalog_getTableName_def getDatabaseFile_def split: option.splits)

section \<open>Properties\<close>

text \<open>C34
  Whatever tables have been added, each under an id and a name that were not in use, and whenever
  the catalog was cleared, the catalog's two maps agree (an addition under an id or a name that is in
  use goes on with an erased iterator and has no result here, see \<open>addTable_spec\<close>): a name leads to a table id exactly when that id leads to the name, and to a file with that
  id.
\<close>

theorem catalog_consistent:
  assumes "catalog_reach file_id c"
  shows "catalog_ok file_id c \<and>
    (catalog_getTableId file_id c n = Inr i) = (catalog_getTableName c i = Inr n) \<and>
    (catalog_getTableName c i = Inr n \<longrightarrow> (\<exists>f. getDatabaseFile c i = Inr f \<and> file_id f = i))"
proof -
  have ok: "catalog_ok file_id c" using assms by (rule catalog_reach_ok)
  show ?thesis using ok catalog_agree [OF ok] catalog_known catalog_file [OF ok] by blast
qed

definition catalog_example :: catalog where
  "catalog_example = \<lparr>ct_idToTable = [(12, \<lparr>tb_file = 2, tb_name = ''b'', tb_pkeyField = ''''\<rparr>),
       (11, \<lparr>tb_file = 1, tb_name = ''a'', tb_pkeyField = ''id''\<rparr>)],
     ct_nameToTable = [(''b'', \<lparr>tb_file = 2, tb_name = ''b'', tb_pkeyField = ''''\<rparr>),
       (''a'', \<lparr>tb_file = 1, tb_name = ''a'', tb_pkeyField = ''id''\<rparr>)]\<rparr>"

lemma catalog_example_reach: "catalog_reach (\<lambda>f. int f + 10) catalog_example"
proof -
  let ?c = "\<lparr>ct_idToTable = [(11, \<lparr>tb_file = 1, tb_name = ''a'', tb_pkeyField = ''id''\<rparr>)],
     ct_nameToTable = [(''a'', \<lparr>tb_file = 1, tb_name = ''a'', tb_pkeyField = ''id''\<rparr>)]\<rparr>"
  have "addTable (\<lambda>f. int f + 10) Catalog_new 1 ''a'' ''id'' = Inr ?c"
    by (simp add: addTable_Inr) (simp add: Catalog_new_def)
  from catalog_reach.add [OF catalog_reach.start this] have "catalog_reach (\<lambda>f. int f + 10) ?c" .
  moreover have "addTable (\<lambda>f. int f + 10) ?c 2 ''b'' '''' = Inr catalog_example"
    by (simp add: addTable_Inr catalog_example_def)
  ultimately show ?thesis by (rule catalog_reach.add)
qed

theorem catalog_consistent_witness:
  "catalog_getTableName catalog_example 11 = Inr ''a'' \<and> catalog_getTableId (\<lambda>f. int f + 10) catalog_example ''a'' = Inr 11"
proof -
  have "catalog_getTableName catalog_example 11 = Inr ''a''"
    by (simp add: catalog_getTableName_def catalog_example_def)
  with catalog_consistent [OF catalog_example_reach, of "''a''" 11] show ?thesis by blast
qed

text \<open>C35
  \<open>addTable\<close> with a new id and a new name makes the table known under both and changes no other
  lookup; when the id or the name is already in use it does not replace the old table but goes on
  with an iterator whose element has been erased.
\<close>

theorem addTable_spec:
  "case addTable file_id c f n k of
     Inl e \<Rightarrow> e = UseAfterFree \<and>
       (file_id f \<in> dom (map_of (ct_idToTable c)) \<or> n \<in> dom (map_of (ct_nameToTable c)))
   | Inr c' \<Rightarrow> file_id f \<notin> dom (map_of (ct_idToTable c)) \<and> n \<notin> dom (map_of (ct_nameToTable c)) \<and>
       getDatabaseFile c' = (getDatabaseFile c)(file_id f := Inr f) \<and>
       catalog_getTupleDesc file_td c' = (catalog_getTupleDesc file_td c)(file_id f := Inr (file_td f)) \<and>
       catalog_getTableName c' = (catalog_getTableName c)(file_id f := Inr n) \<and>
       getPrimaryKey c' = (getPrimaryKey c)(file_id f := Inr k) \<and>
       catalog_getTableId file_id c' = (catalog_getTableId file_id c)(n := Inr (file_id f))"
  by (auto simp: addTable_def Let_def fun_eq_iff getDatabaseFile_def catalog_getTupleDesc_def
      catalog_getTableName_def getPrimaryKey_def catalog_getTableId_def split: sum.split)

text \<open>C38
  Every schema that the constructors of \<open>TupleDesc\<close> and \<open>merge\<close> build knows its size, the sum of
  the lengths of its fields; \<open>merge\<close> always succeeds, lists the fields of its first argument and then
  those of the second, and adds their sizes.
\<close>

theorem schema_merge_typed:
  assumes "schema td1" "schema td2"
  shows "\<exists>td. TupleDesc_merge td1 td2 = Inr td \<and> schema td \<and> td_items td = td_items td1 @ td_items td2 \<and>
    numFields td = numFields td1 + numFields td2 \<and> getSize td = getSize td1 + getSize td2 \<and>
    getSize td = sum_list (map (\<lambda>it. getLen (fieldType it)) (td_items td))"
proof -
  obtain td where td: "TupleDesc_merge td1 td2 = Inr td" "td_items td = td_items td1 @ td_items td2"
    by (simp add: TupleDesc_merge_spec)
  with assms have "schema td" by (auto intro: schema.merged)
  then have "td_ok td" "td_ok td1" "td_ok td2" using assms by (simp_all add: schema_ok)
  with td \<open>schema td\<close> show ?thesis by (simp add: td_ok_def getSize_def numFields_def)
qed

theorem schema_merge_typed_witness:
  "\<exists>td. TupleDesc_merge (TupleDesc_types [INT_TYPE, STRING_TYPE]) (TupleDesc_types [INT_TYPE]) = Inr td \<and>
     getSize td = 140 \<and> numFields td = 3"
proof -
  have "getSize (TupleDesc_types [INT_TYPE, STRING_TYPE]) = 136" "getSize (TupleDesc_types [INT_TYPE]) = 4"
      "numFields (TupleDesc_types [INT_TYPE, STRING_TYPE]) = 2" "numFields (TupleDesc_types [INT_TYPE]) = 1"
    by code_simp+
  with schema_merge_typed [OF schema.types schema.types, of "[INT_TYPE, STRING_TYPE]" "[INT_TYPE]"]
  show ?thesis by auto
qed

end
