(* ===== verification/Planner.thy ===== *)
theory Planner
  imports HeapFile
begin

text \<open>
  The parts of the query layer that are implemented: the buffering iterator protocol of
  \<open>Operator\<close> (Operator.cpp), join nodes (LogicalJoinNode.h), the enumeration of subsets
  (JoinOptimizer.h), the plan cache (PlanCache.h), the names of the aggregates (Aggregator.cpp)
  and the table statistics (TableStats.h).
\<close>

section \<open>Operators\<close>

text \<open>
  \<open>fetchNext\<close> is the subclass's: a function of the subclass's state that returns the next tuple
  or none. \<open>'s\<close> is that state.
\<close>

record 's operator =
  opr_tup :: "tuple option"
  opr_isOpen :: bool
  opr_card :: int
  opr_state :: 's

definition Operator_new :: "'s \<Rightarrow> 's operator" where
  "Operator_new s = \<lparr>opr_tup = None, opr_isOpen = False, opr_card = 0, opr_state = s\<rparr>"

definition setEstimatedCardinality :: "'s operator \<Rightarrow> int \<Rightarrow> 's operator" where
  "setEstimatedCardinality o' c = o'\<lparr>opr_card := c\<rparr>"

definition getEstimatedCardinality :: "'s operator \<Rightarrow> int" where
  "getEstimatedCardinality o' = opr_card o'"

definition op_fetch :: "('s \<Rightarrow> tuple option \<times> 's) \<Rightarrow> 's operator \<Rightarrow> 's operator" where
  "op_fetch fetchNext o' =
     (let (t, s) = fetchNext (opr_state o') in o'\<lparr>opr_tup := t, opr_state := s\<rparr>)"

definition op_hasNext ::
    "('s \<Rightarrow> tuple option \<times> 's) \<Rightarrow> 's operator \<Rightarrow> (bool \<times> 's operator) res" where
  "op_hasNext fetchNext o' =
     (if \<not> opr_isOpen o' then Inl (RuntimeError ''Operator not open'')
      else let o'' = (if opr_tup o' = None then op_fetch fetchNext o' else o')
           in Inr (opr_tup o'' \<noteq> None, o''))"

definition op_next ::
    "('s \<Rightarrow> tuple option \<times> 's) \<Rightarrow> 's operator \<Rightarrow> (tuple \<times> 's operator) res" where
  "op_next fetchNext o' =
     (let o'' = (if opr_tup o' = None then op_fetch fetchNext o' else o')
      in case opr_tup o'' of
           None \<Rightarrow> Inl (RuntimeError ''No more tuples'')
         | Some result \<Rightarrow> Inr (result, o''\<lparr>opr_tup := None\<rparr>))"

definition op_open :: "'s operator \<Rightarrow> 's operator" where
  "op_open o' = o'\<lparr>opr_isOpen := True\<rparr>"

definition op_close :: "'s operator \<Rightarrow> 's operator" where
  "op_close o' = o'\<lparr>opr_tup := None, opr_isOpen := False\<rparr>"

definition op_rewind :: "'s operator \<Rightarrow> 's operator" where
  "op_rewind o' = op_open (op_close o')"

section \<open>Join nodes\<close>

record join_node =
  t1Alias :: string
  t2Alias :: string
  f1PureName :: string
  f1QuantifiedName :: string
  f2PureName :: string
  f2QuantifiedName :: string
  jn_p :: op

text \<open>\<open>s.substr(s.find_last_of('.') + 1)\<close>; when there is no period, \<open>npos + 1\<close> is 0.\<close>

definition after_last_period :: "string \<Rightarrow> string" where
  "after_last_period s = rev (takeWhile (\<lambda>c. c \<noteq> CHR ''.'') (rev s))"

definition LogicalJoinNode_new ::
    "string \<Rightarrow> string \<Rightarrow> string \<Rightarrow> string \<Rightarrow> op \<Rightarrow> join_node" where
  "LogicalJoinNode_new table1 table2 joinField1 joinField2 pred =
     (let f1 = after_last_period joinField1; f2 = after_last_period joinField2
      in \<lparr>t1Alias = table1, t2Alias = table2, f1PureName = f1,
          f1QuantifiedName = table1 @ ''.'' @ f1, f2PureName = f2,
          f2QuantifiedName = table2 @ ''.'' @ f2, jn_p = pred\<rparr>)"

definition swap_op :: "op \<Rightarrow> op" where
  "swap_op p =
     (if p = GREATER_THAN then LESS_THAN
      else if p = GREATER_THAN_OR_EQ then LESS_THAN_OR_EQ
      else if p = LESS_THAN then GREATER_THAN
      else if p = LESS_THAN_OR_EQ then GREATER_THAN_OR_EQ
      else p)"

definition swapInnerOuter :: "join_node \<Rightarrow> join_node" where
  "swapInnerOuter j =
     LogicalJoinNode_new (t2Alias j) (t1Alias j) (f2PureName j) (f1PureName j) (swap_op (jn_p j))"

definition join_to_string :: "join_node \<Rightarrow> string" where
  "join_to_string j = t1Alias j @ '':'' @ t2Alias j"

definition join_eq :: "join_node \<Rightarrow> join_node \<Rightarrow> bool" where
  "join_eq a b \<longleftrightarrow>
     (t1Alias a = t1Alias b \<and> t2Alias a = t2Alias b) \<or>
     (t1Alias a = t2Alias b \<and> t2Alias a = t1Alias b)"

definition join_hash :: "(string \<Rightarrow> 64 word) \<Rightarrow> join_node \<Rightarrow> 64 word" where
  "join_hash h n =
     (h (t1Alias n) XOR h (t2Alias n)) XOR h (f1PureName n) XOR h (f2PureName n)"

section \<open>Subsets\<close>

text \<open>
  \<open>unordered_set<T>\<close> is a set: inserting an element it has does nothing. \<open>i\<close> runs over the
  positions of \<open>v\<close>. \<open>size\<close> is an \<open>int\<close>; for a negative one the recursion ends at the empty
  vector.
\<close>

function enumerateSubsets :: "'a list \<Rightarrow> int \<Rightarrow> 'a set list" where
  "enumerateSubsets v sz =
     (if sz = 0 then [{}]
      else concat (map (\<lambda>i. map (\<lambda>s. insert (v ! i) s)
                              (enumerateSubsets (take i v @ drop (Suc i) v) (sz - 1)))
                       [0..<length v]))"
  by pat_completeness auto
termination by (relation "measure (\<lambda>(v, sz). length v)") auto

declare enumerateSubsets.simps [simp del]

section \<open>The plan cache\<close>

text \<open>
  \<open>operator[]\<close> on a map adds the key with a null pointer when it is missing, also in \<open>get\<close>.
  \<open>eq\<close> is the equality of keys, the one of \<open>unordered_set<LogicalJoinNode>\<close>; a plan is any
  value.
\<close>

type_synonym ('k, 'p) plan_cache = "('k \<times> 'p option) list"

fun pc_find :: "('k \<Rightarrow> 'k \<Rightarrow> bool) \<Rightarrow> 'k \<Rightarrow> ('k, 'p) plan_cache \<Rightarrow> 'p option option" where
  "pc_find eq s [] = None"
| "pc_find eq s ((k, c) # m) = (if eq s k then Some c else pc_find eq s m)"

fun addPlan :: "('k \<Rightarrow> 'k \<Rightarrow> bool) \<Rightarrow> 'k \<Rightarrow> 'p option \<Rightarrow> ('k, 'p) plan_cache \<Rightarrow> ('k, 'p) plan_cache" where
  "addPlan eq s card' [] = [(s, card')]"
| "addPlan eq s card' ((k, c) # m) = (if eq s k then (k, card') # m else (k, c) # addPlan eq s card' m)"

definition getPlan ::
    "('k \<Rightarrow> 'k \<Rightarrow> bool) \<Rightarrow> 'k \<Rightarrow> ('k, 'p) plan_cache \<Rightarrow> 'p option \<times> ('k, 'p) plan_cache" where
  "getPlan eq s m =
     (case pc_find eq s m of Some c \<Rightarrow> (c, m) | None \<Rightarrow> (None, addPlan eq s None m))"

section \<open>Aggregates\<close>

datatype agg_op = AGG_MIN | AGG_MAX | AGG_SUM | AGG_AVG | AGG_COUNT

fun agg_to_string :: "agg_op \<Rightarrow> string" where
  "agg_to_string AGG_MIN = ''min''"
| "agg_to_string AGG_MAX = ''max''"
| "agg_to_string AGG_SUM = ''sum''"
| "agg_to_string AGG_AVG = ''avg''"
| "agg_to_string AGG_COUNT = ''count''"

section \<open>Table statistics\<close>

text \<open>
  \<open>IntHistogram\<close> has no implementation in the repository; its constructor, \<open>addValue\<close> and
  \<open>avgSelectivity\<close> are arguments, \<open>'h\<close> is its state. Columns that are not integers have a null
  histogram.
\<close>

record 'h table_stats =
  ts_baseTups :: int
  ts_basePages :: int
  ts_costPerPageIO :: int
  ts_histograms :: "'h option list"
  ts_maxs :: "int list"
  ts_mins :: "int list"
  ts_td :: tuple_desc

definition INT_MAX :: int where
  "INT_MAX = 2147483647"

definition INT_MIN :: int where
  "INT_MIN = - 2147483648"

definition NUM_HIST_BINS :: int where
  "NUM_HIST_BINS = 100"

definition int_getValue :: "field \<Rightarrow> int res" where
  "int_getValue f = (case f of IntField v \<Rightarrow> Inr (sint v) | _ \<Rightarrow> Inl (RuntimeError ''bad_cast''))"

text \<open>The body of the first scan, for one tuple: field \<open>i\<close> and the ones after it.\<close>

fun ts_minmax :: "td_item list \<Rightarrow> tuple \<Rightarrow> nat \<Rightarrow> int list \<Rightarrow> int list \<Rightarrow> (int list \<times> int list) res" where
  "ts_minmax [] tup i maxs mins = Inr (maxs, mins)"
| "ts_minmax (it # its) tup i maxs mins =
     (if fieldType it = INT_TYPE
      then bindE (getField tup (int i)) (\<lambda>f.
           bindE (int_getValue f) (\<lambda>v.
             ts_minmax its tup (Suc i)
               (if v > maxs ! i then maxs[i := v] else maxs)
               (if v < mins ! i then mins[i := v] else mins)))
      else ts_minmax its tup (Suc i) maxs mins)"

text \<open>The body of the second scan.\<close>

fun ts_add_values ::
    "('h \<Rightarrow> int \<Rightarrow> 'h) \<Rightarrow> td_item list \<Rightarrow> tuple \<Rightarrow> nat \<Rightarrow> 'h option list \<Rightarrow> 'h option list res" where
  "ts_add_values addValue [] tup i hs = Inr hs"
| "ts_add_values addValue (it # its) tup i hs =
     (if fieldType it = INT_TYPE
      then bindE (getField tup (int i)) (\<lambda>f.
           bindE (int_getValue f) (\<lambda>v.
           bindE (nthE hs i) (\<lambda>h.
           bindE (derefE h) (\<lambda>h'.
             ts_add_values addValue its tup (Suc i) (hs[i := Some (addValue h' v)])))))
      else ts_add_values addValue its tup (Suc i) hs)"

text \<open>\<open>while (s.hasNext()) \<dots> s.next()\<close>, for at most \<open>fuel\<close> tuples, threading \<open>'x\<close> through \<open>step\<close>.\<close>

fun scan_loop :: "nat \<Rightarrow> (tuple \<Rightarrow> 'x \<Rightarrow> 'x res) \<Rightarrow> seq_scan \<Rightarrow> 'x \<Rightarrow> 'x M" where
  "scan_loop 0 step s x = failM OutOfFuel"
| "scan_loop (Suc n) step s x =
     bindM (SeqScan_hasNext s) (\<lambda>b.
       if \<not> b then returnM x
       else bindM (SeqScan_next s) (\<lambda>(t, s').
            bindM (liftM (step t x)) (\<lambda>x'. scan_loop n step s' x')))"

definition TableStats_new ::
    "(int \<Rightarrow> int \<Rightarrow> int \<Rightarrow> 'h) \<Rightarrow> ('h \<Rightarrow> int \<Rightarrow> 'h) \<Rightarrow> nat \<Rightarrow> int \<Rightarrow> int \<Rightarrow> 'h table_stats M" where
  "TableStats_new newHist addValue fuel tableid ioCostPerPage =
     bindM (db_getDatabaseFile tableid) (\<lambda>i.
     bindM (file_at i) (\<lambda>f.
     let td = file_getTupleDesc f in
     case f of
       HeapF _ \<Rightarrow>
         bindM (bindM (SeqScan_new tableid ''t'') SeqScan_open) (\<lambda>s1.
         bindM (scan_loop fuel (\<lambda>tup (maxs, mins). ts_minmax (td_items td) tup 0 maxs mins) s1
                  (replicate (numFields td) INT_MIN, replicate (numFields td) INT_MAX)) (\<lambda>(maxs, mins).
         let hs = map (\<lambda>j. if fieldType (td_items td ! j) = INT_TYPE
                           then Some (newHist NUM_HIST_BINS (mins ! j) (maxs ! j)) else None)
                      [0..<numFields td] in
         bindM (file_getNumPages i) (\<lambda>pages.
         bindM (bindM (SeqScan_new tableid ''t'') SeqScan_open) (\<lambda>s2.
         bindM (scan_loop fuel (\<lambda>tup (cnt, hs). bindE (int_addE cnt 1) (\<lambda>cnt'.
                                                   bindE (ts_add_values addValue (td_items td) tup 0 hs)
                                                   (\<lambda>hs'. Inr (cnt', hs')))) s2 (0, hs)) (\<lambda>(cnt, hs').
           returnM \<lparr>ts_baseTups = cnt, ts_basePages = pages, ts_costPerPageIO = ioCostPerPage,
                    ts_histograms = hs', ts_maxs = maxs, ts_mins = mins, ts_td = td\<rparr>)))))
     | _ \<Rightarrow>
         returnM \<lparr>ts_baseTups = 0, ts_basePages = 0, ts_costPerPageIO = ioCostPerPage,
                  ts_histograms = [], ts_maxs = [], ts_mins = [], ts_td = td\<rparr>))"

text \<open>A product of two \<open>int\<close>s; the result is an integral \<open>double\<close>.\<close>

definition estimateScanCost :: "'h table_stats \<Rightarrow> int res" where
  "estimateScanCost s = int_mulE (ts_basePages s) (ts_costPerPageIO s)"

definition totalTuples :: "'h table_stats \<Rightarrow> int" where
  "totalTuples s = ts_baseTups s"

definition avgSelectivity ::
    "('h \<Rightarrow> 'r) \<Rightarrow> 'r \<Rightarrow> 'h table_stats \<Rightarrow> int \<Rightarrow> op \<Rightarrow> 'r res" where
  "avgSelectivity avg one s fld op' =
     (if op' = EQUALS
      then bindE (getFieldType (ts_td s) fld) (\<lambda>ty.
           if ty = INT_TYPE
           then bindE (atE (ts_histograms s) fld) (\<lambda>h. bindE (derefE h) (\<lambda>h'. Inr (avg h')))
           else Inr one)
      else Inr one)"

definition estimateSelectivity ::
    "('h \<Rightarrow> op \<Rightarrow> int \<Rightarrow> 'r) \<Rightarrow> 'r \<Rightarrow> 'h table_stats \<Rightarrow> int \<Rightarrow> op \<Rightarrow> field option \<Rightarrow> 'r res" where
  "estimateSelectivity est one s fld op' constant =
     bindE (getFieldType (ts_td s) fld) (\<lambda>ty.
       if ty = INT_TYPE
       then bindE (atE (ts_histograms s) fld) (\<lambda>h.
            bindE (derefE h) (\<lambda>h'.
            bindE (derefE constant) (\<lambda>c.
            bindE (int_getValue c) (\<lambda>v. Inr (est h' op' v)))))
       else Inr one)"

text \<open>
  The static map of statistics by table name. \<open>at\<close> throws for a missing name. \<open>order\<close> is the order
  in which the catalog's map enumerates its tables.
\<close>

type_synonym 'h stats_map = "(string \<times> 'h table_stats) list"

definition IOCOSTPERPAGE :: int where
  "IOCOSTPERPAGE = 1000"

definition getTableStats :: "'h stats_map \<Rightarrow> string \<Rightarrow> 'h table_stats res" where
  "getTableStats statsMap tablename =
     (case map_of statsMap tablename of None \<Rightarrow> Inl OutOfRange | Some s \<Rightarrow> Inr s)"

definition setTableStats :: "'h stats_map \<Rightarrow> string \<Rightarrow> 'h table_stats \<Rightarrow> 'h stats_map" where
  "setTableStats statsMap tablename stats = amap_put tablename stats statsMap"

fun stats_of_tables ::
    "(int \<Rightarrow> int \<Rightarrow> int \<Rightarrow> 'h) \<Rightarrow> ('h \<Rightarrow> int \<Rightarrow> 'h) \<Rightarrow> nat \<Rightarrow> (int \<times> table) list \<Rightarrow> 'h stats_map \<Rightarrow> 'h stats_map M"
where
  "stats_of_tables newHist addValue fuel [] statsMap = returnM statsMap"
| "stats_of_tables newHist addValue fuel (item # items) statsMap =
     bindM (TableStats_new newHist addValue fuel (fst item) IOCOSTPERPAGE) (\<lambda>s.
       stats_of_tables newHist addValue fuel items (setTableStats statsMap (tb_name (snd item)) s))"

definition computeStatistics ::
    "((int \<times> table) list \<Rightarrow> (int \<times> table) list) \<Rightarrow> (int \<Rightarrow> int \<Rightarrow> int \<Rightarrow> 'h) \<Rightarrow> ('h \<Rightarrow> int \<Rightarrow> 'h) \<Rightarrow> nat \<Rightarrow>
     'h stats_map \<Rightarrow> 'h stats_map M"
where
  "computeStatistics order newHist addValue fuel statsMap =
     bindM (readM (\<lambda>w. order (ct_idToTable (w_catalog w)))) (\<lambda>items.
       stats_of_tables newHist addValue fuel items statsMap)"

lemma getTableStats_set:
  "getTableStats (setTableStats m n s) k = (if k = n then Inr s else getTableStats m k)"
  by (simp add: getTableStats_def setTableStats_def)

end
