(* ===== verification/QuerySpec.thy ===== *)
theory QuerySpec
  imports Planner HeapFileSpec
begin

text \<open>
  The query layer: the subsets that the join optimizer enumerates, the iterator protocol of
  operators, join nodes as keys of hash tables, the plan cache, and the statistics of a table.
\<close>

section \<open>Subsets\<close>

text \<open>The vector without its element \<open>i\<close>.\<close>

definition without :: "'a list \<Rightarrow> nat \<Rightarrow> 'a list" where
  "without v i = take i v @ drop (Suc i) v"

lemma length_without [simp]: "i < length v \<Longrightarrow> length (without v i) = length v - 1"
  by (simp add: without_def)

lemma distinct_without:
  assumes "distinct v" "i < length v"
  shows "distinct (without v i)" "set (without v i) = set v - {v ! i}"
proof -
  have "v = take i v @ v ! i # drop (Suc i) v" using assms(2) by (simp add: id_take_nth_drop)
  then obtain a b where ab: "v = a @ v ! i # b" "without v i = a @ b" by (metis without_def)
  have "distinct (a @ v ! i # b)" using assms(1) ab(1) by simp
  moreover have "set v = insert (v ! i) (set (a @ b))" using arg_cong [OF ab(1), of set] by simp
  ultimately show "distinct (without v i)" "set (without v i) = set v - {v ! i}" using ab(2) by auto
qed

lemma enumerateSubsets_0 [simp]: "enumerateSubsets v 0 = [{}]"
  by (simp add: enumerateSubsets.simps)

lemma enumerateSubsets_Suc:
  "enumerateSubsets v (int (Suc k)) =
   concat (map (\<lambda>i. map (insert (v ! i)) (enumerateSubsets (without v i) (int k))) [0..<length v])"
  by (subst enumerateSubsets.simps) (simp add: without_def)

lemma enumerateSubsets_subset:
  "T \<in> set (enumerateSubsets v (int k)) \<Longrightarrow> distinct v \<Longrightarrow> T \<subseteq> set v"
proof (induction k arbitrary: v T)
  case (Suc k)
  then obtain i U where i: "i < length v" "U \<in> set (enumerateSubsets (without v i) (int k))" "T = insert (v ! i) U"
    by (auto simp: enumerateSubsets_Suc simp del: of_nat_Suc)
  with Suc.IH [OF i(2)] distinct_without [OF Suc.prems(2) i(1)] show ?case by auto
qed simp

lemma count_list_map_insert:
  assumes "\<And>T. T \<in> set L \<Longrightarrow> x \<notin> T"
  shows "count_list (map (insert x) L) S = (if x \<in> S then count_list L (S - {x}) else 0)"
  using assms
proof (induction L)
  case (Cons T L)
  have "insert x T = S \<longleftrightarrow> x \<in> S \<and> T = S - {x}" using Cons.prems [of T] by auto
  with Cons show ?case by simp
qed simp

lemma count_list_concat: "count_list (concat xss) x = sum_list (map (\<lambda>xs. count_list xs x) xss)"
  by (induction xss) simp_all

lemma count_subsets:
  "distinct v \<Longrightarrow> finite S \<Longrightarrow>
   count_list (enumerateSubsets v (int k)) S = (if S \<subseteq> set v \<and> card S = k then fact k else 0)"
proof (induction k arbitrary: v S)
  case 0
  then show ?case by auto
next
  case (Suc k)
  have summand: "count_list (map (insert (v ! i)) (enumerateSubsets (without v i) (int k))) S =
      (if v ! i \<in> S then (if S \<subseteq> set v \<and> card S = Suc k then fact k else 0) else 0)" if i: "i < length v" for i
  proof -
    note w = distinct_without [OF Suc.prems(1) i]
    have "v ! i \<notin> T" if "T \<in> set (enumerateSubsets (without v i) (int k))" for T
      using enumerateSubsets_subset [OF that w(1)] w(2) by auto
    then have "count_list (map (insert (v ! i)) (enumerateSubsets (without v i) (int k))) S =
        (if v ! i \<in> S then count_list (enumerateSubsets (without v i) (int k)) (S - {v ! i}) else 0)"
      by (rule count_list_map_insert)
    moreover have "v ! i \<in> S \<Longrightarrow> (S - {v ! i} \<subseteq> set (without v i) \<and> card (S - {v ! i}) = k) \<longleftrightarrow>
        (S \<subseteq> set v \<and> card S = Suc k)"
    proof -
      assume x: "v ! i \<in> S"
      then have "card S = Suc (card (S - {v ! i}))" using card_Suc_Diff1 [OF Suc.prems(2)] by simp
      moreover have "S - {v ! i} \<subseteq> set v - {v ! i} \<longleftrightarrow> S \<subseteq> set v" using i by auto
      ultimately show ?thesis unfolding w(2) by simp
    qed
    ultimately show ?thesis using Suc.IH [OF w(1), of "S - {v ! i}"] Suc.prems(2) by simp
  qed
  have "count_list (enumerateSubsets v (int (Suc k))) S =
      (\<Sum>i \<leftarrow> [0..<length v]. if v ! i \<in> S then (if S \<subseteq> set v \<and> card S = Suc k then fact k else 0) else 0)"
    unfolding enumerateSubsets_Suc count_list_concat map_map comp_def
    by (intro arg_cong [of _ _ sum_list] map_cong refl) (simp add: summand)
  also have "\<dots> = (\<Sum>x \<leftarrow> v. if x \<in> S then (if S \<subseteq> set v \<and> card S = Suc k then fact k else 0) else 0)"
    by (intro arg_cong [of _ _ sum_list] nth_equalityI) simp_all
  also have "\<dots> = (\<Sum>x \<in> set v. if x \<in> S then (if S \<subseteq> set v \<and> card S = Suc k then fact k else 0) else 0)"
    using Suc.prems(1) by (simp add: sum_list_distinct_conv_sum_set)
  also have "\<dots> = card (set v \<inter> S) * (if S \<subseteq> set v \<and> card S = Suc k then fact k else 0)"
    by (simp add: sum.If_cases)
  finally show ?case by (auto simp: Int_absorb1)
qed

lemma subsets_negative: "k < 0 \<Longrightarrow> enumerateSubsets v k = []"
proof (induction v k rule: enumerateSubsets.induct)
  case (1 v k)
  then show ?case by (subst enumerateSubsets.simps) auto
qed


section \<open>Operators\<close>

text \<open>
  The contract of \<open>fetchNext\<close>: \<open>rest\<close> is what a state has still to deliver, and a call delivers
  the first of it, or nothing when there is nothing left.
\<close>

definition fetches :: "('s \<Rightarrow> tuple option \<times> 's) \<Rightarrow> ('s \<Rightarrow> tuple list) \<Rightarrow> bool" where
  "fetches fetchNext rest \<longleftrightarrow> (\<forall>s. case fetchNext s of
     (None, s') \<Rightarrow> rest s = [] \<and> rest s' = [] | (Some t, s') \<Rightarrow> rest s = t # rest s')"

definition op_rest :: "('s \<Rightarrow> tuple list) \<Rightarrow> 's operator \<Rightarrow> tuple list" where
  "op_rest rest o' = (case opr_tup o' of None \<Rightarrow> [] | Some t \<Rightarrow> [t]) @ rest (opr_state o')"

text \<open>A client's loop \<open>while (op.hasNext()) result.push_back(op.next());\<close>\<close>

fun op_drain :: "nat \<Rightarrow> ('s \<Rightarrow> tuple option \<times> 's) \<Rightarrow> 's operator \<Rightarrow> (tuple list \<times> 's operator) res" where
  "op_drain 0 fetchNext o' = Inl OutOfFuel"
| "op_drain (Suc n) fetchNext o' =
     bindE (op_hasNext fetchNext o') (\<lambda>(b, o1).
       if \<not> b then Inr ([], o1)
       else bindE (op_next fetchNext o1) (\<lambda>(t, o2).
            bindE (op_drain n fetchNext o2) (\<lambda>(ts, o3). Inr (t # ts, o3))))"

lemma fetchesD:
  assumes "fetches fetchNext rest"
  shows "fetchNext s = (None, s') \<Longrightarrow> rest s = [] \<and> rest s' = []"
    and "fetchNext s = (Some t, s') \<Longrightarrow> rest s = t # rest s'"
  using assms unfolding fetches_def by (auto dest!: spec [of _ s])

lemma op_hasNext_spec:
  assumes "fetches fetchNext rest" "opr_isOpen o'"
  shows "\<exists>o1. op_hasNext fetchNext o' = Inr (op_rest rest o' \<noteq> [], o1) \<and> opr_isOpen o1 \<and>
    op_rest rest o1 = op_rest rest o'"
proof (cases "opr_tup o'")
  case (Some t)
  with assms(2) show ?thesis by (simp add: op_hasNext_def op_rest_def)
next
  case None
  obtain x s where f: "fetchNext (opr_state o') = (x, s)" by (cases "fetchNext (opr_state o')")
  show ?thesis
  proof (cases x)
    case x: None
    with f assms(2) None fetchesD(1) [OF assms(1), of "opr_state o'" s] show ?thesis
      by (simp add: op_hasNext_def op_rest_def op_fetch_def)
  next
    case (Some t)
    with f assms(2) None fetchesD(2) [OF assms(1), of "opr_state o'" t s] show ?thesis
      by (simp add: op_hasNext_def op_rest_def op_fetch_def)
  qed
qed

lemma op_next_spec:
  assumes "fetches fetchNext rest"
  shows "case op_rest rest o' of
      [] \<Rightarrow> op_next fetchNext o' = Inl (RuntimeError ''No more tuples'')
    | t # ts \<Rightarrow> \<exists>o1. op_next fetchNext o' = Inr (t, o1) \<and> op_rest rest o1 = ts \<and> opr_isOpen o1 = opr_isOpen o'"
proof (cases "opr_tup o'")
  case (Some t)
  then show ?thesis by (simp add: op_next_def op_rest_def)
next
  case None
  obtain x s where f: "fetchNext (opr_state o') = (x, s)" by (cases "fetchNext (opr_state o')")
  show ?thesis
  proof (cases x)
    case x: None
    with f None fetchesD(1) [OF assms, of "opr_state o'" s] show ?thesis
      by (simp add: op_next_def op_rest_def op_fetch_def)
  next
    case (Some t)
    with f None fetchesD(2) [OF assms, of "opr_state o'" t s] show ?thesis
      by (simp add: op_next_def op_rest_def op_fetch_def)
  qed
qed

lemma op_drain_spec:
  assumes "fetches fetchNext rest"
  shows "opr_isOpen o' \<Longrightarrow> length (op_rest rest o') < n \<Longrightarrow>
    \<exists>o1. op_drain n fetchNext o' = Inr (op_rest rest o', o1) \<and> op_rest rest o1 = []"
proof (induction n arbitrary: o')
  case (Suc n)
  obtain o1 where o1: "op_hasNext fetchNext o' = Inr (op_rest rest o' \<noteq> [], o1)" "opr_isOpen o1"
      "op_rest rest o1 = op_rest rest o'"
    using op_hasNext_spec [OF assms Suc.prems(1)] by blast
  show ?case
  proof (cases "op_rest rest o'")
    case Nil
    with o1 show ?thesis by simp
  next
    case (Cons t ts)
    with op_next_spec [OF assms, of o1] o1 obtain o2 where
      o2: "op_next fetchNext o1 = Inr (t, o2)" "op_rest rest o2 = ts" "opr_isOpen o2" by auto
    with Suc.IH [of o2] Suc.prems(2) Cons obtain o3 where
      "op_drain n fetchNext o2 = Inr (ts, o3)" "op_rest rest o3 = []" by auto
    with o1 o2 Cons show ?thesis by simp
  qed
qed simp

section \<open>Join nodes\<close>

lemma after_last_period_idem [simp]: "after_last_period (after_last_period s) = after_last_period s"
  by (simp add: after_last_period_def)

lemma swap_op_swap [simp]: "swap_op (swap_op p) = p"
  by (simp add: swap_op_def)

text \<open>The swapped operator compares the swapped operands.\<close>

lemma swap_op_compare: "int_compare (swap_op p) y x = int_compare p x y"
  by (cases p) (auto simp: swap_op_def)

section \<open>The plan cache\<close>

lemma pc_find_addPlan:
  assumes "equivp eq"
  shows "pc_find eq u (addPlan eq s p m) = (if eq u s then Some p else pc_find eq u m)"
proof -
  have sym: "eq a b \<Longrightarrow> eq b a" and trans: "eq a b \<Longrightarrow> eq b c \<Longrightarrow> eq a c" for a b c
    using assms by (metis equivp_symp, metis equivp_transp)
  show ?thesis
  proof (induction m)
    case (Cons e m)
    obtain k c where e: "e = (k, c)" by (cases e)
    have "eq s k \<Longrightarrow> eq u k \<longleftrightarrow> eq u s" using sym [of s k] trans [of u s k] trans [of u k s] by blast
    moreover have "eq u s \<Longrightarrow> eq u k \<longleftrightarrow> eq s k" using sym [of u s] trans [of u s k] trans [of s u k] by blast
    ultimately show ?case using Cons e by auto
  qed simp
qed

text \<open>
  A plan that is added is what \<open>get\<close> returns for an equal set of joins from then on, and the plans of
  other sets do not change.
\<close>

lemma plan_cache_get_add:
  assumes "equivp eq"
  shows "fst (getPlan eq u (addPlan eq s p m)) = (if eq u s then p else fst (getPlan eq u m))"
  using pc_find_addPlan [OF assms, of u s p m] by (simp add: getPlan_def split: option.split)

section \<open>Table statistics\<close>

fun foldE :: "('t \<Rightarrow> 'x \<Rightarrow> 'x res) \<Rightarrow> 't list \<Rightarrow> 'x \<Rightarrow> 'x res" where
  "foldE step [] x = Inr x"
| "foldE step (t # ts) x = bindE (step t x) (foldE step ts)"

lemma hfi_deref_pure: "hfi_deref it w = Inr (t, v) \<Longrightarrow> v = w"
  by (auto simp: hfi_deref_def bindM_eq_Inr dest: heap_at_pure)


text \<open>
  A loop over a sequential scan does what the range loop over the file does, when no step of the
  iterator changes the state; \<open>P\<close> holds of the iterators it goes through.
\<close>

lemma scan_loop_collect:
  assumes cat: "getDatabaseFile (w_catalog w) (ss_tableid s) = Inr i" and i: "i < length (w_files w)" "w_files w ! i = HeapF f"
    and e: "HeapFile_end i w = Inr (ite, w)"
    and P: "\<And>it it' v. P it \<Longrightarrow> hfi_next it w = Inr (it', v) \<Longrightarrow> v = w \<and> \<not> hi_keyed it' \<and> P it'"
  shows "P it \<Longrightarrow> hfi_collect n it ite w = Inr (ts, w) \<Longrightarrow>
    scan_loop n step (s\<lparr>ss_it := Some it\<rparr>) (x :: 'x) w = (case foldE step ts x of Inl e \<Rightarrow> Inl e | Inr y \<Rightarrow> Inr (y, w))"
proof (induction n arbitrary: it ts x)
  case 0
  then show ?case by simp
next
  case (Suc n)
  have has: "bindM (SeqScan_hasNext (s\<lparr>ss_it := Some it\<rparr>)) k w = k (hfi_ne it ite) w" for k :: "bool \<Rightarrow> 'x M"
    using cat i e by (simp add: SeqScan_hasNext_def db_getDatabaseFile_def bindM_def file_at_def)
  show ?case
  proof (cases "hfi_ne it ite")
    case False
    with Suc.prems(2) has show ?thesis by simp
  next
    case True
    with Suc.prems(2) obtain t v it' v' ts' where 1: "hfi_deref it w = Inr (t, v)" "hfi_next it v = Inr (it', v')"
        "hfi_collect n it' ite v' = Inr (ts', w)" "ts = t # ts'"
      by (auto simp: bindM_eq_Inr)
    have v: "v = w" using 1(1) by (rule hfi_deref_pure)
    with P [OF Suc.prems(1)] 1(2) have v': "v' = w" "P it'" "\<not> hi_keyed it'" by auto
    have next': "bindM (SeqScan_next (s\<lparr>ss_it := Some it\<rparr>)) k w = k (t, s\<lparr>ss_it := Some it'\<rparr>) w"
      for k :: "tuple \<times> seq_scan \<Rightarrow> 'x M"
      using 1(1,2) v v' by (simp add: SeqScan_next_def bindM_def)
    show ?thesis
    proof (cases "step t x")
      case (Inl e)
      with True has next' 1(4) show ?thesis by simp
    next
      case (Inr y)
      with Suc.IH [OF v'(2), of ts' y] 1 v' True has next' show ?thesis by simp
    qed
  qed
qed

lemma scan_loop_file:
  assumes r: "heapfile_in_pool w i f as pgs" and ne: "pgs \<noteq> []" "\<And>p. p \<in> set pgs \<Longrightarrow> heap_tuples p \<noteq> []"
    and n: "length (concat (map heap_tuples pgs)) < n"
    and cat: "getDatabaseFile (w_catalog w) tableid = Inr i" "catalog_getTableName (w_catalog w) tableid = Inr nm"
  shows "bindM (bindM (SeqScan_new tableid al) SeqScan_open) (\<lambda>s. scan_loop n step s x) w =
    (case foldE step (concat (map heap_tuples pgs)) x of Inl e \<Rightarrow> Inl e | Inr y \<Rightarrow> Inr (y, w))"
proof -
  note d = heapfile_in_poolD [OF r]
  let ?it = "file_iter f as 0 (hpi_skip (pgs ! 0) 0)"
  have "hfi_load \<lparr>hi_numPages = hf_numPages f, hi_hpid = HeapPageId (hf_tableid f) 0, hi_end = False,
      hi_it = None, hi_page = None, hi_keyed = False\<rparr> w = Inr (?it, w)"
    using hfi_load_page [OF r, of 0] ne(1) by (simp add: file_iter_def)
  then have b: "HeapFile_begin i w = Inr (?it, w)"
    using d by (simp add: HeapFile_begin_def HeapFileIterator_new_def Let_def)
  have e: "HeapFile_end i w = Inr (file_end f, w)"
    using d by (simp add: HeapFile_end_def HeapFileIterator_new_def file_end_def)
  have c: "hfi_collect n ?it (file_end f) w = Inr (concat (map heap_tuples pgs), w)"
    using heapfile_scan_run [OF r ne n] b e by (simp add: heapfile_scan_def bindM_def)
  let ?P = "\<lambda>it. (\<exists>j s. j < length pgs \<and> it = file_iter f as j s) \<or> hi_it it = None"
  have P: "v = w \<and> \<not> hi_keyed it' \<and> ?P it'" if "?P it" "hfi_next it w = Inr (it', v)" for it it' v
    using that(1)
  proof
    assume "\<exists>j s. j < length pgs \<and> it = file_iter f as j s"
    then obtain j s where "j < length pgs" "it = file_iter f as j s" by blast
    with that(2) hfi_next_page [OF r, of j s] show ?thesis
      by (auto simp: Let_def split: if_splits)
  next
    assume "hi_it it = None"
    with that(2) show ?thesis by (simp add: hfi_next_def)
  qed
  let ?s = "\<lparr>ss_tableid = tableid, ss_alias = al, ss_tableName = nm, ss_it = None\<rparr>"
  have "bindM (SeqScan_new tableid al) SeqScan_open w = Inr (?s\<lparr>ss_it := Some ?it\<rparr>, w)"
    using cat b d(1,2)
    by (simp add: SeqScan_new_def SeqScan_reset_def SeqScan_open_def bindM_def db_getTableName_def
        db_getDatabaseFile_def file_at_def)
  moreover have "scan_loop n step (?s\<lparr>ss_it := Some ?it\<rparr>) x w =
      (case foldE step (concat (map heap_tuples pgs)) x of Inl e \<Rightarrow> Inl e | Inr y \<Rightarrow> Inr (y, w))"
    by (rule scan_loop_collect [where P = ?P and i = i and f = f, OF _ d(1,2) e P]) (use cat c ne(1) in auto)
  ultimately show ?thesis by (simp add: bindM_def)
qed

text \<open>The value of a column, and tuples that have what their schema says.\<close>

definition col :: "nat \<Rightarrow> tuple \<Rightarrow> int" where
  "col j t = (case tp_fields t ! j of Some f \<Rightarrow> int_val f | None \<Rightarrow> 0)"

definition typed :: "tuple_desc \<Rightarrow> tuple \<Rightarrow> bool" where
  "typed td t \<longleftrightarrow> map (map_option getType) (tp_fields t) = map (\<lambda>it. Some (fieldType it)) (td_items td)"

definition int_col :: "tuple_desc \<Rightarrow> nat \<Rightarrow> bool" where
  "int_col td j \<longleftrightarrow> fieldType (td_items td ! j) = INT_TYPE"

lemma typed_field:
  assumes "typed td t" "j < numFields td"
  shows "\<exists>f. getField t (int j) = Inr f \<and> getType f = fieldType (td_items td ! j) \<and> col j t = int_val f"
proof -
  have len: "length (tp_fields t) = length (td_items td)"
    using assms(1) unfolding typed_def by (metis length_map)
  then have "map_option getType (tp_fields t ! j) = Some (fieldType (td_items td ! j))"
    using assms unfolding typed_def numFields_def by (metis nth_map)
  then obtain f where "tp_fields t ! j = Some f" "getType f = fieldType (td_items td ! j)" by auto
  with len assms(2) show ?thesis by (auto simp: getField_def col_def numFields_def)
qed

lemma typed_int:
  assumes "typed td t" "j < numFields td" "int_col td j"
  shows "\<exists>f. getField t (int j) = Inr f \<and> int_getValue f = Inr (col j t)"
proof -
  obtain f where "getField t (int j) = Inr f" "getType f = INT_TYPE" "col j t = int_val f"
    using typed_field [OF assms(1,2)] assms(3) by (auto simp: int_col_def)
  moreover then obtain v where "f = IntField v" by (cases f) auto
  ultimately show ?thesis by (auto simp: int_getValue_def)
qed

lemma col_range: "INT_MIN \<le> col j t \<and> col j t \<le> INT_MAX"
proof -
  have "INT_MIN \<le> int_val f \<and> int_val f \<le> INT_MAX" for f
  proof (cases f)
    case (IntField v)
    then show ?thesis using sint_range_size [of v] by (simp add: INT_MIN_def INT_MAX_def word_size)
  qed (simp add: INT_MIN_def INT_MAX_def)
  then show ?thesis by (auto simp: col_def INT_MIN_def INT_MAX_def split: option.split)
qed


text \<open>Column-wise values are written as functions on the column numbers.\<close>

lemma map_upt_update:
  "i < n \<Longrightarrow> (map g [0..<n])[i := y] = map (g(i := y)) [0..<n]"
  by (intro nth_equalityI) (auto simp: nth_list_update)

lemma column_step:
  "int_col td i \<Longrightarrow>
   (\<lambda>j. if Suc i \<le> j \<and> int_col td j then F j ((g(i := F i (g i))) j) else (g(i := F i (g i))) j) =
   (\<lambda>j. if i \<le> j \<and> int_col td j then F j (g j) else g j)"
  "\<not> int_col td i \<Longrightarrow>
   (\<lambda>j. if Suc i \<le> j \<and> int_col td j then F j (g j) else g j) =
   (\<lambda>j. if i \<le> j \<and> int_col td j then F j (g j) else g j)"
  by (auto simp: fun_eq_iff Suc_le_eq le_less)

lemma ts_minmax_spec:
  assumes t: "typed td t"
  shows "i \<le> numFields td \<Longrightarrow>
    ts_minmax (drop i (td_items td)) t i (map g [0..<numFields td]) (map h [0..<numFields td]) =
      Inr (map (\<lambda>j. if i \<le> j \<and> int_col td j then max (col j t) (g j) else g j) [0..<numFields td],
           map (\<lambda>j. if i \<le> j \<and> int_col td j then min (col j t) (h j) else h j) [0..<numFields td])"
proof (induction "numFields td - i" arbitrary: i g h)
  case 0
  then have "i = numFields td" by simp
  then show ?case by (simp add: numFields_def)
next
  case (Suc k)
  then have i: "i < numFields td" and k: "k = numFields td - Suc i" by simp_all
  have d: "drop i (td_items td) = td_items td ! i # drop (Suc i) (td_items td)"
    using i by (simp add: Cons_nth_drop_Suc numFields_def)
  show ?case
  proof (cases "int_col td i")
    case True
    obtain f where f: "getField t (int i) = Inr f" "int_getValue f = Inr (col i t)"
      using typed_int [OF t i True] by blast
    let ?g = "g(i := max (col i t) (g i))" and ?h = "h(i := min (col i t) (h i))"
    have g: "(if col i t > map g [0..<numFields td] ! i then (map g [0..<numFields td])[i := col i t]
        else map g [0..<numFields td]) = map ?g [0..<numFields td]"
      using i by (auto simp: map_upt_update max_def)
    have h: "(if col i t < map h [0..<numFields td] ! i then (map h [0..<numFields td])[i := col i t]
        else map h [0..<numFields td]) = map ?h [0..<numFields td]"
      using i by (auto simp: map_upt_update min_def)
    have "ts_minmax (drop i (td_items td)) t i (map g [0..<numFields td]) (map h [0..<numFields td]) =
        ts_minmax (drop (Suc i) (td_items td)) t (Suc i) (map ?g [0..<numFields td]) (map ?h [0..<numFields td])"
      using f True unfolding d g [symmetric] h [symmetric] by (simp add: int_col_def)
    then show ?thesis
      using Suc.hyps(1) [OF k, of ?g ?h] i column_step(1) [OF True, of "\<lambda>j. max (col j t)" g]
        column_step(1) [OF True, of "\<lambda>j. min (col j t)" h] by simp
  next
    case False
    then have "ts_minmax (drop i (td_items td)) t i (map g [0..<numFields td]) (map h [0..<numFields td]) =
        ts_minmax (drop (Suc i) (td_items td)) t (Suc i) (map g [0..<numFields td]) (map h [0..<numFields td])"
      unfolding d by (simp add: int_col_def)
    then show ?thesis
      using Suc.hyps(1) [OF k, of g h] i column_step(2) [OF False, of "\<lambda>j. max (col j t)" g]
        column_step(2) [OF False, of "\<lambda>j. min (col j t)" h] by simp
  qed
qed

lemma minmax_fold:
  "\<forall>t \<in> set ts. typed td t \<Longrightarrow>
   foldE (\<lambda>tup (maxs, mins). ts_minmax (td_items td) tup 0 maxs mins) ts
     (map g [0..<numFields td], map h [0..<numFields td]) =
   Inr (map (\<lambda>j. if int_col td j then fold max (map (col j) ts) (g j) else g j) [0..<numFields td],
        map (\<lambda>j. if int_col td j then fold min (map (col j) ts) (h j) else h j) [0..<numFields td])"
proof (induction ts arbitrary: g h)
  case (Cons t ts)
  then show ?case using ts_minmax_spec [of td t 0 g h] by (auto intro!: map_cong)
qed simp

lemma ts_add_values_spec:
  assumes t: "typed td t"
  shows "i \<le> numFields td \<Longrightarrow>
    ts_add_values addValue (drop i (td_items td)) t i (map (\<lambda>j. if int_col td j then Some (h j) else None) [0..<numFields td]) =
      Inr (map (\<lambda>j. if int_col td j then Some (if i \<le> j then addValue (h j) (col j t) else h j) else None) [0..<numFields td])"
proof (induction "numFields td - i" arbitrary: i h)
  case 0
  then have "i = numFields td" by simp
  then show ?case by (auto simp: numFields_def)
next
  case (Suc k)
  then have i: "i < numFields td" and k: "k = numFields td - Suc i" by simp_all
  have d: "drop i (td_items td) = td_items td ! i # drop (Suc i) (td_items td)"
    using i by (simp add: Cons_nth_drop_Suc numFields_def)
  show ?case
  proof (cases "int_col td i")
    case True
    obtain f where f: "getField t (int i) = Inr f" "int_getValue f = Inr (col i t)"
      using typed_int [OF t i True] by blast
    let ?h = "h(i := addValue (h i) (col i t))"
    have u: "(map (\<lambda>j. if int_col td j then Some (h j) else None) [0..<numFields td])[i := Some (addValue (h i) (col i t))] =
        map (\<lambda>j. if int_col td j then Some (?h j) else None) [0..<numFields td]"
      using i True by (auto simp: map_upt_update)
    have "ts_add_values addValue (drop i (td_items td)) t i (map (\<lambda>j. if int_col td j then Some (h j) else None) [0..<numFields td]) =
        ts_add_values addValue (drop (Suc i) (td_items td)) t (Suc i)
          (map (\<lambda>j. if int_col td j then Some (?h j) else None) [0..<numFields td])"
      using f True i unfolding d u [symmetric] by (simp add: int_col_def [of td i, symmetric])
    moreover have "(\<lambda>j. if int_col td j then Some (if Suc i \<le> j then addValue (?h j) (col j t) else ?h j) else None) =
        (\<lambda>j. if int_col td j then Some (if i \<le> j then addValue (h j) (col j t) else h j) else None)"
      by (auto simp: fun_eq_iff Suc_le_eq le_less)
    ultimately show ?thesis using Suc.hyps(1) [OF k, of ?h] i by simp
  next
    case False
    then have "ts_add_values addValue (drop i (td_items td)) t i (map (\<lambda>j. if int_col td j then Some (h j) else None) [0..<numFields td]) =
        ts_add_values addValue (drop (Suc i) (td_items td)) t (Suc i)
          (map (\<lambda>j. if int_col td j then Some (h j) else None) [0..<numFields td])"
      unfolding d by (simp add: int_col_def [of td i, symmetric])
    moreover have "(\<lambda>j. if int_col td j then Some (if Suc i \<le> j then addValue (h j) (col j t) else h j) else None) =
        (\<lambda>j. if int_col td j then Some (if i \<le> j then addValue (h j) (col j t) else h j) else None)"
      using False by (auto simp: fun_eq_iff Suc_le_eq le_less)
    ultimately show ?thesis using Suc.hyps(1) [OF k, of h] i by simp
  qed
qed

lemma add_values_fold:
  "\<forall>t \<in> set ts. typed td t \<Longrightarrow> 0 \<le> c \<Longrightarrow> c + int (length ts) < 2 ^ 31 \<Longrightarrow>
   foldE (\<lambda>tup (cnt, hs). bindE (int_addE cnt 1) (\<lambda>cnt'.
       bindE (ts_add_values addValue (td_items td) tup 0 hs) (\<lambda>hs'. Inr (cnt', hs')))) ts
     (c :: int, map (\<lambda>j. if int_col td j then Some (h j) else None) [0..<numFields td]) =
   Inr (c + int (length ts),
        map (\<lambda>j. if int_col td j then Some (foldl addValue (h j) (map (col j) ts)) else None) [0..<numFields td])"
proof (induction ts arbitrary: c h)
  case (Cons t ts)
  then show ?case
    using ts_add_values_spec [of td t 0 addValue h] Cons.IH [of "c + 1" "\<lambda>j. addValue (h j) (col j t)"]
    by (auto simp: is_int32_def intro!: map_cong)
qed (auto intro!: map_cong)


lemma fold_max_col:
  assumes "xs \<noteq> []" "\<forall>x \<in> set xs. m \<le> x"
  shows "fold max xs (m :: int) = Max (set xs)"
proof -
  have "m \<le> Max (set xs)" using assms Max_in [of "set xs"] by auto
  then have "Max (insert m (set xs)) = Max (set xs)" using assms(1) by (simp add: Max_insert)
  then show ?thesis using Max.set_eq_fold [of m xs] by simp
qed

lemma fold_min_col:
  assumes "xs \<noteq> []" "\<forall>x \<in> set xs. x \<le> m"
  shows "fold min xs (m :: int) = Min (set xs)"
proof -
  have "Min (set xs) \<le> m" using assms Min_in [of "set xs"] by auto
  then have "Min (insert m (set xs)) = Min (set xs)" using assms(1) by (simp add: Min_insert)
  then show ?thesis using Min.set_eq_fold [of m xs] by simp
qed

lemma scan_loop_bind:
  assumes "heapfile_in_pool w i f as pgs" "pgs \<noteq> []" "\<And>p. p \<in> set pgs \<Longrightarrow> heap_tuples p \<noteq> []"
    "length (concat (map heap_tuples pgs)) < n"
    "getDatabaseFile (w_catalog w) tableid = Inr i" "catalog_getTableName (w_catalog w) tableid = Inr nm"
  shows "bindM (bindM (SeqScan_new tableid al) SeqScan_open) (\<lambda>s. bindM (scan_loop n step s x) k) w =
    (case foldE step (concat (map heap_tuples pgs)) x of Inl e \<Rightarrow> Inl e | Inr y \<Rightarrow> k y w)"
proof -
  have "bindM (bindM (SeqScan_new tableid al) SeqScan_open) (\<lambda>s. bindM (scan_loop n step s x) k) w =
      bindM (bindM (bindM (SeqScan_new tableid al) SeqScan_open) (\<lambda>s. scan_loop n step s x)) k w"
    by (simp only: bindM_assoc)
  also have "\<dots> = (case foldE step (concat (map heap_tuples pgs)) x of Inl e \<Rightarrow> Inl e | Inr y \<Rightarrow> k y w)"
    using scan_loop_file [OF assms, of al step x]
    by (cases "foldE step (concat (map heap_tuples pgs)) x") (simp_all add: bindM_apply)
  finally show ?thesis .
qed

lemma table_stats_run:
  assumes r: "heapfile_in_pool w i f as pgs" and ne: "pgs \<noteq> []" "\<And>p. p \<in> set pgs \<Longrightarrow> heap_tuples p \<noteq> []"
    and n: "length (concat (map heap_tuples pgs)) < n"
    and cat: "getDatabaseFile (w_catalog w) tableid = Inr i" "catalog_getTableName (w_catalog w) tableid = Inr nm"
    and ty: "\<forall>t \<in> set (concat (map heap_tuples pgs)). typed (hf_td f) t"
    and small: "length (concat (map heap_tuples pgs)) < 2 ^ 31"
  defines "ts \<equiv> concat (map heap_tuples pgs)" and "td \<equiv> hf_td f"
  defines "mx \<equiv> \<lambda>j. if int_col td j then Max (set (map (col j) ts)) else INT_MIN"
    and "mn \<equiv> \<lambda>j. if int_col td j then Min (set (map (col j) ts)) else INT_MAX"
  shows "TableStats_new newHist addValue n tableid io w =
     Inr (\<lparr>ts_baseTups = int (length ts), ts_basePages = int (length pgs), ts_costPerPageIO = io,
       ts_histograms = map (\<lambda>j. if int_col td j
           then Some (foldl addValue (newHist NUM_HIST_BINS (mn j) (mx j)) (map (col j) ts)) else None) [0..<numFields td],
       ts_maxs = map mx [0..<numFields td], ts_mins = map mn [0..<numFields td], ts_td = td\<rparr>, w)"
proof -
  note d = heapfile_in_poolD [OF r]
  have ty': "\<forall>t \<in> set ts. typed td t" using ty by (simp add: ts_def td_def)
  have "ts \<noteq> []" using ne by (cases pgs) (auto simp: ts_def)
  then have "fold max (map (col j) ts) INT_MIN = Max (set (map (col j) ts))"
    and "fold min (map (col j) ts) INT_MAX = Min (set (map (col j) ts))" for j
    using fold_max_col [of "map (col j) ts" INT_MIN] fold_min_col [of "map (col j) ts" INT_MAX] col_range by auto
  then have f: "(\<lambda>j. if int_col td j then fold max (map (col j) ts) INT_MIN else INT_MIN) = mx"
      "(\<lambda>j. if int_col td j then fold min (map (col j) ts) INT_MAX else INT_MAX) = mn"
    by (simp_all add: mx_def mn_def fun_eq_iff)
  have 1: "foldE (\<lambda>tup (maxs, mins). ts_minmax (td_items td) tup 0 maxs mins) ts
      (replicate (numFields td) INT_MIN, replicate (numFields td) INT_MAX) =
      Inr (map mx [0..<numFields td], map mn [0..<numFields td])"
    using minmax_fold [OF ty', of "\<lambda>_. INT_MIN" "\<lambda>_. INT_MAX"] unfolding f by (simp add: map_replicate_const)
  have hs: "map (\<lambda>j. if fieldType (td_items td ! j) = INT_TYPE
      then Some (newHist NUM_HIST_BINS (map mn [0..<numFields td] ! j) (map mx [0..<numFields td] ! j)) else None) [0..<numFields td] =
      map (\<lambda>j. if int_col td j then Some (newHist NUM_HIST_BINS (mn j) (mx j)) else None) [0..<numFields td]"
    by (intro map_cong refl) (simp add: int_col_def)
  have "0 + int (length ts) < 2 ^ 31" using small by (simp add: ts_def)
  note 2 = add_values_fold [OF ty' _ this, of addValue "\<lambda>j. newHist NUM_HIST_BINS (mn j) (mx j)"]
  have p: "bindM (file_getNumPages i) k w = k (int (length pgs)) w" for k :: "int \<Rightarrow> 'h table_stats M"
    using d(1-3) by (simp add: file_getNumPages_def bindM_def file_at_def)
  have db: "bindM (db_getDatabaseFile tableid) k w = k i w" for k :: "nat \<Rightarrow> 'h table_stats M"
    using cat by (simp add: bindM_def db_getDatabaseFile_def)
  have run: "bindM (bindM (SeqScan_new tableid ''t'') SeqScan_open) (\<lambda>s. bindM (scan_loop n step s x) k) w =
      (case foldE step ts x of Inl e \<Rightarrow> Inl e | Inr y \<Rightarrow> k y w)"
    for step :: "tuple \<Rightarrow> int list \<times> int list \<Rightarrow> (int list \<times> int list) res" and x and k :: "int list \<times> int list \<Rightarrow> 'h table_stats M"
    unfolding ts_def by (rule scan_loop_bind [OF r ne n cat])
  have run': "bindM (bindM (SeqScan_new tableid ''t'') SeqScan_open) (\<lambda>s. bindM (scan_loop n step s x) k) w =
      (case foldE step ts x of Inl e \<Rightarrow> Inl e | Inr y \<Rightarrow> k y w)"
    for step :: "tuple \<Rightarrow> int \<times> 'h option list \<Rightarrow> (int \<times> 'h option list) res" and x and k :: "int \<times> 'h option list \<Rightarrow> 'h table_stats M"
    unfolding ts_def by (rule scan_loop_bind [OF r ne n cat])
  show ?thesis
    using d(1,2) by (simp add: TableStats_new_def db run run' p Let_def 1 2 hs td_def [symmetric])
qed


section \<open>Properties\<close>

text \<open>C36
  The subsets of size \<open>k\<close> of a vector of distinct elements, as \<open>enumerateSubsets\<close> lists them: exactly
  the subsets of that size, each of them \<open>k!\<close> times, once for every order of choosing its elements.
  Elements count as equal when they are the same value; join nodes, whose \<open>operator==\<close> ignores the
  fields, must be over different pairs of tables for that.
\<close>

theorem enumerateSubsets_count:
  assumes "distinct v" "finite S"
  shows "count_list (enumerateSubsets v (int k)) S = (if S \<subseteq> set v \<and> card S = k then fact k else 0)"
  by (rule count_subsets [OF assms])

theorem enumerateSubsets_count_witness:
  "count_list (enumerateSubsets [10, 20, 30 :: int] 2) {10, 30} = 2"
  using enumerateSubsets_count [of "[10, 20, 30 :: int]" "{10, 30}" 2] by (simp add: fact_numeral)

text \<open>C37
  The loop \<open>while (hasNext()) next()\<close> over an open operator ends and delivers exactly the tuples that
  \<open>fetchNext\<close> has still to deliver, behind the one that is buffered, in this order; asking \<open>hasNext\<close>
  does not lose a tuple. One round more than there are tuples is enough.
\<close>

theorem operator_drains:
  assumes "fetches fetchNext rest" "opr_isOpen o'" "length (op_rest rest o') < n"
  shows "\<exists>o1. op_drain n fetchNext o' = Inr (op_rest rest o', o1) \<and> op_rest rest o1 = []"
  by (rule op_drain_spec [OF assms])

definition list_fetch :: "tuple list \<Rightarrow> tuple option \<times> tuple list" where
  "list_fetch ts = (case ts of [] \<Rightarrow> (None, []) | t # ts' \<Rightarrow> (Some t, ts'))"

lemma list_fetch_fetches: "fetches list_fetch (\<lambda>ts. ts)"
  by (auto simp: fetches_def list_fetch_def split: list.split)

theorem operator_drains_witness:
  "\<exists>o1. op_drain 3 list_fetch (op_open (Operator_new [heap_example_tuple 1 None, heap_example_tuple 2 None])) =
     Inr ([heap_example_tuple 1 None, heap_example_tuple 2 None], o1)"
  using operator_drains [OF list_fetch_fetches, of "op_open (Operator_new [heap_example_tuple 1 None, heap_example_tuple 2 None])" 3]
  by (auto simp: op_open_def Operator_new_def op_rest_def)

text \<open>C39
  After \<open>close\<close>, \<open>hasNext\<close> throws, but \<open>next\<close> does not: it fetches and returns the next tuple of the
  subclass, because it never looks at \<open>isOpen\<close>. The tuple that was buffered is lost.
\<close>

theorem operator_next_after_close:
  assumes "fetches fetchNext rest" "rest (opr_state o') = t # ts"
  shows "op_hasNext fetchNext (op_close o') = Inl (RuntimeError ''Operator not open'') \<and>
    (\<exists>o1. op_next fetchNext (op_close o') = Inr (t, o1) \<and> op_rest rest o1 = ts \<and> \<not> opr_isOpen o1)"
  using op_next_spec [OF assms(1), of "op_close o'"] assms(2)
  by (simp add: op_hasNext_def op_close_def op_rest_def)

theorem operator_next_after_close_witness:
  "\<exists>o1. op_next list_fetch (op_close (Operator_new [heap_example_tuple 1 None])) = Inr (heap_example_tuple 1 None, o1)"
  using operator_next_after_close [OF list_fetch_fetches, of "Operator_new [heap_example_tuple 1 None]"]
  by (auto simp: Operator_new_def)

text \<open>
  Swapping the sides of a join gives a node that is equal to the original and has the same hash;
  swapping twice gives back the original, and the swapped operator compares swapped values as the
  original one does.
\<close>

lemma swapInnerOuter_spec:
  "(let j = LogicalJoinNode_new t1 t2 f1 f2 p in
     join_eq j (swapInnerOuter j) \<and> join_hash h (swapInnerOuter j) = join_hash h j \<and>
     swapInnerOuter (swapInnerOuter j) = j \<and>
     int_compare (jn_p (swapInnerOuter j)) y x = int_compare (jn_p j) x y)"
  by (simp add: LogicalJoinNode_new_def swapInnerOuter_def join_eq_def join_hash_def Let_def swap_op_compare
      xor.commute xor.left_commute)

text \<open>
  Nodes that are equal in the sense of \<open>operator==\<close> (over the same two tables, in either order) have
  the same hash, as an \<open>unordered_set\<close> needs, only when the hashes of their field names cancel out
  alike.
\<close>

lemma join_hash_same_tables:
  assumes "join_eq a b"
  shows "join_hash h a = join_hash h b \<longleftrightarrow>
    h (f1PureName a) XOR h (f2PureName a) = h (f1PureName b) XOR h (f2PureName b)"
proof -
  have inv: "x XOR (x XOR u) = u" for x u :: "64 word" by (simp flip: xor.assoc)
  have cancel: "(x XOR u = x XOR v) = (u = v)" for x u v :: "64 word"
  proof
    assume "x XOR u = x XOR v"
    then have "x XOR (x XOR u) = x XOR (x XOR v)" by (rule arg_cong)
    then show "u = v" by (simp only: inv)
  qed simp
  have "h (t1Alias a) XOR h (t2Alias a) = h (t1Alias b) XOR h (t2Alias b)"
    using assms by (auto simp: join_eq_def xor.commute)
  then show ?thesis by (simp add: join_hash_def xor.assoc [of "h (t1Alias b) XOR h (t2Alias b)"] cancel)
qed

text \<open>C19
  The statistics of a table whose pages are in the pool, none of which is empty, with fewer than
  \<open>2 ^ 31\<close> tuples: the number of tuples, the scan cost (the product of the number of pages and the
  cost per page, when it fits into an \<open>int\<close>; the multiplication overflows otherwise), the least and
  the greatest value of every integer column, and histograms that have been built for that range and
  given every value of the column in scan order. Nothing else changes. Histograms are whatever their class does.
\<close>

theorem table_stats_correct:
  assumes "heapfile_in_pool w i f as pgs" "pgs \<noteq> []" "\<And>p. p \<in> set pgs \<Longrightarrow> heap_tuples p \<noteq> []"
    "length (concat (map heap_tuples pgs)) < n"
    "getDatabaseFile (w_catalog w) tableid = Inr i" "catalog_getTableName (w_catalog w) tableid = Inr nm"
    "\<forall>t \<in> set (concat (map heap_tuples pgs)). typed (hf_td f) t" "length (concat (map heap_tuples pgs)) < 2 ^ 31"
  shows "\<exists>s. TableStats_new newHist addValue n tableid io w = Inr (s, w) \<and>
    totalTuples s = int (length (concat (map heap_tuples pgs))) \<and> 
    estimateScanCost s = (if is_int32 (int (length pgs) * io) then Inr (int (length pgs) * io) else Inl IntOverflow) \<and>
    (\<forall>j < numFields (hf_td f). int_col (hf_td f) j \<longrightarrow>
       (let vs = map (col j) (concat (map heap_tuples pgs)); mx = Max (set vs); mn = Min (set vs) in
        ts_maxs s ! j = mx \<and> ts_mins s ! j = mn \<and>
        ts_histograms s ! j = Some (foldl addValue (newHist NUM_HIST_BINS mn mx) vs)))"
  using table_stats_run [OF assms, of newHist addValue io]
  by (simp add: totalTuples_def estimateScanCost_def int_mulE_def Let_def del: set_map set_concat)

theorem table_stats_correct_witness:
  "\<exists>s. TableStats_new (\<lambda>n a b. ([] :: int list)) (\<lambda>h v. h @ [v]) 4 7 1000 scan_example = Inr (s, scan_example) \<and>
     totalTuples s = 3 \<and> estimateScanCost s = Inr 2000 \<and> ts_histograms s ! 0 = Some [10, 12, 13]"
proof -
  let ?f = pool_example_file
  have ne: "heap_tuples p \<noteq> []" if "p \<in> set [heap_example 1, pool_example_page1]" for p
    using that scan_example_tuples by auto
  have cat: "getDatabaseFile (w_catalog scan_example) 7 = Inr 0" "catalog_getTableName (w_catalog scan_example) 7 = Inr ''t''"
    by (simp_all add: scan_example_def pool_example0_def getDatabaseFile_def catalog_getTableName_def)
  have ty: "\<forall>t \<in> set (concat (map heap_tuples [heap_example 1, pool_example_page1])). typed (hf_td ?f) t"
    unfolding scan_example_tuples list.map concat.simps by code_simp
  have td: "numFields (hf_td ?f) = 1" "int_col (hf_td ?f) 0" by code_simp+
  have vs: "map (col 0) (concat (map heap_tuples [heap_example 1, pool_example_page1])) = [10, 12, 13]"
    unfolding scan_example_tuples list.map concat.simps by code_simp
  have len: "length (concat (map heap_tuples [heap_example 1, pool_example_page1])) = 3"
    by (simp add: scan_example_tuples)
  have l31: "length (concat (map heap_tuples [heap_example 1, pool_example_page1])) < 2 ^ 31" unfolding len by simp
  have n0: "[heap_example 1, pool_example_page1] \<noteq> []"
    and l4: "length (concat (map heap_tuples [heap_example 1, pool_example_page1])) < 4"
    using len by simp_all
  have "\<exists>s. TableStats_new (\<lambda>n a b. ([] :: int list)) (\<lambda>h v. h @ [v]) 4 7 1000 scan_example = Inr (s, scan_example) \<and>
      totalTuples s = int (length (concat (map heap_tuples [heap_example 1, pool_example_page1]))) \<and>
      estimateScanCost s = (if is_int32 (int (length [heap_example 1, pool_example_page1]) * 1000)
        then Inr (int (length [heap_example 1, pool_example_page1]) * 1000) else Inl IntOverflow) \<and>
      (\<forall>j < numFields (hf_td ?f). int_col (hf_td ?f) j \<longrightarrow>
       (let vs = map (col j) (concat (map heap_tuples [heap_example 1, pool_example_page1])); mx = Max (set vs); mn = Min (set vs) in
        ts_maxs s ! j = mx \<and> ts_mins s ! j = mn \<and>
        ts_histograms s ! j = Some (foldl (\<lambda>h v. h @ [v]) ((\<lambda>n a b. []) NUM_HIST_BINS mn mx) vs)))"
    by (rule table_stats_correct [OF scan_example_in_pool n0 ne l4 cat ty l31])
  then obtain s where s: "TableStats_new (\<lambda>n a b. ([] :: int list)) (\<lambda>h v. h @ [v]) 4 7 1000 scan_example = Inr (s, scan_example)"
      "totalTuples s = int (length (concat (map heap_tuples [heap_example 1, pool_example_page1])))"
      "estimateScanCost s = (if is_int32 (int (length [heap_example 1, pool_example_page1]) * 1000)
        then Inr (int (length [heap_example 1, pool_example_page1]) * 1000) else Inl IntOverflow)"
    and h: "\<forall>j < numFields (hf_td ?f). int_col (hf_td ?f) j \<longrightarrow>
       (let vs = map (col j) (concat (map heap_tuples [heap_example 1, pool_example_page1])); mx = Max (set vs); mn = Min (set vs) in
        ts_maxs s ! j = mx \<and> ts_mins s ! j = mn \<and>
        ts_histograms s ! j = Some (foldl (\<lambda>h v. h @ [v]) ((\<lambda>n a b. []) NUM_HIST_BINS mn mx) vs))"
    by blast
  have "ts_histograms s ! 0 = Some (foldl (\<lambda>h v. h @ [v]) [] [10, 12, 13])"
    using h [rule_format, of 0] td unfolding Let_def vs by simp
  with s show ?thesis unfolding len by (simp add: is_int32_def)
qed

end
