(* ===== verification/Spec2Isabelle.thy ===== *)
theory Spec2Isabelle
  imports BTreeOps HeapStoreSpec CatalogSpec QuerySpec
begin

text \<open>
  A model of the storage engine of this repository (a small relational database in C++ under
  \<open>src/db\<close> and \<open>src/include/db\<close>) and the theorems about it.

  \<^bold>\<open>The program.\<close> Tables are files of fixed-size pages: heap files (\<open>HeapFile\<close>) or B+ trees
  (\<open>BTreeFile\<close>). A global catalog maps table ids and names to files, a global buffer pool keeps
  page objects. A file reads and writes pages; everything else goes through the pool, which calls
  the file of the table (\<open>readPage\<close>, \<open>writePage\<close>, \<open>insertTuple\<close>) and is called back by the file for
  the pages it needs. Pages hold tuples of a schema in slots behind a bitmap. Scans and operators
  are iterators on top.

  \<^bold>\<open>Theories and sources.\<close>
  \<^item> \<open>Prelude\<close>: failures as values (\<open>error\<close>: failed assertions, exceptions, undefined behaviour such as
    \<open>OutOfBounds\<close>, \<open>NullDeref\<close>, \<open>UseAfterFree\<close>, \<open>IntOverflow\<close>, \<open>KeyChanged\<close>), \<open>bindE\<close>, 32-bit integers and their bytes, byte buffers.
  \<^item> \<open>FieldTypes\<close> (Type.cpp, IntField.cpp, StringField.cpp), \<open>Schema\<close> (TupleDesc.cpp, Tuple.cpp, the ids,
    Predicate.cpp, IndexPredicate.cpp).
  \<^item> \<open>Slots\<close>: the header bitmaps; the locale \<open>slot_bits\<close> is their contract, interpreted on the bit
    operations of heap pages (\<open>shift\<close>) and of B+ tree pages (\<open>modb\<close>). \<open>SlotView\<close>: the slots of a page
    as a list of optional elements, and the shifting that makes room, once for both B+ tree pages.
  \<^item> \<open>HeapPage\<close> (HeapPage.cpp, HeapPage_internal.cpp), \<open>BTreePage\<close>, \<open>BTreeLeafPage\<close>, \<open>BTreeInternalPage\<close>,
    \<open>BTreeMetaPages\<close> (the page classes of the B+ tree): one record per class, one definition per method.
  \<^item> \<open>Catalog\<close> (Catalog.cpp). \<open>World\<close>: the state (\<open>world\<close>): page objects by address, pool, catalog, files with
    their bytes on disk; the type \<open>'a M\<close> of operations on it; \<open>readPage\<close> and \<open>writePage\<close> of all files.
  \<^item> \<open>BufferPool\<close> (BufferPool.cpp, PagesMap.h): the locale \<open>page_map\<close> is the contract of the page table,
    interpreted on the map of the model (\<open>pages\<close>).
  \<^item> \<open>HeapFile\<close> (HeapFile.cpp, HeapFile_internal.cpp, SeqScan.cpp); \<open>BTreeFile\<close>, \<open>BTreeInsert\<close>, \<open>BTreeDelete\<close>
    (BTreeFile.cpp: search and free pages, insertion with splits, deletion with merges); \<open>Storage\<close>: the
    iterator over a B+ tree, and \<open>insertTuple\<close> and \<open>deleteTuple\<close> of the pool, which tie the layers together.
  \<^item> \<open>Planner\<close>: what is implemented of the query layer (Operator.cpp, LogicalJoinNode.h, JoinOptimizer.h,
    PlanCache.h, TableStats.h, Aggregator.cpp).

  \<^bold>\<open>What the lemmas show.\<close>
  \<^item> \<open>BTreeLeafPage\<close> and \<open>BTreeInternalSpec\<close>: for every pattern of holes, \<open>insertTuple\<close> and \<open>insertEntry\<close>
    refine insertion into a sorted list; deletion; the search in an internal page; entries of a page
    can never be deleted from it.
  \<^item> \<open>HeapPageSpec\<close>: insertion, deletion, iteration, errors and the round trip through bytes.
  \<^item> \<open>PoolSpec\<close>: the pool as a step relation with its invariant; what \<open>getPage\<close> does on a miss; flushing
    makes a heap page durable. \<open>HeapFileSpec\<close>: insertion through the pool into a heap file, with room and
    without, and the scan; \<open>deleteTuple\<close> of the pool inserts.
  \<^item> \<open>BTreeSpec\<close>: insertion through the pool into a tree of two levels refines insertion into a sorted
    list of keys, and the scan returns it. \<open>BTreeEmptySpec\<close>: the first
    insertion creates root pointer and root. \<open>BTreePagesSpec\<close>: free pages, header pages, and the pages
    whose bytes do not fit.
  \<^item> \<open>BTreeRun\<close>: states by the content of their pages (\<open>with_pages\<close>), fresh pages (\<open>getEmptyPage\<close>), the loop
    that moves tuples between leaves, parent pointers, marking dirty pages. \<open>BTreeSplitSpec\<close>: the
    invariant \<open>tree_ready\<close> of a tree of two levels and \<open>splitLeafPage\<close> in it: the same tuples in one leaf
    more, the new key of the root between them. \<open>BTreeGrow\<close>: every insertion into such a tree whose root
    has a free slot, and every sequence of insertions up to the capacity of the root. \<open>BTreeRootSpec\<close>: the
    root that is a single leaf, and its split under a new root page (\<open>getParentWithEmptySlots\<close> on the root
    pointer). \<open>BTreeFill\<close>: a file from its creation on, through the first leaf and the first split, to
    the tree of two levels. \<open>BTreeDeleteSpec\<close>: every deletion from a tree with half-full leaves, which
    succeeds (with stealing from the right sibling), aborts where leaves would be merged, or never
    returns, because the loop over the siblings is not advanced.
  \<^item> \<open>TableSpec\<close>: the locales \<open>bag_fill\<close> (an insertion adds a tuple to the multiset of a table) and
    \<open>bag_table\<close> (and the scan returns it), what the storage promises of a table, and sequences of insertions
    from them; \<open>bag_table\<close> is interpreted on B+ trees
    of two levels in \<open>BTreeGrow\<close>, on B+ tree files from the empty one on in \<open>BTreeFill\<close>, and on heap files in \<open>HeapTableSpec\<close>.
    \<open>bag_table_del\<close> extends it by deletions that return; \<open>BTreeOps\<close> interprets it on B+ tree files in every
    stage, for sequences of insertions and deletions in any order, and shows that a file whose tuples are
    all deleted cannot be scanned.
  \<^item> \<open>HeapStoreSpec\<close>: heap files under eviction. A page is in the pool, or on the disk as reading it gives
    it; every operation of the pool and every insertion keeps that, for any capacity and any order of
    eviction (\<open>bag_fill\<close>), and after \<open>flushAllPages\<close> a restarted database reads the whole table. Scanning a file
    of several pages whose second page is not in the pool fails: the iterator makes its own page id
    a key of the pool and changes it later.
  \<^item> \<open>CatalogSpec\<close>: catalogs and schemas as what their operations can build. \<open>QuerySpec\<close>: subsets, the operator
    protocol, join nodes, the plan cache, table statistics over a heap file.

  \<^bold>\<open>Bounds and fuel.\<close> Loops over slots are structural. The depth of a descent in a tree and the length
  of the list of header pages are bounded by a fuel argument; two is enough for a tree of two levels
  and one for a single leaf, as the theorems state. A root with \<open>S\<close> slots takes at least \<open>S * (n div 2)\<close> tuples in leaves of \<open>n\<close> slots,
  and the theorems on sequences of insertions ask for no more. Loops of clients over an iterator take one round
  more than there are tuples. The offset of a heap page and the scan cost are products of two \<open>int\<close>s that
  fail with \<open>IntOverflow\<close>; the theorems on heap files on disk ask for files within two gigabytes
  (\<open>offsets_fit\<close>). The offset of a B+ tree page is an unbounded integer; \<open>tree_offset_int32\<close> shows that it is
  the code's for trees below the capacity of one root page, on pages of up to 32 KiB. Page sizes are below \<open>2 ^ 60\<close> where \<open>size_t\<close> arithmetic could wrap. Trees
  of three levels do not arise: internal pages refuse internal children.

  \<^bold>\<open>Parameters.\<close> What uninitialised memory holds (\<open>w_junk\<close>), the enumeration order of unordered maps
  (\<open>w_order\<close>), what \<open>pwrite\<close> does on a file opened with \<open>O_APPEND\<close> (\<open>w_append\<close>), \<open>std::hash\<close>, and the
  histograms are arguments; nothing is assumed of them except that an enumeration is a permutation.

  \<^bold>\<open>Keys of the pool.\<close> The code's page table is keyed by pointers to page ids of the callers; the model keeps
  the values of these ids. This is the same as long as the ids live and are not changed. All callers in
  BTreeFile.cpp and HeapFile.cpp pass an id that is allocated for the call and never freed, or the id inside
  a page object or a record id, which is not assigned to. The heap file iterator passes its own \<open>hpid\<close>: its
  field \<open>hi_keyed\<close> records that, and changing \<open>hpid\<close>, or the end of the local copy in \<open>SeqScan::next\<close>, while it is
  a key is the failure \<open>KeyChanged\<close>.

  \<^bold>\<open>Not modelled.\<close> Aggregate, Delete, Filter, HashEquiJoin, Insert, Join, JoinPredicate, both aggregators,
  both histograms, and \<open>estimateJoinCost\<close>, \<open>estimateTableJoinCardinality\<close> and \<open>orderJoins\<close> of the join
  optimizer have no bodies. \<open>estimateTableCardinality\<close> multiplies doubles. Operating system calls are
  taken to succeed. Locks and logs exist in comments only.
\<close>

end
